(* ===== verification/Prelude.thy ===== *)
theory Prelude
  imports Main "HOL-Library.Word"
begin

unbundle bit_operations_syntax

text \<open>
  Shared by every component: the names of the machine types, the conversions between bytes and
  words, the C and C++ string helpers the source uses (NUL termination, \<open>find_last_of\<close>,
  \<open>std::to_string\<close>), generic list facts, and the \<open>named_theorems\<close> collections that the
  component proofs simplify with.

  A \<open>std::string\<close> is a HOL \<open>string\<close>: a list of 8-bit characters, with no assumption on its
  contents (it carries text, JSON and binary data alike). A signed 64-bit integer is an \<open>int\<close>;
  where the source could leave the 64-bit range the bound is stated with \<open>i64\<close>.
\<close>

section \<open>Machine types and collections\<close>

type_synonym u8 = "8 word"
type_synonym u16 = "16 word"
type_synonym u32 = "32 word"
type_synonym u64 = "64 word"
type_synonym bytes = string

abbreviation i64 :: "int \<Rightarrow> bool" where
  "i64 x \<equiv> - (2 ^ 63) \<le> x \<and> x < 2 ^ 63"

text \<open>The C++ exceptions that the modelled code can raise.\<close>

datatype cpp_exn = length_error | out_of_range | invalid_argument | runtime_error | type_error

named_theorems codec_simps "bytes, words and the wire format"
named_theorems fs_simps "file system operations"
named_theorems db_simps "operations of the data access objects"

section \<open>Bytes and words\<close>

definition byte :: "'a::len word \<Rightarrow> char" where
  "byte w = char_of (unat w)"

lemma bit_nat_of_char_bound: "bit (of_char c :: nat) n \<Longrightarrow> n < 8"
proof (rule ccontr)
  assume b: "bit (of_char c :: nat) n" and "\<not> n < 8"
  then have "\<not> bit (take_bit 8 (of_char c :: nat)) n" by (simp add: bit_take_bit_iff)
  with b show False by (simp add: take_bit_eq_mod)
qed

lemma bit_nat_of_char_high [simp]: "8 \<le> n \<Longrightarrow> \<not> bit (of_char c :: nat) n"
  using bit_nat_of_char_bound by (meson not_less)

lemma bit_of_char [codec_simps]:
  "bit (of_char c :: 'a::len word) n \<longleftrightarrow> n < LENGTH('a) \<and> bit (of_char c :: nat) n"
proof -
  have "(of_char c :: 'a word) = of_nat (of_char c)" by (simp add: of_nat_of_char)
  then show ?thesis by (auto simp: bit_simps)
qed

lemma bit_byte [codec_simps]: "bit (of_char (byte w) :: nat) n \<longleftrightarrow> n < 8 \<and> bit w n"
proof -
  have "(of_char (byte w) :: nat) = take_bit 8 (unat w)"
    by (simp add: byte_def take_bit_eq_mod)
  then show ?thesis by (simp add: bit_simps)
qed

lemma byte_of_char [simp]: "byte (of_char c :: 'a::len word) = c" if "8 \<le> LENGTH('a)"
proof -
  have "(of_char c :: nat) < 256" by (rule nat_of_char_less_256)
  also have "(256::nat) \<le> 2 ^ LENGTH('a)"
    using that power_increasing [of 8 "LENGTH('a)" "2::nat"] by simp
  finally have "unat (word_of_nat (of_char c) :: 'a word) = of_char c"
    by (simp add: unat_of_nat take_bit_nat_eq_self)
  then have "unat (of_char c :: 'a word) = of_char c"
    by (simp only: of_nat_of_char)
  then show ?thesis by (simp add: byte_def)
qed

lemma char_eq_bits: "(\<And>n. n < 8 \<Longrightarrow> bit (of_char c :: nat) n = bit (of_char d :: nat) n) \<Longrightarrow> c = d"
  by (metis bit_eqI bit_nat_of_char_bound of_char_eq_iff)

section \<open>Lists\<close>

lemma prefix_split:
  "xs @ ys = us @ vs \<Longrightarrow> length us \<le> length xs \<Longrightarrow> \<exists>zs. xs = us @ zs \<and> vs = zs @ ys"
  by (auto simp: append_eq_append_conv2)

lemma concat_map_length: "length (concat (map f xs)) = sum_list (map (length \<circ> f) xs)"
  by (induction xs) auto

lemma distinct_singleton: "distinct xs \<Longrightarrow> set xs = {x} \<Longrightarrow> xs = [x]"
  by (cases xs; cases "tl xs") auto

section \<open>C and C++ strings\<close>

text \<open>A \<open>char*\<close> read back as a \<open>std::string\<close> ends at the first NUL.\<close>

definition cstr :: "string \<Rightarrow> string" where
  "cstr s = takeWhile (\<lambda>c. c \<noteq> CHR 0x00) s"

lemma cstr_id: "CHR 0x00 \<notin> set s \<Longrightarrow> cstr s = s"
  by (auto simp: cstr_def intro!: takeWhile_eq_all_conv [THEN iffD2])

lemma length_cstr_le: "length (cstr s) \<le> length s"
  by (simp add: cstr_def length_takeWhile_le)

text \<open>\<open>std::to_string\<close> and \<open>operator<<\<close> on integers.\<close>

definition digit :: "nat \<Rightarrow> char" where
  "digit d = (if d < 10 then char_of (48 + d) else char_of (87 + d))"

fun show_base :: "nat \<Rightarrow> nat \<Rightarrow> string" where
  "show_base b n = (if n < b \<or> b < 2 then [digit n] else show_base b (n div b) @ [digit (n mod b)])"

declare show_base.simps [simp del]

definition to_string :: "int \<Rightarrow> string" where
  "to_string i = (if i < 0 then CHR ''-'' # show_base 10 (nat (- i)) else show_base 10 (nat i))"

text \<open>\<open>std::setw(w)\<close> with \<open>std::setfill('0')\<close>.\<close>

definition setw0 :: "nat \<Rightarrow> string \<Rightarrow> string" where
  "setw0 w s = replicate (w - length s) (CHR ''0'') @ s"

lemma length_setw0: "length (setw0 w s) = max w (length s)"
  by (simp add: setw0_def)

text \<open>\<open>find_last_of\<close>: \<open>None\<close> is \<open>npos\<close>.\<close>

fun find_last_of :: "char set \<Rightarrow> string \<Rightarrow> nat option" where
  "find_last_of C [] = None"
| "find_last_of C (c # cs) =
     (case find_last_of C cs of Some i \<Rightarrow> Some (Suc i)
      | None \<Rightarrow> if c \<in> C then Some 0 else None)"

lemma find_last_of_None: "find_last_of C s = None \<longleftrightarrow> set s \<inter> C = {}"
  by (induction s) (auto split: option.splits)

lemma find_last_of_Some:
  "find_last_of C s = Some i \<Longrightarrow> i < length s \<and> s ! i \<in> C \<and> set (drop (Suc i) s) \<inter> C = {}"
  by (induction s arbitrary: i) (auto split: option.splits if_splits simp: find_last_of_None)

text \<open>Splitting at a separator, as the kernel does with a path.\<close>

fun split_on :: "char \<Rightarrow> string \<Rightarrow> string list" where
  "split_on s [] = [[]]"
| "split_on s (c # cs) =
     (if c = s then [] # split_on s cs
      else case split_on s cs of [] \<Rightarrow> [[c]] | w # ws \<Rightarrow> (c # w) # ws)"

lemma split_on_nonempty [simp]: "split_on s cs \<noteq> []"
  by (induction cs) (auto split: list.splits)

lemma split_on_no_sep: "s \<notin> set cs \<Longrightarrow> split_on s cs = [cs]"
  by (induction cs) (auto split: list.splits)

lemma split_on_append: "split_on s (xs @ s # ys) = split_on s xs @ split_on s ys"
proof (induction xs)
  case (Cons c cs)
  then show ?case by (cases "split_on s cs") auto
qed simp

section \<open>Decimal and hexadecimal numerals\<close>

lemma digit_inj: "a < 16 \<Longrightarrow> b < 16 \<Longrightarrow> digit a = digit b \<Longrightarrow> a = b"
  by (auto simp: digit_def split: if_splits)

lemma of_char_digit: "d < 16 \<Longrightarrow> (of_char (digit d) :: nat) = (if d < 10 then 48 + d else 87 + d)"
  by (simp add: digit_def)

text \<open>Characters below \<open>'0'\<close> in the ASCII order (\<open>'-'\<close>, \<open>'.'\<close>, \<open>'/'\<close>) are not digits.\<close>

lemma digit_not_low: "d < 16 \<Longrightarrow> (of_char c :: nat) < 48 \<Longrightarrow> digit d \<noteq> c"
  using of_char_digit [of d] by (auto split: if_splits)

lemma show_base_nonempty [simp]: "show_base b n \<noteq> []" "[] \<noteq> show_base b n"
  by (subst show_base.simps, simp)+

lemma show_base_digits: "2 \<le> b \<Longrightarrow> c \<in> set (show_base b n) \<Longrightarrow> \<exists>d < b. c = digit d"
proof (induction b n rule: show_base.induct)
  case (1 b n)
  then show ?case
    by (cases "n < b") (auto simp: show_base.simps [of b n] intro: exI [of _ "n mod b"])
qed

lemma show_base_inj:
  "2 \<le> b \<Longrightarrow> b \<le> 16 \<Longrightarrow> show_base b m = show_base b n \<Longrightarrow> m = n"
proof (induction b m arbitrary: n rule: show_base.induct)
  case (1 b m)
  note sm = show_base.simps [of b m] and sn = show_base.simps [of b n]
  show ?case
  proof (cases "m < b"; cases "n < b")
    assume "\<not> m < b" "\<not> n < b"
    with "1.prems" sm sn have "show_base b (m div b) = show_base b (n div b)"
      and d: "digit (m mod b) = digit (n mod b)" by auto
    with "1" \<open>\<not> m < b\<close> have "m div b = n div b" by auto
    moreover from d "1.prems" have "m mod b = n mod b"
      by (intro digit_inj) (auto intro: less_le_trans [OF mod_less_divisor])
    ultimately show ?thesis by (metis div_mult_mod_eq)
  qed (use "1.prems" sm sn in \<open>auto intro: digit_inj\<close>)
qed

lemma to_string_inj: "to_string i = to_string j \<Longrightarrow> i = j"
proof -
  have "CHR ''-'' \<notin> set (show_base 10 n)" for n
  proof
    assume "CHR ''-'' \<in> set (show_base 10 n)"
    then obtain d where d: "d < 10" "CHR ''-'' = digit d"
      using show_base_digits [of 10] by auto
    have "(of_char CHR ''-'' :: nat) < 48" by simp
    from digit_not_low [OF _ this, of d] d show False by simp
  qed
  then have m: "show_base 10 n \<noteq> CHR ''-'' # s" for n s by (metis list.set_intros(1))
  assume "to_string i = to_string j"
  with m m [THEN not_sym] show ?thesis
    by (auto simp: to_string_def split: if_splits dest!: show_base_inj [rotated 2])
qed

lemma to_string_chars: "c \<in> set (to_string i) \<Longrightarrow> c = CHR ''-'' \<or> (\<exists>d < 10. c = digit d)"
  by (auto simp: to_string_def split: if_splits dest!: show_base_digits [of 10, simplified])

lemma to_string_nonempty [simp]: "to_string i \<noteq> []"
  by (simp add: to_string_def)

lemma show_base_length: "2 \<le> b \<Longrightarrow> n < b ^ k \<Longrightarrow> 0 < k \<Longrightarrow> length (show_base b n) \<le> k"
proof (induction k arbitrary: n)
  case (Suc k)
  then have "n div b < b ^ k" by (simp add: less_mult_imp_div_less mult.commute)
  with Suc show ?case by (cases k) (auto simp: show_base.simps [of b n])
qed simp

lemma length_to_string: "0 \<le> i \<Longrightarrow> i < 10 ^ k \<Longrightarrow> 0 < k \<Longrightarrow> length (to_string i) \<le> k"
  using show_base_length [of 10 "nat i" k] by (simp add: to_string_def nat_less_iff)

lemma length_to_string_neg: "- (10 ^ k) < i \<Longrightarrow> i < 10 ^ k \<Longrightarrow> 0 < k \<Longrightarrow> length (to_string i) \<le> Suc k"
  using show_base_length [of 10 "nat (- i)" k] length_to_string [of i k]
  by (cases "0 \<le> i") (auto simp: to_string_def nat_less_iff)

end
