(* ===== verification/Crc.thy ===== *)
theory Crc
  imports Prelude
begin

text \<open>
  The CRC32 of \<open>protocol/encoder.cc\<close>: the lookup table \<open>crc32_table_\<close> with its lazy
  initialisation flag, \<open>InitCRC32Table\<close> and \<open>CRC32\<close>. The static members of \<open>Encoder\<close>
  are the record \<open>crc_state\<close>, passed explicitly.

  The lemmas show that the table-driven routine computes the bit-at-a-time CRC from every state
  the program can be in, and that a change confined to four consecutive bytes always changes
  the result. The second fact is proved once for any digest that satisfies the laws of the
  locale \<open>byte_digest\<close>, which \<open>crc_byte\<close> then interprets.
\<close>

section \<open>The table-driven routine\<close>

definition crc_bit :: "u32 \<Rightarrow> u32" where
  "crc_bit crc = (if crc AND 1 \<noteq> 0 then drop_bit 1 crc XOR 0xEDB88320 else drop_bit 1 crc)"

definition crc_table_entry :: "nat \<Rightarrow> u32" where
  "crc_table_entry i = (crc_bit ^^ 8) (of_nat i)"

record crc_state =
  crc32_table :: "u32 list"
  crc32_initialized :: bool

definition crc_state_init :: crc_state where
  "crc_state_init = \<lparr>crc32_table = replicate 256 0, crc32_initialized = False\<rparr>"

definition InitCRC32Table :: "crc_state \<Rightarrow> crc_state" where
  "InitCRC32Table st =
     st\<lparr>crc32_table := map crc_table_entry [0..<256], crc32_initialized := True\<rparr>"

definition crc_update :: "u32 list \<Rightarrow> u32 \<Rightarrow> char \<Rightarrow> u32" where
  "crc_update tbl crc p =
     tbl ! unat ((crc XOR of_char p) AND 0xFF) XOR drop_bit 8 crc"

definition CRC32 :: "crc_state \<Rightarrow> bytes \<Rightarrow> u32 \<times> crc_state" where
  "CRC32 st data =
     (let st' = (if crc32_initialized st then st else InitCRC32Table st);
          crc = foldl (crc_update (crc32_table st')) 0xFFFFFFFF data
      in (crc XOR 0xFFFFFFFF, st'))"

section \<open>The bit-at-a-time reference\<close>

definition crc_byte :: "u32 \<Rightarrow> char \<Rightarrow> u32" where
  "crc_byte crc p = (crc_bit ^^ 8) (crc XOR of_char p)"

definition crc32_ref :: "bytes \<Rightarrow> u32" where
  "crc32_ref data = foldl crc_byte 0xFFFFFFFF data XOR 0xFFFFFFFF"

text \<open>The state the static members can be in: the table is only read once it is filled.\<close>

definition crc_inv :: "crc_state \<Rightarrow> bool" where
  "crc_inv st \<longleftrightarrow> (crc32_initialized st \<longrightarrow> crc32_table st = map crc_table_entry [0..<256])"

section \<open>One step of the register\<close>

lemma and_1_bit: "x AND 1 \<noteq> 0 \<longleftrightarrow> bit x 0" for x :: u32
  by (simp add: and_one_eq bit_0 odd_iff_mod_2_eq_one)

lemma crc_bit_xor: "crc_bit (a XOR b) = crc_bit a XOR crc_bit b"
  unfolding crc_bit_def and_1_bit by (rule bit_word_eqI) (auto simp: bit_simps)

lemma crc_bit_even: "\<not> bit x 0 \<Longrightarrow> crc_bit x = drop_bit 1 x"
  unfolding crc_bit_def and_1_bit by simp

lemma crc_bit_top: "bit (crc_bit z) 31 \<longleftrightarrow> bit z 0"
proof -
  have "\<not> bit (drop_bit 1 z) 31" by (auto simp: bit_simps dest: bit_imp_le_length)
  moreover have "bit (0xEDB88320 :: u32) 31" by (simp add: bit_numeral_rec)
  ultimately show ?thesis unfolding crc_bit_def and_1_bit by (auto simp: bit_simps)
qed

lemma xor_cancel_right: "a XOR p = b XOR p \<Longrightarrow> a = b" for a b p :: "'a::len word"
  by (drule arg_cong [of _ _ "\<lambda>w. w XOR p"]) (simp add: xor.assoc)

lemma inj_crc_bit: "inj crc_bit"
proof (rule injI)
  fix x y :: u32 assume eq: "crc_bit x = crc_bit y"
  with crc_bit_top have b0: "bit x 0 \<longleftrightarrow> bit y 0" by metis
  from eq b0 have d: "drop_bit 1 x = drop_bit 1 y"
    unfolding crc_bit_def and_1_bit by (cases "bit y 0") (auto dest: xor_cancel_right)
  show "x = y"
  proof (rule bit_word_eqI)
    fix n assume "n < LENGTH(32)"
    from d have "bit (drop_bit 1 x) m \<longleftrightarrow> bit (drop_bit 1 y) m" for m by simp
    then show "bit x n \<longleftrightarrow> bit y n"
      using b0 by (cases n) (simp_all add: bit_simps)
  qed
qed

lemma crc_bits_xor: "(crc_bit ^^ n) (a XOR b) = (crc_bit ^^ n) a XOR (crc_bit ^^ n) b"
  by (induction n) (simp_all add: crc_bit_xor)

lemma crc_bits_inj: "(crc_bit ^^ n) a = (crc_bit ^^ n) b \<Longrightarrow> a = b"
  using inj_crc_bit by (induction n) (auto dest: injD)

lemma crc_bits_shift: "(\<And>k. k < n \<Longrightarrow> \<not> bit x k) \<Longrightarrow> (crc_bit ^^ n) x = drop_bit n x"
proof (induction n)
  case (Suc n)
  then have "(crc_bit ^^ n) x = drop_bit n x" by simp
  moreover have "\<not> bit (drop_bit n x) 0" using Suc.prems [of n] by (simp add: bit_simps)
  ultimately show ?case by (simp add: crc_bit_even)
qed simp

section \<open>The table computes the reference\<close>

lemma crc_bits_split: "(crc_bit ^^ 8) x = (crc_bit ^^ 8) (x AND 0xFF) XOR drop_bit 8 x"
proof -
  have ff: "(0xFF :: u32) = mask 8" by (simp add: mask_eq_exp_minus_1)
  have "x = (x AND 0xFF) XOR (x AND NOT 0xFF)"
    unfolding ff by (rule bit_word_eqI) (auto simp: bit_simps)
  moreover have "(crc_bit ^^ 8) (x AND NOT 0xFF) = drop_bit 8 (x AND NOT 0xFF)"
    unfolding ff by (rule crc_bits_shift) (simp add: bit_simps)
  moreover have "drop_bit 8 (x AND NOT 0xFF) = drop_bit 8 x"
    unfolding ff by (rule bit_word_eqI) (auto simp: bit_simps dest: bit_imp_le_length)
  ultimately show ?thesis by (metis crc_bits_xor)
qed

lemma crc_table_nth: "map crc_table_entry [0..<256] ! unat (x AND 0xFF) = (crc_bit ^^ 8) (x AND 0xFF)"
proof -
  have "unat (x AND 0xFF) < 256"
    using word_and_le1 [of x "0xFF"] by (simp add: word_le_nat_alt)
  then show ?thesis by (simp add: crc_table_entry_def)
qed

lemma crc_update_byte: "crc_update (map crc_table_entry [0..<256]) = crc_byte"
proof (intro ext)
  fix crc :: u32 and p :: char
  have "drop_bit 8 (crc XOR of_char p) = drop_bit 8 crc"
    by (rule bit_word_eqI) (auto simp: bit_simps codec_simps dest: bit_nat_of_char_bound)
  then show "crc_update (map crc_table_entry [0..<256]) crc p = crc_byte crc p"
    by (simp add: crc_update_def crc_byte_def crc_table_nth crc_bits_split [of "crc XOR of_char p"])
qed

lemma crc_inv_init: "crc_inv crc_state_init"
  by (simp add: crc_inv_def crc_state_init_def)

lemma CRC32_run:
  assumes "crc_inv st"
  shows "fst (CRC32 st data) = crc32_ref data" and "crc_inv (snd (CRC32 st data))"
  using assms
  by (auto simp: CRC32_def Let_def crc_inv_def InitCRC32Table_def crc_update_byte crc32_ref_def)

text \<open>Successive calls in one process, each leaving the static members to the next.\<close>

fun CRC32_calls :: "crc_state \<Rightarrow> bytes list \<Rightarrow> u32 list" where
  "CRC32_calls st [] = []"
| "CRC32_calls st (data # rest) =
     (case CRC32 st data of (crc, st') \<Rightarrow> crc # CRC32_calls st' rest)"

lemma CRC32_calls_ref: "crc_inv st \<Longrightarrow> CRC32_calls st ds = map crc32_ref ds"
proof (induction ds arbitrary: st)
  case (Cons d ds)
  then show ?case using CRC32_run [of st d] by (cases "CRC32 st d") auto
qed simp

section \<open>Error detection\<close>

text \<open>
  What a digest needs so that a change confined to \<open>w\<close> consecutive symbols is detected: a step
  is injective in the state, and a run over at most \<open>w\<close> symbols is injective in them.
\<close>

locale byte_digest =
  fixes step :: "'s \<Rightarrow> 'b \<Rightarrow> 's" and w :: nat
  assumes step_inj: "step s b = step t b \<Longrightarrow> s = t"
    and window_inj: "length xs = length ys \<Longrightarrow> length xs \<le> w \<Longrightarrow>
      foldl step s xs = foldl step s ys \<Longrightarrow> xs = ys"
begin

lemma foldl_inj: "foldl step s bs = foldl step t bs \<Longrightarrow> s = t"
  by (induction bs arbitrary: s t) (auto dest: step_inj)

lemma burst_detected:
  assumes "length xs = length ys" "length xs \<le> w"
    and "foldl step s (pre @ xs @ post) = foldl step s (pre @ ys @ post)"
  shows "xs = ys"
proof -
  from assms(3) have "foldl step (foldl step (foldl step s pre) xs) post
      = foldl step (foldl step (foldl step s pre) ys) post" by simp
  then have "foldl step (foldl step s pre) xs = foldl step (foldl step s pre) ys"
    by (rule foldl_inj)
  then show ?thesis by (rule window_inj [OF assms(1,2)])
qed

end

text \<open>A run over a few bytes is one run of the register over the bytes read as a word.\<close>

fun le_word :: "bytes \<Rightarrow> u32" where
  "le_word [] = 0"
| "le_word (c # cs) = of_char c XOR push_bit 8 (le_word cs)"

lemma bit_le_word: "bit (le_word cs) n \<Longrightarrow> n < 8 * length cs"
proof (induction cs arbitrary: n)
  case (Cons c cs)
  from Cons.prems consider "n < 8" | "8 \<le> n" "bit (le_word cs) (n - 8)"
    by (auto simp: bit_simps codec_simps dest: bit_nat_of_char_bound)
  then show ?case
    by (cases) (auto dest: Cons.IH)
qed simp

lemma le_word_inj:
  "length xs = length ys \<Longrightarrow> length xs \<le> 4 \<Longrightarrow> le_word xs = le_word ys \<Longrightarrow> xs = ys"
proof (induction xs ys rule: list_induct2)
  case (Cons x xs y ys)
  have eq: "bit (of_char x XOR push_bit 8 (le_word xs)) n
      = bit (of_char y XOR push_bit 8 (le_word ys)) n" for n
    using Cons.prems by simp
  have "bit (of_char x :: nat) n = bit (of_char y :: nat) n" if "n < 8" for n
    using eq [of n] that by (simp add: bit_simps codec_simps)
  then have "x = y" by (rule char_eq_bits)
  moreover have "le_word xs = le_word ys"
  proof (rule bit_word_eqI)
    fix n assume "n < LENGTH(32)"
    show "bit (le_word xs) n = bit (le_word ys) n"
    proof (cases "n < 24")
      case True
      have "\<not> bit (of_char z :: nat) (n + 8)" for z
        using bit_nat_of_char_bound [of z "n + 8"] by auto
      then show ?thesis
        using eq [of "n + 8"] True by (simp add: bit_simps codec_simps)
    next
      case False
      with Cons.hyps Cons.prems show ?thesis
        using bit_le_word [of xs n] bit_le_word [of ys n] by auto
    qed
  qed
  ultimately show ?case using Cons by simp
qed simp

lemma crc_bytes_window:
  "length xs \<le> 4 \<Longrightarrow> foldl crc_byte s xs = (crc_bit ^^ (8 * length xs)) (s XOR le_word xs)"
proof (induction xs arbitrary: s)
  case (Cons x xs)
  have "\<not> bit (le_word xs) (n + 24)" for n
    using Cons.prems bit_le_word [of xs "n + 24"] by auto
  then have "drop_bit 8 (push_bit 8 (le_word xs)) = le_word xs"
    by (intro bit_word_eqI) (auto simp: bit_simps, metis add.commute le_Suc_ex not_less)
  then have "(crc_bit ^^ 8) (push_bit 8 (le_word xs)) = le_word xs"
    by (subst crc_bits_shift) (auto simp: bit_simps)
  then have "crc_byte s x XOR le_word xs = (crc_bit ^^ 8) (s XOR le_word (x # xs))"
    by (simp add: crc_byte_def crc_bits_xor xor.assoc)
  with Cons show ?case
    by (simp add: funpow_add add.commute [of 8])
qed simp

interpretation crc: byte_digest crc_byte 4
proof unfold_locales
  show "s = t" if "crc_byte s b = crc_byte t b" for s t b
    using that by (auto simp: crc_byte_def dest!: crc_bits_inj xor_cancel_right)
  show "xs = ys" if "length xs = length ys" "length xs \<le> 4"
    "foldl crc_byte s xs = foldl crc_byte s ys" for xs ys s
  proof -
    from that have "s XOR le_word xs = s XOR le_word ys"
      by (auto simp: crc_bytes_window dest: crc_bits_inj)
    then have "le_word xs = le_word ys"
      using xor_cancel_right by (metis xor.commute)
    with that show ?thesis by (intro le_word_inj)
  qed
qed

section \<open>Properties\<close>

text \<open>
  C37: from the zero-filled table the process starts with, every call of the table-driven
  \<open>CRC32\<close>, the one that fills the table and all later ones, returns the bit-at-a-time CRC of its
  argument.
\<close>

theorem CRC32_is_bitwise: "CRC32_calls crc_state_init ds = map crc32_ref ds"
  by (simp add: CRC32_calls_ref crc_inv_init)

text \<open>The value every CRC-32 implementation is checked against.\<close>

lemma crc_bit_numeral:
  "crc_bit 0 = 0" "crc_bit 1 = 0xEDB88320"
  "crc_bit (numeral n) = (if (numeral n :: u32) AND 1 \<noteq> 0
     then drop_bit 1 (numeral n) XOR 0xEDB88320 else drop_bit 1 (numeral n))"
  by (simp_all add: crc_bit_def)

lemma funpow_8: "(f ^^ 8) x = f (f (f (f (f (f (f (f x)))))))"
  by (simp add: numeral_eq_Suc)

lemma crc32_check_value: "crc32_ref ''123456789'' = 0xCBF43926"
  by (simp add: crc32_ref_def crc_byte_def crc_bit_numeral funpow_8)

end
