(* ===== verification/Protocol.thy ===== *)
theory Protocol
  imports Crc
begin

text \<open>
  The wire format of \<open>protocol/message_header.h\<close>, \<open>protocol/message.h\<close> and
  \<open>protocol/encoder.cc\<close>: the 24-byte header and its network byte order, the message, and
  \<open>Encoder::Encode\<close> with the two-pass checksum.

  \<open>htons\<close>/\<open>htonl\<close> followed by \<open>memcpy\<close> put the most significant byte first on every host, which
  is what \<open>put16\<close> and \<open>put32\<close> write and \<open>get16\<close> and \<open>get32\<close> read back.
\<close>

section \<open>Message header\<close>

definition kProtocolMagic :: u16 where "kProtocolMagic = 0x4D46"
definition kProtocolVersion :: u16 where "kProtocolVersion = 0x0001"

datatype MessageType = kRequest | kResponse | kNotify

fun MessageType_val :: "MessageType \<Rightarrow> u32" where
  "MessageType_val kRequest = 0x01"
| "MessageType_val kResponse = 0x02"
| "MessageType_val kNotify = 0x03"

record MessageHeader =
  magic :: u16
  version :: u16
  msg_type :: u32
  body_length :: u32
  data_length :: u32
  request_id :: u32
  checksum :: u32

definition MessageHeader_default :: MessageHeader where
  "MessageHeader_default = \<lparr>magic = kProtocolMagic, version = kProtocolVersion, msg_type = 0,
     body_length = 0, data_length = 0, request_id = 0, checksum = 0\<rparr>"

definition kHeaderSize :: nat where "kHeaderSize = 24"

definition put16 :: "u16 \<Rightarrow> bytes" where
  "put16 v = [byte (drop_bit 8 v), byte v]"

definition put32 :: "u32 \<Rightarrow> bytes" where
  "put32 v = [byte (drop_bit 24 v), byte (drop_bit 16 v), byte (drop_bit 8 v), byte v]"

definition get16 :: "bytes \<Rightarrow> u16" where
  "get16 b = foldl (\<lambda>v c. push_bit 8 v OR of_char c) 0 (take 2 b)"

definition get32 :: "bytes \<Rightarrow> u32" where
  "get32 b = foldl (\<lambda>v c. push_bit 8 v OR of_char c) 0 (take 4 b)"

definition EncodeTo :: "MessageHeader \<Rightarrow> bytes" where
  "EncodeTo h =
     put16 (magic h) @ put16 (version h) @ put32 (msg_type h) @ put32 (body_length h)
     @ put32 (data_length h) @ put32 (request_id h) @ put32 (checksum h)"

text \<open>\<open>DecodeFrom\<close> overwrites all the fields before it tells whether the magic number matches.\<close>

definition DecodeFrom :: "bytes \<Rightarrow> MessageHeader \<times> bool" where
  "DecodeFrom buffer =
     (let h = \<lparr>magic = get16 buffer, version = get16 (drop 2 buffer),
               msg_type = get32 (drop 4 buffer), body_length = get32 (drop 8 buffer),
               data_length = get32 (drop 12 buffer), request_id = get32 (drop 16 buffer),
               checksum = get32 (drop 20 buffer)\<rparr>
      in (h, magic h = kProtocolMagic))"

section \<open>Message and encoder\<close>

record Message =
  header :: MessageHeader
  json_body :: bytes
  binary_data :: bytes

definition Message_default :: Message where
  "Message_default = \<lparr>header = MessageHeader_default, json_body = [], binary_data = []\<rparr>"

definition IsValid :: "Message \<Rightarrow> bool" where
  "IsValid m \<longleftrightarrow> magic (header m) = kProtocolMagic"

text \<open>\<open>CRC32\<close> called from a fresh process; \<open>Crc.CRC32_run\<close> shows that the state does not matter.\<close>

definition crc32_value :: "bytes \<Rightarrow> u32" where
  "crc32_value data = fst (CRC32 crc_state_init data)"

definition Encode :: "Message \<Rightarrow> bytes" where
  "Encode msg =
     (let h = (header msg)\<lparr>body_length := of_nat (length (json_body msg)),
                           data_length := of_nat (length (binary_data msg)),
                           checksum := 0\<rparr>;
          payload = EncodeTo h @ json_body msg @ binary_data msg;
          h = h\<lparr>checksum := crc32_value payload\<rparr>
      in EncodeTo h @ json_body msg @ binary_data msg)"

fun EncodeBatch :: "Message list \<Rightarrow> bytes" where
  "EncodeBatch [] = []"
| "EncodeBatch (m # ms) = Encode m @ EncodeBatch ms"

text \<open>
  The message a receiver rebuilds: the lengths and the checksum are the encoder's, the rest of
  the header is the sender's.
\<close>

definition wire_header :: "Message \<Rightarrow> MessageHeader" where
  "wire_header msg =
     (let h = (header msg)\<lparr>body_length := of_nat (length (json_body msg)),
                           data_length := of_nat (length (binary_data msg)),
                           checksum := 0\<rparr>
      in h\<lparr>checksum := crc32_value (EncodeTo h @ json_body msg @ binary_data msg)\<rparr>)"

definition wire_message :: "Message \<Rightarrow> Message" where
  "wire_message m = m\<lparr>header := wire_header m\<rparr>"

text \<open>What the format can carry: our magic number, and parts whose sizes fit 32 bits.\<close>

definition encodable :: "Message \<Rightarrow> bool" where
  "encodable m \<longleftrightarrow> IsValid m \<and> length (json_body m) < 2 ^ 32 \<and> length (binary_data m) < 2 ^ 32"

section \<open>Byte order\<close>

lemma length_put [simp]: "length (put16 v) = 2" "length (put32 w) = 4"
  by (simp_all add: put16_def put32_def)

lemma length_EncodeTo [simp]: "length (EncodeTo h) = 24"
  by (simp add: EncodeTo_def)

lemma get16_put16 [simp]: "get16 (put16 v @ r) = v"
proof (rule bit_word_eqI)
  fix n assume "n < LENGTH(16)"
  then show "bit (get16 (put16 v @ r)) n = bit v n"
    by (cases "n < 8") (auto simp: get16_def put16_def bit_simps codec_simps)
qed

lemma get32_put32 [simp]: "get32 (put32 v @ r) = v"
proof (rule bit_word_eqI)
  fix n assume "n < LENGTH(32)"
  then consider "n < 8" | "8 \<le> n" "n < 16" | "16 \<le> n" "n < 24" | "24 \<le> n" "n < 32"
    by fastforce
  then show "bit (get32 (put32 v @ r)) n = bit v n"
    by cases (auto simp: get32_def put32_def bit_simps codec_simps)
qed

text \<open>Writing back what was read restores the bytes.\<close>

lemma put16_get16: "2 \<le> length b \<Longrightarrow> put16 (get16 b) = take 2 b"
proof -
  assume "2 \<le> length b"
  then obtain c1 c2 r where b: "b = c1 # c2 # r"
    by (auto simp: Suc_le_length_iff numeral_2_eq_2)
  show ?thesis unfolding b
    by (auto simp: get16_def put16_def bit_simps codec_simps
      intro!: char_eq_bits dest: bit_nat_of_char_bound)
qed

lemma put32_get32: "4 \<le> length b \<Longrightarrow> put32 (get32 b) = take 4 b"
proof -
  assume "4 \<le> length b"
  then obtain c1 c2 c3 c4 r where b: "b = c1 # c2 # c3 # c4 # r"
    by (auto simp: Suc_le_length_iff eval_nat_numeral)
  show ?thesis unfolding b
    by (auto simp: get32_def put32_def bit_simps codec_simps
      intro!: char_eq_bits dest: bit_nat_of_char_bound)
qed

section \<open>Header round trips\<close>

lemma DecodeFrom_EncodeTo [simp]: "DecodeFrom (EncodeTo h @ r) = (h, magic h = kProtocolMagic)"
  by (simp add: DecodeFrom_def EncodeTo_def Let_def)

lemma EncodeTo_DecodeFrom:
  assumes "24 \<le> length b"
  shows "EncodeTo (fst (DecodeFrom b)) = take 24 b"
proof -
  have "take 24 b = take 2 b @ take 2 (drop 2 b) @ take 4 (drop 4 b) @ take 4 (drop 8 b)
      @ take 4 (drop 12 b) @ take 4 (drop 16 b) @ take 4 (drop 20 b)"
    using take_add [of 2 22 b] take_add [of 2 20 "drop 2 b"] take_add [of 4 16 "drop 4 b"]
      take_add [of 4 12 "drop 8 b"] take_add [of 4 8 "drop 12 b"] take_add [of 4 4 "drop 16 b"]
    by simp
  with assms show ?thesis
    by (simp add: DecodeFrom_def EncodeTo_def Let_def put16_get16 put32_get32)
qed

section \<open>The encoder\<close>

lemma wire_header_simps [simp]:
  "magic (wire_header m) = magic (header m)"
  "version (wire_header m) = version (header m)"
  "msg_type (wire_header m) = msg_type (header m)"
  "request_id (wire_header m) = request_id (header m)"
  "body_length (wire_header m) = of_nat (length (json_body m))"
  "data_length (wire_header m) = of_nat (length (binary_data m))"
  by (simp_all add: wire_header_def Let_def)

lemma Encode_wire: "Encode m = EncodeTo (wire_header m) @ json_body m @ binary_data m"
  by (simp add: Encode_def wire_header_def Let_def)

lemma length_Encode [simp]:
  "length (Encode m) = 24 + length (json_body m) + length (binary_data m)"
  by (simp add: Encode_wire)

lemma EncodeBatch_append [simp]: "EncodeBatch (xs @ ys) = EncodeBatch xs @ EncodeBatch ys"
  by (induction xs) auto

lemma crc32_value_ref: "crc32_value data = crc32_ref data"
  by (simp add: crc32_value_def CRC32_run crc_inv_init)

lemma wire_header_checksum:
  "checksum (wire_header m) = crc32_ref (EncodeTo ((wire_header m)\<lparr>checksum := 0\<rparr>)
     @ json_body m @ binary_data m)"
  by (simp add: wire_header_def Let_def crc32_value_ref)

lemma wire_message_simps [simp]:
  "header (wire_message m) = wire_header m"
  "json_body (wire_message m) = json_body m"
  "binary_data (wire_message m) = binary_data m"
  by (simp_all add: wire_message_def)

lemma wire_header_idem: "wire_header (wire_message m) = wire_header m"
  by (simp add: wire_header_def wire_message_def Let_def)

lemma Encode_wire_message [simp]: "Encode (wire_message m) = Encode m"
  by (simp add: Encode_wire wire_header_idem)

end
