(* ===== verification/Decoder.thy ===== *)
theory Decoder
  imports Protocol
begin

text \<open>
  The stream decoder of \<open>protocol/decoder.h\<close> and \<open>protocol/decoder.cc\<close>: the two-state machine
  \<open>TryParseMessage\<close>, the loop \<open>Feed\<close> and \<open>Reset\<close>.

  The specification is \<open>next_frame\<close>, which looks at a buffer alone: the state machine refines it
  (\<open>TryParseMessage_refines\<close>), it delivers exactly the encoder's images
  (\<open>next_frame_Encode\<close>, \<open>next_frame_sound\<close>), and what holds of any such framing, however the
  stream is cut into chunks, is proved once in the locale \<open>framing\<close>.
\<close>

section \<open>The state machine\<close>

datatype DecoderState = kWaitHeader | kWaitBody

record Decoder =
  dstate :: DecoderState
  buffer :: bytes
  current_header :: MessageHeader

definition Decoder_init :: Decoder where
  "Decoder_init = \<lparr>dstate = kWaitHeader, buffer = [], current_header = MessageHeader_default\<rparr>"

text \<open>The first half of \<open>TryParseMessage\<close>: \<open>False\<close> stands for its early \<open>return false\<close>.\<close>

definition parse_header :: "Decoder \<Rightarrow> Decoder \<times> bool" where
  "parse_header d =
     (if dstate d = kWaitHeader then
        (if length (buffer d) < kHeaderSize then (d, False)
         else (let (h, ok) = DecodeFrom (buffer d);
                   d = d\<lparr>current_header := h\<rparr>
               in if \<not> ok then (d\<lparr>buffer := drop 1 (buffer d)\<rparr>, False)
                  else (d\<lparr>dstate := kWaitBody\<rparr>, True)))
      else (d, True))"

definition parse_body :: "Decoder \<Rightarrow> Decoder \<times> Message option" where
  "parse_body d =
     (let h = current_header d;
          bl = unat (body_length h);
          dl = unat (data_length h);
          total_needed = kHeaderSize + bl + dl
      in if length (buffer d) < total_needed then (d, None)
         else (let body = take bl (drop kHeaderSize (buffer d));
                   data = take dl (drop (kHeaderSize + bl) (buffer d));
                   calculated = crc32_value (EncodeTo (h\<lparr>checksum := 0\<rparr>) @ body @ data)
               in if calculated \<noteq> checksum h
                  then (d\<lparr>buffer := drop 1 (buffer d), dstate := kWaitHeader\<rparr>, None)
                  else (d\<lparr>buffer := drop total_needed (buffer d), dstate := kWaitHeader\<rparr>,
                        Some \<lparr>header = h, json_body = body, binary_data = data\<rparr>)))"

definition TryParseMessage :: "Decoder \<Rightarrow> Decoder \<times> Message option" where
  "TryParseMessage d =
     (case parse_header d of
        (d', go) \<Rightarrow> if go \<and> dstate d' = kWaitBody then parse_body d' else (d', None))"

lemma TryParseMessage_consumes:
  "TryParseMessage d = (d', Some m) \<Longrightarrow> length (buffer d') < length (buffer d)"
  by (auto simp: TryParseMessage_def parse_header_def parse_body_def Let_def kHeaderSize_def
      split: if_splits prod.splits)

function Feed_loop :: "Decoder \<Rightarrow> Message list \<times> Decoder" where
  "Feed_loop d =
     (case TryParseMessage d of
        (d', None) \<Rightarrow> ([], d')
      | (d', Some m) \<Rightarrow> (case Feed_loop d' of (ms, d'') \<Rightarrow> (m # ms, d'')))"
  by pat_completeness auto
termination
  by (relation "measure (\<lambda>d. length (buffer d))") (auto dest: TryParseMessage_consumes [OF sym])

declare Feed_loop.simps [simp del]

definition Feed :: "Decoder \<Rightarrow> bytes \<Rightarrow> Message list \<times> Decoder" where
  "Feed d data = Feed_loop (d\<lparr>buffer := buffer d @ data\<rparr>)"

definition Reset :: "Decoder \<Rightarrow> Decoder" where
  "Reset d = d\<lparr>dstate := kWaitHeader, buffer := []\<rparr>"

definition BufferedBytes :: "Decoder \<Rightarrow> nat" where
  "BufferedBytes d = length (buffer d)"

text \<open>A connection over its life: one \<open>Feed\<close> for each chunk the network delivers.\<close>

fun FeedAll :: "Decoder \<Rightarrow> bytes list \<Rightarrow> Message list \<times> Decoder" where
  "FeedAll d [] = ([], d)"
| "FeedAll d (c # cs) =
     (case Feed d c of (ms, d') \<Rightarrow> case FeedAll d' cs of (ms', d'') \<Rightarrow> (ms @ ms', d''))"

section \<open>Specification: the next frame of a buffer\<close>

datatype 'm outcome = Incomplete | Skip | Frame 'm bytes

definition next_frame :: "bytes \<Rightarrow> Message outcome" where
  "next_frame b =
     (if length b < 24 then Incomplete
      else let (h, ok) = DecodeFrom b; n = 24 + unat (body_length h) + unat (data_length h) in
        if \<not> ok then Skip
        else if length b < n then Incomplete
        else let m = \<lparr>header = h, json_body = take (unat (body_length h)) (drop 24 b),
                      binary_data = take (unat (data_length h)) (drop (24 + unat (body_length h)) b)\<rparr>
          in if Encode m = take n b then Frame m (drop n b) else Skip)"

text \<open>In the body state the header is the one at the front of the buffer.\<close>

definition dec_inv :: "Decoder \<Rightarrow> bool" where
  "dec_inv d \<longleftrightarrow> (dstate d = kWaitBody \<longrightarrow>
     24 \<le> length (buffer d) \<and> DecodeFrom (buffer d) = (current_header d, True))"

lemma dec_inv_init [simp]: "dec_inv Decoder_init"
  by (simp add: dec_inv_def Decoder_init_def)

lemma dec_inv_Reset [simp]: "dec_inv (Reset d)"
  by (simp add: dec_inv_def Reset_def)

lemma dec_inv_append [simp]: "dec_inv d \<Longrightarrow> dec_inv (d\<lparr>buffer := buffer d @ x\<rparr>)"
  by (auto simp: dec_inv_def DecodeFrom_def Let_def get16_def get32_def)

section \<open>The decoder accepts exactly the encoder's images\<close>

lemma take_drop_split: "n \<le> length b \<Longrightarrow> take (a + n) b = take a b @ take n (drop a b)"
  by (simp add: take_add)

text \<open>The checksum comparison of the code decides whether the bytes are an encoding.\<close>

lemma crc_check_iff:
  assumes d: "DecodeFrom b = (h, ok)"
    and len: "24 + unat (body_length h) + unat (data_length h) \<le> length b"
    and m: "m = \<lparr>header = h, json_body = take (unat (body_length h)) (drop 24 b),
      binary_data = take (unat (data_length h)) (drop (24 + unat (body_length h)) b)\<rparr>"
  shows "crc32_value (EncodeTo (h\<lparr>checksum := 0\<rparr>) @ json_body m @ binary_data m) = checksum h
     \<longleftrightarrow> Encode m = take (24 + unat (body_length h) + unat (data_length h)) b"
proof -
  let ?n = "24 + unat (body_length h) + unat (data_length h)"
  have h: "EncodeTo h = take 24 b"
    using EncodeTo_DecodeFrom [of b] d len by simp
  have lens: "length (json_body m) = unat (body_length h)"
      "length (binary_data m) = unat (data_length h)"
    using len by (simp_all add: m)
  have "take ?n b = EncodeTo h @ json_body m @ binary_data m"
    using take_add [of "24 + unat (body_length h)" "unat (data_length h)" b]
      take_add [of 24 "unat (body_length h)" b] by (simp add: h m)
  then have "Encode m = take ?n b \<longleftrightarrow> EncodeTo (wire_header m) = EncodeTo h"
    by (simp add: Encode_wire)
  also have "\<dots> \<longleftrightarrow> wire_header m = h"
    using DecodeFrom_EncodeTo [of _ "[]"] by (metis Pair_inject)
  also have "\<dots> \<longleftrightarrow> crc32_value (EncodeTo (h\<lparr>checksum := 0\<rparr>) @ json_body m @ binary_data m) = checksum h"
  proof -
    have "(header m)\<lparr>body_length := of_nat (length (json_body m)),
        data_length := of_nat (length (binary_data m)), checksum := 0\<rparr> = h\<lparr>checksum := 0\<rparr>"
      by (simp add: lens) (simp add: m)
    then show ?thesis by (auto simp: wire_header_def Let_def) (cases h, simp)
  qed
  finally show ?thesis by simp
qed

lemma next_frame_Encode [simp]:
  assumes "encodable m" shows "next_frame (Encode m @ r) = Frame (wire_message m) r"
proof -
  let ?b = "Encode m @ r" and ?h = "wire_header m"
  have d: "DecodeFrom ?b = (?h, True)"
    using assms by (simp add: Encode_wire encodable_def IsValid_def)
  have bl: "unat (body_length ?h) = length (json_body m)"
    and dl: "unat (data_length ?h) = length (binary_data m)"
    using assms by (simp_all add: encodable_def unat_of_nat)
  have m: "\<lparr>header = ?h, json_body = take (length (json_body m)) (drop 24 ?b),
      binary_data = take (length (binary_data m)) (drop (24 + length (json_body m)) ?b)\<rparr> = wire_message m"
    by (simp add: wire_message_def Encode_wire)
  show ?thesis
    by (simp only: next_frame_def d Let_def case_prod_conv bl dl m) simp
qed

lemma next_frame_sound:
  assumes "next_frame b = Frame m r"
  shows "b = Encode m @ r" and "encodable m" and "wire_message m = m"
proof -
  obtain h ok where d: "DecodeFrom b = (h, ok)" by fastforce
  define n where "n = 24 + unat (body_length h) + unat (data_length h)"
  from assms d have len: "n \<le> length b" and ok: "ok" and e: "Encode m = take n b" and r: "r = drop n b"
    and m: "m = \<lparr>header = h, json_body = take (unat (body_length h)) (drop 24 b),
      binary_data = take (unat (data_length h)) (drop (24 + unat (body_length h)) b)\<rparr>"
    by (auto simp: next_frame_def n_def Let_def split: if_splits)
  show b: "b = Encode m @ r" by (simp add: e r)
  have "magic h = kProtocolMagic" using d ok by (auto simp: DecodeFrom_def Let_def)
  moreover have "length (json_body m) = unat (body_length h)"
    "length (binary_data m) = unat (data_length h)" using len by (simp_all add: m n_def)
  ultimately show en: "encodable m"
    using unsigned_less [of "body_length h"] unsigned_less [of "data_length h"]
    by (auto simp: encodable_def IsValid_def m)
  from next_frame_Encode [OF en, of r] assms b show "wire_message m = m" by simp
qed

text \<open>A proper prefix of an encoding is never decided: the decoder waits.\<close>

lemma DecodeFrom_append: "24 \<le> length b \<Longrightarrow> DecodeFrom (b @ x) = DecodeFrom b"
  by (simp add: DecodeFrom_def Let_def get16_def get32_def)

lemma next_frame_prefix:
  assumes "encodable m" and "Encode m = b @ c" and "c \<noteq> []"
  shows "next_frame b = Incomplete"
proof (cases "length b < 24")
  case False
  have "DecodeFrom b = DecodeFrom (Encode m)"
    using False assms(2) DecodeFrom_append [of b c] by simp
  also have "\<dots> = (wire_header m, True)"
    using assms(1) by (simp add: Encode_wire encodable_def IsValid_def)
  finally have d: "DecodeFrom b = (wire_header m, True)" .
  moreover have "length b < length (Encode m)"
    using assms(2,3) by simp
  then have "length b < 24 + unat (body_length (wire_header m)) + unat (data_length (wire_header m))"
    using assms(1) by (simp add: encodable_def unat_of_nat)
  ultimately show ?thesis by (simp add: next_frame_def Let_def)
qed (simp add: next_frame_def)

section \<open>The state machine refines the specification\<close>

text \<open>
  \<open>TryParseMessage\<close> acts on the buffer as \<open>next_frame\<close> says, in either state: the saved header
  and the state flag only remember what was already read.
\<close>

lemma TryParseMessage_refines:
  assumes "dec_inv d" and "TryParseMessage d = (d', out)"
  shows "dec_inv d'" and "case next_frame (buffer d) of
      Incomplete \<Rightarrow> out = None \<and> buffer d' = buffer d
    | Skip \<Rightarrow> out = None \<and> buffer d' = tl (buffer d) \<and> dstate d' = kWaitHeader
    | Frame m r \<Rightarrow> out = Some m \<and> buffer d' = r \<and> dstate d' = kWaitHeader"
proof -
  obtain h ok where hd: "DecodeFrom (buffer d) = (h, ok)" by fastforce
  have "dec_inv d' \<and> (case next_frame (buffer d) of
      Incomplete \<Rightarrow> out = None \<and> buffer d' = buffer d
    | Skip \<Rightarrow> out = None \<and> buffer d' = tl (buffer d) \<and> dstate d' = kWaitHeader
    | Frame m r \<Rightarrow> out = Some m \<and> buffer d' = r \<and> dstate d' = kWaitHeader)"
  proof (cases "length (buffer d) < 24 \<or> \<not> ok")
    case True
    with assms hd show ?thesis
      by (cases "dstate d")
        (auto simp: TryParseMessage_def parse_header_def next_frame_def dec_inv_def Let_def
          kHeaderSize_def drop_Suc split: if_splits)
  next
    case False
    define d1 where "d1 = d\<lparr>dstate := kWaitBody, current_header := h\<rparr>"
    have "parse_header d = (d1, True)"
      using False hd assms(1)
      by (cases "dstate d"; cases d)
        (auto simp: parse_header_def dec_inv_def d1_def kHeaderSize_def Let_def)
    then have p: "parse_body d1 = (d', out)"
      using assms(2) by (simp add: TryParseMessage_def d1_def)
    from False hd show ?thesis
      using p crc_check_iff [OF hd _ refl]
      by (auto simp: parse_body_def d1_def next_frame_def dec_inv_def Let_def kHeaderSize_def
          drop_Suc split: if_splits)
  qed
  then show "dec_inv d'" and "case next_frame (buffer d) of
      Incomplete \<Rightarrow> out = None \<and> buffer d' = buffer d
    | Skip \<Rightarrow> out = None \<and> buffer d' = tl (buffer d) \<and> dstate d' = kWaitHeader
    | Frame m r \<Rightarrow> out = Some m \<and> buffer d' = r \<and> dstate d' = kWaitHeader" by blast+
qed

end
