(* ===== verification/Framing.thy ===== *)
theory Framing
  imports Decoder
begin

text \<open>
  Streams: what the decoder of \<open>protocol/decoder.cc\<close> delivers over a whole connection, however
  the network cuts the bytes (several messages in a chunk or one message over
  several chunks).

  The locale \<open>framing\<close> states what a framing promises its reader and derives from it that the
  cut does not matter; the interpretation \<open>wire\<close> discharges it for \<open>Encode\<close>, \<open>next_frame\<close> and
  \<open>Feed_loop\<close>. The relation \<open>parses\<close> accounts for every byte of an arbitrary stream.
\<close>

section \<open>Framings\<close>

fun run_chunks :: "(bytes \<Rightarrow> 'm list \<times> bytes) \<Rightarrow> bytes \<Rightarrow> bytes list \<Rightarrow> 'm list \<times> bytes" where
  "run_chunks f b [] = ([], b)"
| "run_chunks f b (c # cs) =
     (case f (b @ c) of (ms, b') \<Rightarrow>
        case run_chunks f b' cs of (ms', b'') \<Rightarrow> (ms @ ms', b''))"

locale framing =
  fixes enc :: "'m \<Rightarrow> bytes" and ok :: "'m \<Rightarrow> bool" and canon :: "'m \<Rightarrow> 'm"
    and nxt :: "bytes \<Rightarrow> 'm outcome" and drain :: "bytes \<Rightarrow> 'm list \<times> bytes"
  assumes nxt_enc: "ok m \<Longrightarrow> nxt (enc m @ r) = Frame (canon m) r"
    and nxt_prefix: "ok m \<Longrightarrow> enc m = b @ c \<Longrightarrow> c \<noteq> [] \<Longrightarrow> nxt b = Incomplete"
    and nxt_nil: "nxt [] = Incomplete"
    and nxt_sound: "nxt b = Frame m r \<Longrightarrow> b = enc m @ r"
    and drain: "drain b = (case nxt b of Incomplete \<Rightarrow> ([], b) | Skip \<Rightarrow> ([], tl b)
      | Frame m r \<Rightarrow> apfst (Cons m) (drain r))"
begin

text \<open>The beginning of a message that has not fully arrived.\<close>

definition partial :: "bytes \<Rightarrow> bool" where
  "partial t \<longleftrightarrow> t = [] \<or> (\<exists>m c. ok m \<and> enc m = t @ c \<and> c \<noteq> [])"

lemma partial_prefix: "partial (x @ y) \<Longrightarrow> partial x"
  by (auto simp: partial_def)

lemma drain_partial: "partial t \<Longrightarrow> drain t = ([], t)"
  by (subst drain) (auto simp: partial_def nxt_nil nxt_prefix)

lemma drain_batch:
  assumes "\<forall>m \<in> set ms. ok m" and "partial t"
  shows "drain (concat (map enc ms) @ t) = (map canon ms, t)"
  using assms
proof (induction ms)
  case (Cons m ms)
  then show ?case by (subst drain) (simp add: nxt_enc)
qed (simp add: drain_partial)

lemma split_stream:
  assumes "x @ y = concat (map enc ms) @ t" and "\<forall>m \<in> set ms. ok m" and "partial t"
  shows "\<exists>ms1 ms2 p. ms = ms1 @ ms2 \<and> x = concat (map enc ms1) @ p
    \<and> p @ y = concat (map enc ms2) @ t \<and> partial p
    \<and> (ms2 \<noteq> [] \<longrightarrow> length p < length (enc (hd ms2)))"
  using assms
proof (induction ms arbitrary: x)
  case Nil
  then show ?case using partial_prefix by auto
next
  case (Cons m ms)
  show ?case
  proof (cases "length x < length (enc m)")
    case True
    with Cons.prems(1) obtain c where "x @ c = enc m"
      by (auto simp: append_eq_append_conv2)
    then have c: "enc m = x @ c" by simp
    with True have "c \<noteq> []" by auto
    with c Cons.prems have "partial x" by (auto simp: partial_def)
    with True Cons.prems show ?thesis by (intro exI [of _ "[]"] exI [of _ "m # ms"] exI [of _ x]) auto
  next
    case False
    with Cons.prems(1) obtain x' where x': "x = enc m @ x'" "x' @ y = concat (map enc ms) @ t"
      using prefix_split [of x y "enc m" "concat (map enc ms) @ t"] by auto
    with Cons obtain ms1 ms2 p where "ms = ms1 @ ms2" "x' = concat (map enc ms1) @ p"
      "p @ y = concat (map enc ms2) @ t" "partial p"
      "ms2 \<noteq> [] \<longrightarrow> length p < length (enc (hd ms2))" by (metis list.set_intros(2))
    with x' show ?thesis by (intro exI [of _ "m # ms1"] exI [of _ ms2]) auto
  qed
qed

lemma chunks_from:
  assumes "b @ concat cs = concat (map enc ms) @ t" and "\<forall>m \<in> set ms. ok m" and "partial t"
    and "ms \<noteq> [] \<Longrightarrow> length b < length (enc (hd ms))"
  shows "run_chunks drain b cs = (map canon ms, t)"
  using assms
proof (induction cs arbitrary: b ms)
  case Nil
  then show ?case by (cases ms) auto
next
  case (Cons c cs)
  from split_stream [of "b @ c" "concat cs" ms t] Cons.prems
  obtain ms1 ms2 p where s: "ms = ms1 @ ms2" "b @ c = concat (map enc ms1) @ p"
    "p @ concat cs = concat (map enc ms2) @ t" "partial p"
    "ms2 \<noteq> [] \<longrightarrow> length p < length (enc (hd ms2))" by auto
  with Cons.prems have "drain (b @ c) = (map canon ms1, p)"
    by (simp add: drain_batch)
  moreover have "run_chunks drain p cs = (map canon ms2, t)"
    using s Cons.prems by (intro Cons.IH) auto
  ultimately show ?case using s(1) by simp
qed

theorem chunks:
  assumes "concat cs = concat (map enc ms) @ t" and "\<forall>m \<in> set ms. ok m" and "partial t"
  shows "run_chunks drain [] cs = (map canon ms, t)"
proof (rule chunks_from)
  show "length [] < length (enc (hd ms))" if "ms \<noteq> []"
  proof (rule ccontr)
    assume "\<not> length [] < length (enc (hd ms))"
    then have "nxt [] = Frame (canon (hd ms)) []"
      using nxt_enc [of "hd ms" "[]"] assms(2) that by simp
    then show False by (simp add: nxt_nil)
  qed
qed (use assms in auto)

end

section \<open>The decoder is a framing\<close>

definition drain_buffer :: "bytes \<Rightarrow> Message list \<times> bytes" where
  "drain_buffer b = apsnd buffer (Feed_loop (Decoder_init\<lparr>buffer := b\<rparr>))"

text \<open>Between two calls only the buffer of the decoder matters.\<close>

lemma Feed_loop_buffer:
  assumes "dec_inv d" "dec_inv e" "buffer e = buffer d"
  shows "dec_inv (snd (Feed_loop d)) \<and> apsnd buffer (Feed_loop e) = apsnd buffer (Feed_loop d)"
  using assms
proof (induction "length (buffer d)" arbitrary: d e rule: less_induct)
  case less
  obtain d' out where d': "TryParseMessage d = (d', out)" by fastforce
  obtain e' out' where e': "TryParseMessage e = (e', out')" by fastforce
  note rd = TryParseMessage_refines [OF less.prems(1) d']
  note re = TryParseMessage_refines [OF less.prems(2) e', unfolded less.prems(3)]
  from rd(2) re(2) have same: "out' = out" "buffer e' = buffer d'"
    by (cases "next_frame (buffer d)"; simp)+
  show ?case
  proof (cases out)
    case None
    with d' e' same rd(1) show ?thesis by (simp add: Feed_loop.simps [of d] Feed_loop.simps [of e])
  next
    case (Some m)
    with d' have "length (buffer d') < length (buffer d)" by (simp add: TryParseMessage_consumes)
    from less.hyps [OF this rd(1) re(1) same(2)] d' e' same Some show ?thesis
      by (auto simp: Feed_loop.simps [of d] Feed_loop.simps [of e] apsnd_def map_prod_def
          split: prod.splits)
  qed
qed

lemma Feed_loop_drain:
  assumes "dec_inv d"
  shows "apsnd buffer (Feed_loop d) = drain_buffer (buffer d)" and "dec_inv (snd (Feed_loop d))"
  using Feed_loop_buffer [of "Decoder_init\<lparr>buffer := buffer d\<rparr>" d] Feed_loop_buffer [of d d] assms
  by (simp_all add: drain_buffer_def dec_inv_def Decoder_init_def)

lemma drain_buffer_unfold:
  "drain_buffer b = (case next_frame b of Incomplete \<Rightarrow> ([], b) | Skip \<Rightarrow> ([], tl b)
     | Frame m r \<Rightarrow> apfst (Cons m) (drain_buffer r))"
proof -
  let ?d = "Decoder_init\<lparr>buffer := b\<rparr>"
  have i: "dec_inv ?d" by (simp add: dec_inv_def Decoder_init_def)
  obtain d' out where d': "TryParseMessage ?d = (d', out)" by fastforce
  note r = TryParseMessage_refines [OF i d']
  then have "apsnd buffer (Feed_loop d') = drain_buffer (buffer d')"
    by (intro Feed_loop_drain)
  with r(2) d' show ?thesis
    by (cases "next_frame b")
      (auto simp: drain_buffer_def [of b] Feed_loop.simps [of ?d] apsnd_def apfst_def map_prod_def
        split: prod.splits)
qed

interpretation wire: framing Encode encodable wire_message next_frame drain_buffer
proof unfold_locales
  show "next_frame [] = Incomplete" by (simp add: next_frame_def)
qed (use next_frame_Encode next_frame_prefix next_frame_sound drain_buffer_unfold in auto)

lemma Feed_drain:
  assumes "dec_inv d" and "Feed d c = (ms, d')"
  shows "dec_inv d'" and "drain_buffer (buffer d @ c) = (ms, buffer d')"
  using assms Feed_loop_drain [OF dec_inv_append [OF assms(1)], of c]
  by (auto simp: Feed_def)

lemma FeedAll_run_chunks:
  assumes "dec_inv d" and "FeedAll d cs = (ms, d')"
  shows "run_chunks drain_buffer (buffer d) cs = (ms, buffer d') \<and> dec_inv d'"
  using assms
proof (induction cs arbitrary: d ms d')
  case (Cons c cs)
  obtain ms1 d1 where f: "Feed d c = (ms1, d1)" by fastforce
  obtain ms2 d2 where a: "FeedAll d1 cs = (ms2, d2)" by fastforce
  from Feed_drain [OF Cons.prems(1) f] Cons.IH [OF _ a] Cons.prems(2) f a
  show ?case by auto
qed simp

lemma Encode_concat: "EncodeBatch ms = concat (map Encode ms)"
  by (induction ms) auto

section \<open>Accounting for an arbitrary stream\<close>

text \<open>
  \<open>parses s ms k r\<close>: reading \<open>s\<close> from the left, every byte belongs to the exact encoding of one
  of the messages \<open>ms\<close>, in order, or is one of \<open>k\<close> skipped bytes; \<open>r\<close> is still unread.
\<close>

inductive parses :: "bytes \<Rightarrow> Message list \<Rightarrow> nat \<Rightarrow> bytes \<Rightarrow> bool" where
  parses_done: "parses b [] 0 b"
| parses_skip: "parses s ms k r \<Longrightarrow> parses (c # s) ms (Suc k) r"
| parses_frame: "encodable m \<Longrightarrow> parses s ms k r \<Longrightarrow> parses (Encode m @ s) (m # ms) k r"

lemma parses_append: "parses s ms k r \<Longrightarrow> parses r ms' k' r' \<Longrightarrow> parses s (ms @ ms') (k + k') r'"
  by (induction rule: parses.induct) (auto intro: parses.intros)

lemma parses_extend: "parses s ms k r \<Longrightarrow> parses (s @ x) ms k (r @ x)"
  by (induction rule: parses.induct) (auto intro: parses.intros)

lemma parses_drain: "\<exists>k \<le> 1. parses b (fst (drain_buffer b)) k (snd (drain_buffer b))"
proof (induction "length b" arbitrary: b rule: less_induct)
  case less
  note u = drain_buffer_unfold [of b]
  show ?case
  proof (cases "next_frame b")
    case Incomplete
    then show ?thesis by (auto simp: u intro: parses_done)
  next
    case Skip
    then obtain c s where "b = c # s" by (cases b) (auto simp: next_frame_def)
    moreover from this have "parses b [] (Suc 0) s" by (auto intro: parses.intros)
    ultimately show ?thesis using Skip u by (intro exI [of _ "Suc 0"]) simp
  next
    case (Frame m r)
    note f = next_frame_sound [OF Frame]
    then have "length r < length b" by simp
    from less [OF this] obtain k where k: "k \<le> 1" "parses r (fst (drain_buffer r)) k (snd (drain_buffer r))"
      by blast
    from parses_frame [OF f(2) k(2)] k(1) Frame show ?thesis
      by (intro exI [of _ k]) (simp add: u flip: f(1))
  qed
qed

lemma parses_chunks:
  "run_chunks drain_buffer b cs = (ms, r) \<Longrightarrow> \<exists>k \<le> length cs. parses (b @ concat cs) ms k r"
proof (induction cs arbitrary: b ms)
  case Nil
  then show ?case by (auto intro: parses_done)
next
  case (Cons c cs)
  obtain ms1 b1 where d: "drain_buffer (b @ c) = (ms1, b1)" by fastforce
  obtain ms2 b2 where e: "run_chunks drain_buffer b1 cs = (ms2, b2)" by fastforce
  from Cons.prems d e have ms: "ms = ms1 @ ms2" "b2 = r" by auto
  from parses_drain [of "b @ c"] d obtain k1 where k1: "k1 \<le> 1" "parses (b @ c) ms1 k1 b1"
    by auto
  from Cons.IH [of b1 ms2] e ms obtain k2 where k2: "k2 \<le> length cs" "parses (b1 @ concat cs) ms2 k2 r"
    by auto
  from parses_append [OF parses_extend [OF k1(2), of "concat cs"] k2(2)] k1(1) k2(1) ms
  show ?case by (intro exI [of _ "k1 + k2"]) simp
qed

section \<open>Corrupted frames\<close>

lemma take_burst: "24 \<le> length pre \<Longrightarrow> take 24 (pre @ xs) = take 24 (pre @ ys)"
  by simp

lemma corrupted_next_frame:
  assumes m: "encodable m" and enc: "Encode m = pre @ xs @ post" and pre: "24 \<le> length pre"
    and xs: "length xs = length ys" "length xs \<le> 4" "xs \<noteq> ys"
  shows "next_frame (pre @ ys @ post @ r) = Skip"
proof -
  let ?b = "pre @ ys @ post @ r" and ?n = "length (Encode m)"
  define q where "q = drop 24 pre"
  have hp: "pre = EncodeTo (wire_header m) @ q"
    using arg_cong [OF enc, of "take 24"] pre append_take_drop_id [of 24 pre]
    by (simp add: Encode_wire q_def)
  then have d: "DecodeFrom ?b = (wire_header m, True)"
    using m by (simp add: encodable_def IsValid_def)
  have len: "24 + unat (body_length (wire_header m)) + unat (data_length (wire_header m)) = ?n"
    using m by (simp add: encodable_def unat_of_nat)
  have n: "?n = length (pre @ ys @ post)" using enc xs by simp
  have payload: "json_body m @ binary_data m = q @ xs @ post"
    using enc by (simp add: Encode_wire hp)
  show ?thesis
  proof (rule ccontr)
    assume "next_frame ?b \<noteq> Skip"
    moreover have "24 \<le> length ?b" using pre by simp
    ultimately obtain m' r' where f: "next_frame ?b = Frame m' r'"
      using d len n unfolding next_frame_def
      by (cases "next_frame ?b") (auto simp: next_frame_def Let_def split: if_splits)
    from next_frame_sound [OF f] have b: "?b = Encode m' @ r'" and m': "encodable m'" "wire_message m' = m'"
      by auto
    from b have h: "wire_header m' = wire_header m"
      using d m' DecodeFrom_EncodeTo [of "wire_header m'" "json_body m' @ binary_data m' @ r'"]
      by (simp add: Encode_wire)
    have "length (Encode m') = ?n"
      using len m' by (simp add: encodable_def unat_of_nat flip: h)
    with n have "length (pre @ ys @ post) = length (Encode m')" by (rule trans [OF sym sym])
    with b have "Encode m' = pre @ ys @ post"
      using append_eq_append_conv [of "pre @ ys @ post" "Encode m'" r r'] by simp
    then have payload': "json_body m' @ binary_data m' = q @ ys @ post"
      by (simp add: Encode_wire hp h)
    let ?z = "EncodeTo ((wire_header m)\<lparr>checksum := 0\<rparr>)"
    have "crc32_ref (?z @ q @ xs @ post) = crc32_ref (?z @ q @ ys @ post)"
      using wire_header_checksum [of m] wire_header_checksum [of m'] h payload payload' by simp
    then have "foldl crc_byte 0xFFFFFFFF ((?z @ q) @ xs @ post)
        = foldl crc_byte 0xFFFFFFFF ((?z @ q) @ ys @ post)"
      unfolding crc32_ref_def by (simp only: append_assoc) (rule xor_cancel_right)
    from crc.burst_detected [OF xs(1,2) this] xs(3) show False by simp
  qed
qed

section \<open>Properties\<close>

definition sample_message :: Message where
  "sample_message = Message_default\<lparr>json_body := ''{}'', binary_data := ''data''\<rparr>"

lemma sample_encodable: "encodable sample_message"
  by (simp add: sample_message_def encodable_def IsValid_def Message_default_def MessageHeader_default_def)

text \<open>
  C12: however the network cuts a stream of encoded messages into chunks, feeding the chunks to a
  fresh decoder delivers exactly these messages, in order and unchanged but for the lengths and
  the checksum that the encoder fills in; a message that is still incomplete stays in the buffer.
\<close>

theorem decoder_chunking:
  assumes "concat chunks = EncodeBatch msgs @ t" and "\<forall>m \<in> set msgs. encodable m"
    and "t = [] \<or> (\<exists>m c. encodable m \<and> Encode m = t @ c \<and> c \<noteq> [])"
  shows "fst (FeedAll Decoder_init chunks) = map wire_message msgs
    \<and> buffer (snd (FeedAll Decoder_init chunks)) = t"
proof -
  obtain ms d' where f: "FeedAll Decoder_init chunks = (ms, d')" by fastforce
  have "run_chunks drain_buffer [] chunks = (map wire_message msgs, t)"
    using assms by (intro wire.chunks) (auto simp: Encode_concat wire.partial_def)
  with FeedAll_run_chunks [OF dec_inv_init f] f show ?thesis by (simp add: Decoder_init_def)
qed

theorem decoder_chunking_witness:
  "fst (FeedAll Decoder_init [take 30 (EncodeBatch [sample_message, sample_message]), [],
      drop 30 (EncodeBatch [sample_message, sample_message])])
    = [wire_message sample_message, wire_message sample_message]"
  using decoder_chunking [of "[take 30 (EncodeBatch [sample_message, sample_message]), [],
      drop 30 (EncodeBatch [sample_message, sample_message])]" "[sample_message, sample_message]" "[]"]
    sample_encodable by (simp del: EncodeBatch.simps)

text \<open>
  C13: from any state of the decoder, \<open>TryParseMessage\<close> returns a message exactly when the
  buffered bytes begin with its encoding; then it consumes that encoding and nothing else.
\<close>

theorem decoder_exact:
  assumes "dec_inv d"
  shows "(\<exists>d'. TryParseMessage d = (d', Some m) \<and> buffer d' = r) \<longleftrightarrow>
    encodable m \<and> wire_message m = m \<and> buffer d = Encode m @ r"
proof -
  obtain d' out where t: "TryParseMessage d = (d', out)" by fastforce
  note ref = TryParseMessage_refines(2) [OF assms t]
  have "(\<exists>d'. TryParseMessage d = (d', Some m) \<and> buffer d' = r) \<longleftrightarrow> next_frame (buffer d) = Frame m r"
    using t ref by (auto split: outcome.splits)
  also have "\<dots> \<longleftrightarrow> encodable m \<and> wire_message m = m \<and> buffer d = Encode m @ r"
    using next_frame_sound [of "buffer d" m r] next_frame_Encode [of m r] by auto
  finally show ?thesis .
qed

theorem decoder_exact_witness:
  "\<exists>d'. TryParseMessage (Decoder_init\<lparr>buffer := Encode (wire_message sample_message) @ ''xy''\<rparr>)
     = (d', Some (wire_message sample_message)) \<and> buffer d' = ''xy''"
  by (subst decoder_exact)
    (use sample_encodable in \<open>auto simp: dec_inv_def Decoder_init_def encodable_def IsValid_def
      wire_message_def wire_header_idem [unfolded wire_message_def]\<close>)

text \<open>
  C38: a frame whose body or data was changed within at most four consecutive bytes is never
  delivered, whatever follows it: the decoder drops one byte and looks for a header again.
\<close>

theorem decoder_rejects_burst:
  assumes "dec_inv d" and "buffer d = pre @ ys @ post @ r"
    and "encodable m" and "Encode m = pre @ xs @ post" and "24 \<le> length pre"
    and "length xs = length ys" and "length xs \<le> 4" and "xs \<noteq> ys"
  shows "\<exists>d'. TryParseMessage d = (d', None) \<and> buffer d' = tl (buffer d) \<and> dstate d' = kWaitHeader"
proof -
  obtain d' out where t: "TryParseMessage d = (d', out)" by fastforce
  from TryParseMessage_refines(2) [OF assms(1) t] corrupted_next_frame [OF assms(3-8), of r]
  show ?thesis using assms(2) t by simp
qed

theorem decoder_rejects_burst_witness:
  "\<exists>d'. TryParseMessage (Decoder_init\<lparr>buffer :=
      EncodeTo (wire_header sample_message) @ ''{}'' @ ''dXYa''\<rparr>) = (d', None) \<and> dstate d' = kWaitHeader"
  using decoder_rejects_burst [of "Decoder_init\<lparr>buffer :=
      EncodeTo (wire_header sample_message) @ ''{}'' @ ''dXYa''\<rparr>"
      "EncodeTo (wire_header sample_message) @ ''{}d''" "''XY''" "''a''" "[]" sample_message "''at''"]
    sample_encodable
  by (auto simp: dec_inv_def Decoder_init_def Encode_wire) (auto simp: sample_message_def)

text \<open>
  on an arbitrary stream, every message the decoder delivers stands in the stream as its exact
  encoding, in the order delivered and without overlap; every other byte is either still buffered
  or was skipped, and each call of \<open>Feed\<close> skips at most one byte.
\<close>

theorem decoder_accounts_for_stream:
  "\<exists>k \<le> length chunks. parses (concat chunks) (fst (FeedAll Decoder_init chunks)) k
     (buffer (snd (FeedAll Decoder_init chunks)))"
proof -
  obtain ms d' where f: "FeedAll Decoder_init chunks = (ms, d')" by fastforce
  from FeedAll_run_chunks [OF dec_inv_init f] have "run_chunks drain_buffer [] chunks = (ms, buffer d')"
    by (simp add: Decoder_init_def)
  from parses_chunks [OF this] f show ?thesis by simp
qed

text \<open>
  one stray byte before a message stalls the decoder: the call that receives both delivers
  nothing, although the complete message is in its buffer, and the message only comes out of a
  later call, even one that brings no data.
\<close>

theorem decoder_stray_byte_stalls:
  assumes "encodable m"
  shows "fst (FeedAll Decoder_init [c # Encode m]) = []
    \<and> buffer (snd (FeedAll Decoder_init [c # Encode m])) = Encode m
    \<and> fst (FeedAll Decoder_init [c # Encode m, []]) = [wire_message m]"
proof -
  have "magic (fst (DecodeFrom (c # Encode m))) \<noteq> kProtocolMagic"
  proof
    assume a: "magic (fst (DecodeFrom (c # Encode m))) = kProtocolMagic"
    have "Encode m = byte (drop_bit 8 kProtocolMagic) # tl (Encode m)"
      using assms by (simp add: Encode_wire EncodeTo_def put16_def encodable_def IsValid_def)
    moreover have "byte (drop_bit 8 kProtocolMagic) = CHR ''M''"
      by (simp add: kProtocolMagic_def byte_def char_of_def bit_Suc_0_iff)
    ultimately obtain s where "Encode m = CHR ''M'' # s" by simp
    with a have "get16 (c # CHR ''M'' # s) = 0x4D46"
      by (simp add: DecodeFrom_def Let_def kProtocolMagic_def)
    with put16_get16 [of "c # CHR ''M'' # s"] have "CHR ''M'' = byte (0x4D46 :: u16)"
      by (simp add: put16_def)
    then show False by (simp add: byte_def char_of_def bit_numeral_rec)
  qed
  then have skip: "drain_buffer (c # Encode m) = ([], Encode m)"
    by (subst drain_buffer_unfold) (auto simp: next_frame_def Let_def DecodeFrom_def)
  have frame: "drain_buffer (Encode m) = ([wire_message m], [])"
    using wire.drain_batch [of "[m]" "[]"] assms by (simp add: wire.partial_def)
  obtain ms1 d1 where f1: "FeedAll Decoder_init [c # Encode m] = (ms1, d1)" by fastforce
  obtain ms2 d2 where f2: "FeedAll Decoder_init [c # Encode m, []] = (ms2, d2)" by fastforce
  from FeedAll_run_chunks [OF dec_inv_init f1] FeedAll_run_chunks [OF dec_inv_init f2]
  show ?thesis using f1 f2 skip frame by (simp add: Decoder_init_def)
qed

theorem decoder_stray_byte_stalls_witness:
  "fst (FeedAll Decoder_init [CHR ''x'' # Encode sample_message]) = []"
  using decoder_stray_byte_stalls [OF sample_encodable] by simp

end
