(* ===== verification/Database.thy ===== *)
theory Database
  imports Prelude
begin

text \<open>
  The two tables of \<open>database/schema.sql\<close> and the data access objects \<open>database/user_dao.cc\<close>
  and \<open>database/file_dao.cc\<close>. A table is the list of its rows in insertion order; each prepared
  statement of the source is the operation its SQL text says.

  The server is not part of the program, so what it decides is a parameter of the state: the
  collation of string comparisons (\<open>collate\<close> maps a string to its key: two strings are equal to
  the server when their keys are), the clock, and which calls fail. \<open>db_faults\<close> holds one entry
  per data access operation: no connection from the pool, or a statement that the server
  rejects; none means success. The server is in strict mode: a value that does not fit its column
  is an error, never a silent truncation.
\<close>

section \<open>Entities and tables\<close>

record User =
  uid :: int
  username :: string
  password :: string
  token :: string
  create_time :: string

definition User_new :: "string \<Rightarrow> string \<Rightarrow> User" where
  "User_new name pwd = \<lparr>uid = 0, username = name, password = pwd, token = [], create_time = []\<rparr>"

record FileInfo =
  fid :: int
  fuser_id :: int
  filename :: string
  filepath :: string
  filesize :: int
  upload_size :: int
  md5 :: string
  status :: int
  fcreate_time :: string

definition FileInfo_default :: FileInfo where
  "FileInfo_default = \<lparr>fid = 0, fuser_id = 0, filename = [], filepath = [], filesize = 0,
     upload_size = 0, md5 = [], status = 0, fcreate_time = []\<rparr>"

definition IsUploading :: "FileInfo \<Rightarrow> bool" where "IsUploading f \<longleftrightarrow> status f = 0"
definition IsCompleted :: "FileInfo \<Rightarrow> bool" where "IsCompleted f \<longleftrightarrow> status f = 1"
definition IsDeleted :: "FileInfo \<Rightarrow> bool" where "IsDeleted f \<longleftrightarrow> status f = 2"

datatype db_fault = ConnNull | StmtFails

record db =
  users :: "User list"
  next_user :: int
  file_rows :: "FileInfo list"
  next_file :: int
  collate :: "string \<Rightarrow> string"
  now :: string
  db_faults :: "db_fault option list"

definition next_fault :: "db \<Rightarrow> db_fault option \<times> db" where
  "next_fault d = (case db_faults d of [] \<Rightarrow> (None, d) | f # fs \<Rightarrow> (f, d\<lparr>db_faults := fs\<rparr>))"

text \<open>\<open>INT\<close> columns.\<close>

definition int32 :: "int \<Rightarrow> bool" where
  "int32 n \<longleftrightarrow> - (2 ^ 31) \<le> n \<and> n < 2 ^ 31"

section \<open>User table\<close>

text \<open>
  A row is fetched into fixed buffers: a value that does not fit makes \<open>mysql_stmt_fetch\<close> report
  truncation, which the code takes for the end of the result, and a buffer is read back as a C
  string.
\<close>

definition user_fits :: "User \<Rightarrow> bool" where
  "user_fits r \<longleftrightarrow> length (username r) \<le> 64 \<and> length (password r) \<le> 128
     \<and> length (token r) \<le> 128 \<and> length (create_time r) \<le> 31"

definition user_of_row :: "User \<Rightarrow> User" where
  "user_of_row r = r\<lparr>username := cstr (username r), password := cstr (password r),
     token := cstr (token r), create_time := cstr (create_time r)\<rparr>"

definition fetch_user :: "User list \<Rightarrow> User option" where
  "fetch_user rows = (case rows of [] \<Rightarrow> None | r # _ \<Rightarrow>
     if user_fits r then Some (user_of_row r) else None)"

definition UserDAO_Insert :: "db \<Rightarrow> User \<Rightarrow> db \<times> int" where
  "UserDAO_Insert d u =
     (let (f, d) = next_fault d in
        case f of
          Some ConnNull \<Rightarrow> (d, -1)
        | Some StmtFails \<Rightarrow> (d, -1)
        | None \<Rightarrow>
            if \<exists>r \<in> set (users d). collate d (username r) = collate d (username u) then (d, -2)
            else if \<not> int32 (next_user d) then (d, -1)
            else (d\<lparr>users := users d @ [u\<lparr>uid := next_user d, create_time := now d\<rparr>],
                    next_user := next_user d + 1\<rparr>, next_user d))"

definition UserDAO_FindByUsername :: "db \<Rightarrow> string \<Rightarrow> db \<times> User option" where
  "UserDAO_FindByUsername d name =
     (let (f, d) = next_fault d in
        if f \<noteq> None then (d, None)
        else (d, fetch_user (filter (\<lambda>r. collate d (username r) = collate d name) (users d))))"

definition UserDAO_FindById :: "db \<Rightarrow> int \<Rightarrow> db \<times> User option" where
  "UserDAO_FindById d i =
     (let (f, d) = next_fault d in
        if f \<noteq> None then (d, None)
        else (d, fetch_user (filter (\<lambda>r. uid r = i) (users d))))"

definition UserDAO_UpdateToken :: "db \<Rightarrow> int \<Rightarrow> string \<Rightarrow> db \<times> bool" where
  "UserDAO_UpdateToken d user_id tok =
     (let (f, d) = next_fault d in
        if f \<noteq> None then (d, False)
        else (d\<lparr>users := map (\<lambda>r. if uid r = user_id then r\<lparr>token := tok\<rparr> else r) (users d)\<rparr>, True))"

definition UserDAO_FindByToken :: "db \<Rightarrow> string \<Rightarrow> db \<times> User option" where
  "UserDAO_FindByToken d tok =
     (let (f, d) = next_fault d in
        if f \<noteq> None then (d, None)
        else (d, fetch_user (filter (\<lambda>r. collate d (token r) = collate d tok
                                        \<and> collate d (token r) \<noteq> collate d []) (users d))))"

section \<open>File table\<close>

definition file_fits :: "FileInfo \<Rightarrow> bool" where
  "file_fits r \<longleftrightarrow> length (filename r) \<le> 255 \<and> length (filepath r) \<le> 511
     \<and> length (md5 r) \<le> 64 \<and> length (fcreate_time r) \<le> 31"

definition file_of_row :: "FileInfo \<Rightarrow> FileInfo" where
  "file_of_row r = r\<lparr>filename := cstr (filename r), filepath := cstr (filepath r),
     md5 := cstr (md5 r), fcreate_time := cstr (fcreate_time r)\<rparr>"

definition fetch_file :: "FileInfo list \<Rightarrow> FileInfo option" where
  "fetch_file rows = (case rows of [] \<Rightarrow> None | r # _ \<Rightarrow>
     if file_fits r then Some (file_of_row r) else None)"

text \<open>The statement of \<open>Insert\<close> has \<open>VALUES (?, ?, ?, ?, ?, 0, 0)\<close>: size and status start at 0.\<close>

definition FileDAO_Insert :: "db \<Rightarrow> FileInfo \<Rightarrow> db \<times> int" where
  "FileDAO_Insert d f =
     (let (ft, d) = next_fault d in
        if ft \<noteq> None \<or> \<not> int32 (fuser_id f) \<or> \<not> int32 (next_file d) then (d, -1)
        else (d\<lparr>file_rows := file_rows d @ [f\<lparr>fid := next_file d, upload_size := 0, status := 0,
                                              fcreate_time := now d\<rparr>],
                next_file := next_file d + 1\<rparr>, next_file d))"

definition FileDAO_FindById :: "db \<Rightarrow> int \<Rightarrow> db \<times> FileInfo option" where
  "FileDAO_FindById d file_id =
     (let (ft, d) = next_fault d in
        if ft \<noteq> None then (d, None)
        else (d, fetch_file (filter (\<lambda>r. fid r = file_id) (file_rows d))))"

text \<open>\<open>while (mysql_stmt_fetch(stmt) == 0)\<close>: the loop ends at the first row that is truncated.\<close>

definition FileDAO_FindByUserId :: "db \<Rightarrow> int \<Rightarrow> db \<times> FileInfo list" where
  "FileDAO_FindByUserId d user_id =
     (let (ft, d) = next_fault d in
        if ft \<noteq> None then (d, [])
        else (d, map file_of_row (takeWhile file_fits
               (rev (sort_key fid (filter (\<lambda>r. fuser_id r = user_id \<and> status r \<noteq> 2) (file_rows d)))))))"

definition update_files :: "(FileInfo \<Rightarrow> bool) \<Rightarrow> (FileInfo \<Rightarrow> FileInfo) \<Rightarrow> db \<Rightarrow> db" where
  "update_files P u d = d\<lparr>file_rows := map (\<lambda>r. if P r then u r else r) (file_rows d)\<rparr>"

definition FileDAO_UpdateUploadSize :: "db \<Rightarrow> int \<Rightarrow> int \<Rightarrow> db \<times> bool" where
  "FileDAO_UpdateUploadSize d file_id n =
     (let (ft, d) = next_fault d in
        if ft \<noteq> None then (d, False)
        else (update_files (\<lambda>r. fid r = file_id) (upload_size_update (\<lambda>_. n)) d, True))"

text \<open>
  The guarded update counts the rows it changed; if there is none, a second query decides whether
  the range was confirmed before.
\<close>

definition FileDAO_ConfirmUploadChunk :: "db \<Rightarrow> int \<Rightarrow> int \<Rightarrow> int \<Rightarrow> int \<Rightarrow> db \<times> bool" where
  "FileDAO_ConfirmUploadChunk d file_id user_id off sz =
     (let (ft, d) = next_fault d in
        if ft \<noteq> None then (d, False)
        else let e = off + sz;
                 hit = (\<lambda>r. fid r = file_id \<and> fuser_id r = user_id \<and> status r = 0
                           \<and> upload_size r = off \<and> filesize r \<ge> e);
                 affected = length (filter (\<lambda>r. hit r \<and> upload_size r \<noteq> e) (file_rows d));
                 d = update_files hit (upload_size_update (\<lambda>_. e)) d
             in if affected = 1 then (d, True)
                else case FileDAO_FindById d file_id of
                       (d, None) \<Rightarrow> (d, False)
                     | (d, Some info) \<Rightarrow>
                         (d, fuser_id info = user_id \<and> IsUploading info \<and> upload_size info \<ge> e))"

definition FileDAO_UpdateStatus :: "db \<Rightarrow> int \<Rightarrow> int \<Rightarrow> db \<times> bool" where
  "FileDAO_UpdateStatus d file_id st =
     (let (ft, d) = next_fault d in
        if ft \<noteq> None then (d, False)
        else (update_files (\<lambda>r. fid r = file_id) (status_update (\<lambda>_. st)) d, True))"

definition FileDAO_SoftDelete :: "db \<Rightarrow> int \<Rightarrow> db \<times> bool" where
  "FileDAO_SoftDelete d file_id = FileDAO_UpdateStatus d file_id 2"

definition FileDAO_FindIncompleteByKey ::
  "db \<Rightarrow> int \<Rightarrow> string \<Rightarrow> int \<Rightarrow> string \<Rightarrow> db \<times> FileInfo option" where
  "FileDAO_FindIncompleteByKey d user_id name size0 md5sum =
     (let (ft, d) = next_fault d in
        if ft \<noteq> None then (d, None)
        else (d, fetch_file (take 1 (rev (sort_key fid (filter (\<lambda>r. fuser_id r = user_id
               \<and> collate d (filename r) = collate d name \<and> filesize r = size0
               \<and> collate d (md5 r) = collate d md5sum \<and> status r = 0) (file_rows d)))))))"

section \<open>Well-formed tables\<close>

definition user_clean :: "User \<Rightarrow> bool" where
  "user_clean r \<longleftrightarrow> user_fits r \<and> CHR 0x00 \<notin> set (username r) \<and> CHR 0x00 \<notin> set (password r)
     \<and> CHR 0x00 \<notin> set (token r) \<and> CHR 0x00 \<notin> set (create_time r)"

definition file_clean :: "FileInfo \<Rightarrow> bool" where
  "file_clean r \<longleftrightarrow> file_fits r \<and> CHR 0x00 \<notin> set (filename r) \<and> CHR 0x00 \<notin> set (filepath r)
     \<and> CHR 0x00 \<notin> set (md5 r) \<and> CHR 0x00 \<notin> set (fcreate_time r)"

lemma user_of_row_clean: "user_clean r \<Longrightarrow> user_of_row r = r"
  by (simp add: user_of_row_def user_clean_def cstr_id)

lemma file_of_row_clean: "file_clean r \<Longrightarrow> file_of_row r = r"
  by (simp add: file_of_row_def file_clean_def cstr_id)

definition clock_ok :: "db \<Rightarrow> bool" where
  "clock_ok d \<longleftrightarrow> length (now d) \<le> 31 \<and> CHR 0x00 \<notin> set (now d)"

text \<open>Keys are unique and below the next value of their counters; usernames are unique up to collation.\<close>

definition users_inv :: "db \<Rightarrow> bool" where
  "users_inv d \<longleftrightarrow> distinct (map uid (users d))
     \<and> distinct (map (\<lambda>r. collate d (username r)) (users d))
     \<and> (\<forall>r \<in> set (users d). 0 < uid r \<and> uid r < next_user d) \<and> 0 < next_user d"

definition files_inv :: "db \<Rightarrow> bool" where
  "files_inv d \<longleftrightarrow> distinct (map fid (file_rows d))
     \<and> (\<forall>r \<in> set (file_rows d). 0 < fid r \<and> fid r < next_file d) \<and> 0 < next_file d"

definition users_ok :: "db \<Rightarrow> bool" where
  "users_ok d \<longleftrightarrow> users_inv d \<and> clock_ok d \<and> db_faults d = [] \<and> (\<forall>r \<in> set (users d). user_clean r)"

definition files_ok :: "db \<Rightarrow> bool" where
  "files_ok d \<longleftrightarrow> files_inv d \<and> clock_ok d \<and> db_faults d = [] \<and> (\<forall>r \<in> set (file_rows d). file_clean r)"

definition user_row :: "db \<Rightarrow> int \<Rightarrow> User option" where
  "user_row d i = find (\<lambda>r. uid r = i) (users d)"

definition file_row :: "db \<Rightarrow> int \<Rightarrow> FileInfo option" where
  "file_row d i = find (\<lambda>r. fid r = i) (file_rows d)"

lemma next_fault_snd [simp]:
  "users (snd (next_fault d)) = users d" "file_rows (snd (next_fault d)) = file_rows d"
  "collate (snd (next_fault d)) = collate d" "now (snd (next_fault d)) = now d"
  "next_user (snd (next_fault d)) = next_user d" "next_file (snd (next_fault d)) = next_file d"
  by (simp_all add: next_fault_def split: list.splits)

lemma next_fault_none: "db_faults d = [] \<Longrightarrow> next_fault d = (None, d)"
  by (simp add: next_fault_def)

section \<open>Queries on keyed lists\<close>

lemma find_filter: "find P xs = (case filter P xs of [] \<Rightarrow> None | x # _ \<Rightarrow> Some x)"
  by (induction xs) auto

lemma find_Some_set: "find P xs = Some x \<Longrightarrow> x \<in> set xs \<and> P x"
  by (induction xs) (auto split: if_splits)

lemma find_key:
  "distinct (map k xs) \<Longrightarrow> x \<in> set xs \<Longrightarrow> find (\<lambda>r. k r = k x) xs = Some x"
  by (induction xs) (auto simp: image_iff)

lemma find_key_map:
  assumes "\<And>r. k (u r) = k r"
  shows "find (\<lambda>r. k r = j) (map (\<lambda>r. if P r then u r else r) xs)
    = map_option (\<lambda>r. if P r then u r else r) (find (\<lambda>r. k r = j) xs)"
  by (induction xs) (auto simp: assms)

lemma map_key_update:
  "(\<And>r. k (u r) = k r) \<Longrightarrow> map k (map (\<lambda>r. if P r then u r else r) xs) = map k xs"
  by (induction xs) auto

lemma find_append: "find P (xs @ ys) = (case find P xs of Some x \<Rightarrow> Some x | None \<Rightarrow> find P ys)"
  by (induction xs) auto

lemma find_None_iff': "find P xs = None \<longleftrightarrow> (\<forall>x \<in> set xs. \<not> P x)"
  by (induction xs) auto

lemma fetch_file_ok:
  "\<forall>r \<in> set rows. file_clean r \<Longrightarrow> fetch_file rows = (case rows of [] \<Rightarrow> None | r # _ \<Rightarrow> Some r)"
  by (auto simp: fetch_file_def file_of_row_clean split: list.splits) (simp add: file_clean_def)

lemma fetch_user_ok:
  "\<forall>r \<in> set rows. user_clean r \<Longrightarrow> fetch_user rows = (case rows of [] \<Rightarrow> None | r # _ \<Rightarrow> Some r)"
  by (auto simp: fetch_user_def user_of_row_clean split: list.splits) (simp add: user_clean_def)

section \<open>The interface of the file table\<close>

text \<open>
  What the file service relies on: a lookup by key returns the row, an update changes the row it
  names and no other, an insertion makes a new row that is not yet confirmed.
\<close>

locale file_table =
  fixes row :: "'d \<Rightarrow> int \<Rightarrow> FileInfo option" and ok :: "'d \<Rightarrow> bool"
    and get :: "'d \<Rightarrow> int \<Rightarrow> 'd \<times> FileInfo option"
    and ins :: "'d \<Rightarrow> FileInfo \<Rightarrow> 'd \<times> int"
    and set_size :: "'d \<Rightarrow> int \<Rightarrow> int \<Rightarrow> 'd \<times> bool"
    and set_status :: "'d \<Rightarrow> int \<Rightarrow> int \<Rightarrow> 'd \<times> bool"
  assumes get: "ok d \<Longrightarrow> get d i = (d, row d i)"
    and row_key: "ok d \<Longrightarrow> row d i = Some r \<Longrightarrow> fid r = i"
    and ins_row: "ok d \<Longrightarrow> file_clean f \<Longrightarrow> 0 < snd (ins d f) \<Longrightarrow>
      row d (snd (ins d f)) = None \<and> ok (fst (ins d f))
      \<and> (\<exists>t. row (fst (ins d f)) = (row d)(snd (ins d f) \<mapsto>
           f\<lparr>fid := snd (ins d f), upload_size := 0, status := 0, fcreate_time := t\<rparr>))"
    and set_size_row: "ok d \<Longrightarrow> ok (fst (set_size d i n)) \<and> snd (set_size d i n)
      \<and> row (fst (set_size d i n)) = (row d)(i := map_option (upload_size_update (\<lambda>_. n)) (row d i))"
    and set_status_row: "ok d \<Longrightarrow> ok (fst (set_status d i n)) \<and> snd (set_status d i n)
      \<and> row (fst (set_status d i n)) = (row d)(i := map_option (status_update (\<lambda>_. n)) (row d i))"
begin

lemma get_after_size:
  "ok d \<Longrightarrow> row d i = Some r \<Longrightarrow>
   get (fst (set_size d i n)) i = (fst (set_size d i n), Some (r\<lparr>upload_size := n\<rparr>))"
  by (simp add: get set_size_row)

lemma get_after_status:
  "ok d \<Longrightarrow> row d i = Some r \<Longrightarrow>
   get (fst (set_status d i n)) i = (fst (set_status d i n), Some (r\<lparr>status := n\<rparr>))"
  by (simp add: get set_status_row)

lemma get_other:
  "ok d \<Longrightarrow> j \<noteq> i \<Longrightarrow> snd (get (fst (set_size d i n)) j) = snd (get d j)"
  "ok d \<Longrightarrow> j \<noteq> i \<Longrightarrow> snd (get (fst (set_status d i n)) j) = snd (get d j)"
  by (simp_all add: get set_size_row set_status_row)

end

lemma update_files_row:
  assumes "\<And>r. fid (u r) = fid r"
  shows "file_row (update_files P u d) i = map_option (\<lambda>r. if P r then u r else r) (file_row d i)"
  by (simp add: file_row_def update_files_def find_key_map assms)

lemma update_files_ok:
  assumes "files_ok d" and "\<And>r. fid (u r) = fid r" and "\<And>r. file_clean (u r) = file_clean r"
  shows "files_ok (update_files P u d)"
proof -
  have "map (fid \<circ> (\<lambda>r. if P r then u r else r)) (file_rows d) = map fid (file_rows d)"
    using assms(2) by simp
  with assms show ?thesis
    by (auto simp: files_ok_def files_inv_def update_files_def clock_ok_def simp del: map_eq_conv)
qed

lemma file_clean_updates [simp]:
  "file_clean (upload_size_update f r) = file_clean r" "file_clean (status_update f r) = file_clean r"
  "file_clean (r\<lparr>fid := i\<rparr>) = file_clean r"
  by (simp_all add: file_clean_def file_fits_def)

lemma file_row_key: "file_row d i = Some r \<Longrightarrow> fid r = i \<and> r \<in> set (file_rows d)"
  by (auto simp: file_row_def dest: find_Some_set)

lemma file_row_update:
  "map_option (\<lambda>r. if fid r = i then u r else r) (file_row d j)
     = ((file_row d)(i := map_option u (file_row d i))) j"
  by (cases "file_row d j") (auto dest: file_row_key)

lemma FindById_ok: "files_ok d \<Longrightarrow> FileDAO_FindById d i = (d, file_row d i)"
  by (auto simp: FileDAO_FindById_def files_ok_def next_fault_none fetch_file_ok file_row_def find_filter)

lemma Insert_ok:
  assumes "files_ok d" and "file_clean f" and "0 < snd (FileDAO_Insert d f)"
  shows "file_row d (snd (FileDAO_Insert d f)) = None" and "files_ok (fst (FileDAO_Insert d f))"
    and "file_row (fst (FileDAO_Insert d f)) = (file_row d)(snd (FileDAO_Insert d f) \<mapsto>
      f\<lparr>fid := snd (FileDAO_Insert d f), upload_size := 0, status := 0, fcreate_time := now d\<rparr>)"
proof -
  let ?r = "f\<lparr>fid := next_file d, upload_size := 0, status := 0, fcreate_time := now d\<rparr>"
  from assms have i: "FileDAO_Insert d f = (d\<lparr>file_rows := file_rows d @ [?r],
      next_file := next_file d + 1\<rparr>, next_file d)"
    by (auto simp: FileDAO_Insert_def Let_def files_ok_def next_fault_none split: if_splits)
  from assms(1) have lt: "fid r < next_file d" if "r \<in> set (file_rows d)" for r
    using that by (auto simp: files_ok_def files_inv_def)
  then show none: "file_row d (snd (FileDAO_Insert d f)) = None"
    by (force simp: i file_row_def find_None_iff')
  have "file_clean ?r"
    using assms(1,2) by (auto simp: file_clean_def file_fits_def files_ok_def clock_ok_def)
  then show "files_ok (fst (FileDAO_Insert d f))"
    using assms(1) by (force simp: i files_ok_def files_inv_def clock_ok_def)
  show "file_row (fst (FileDAO_Insert d f)) = (file_row d)(snd (FileDAO_Insert d f) \<mapsto>
      f\<lparr>fid := snd (FileDAO_Insert d f), upload_size := 0, status := 0, fcreate_time := now d\<rparr>)"
    using none by (auto simp: i file_row_def find_append fun_eq_iff split: option.splits)
qed

interpretation ftab: file_table file_row files_ok FileDAO_FindById FileDAO_Insert
  FileDAO_UpdateUploadSize FileDAO_UpdateStatus
proof unfold_locales
  fix d i n assume ok: "files_ok d"
  then have f: "next_fault d = (None, d)" by (simp add: files_ok_def next_fault_none)
  from ok show "FileDAO_FindById d i = (d, file_row d i)" by (rule FindById_ok)
  show "files_ok (fst (FileDAO_UpdateUploadSize d i n)) \<and> snd (FileDAO_UpdateUploadSize d i n)
      \<and> file_row (fst (FileDAO_UpdateUploadSize d i n))
        = (file_row d)(i := map_option (upload_size_update (\<lambda>_. n)) (file_row d i))"
    using ok by (auto simp: FileDAO_UpdateUploadSize_def f update_files_ok update_files_row
        file_row_update)
  show "files_ok (fst (FileDAO_UpdateStatus d i n)) \<and> snd (FileDAO_UpdateStatus d i n)
      \<and> file_row (fst (FileDAO_UpdateStatus d i n))
        = (file_row d)(i := map_option (status_update (\<lambda>_. n)) (file_row d i))"
    using ok by (auto simp: FileDAO_UpdateStatus_def f update_files_ok update_files_row
        file_row_update)
qed (use Insert_ok file_row_key in blast)+

section \<open>Invariants of the tables under every outcome\<close>

text \<open>
  No connection, a rejected statement, a full counter: whatever happens, the keys stay unique, the
  usernames stay unique and no confirmed length passes the length of its file.
\<close>

definition progress :: "db \<Rightarrow> bool" where
  "progress d \<longleftrightarrow> (\<forall>r \<in> set (file_rows d). 0 \<le> upload_size r \<and> upload_size r \<le> filesize r)"

lemma users_inv_Insert: "users_inv d \<Longrightarrow> users_inv (fst (UserDAO_Insert d u))"
  by (auto simp: users_inv_def UserDAO_Insert_def Let_def case_prod_unfold
      split: option.splits db_fault.splits)

lemma map_update_same:
  "(\<And>r. g (u r) = g r) \<Longrightarrow> map (g \<circ> (\<lambda>r. if P r then u r else r)) xs = map g xs"
  by simp

lemma users_inv_UpdateToken: "users_inv d \<Longrightarrow> users_inv (fst (UserDAO_UpdateToken d i t))"
proof -
  assume u: "users_inv d"
  let ?g = "\<lambda>r. if uid r = i then r\<lparr>token := t\<rparr> else r"
  have "map (uid \<circ> ?g) (users d) = map uid (users d)"
    "map ((\<lambda>r. collate d (username r)) \<circ> ?g) (users d) = map (\<lambda>r. collate d (username r)) (users d)"
    by simp_all
  with u show ?thesis
    by (auto simp: users_inv_def UserDAO_UpdateToken_def Let_def case_prod_unfold comp_def simp del: map_eq_conv)
qed

lemma find_state [simp]:
  "users (fst (UserDAO_FindByUsername d n)) = users d" "users (fst (UserDAO_FindById d i)) = users d"
  "users (fst (UserDAO_FindByToken d t)) = users d"
  "file_rows (fst (FileDAO_FindById d i)) = file_rows d" "next_file (fst (FileDAO_FindById d i)) = next_file d"
  by (simp_all add: UserDAO_FindByUsername_def UserDAO_FindById_def UserDAO_FindByToken_def
      FileDAO_FindById_def Let_def case_prod_unfold)

lemma files_inv_update:
  assumes "files_inv d" and "\<And>r. fid (u r) = fid r"
  shows "files_inv (update_files P u d)"
proof -
  have "map (fid \<circ> (\<lambda>r. if P r then u r else r)) (file_rows d) = map fid (file_rows d)"
    using assms(2) by (rule map_update_same)
  with assms show ?thesis
    by (auto simp: files_inv_def update_files_def simp del: map_eq_conv)
qed

lemma progress_update:
  "progress d \<Longrightarrow> (\<And>r. P r \<Longrightarrow> 0 \<le> upload_size r \<Longrightarrow> upload_size r \<le> filesize r \<Longrightarrow>
     0 \<le> upload_size (u r) \<and> upload_size (u r) \<le> filesize (u r)) \<Longrightarrow> progress (update_files P u d)"
  by (auto simp: progress_def update_files_def)

lemma fault_invs [simp]:
  "users_inv (snd (next_fault d)) = users_inv d" "files_inv (snd (next_fault d)) = files_inv d"
  "progress (snd (next_fault d)) = progress d" "file_row (snd (next_fault d)) i = file_row d i"
  by (simp_all add: users_inv_def files_inv_def progress_def file_row_def)

lemma files_inv_FileInsert: "files_inv d \<Longrightarrow> files_inv (fst (FileDAO_Insert d f))"
  by (auto simp: files_inv_def FileDAO_Insert_def Let_def case_prod_unfold)

section \<open>The confirmed prefix\<close>

lemma filter_key:
  "distinct (map k xs) \<Longrightarrow> filter (\<lambda>r. k r = i \<and> Q r) xs =
   (case find (\<lambda>r. k r = i) xs of None \<Rightarrow> [] | Some r \<Rightarrow> if Q r then [r] else [])"
proof (induction xs)
  case (Cons x xs)
  show ?case
  proof (cases "k x = i")
    case True
    with Cons.prems have "filter (\<lambda>r. k r = i \<and> Q r) xs = []"
      by (auto simp: filter_empty_conv image_iff)
    with True show ?thesis by simp
  qed (use Cons in simp)
qed simp

text \<open>The row a guarded update may hit, and what the call then reports.\<close>

definition confirms :: "FileInfo \<Rightarrow> int \<Rightarrow> int \<Rightarrow> int \<Rightarrow> bool" where
  "confirms r user_id off sz \<longleftrightarrow> fuser_id r = user_id \<and> status r = 0 \<and> upload_size r = off
     \<and> off + sz \<le> filesize r"

definition confirm_db :: "db \<Rightarrow> int \<Rightarrow> int \<Rightarrow> int \<Rightarrow> int \<Rightarrow> db" where
  "confirm_db d i user_id off sz =
     update_files (\<lambda>r. fid r = i \<and> confirms r user_id off sz) (upload_size_update (\<lambda>_. off + sz)) d"

lemma confirm_db_row:
  "file_row (confirm_db d i user_id off sz) j = map_option
     (\<lambda>r. if fid r = i \<and> confirms r user_id off sz then r\<lparr>upload_size := off + sz\<rparr> else r) (file_row d j)"
  by (simp add: confirm_db_def update_files_row)

lemma confirm_affected:
  assumes "files_inv d"
  shows "(length (filter (\<lambda>r. (fid r = i \<and> fuser_id r = user_id \<and> status r = 0 \<and> upload_size r = off
           \<and> off + sz \<le> filesize r) \<and> upload_size r \<noteq> off + sz) (file_rows d)) = 1)
    \<longleftrightarrow> (\<exists>r. file_row d i = Some r \<and> confirms r user_id off sz \<and> sz \<noteq> 0)"
proof -
  have "filter (\<lambda>r. (fid r = i \<and> fuser_id r = user_id \<and> status r = 0 \<and> upload_size r = off
           \<and> off + sz \<le> filesize r) \<and> upload_size r \<noteq> off + sz) (file_rows d)
    = filter (\<lambda>r. fid r = i \<and> confirms r user_id off sz \<and> sz \<noteq> 0) (file_rows d)"
    by (rule filter_cong) (auto simp: confirms_def)
  then show ?thesis
    using assms filter_key [of fid "file_rows d" i "\<lambda>r. confirms r user_id off sz \<and> sz \<noteq> 0"]
    by (auto simp: files_inv_def file_row_def split: option.splits)
qed

lemma confirm_cases:
  assumes "files_inv d" and c: "FileDAO_ConfirmUploadChunk d i user_id off sz = (d', ok)"
  shows "(file_rows d' = file_rows d \<and> \<not> ok)
    \<or> (file_rows d' = file_rows (confirm_db d i user_id off sz)
        \<and> (ok \<longrightarrow> (\<exists>r. file_row d i = Some r \<and> confirms r user_id off sz \<and> sz \<noteq> 0) \<or>
             (\<exists>r info. fetch_file [r] = Some info \<and> r \<in> set (file_rows d') \<and> fid r = i
               \<and> fuser_id info = user_id \<and> IsUploading info \<and> off + sz \<le> upload_size info)))"
proof -
  let ?d = "snd (next_fault d)"
  have inv: "files_inv ?d" and rows: "file_row ?d i = file_row d i"
    using assms(1) by simp_all
  let ?hit = "\<lambda>r. fid r = i \<and> fuser_id r = user_id \<and> status r = 0 \<and> upload_size r = off
    \<and> filesize r \<ge> off + sz"
  have u: "update_files ?hit (upload_size_update (\<lambda>_. off + sz)) ?d = confirm_db ?d i user_id off sz"
    by (simp add: confirm_db_def confirms_def)
  have same: "file_rows (confirm_db ?d j v off sz) = file_rows (confirm_db d j v off sz)" for j v
    by (simp add: confirm_db_def update_files_def)
  have find: "r = fst (FileDAO_FindById e i) \<Longrightarrow> snd (FileDAO_FindById e i) = Some info \<Longrightarrow>
      \<exists>q. fetch_file [q] = Some info \<and> q \<in> set (file_rows e) \<and> fid q = i" for r e info
    by (auto simp: FileDAO_FindById_def Let_def case_prod_unfold fetch_file_def dest!: filter_eq_ConsD
        split: if_splits list.splits)
  show ?thesis
    using c confirm_affected [OF inv, of i user_id off sz]
    by (auto simp: FileDAO_ConfirmUploadChunk_def Let_def case_prod_unfold u same rows
        split: if_splits option.splits dest!: find [OF refl])
qed


text \<open>The outcome on a healthy connection, by the row that the key names.\<close>

lemma update_files_none: "(\<And>r. r \<in> set (file_rows d) \<Longrightarrow> \<not> P r) \<Longrightarrow> update_files P u d = d"
  by (simp add: update_files_def cong: map_cong)

lemma files_ok_confirm: "files_ok d \<Longrightarrow> files_ok (confirm_db d i user_id off sz)"
  by (simp add: confirm_db_def update_files_ok)

lemma confirm_healthy:
  assumes ok: "files_ok d"
  shows "FileDAO_ConfirmUploadChunk d i user_id off sz = (confirm_db d i user_id off sz,
    case file_row d i of None \<Rightarrow> False
    | Some r \<Rightarrow> confirms r user_id off sz \<or> (fuser_id r = user_id \<and> status r = 0 \<and> off + sz \<le> upload_size r))"
proof -
  have u: "update_files (\<lambda>r. fid r = i \<and> fuser_id r = user_id \<and> status r = 0 \<and> upload_size r = off
      \<and> filesize r \<ge> off + sz) (upload_size_update (\<lambda>_. off + sz)) d = confirm_db d i user_id off sz"
    by (simp add: confirm_db_def confirms_def)
  from ok have f: "next_fault d = (None, d)" and inv: "files_inv d"
    by (simp_all add: files_ok_def next_fault_none)
  show ?thesis
    using confirm_affected [OF inv, of i user_id off sz] file_row_key [of d i]
    by (auto simp: FileDAO_ConfirmUploadChunk_def Let_def f u FindById_ok [OF files_ok_confirm [OF ok]]
        confirm_db_row confirms_def IsUploading_def split: option.splits)
qed

fun confirm_seq :: "db \<Rightarrow> int \<Rightarrow> int \<Rightarrow> int \<Rightarrow> int list \<Rightarrow> db \<times> bool" where
  "confirm_seq d i user_id off [] = (d, True)"
| "confirm_seq d i user_id off (n # ns) =
     (case FileDAO_ConfirmUploadChunk d i user_id off n of
        (d, ok) \<Rightarrow> (case confirm_seq d i user_id (off + n) ns of (d, oks) \<Rightarrow> (d, ok \<and> oks)))"

lemma confirm_seq_row:
  assumes "files_ok d" and "file_row d i = Some r" and "fuser_id r = user_id" and "status r = 0"
    and "upload_size r = off" and "\<forall>n \<in> set ns. 0 \<le> n" and "off + sum_list ns \<le> filesize r"
  shows "snd (confirm_seq d i user_id off ns)
    \<and> file_row (fst (confirm_seq d i user_id off ns)) i = Some (r\<lparr>upload_size := off + sum_list ns\<rparr>)"
  using assms
proof (induction ns arbitrary: d r off)
  case (Cons n ns)
  from Cons.prems(6) have "0 \<le> sum_list ns" by (simp add: sum_list_nonneg)
  with Cons.prems have c: "confirms r user_id off n" by (auto simp: confirms_def)
  have "file_row (confirm_db d i user_id off n) i = Some (r\<lparr>upload_size := off + n\<rparr>)"
    using Cons.prems(2) file_row_key [of d i r] c by (simp add: confirm_db_row)
  from Cons.IH [OF files_ok_confirm this] Cons.prems c show ?case
    by (simp add: confirm_healthy case_prod_unfold add.assoc)
qed auto

lemma confirm_chunk_safe:
  assumes "files_inv d" and "progress d" and "0 \<le> sz"
    and c: "FileDAO_ConfirmUploadChunk d i user_id off sz = (d', ok)"
  shows "files_inv d' \<and> progress d'
    \<and> (\<forall>j r. file_row d j = Some r \<longrightarrow> (\<exists>n \<ge> upload_size r. file_row d' j = Some (r\<lparr>upload_size := n\<rparr>)
          \<and> (j \<noteq> i \<longrightarrow> n = upload_size r)))
    \<and> (ok \<longrightarrow> (\<exists>r \<in> set (file_rows d'). fid r = i \<and> fuser_id r = user_id \<and> IsUploading r
          \<and> off + sz \<le> upload_size r))"
proof -
  let ?e = "confirm_db d i user_id off sz"
  have e: "progress ?e" "files_inv ?e"
    using assms(1-3) by (auto simp: confirm_db_def confirms_def intro!: files_inv_update progress_update)
  have nf: "next_file d' = next_file d"
    using c by (auto simp: FileDAO_ConfirmUploadChunk_def Let_def case_prod_unfold update_files_def
        split: if_splits option.splits)
  have rows: "file_row ?e j = Some (r\<lparr>upload_size := if confirms r user_id off sz \<and> j = i then off + sz
      else upload_size r\<rparr>)" if "file_row d j = Some r" for j r
    using that file_row_key [OF that] by (simp add: confirm_db_row)
  have hit: "\<exists>q \<in> set (file_rows ?e). fid q = i \<and> fuser_id q = user_id \<and> IsUploading q \<and> off + sz \<le> upload_size q"
    if "file_row d i = Some r" "confirms r user_id off sz" for r
    using file_row_key [OF rows [OF that(1)]] file_row_key [OF that(1)] that(2)
    by (intro bexI [of _ "r\<lparr>upload_size := off + sz\<rparr>"]) (auto simp: confirms_def IsUploading_def)
  show ?thesis using confirm_cases [OF assms(1) c]
  proof
    assume "file_rows d' = file_rows d \<and> \<not> ok"
    with nf assms(1,2) show ?thesis
      by (auto simp: files_inv_def progress_def file_row_def intro: exI [of _ "upload_size _"])
  next
    assume r: "file_rows d' = file_rows ?e \<and> (ok \<longrightarrow>
      (\<exists>r. file_row d i = Some r \<and> confirms r user_id off sz \<and> sz \<noteq> 0) \<or>
      (\<exists>r info. fetch_file [r] = Some info \<and> r \<in> set (file_rows d') \<and> fid r = i
               \<and> fuser_id info = user_id \<and> IsUploading info \<and> off + sz \<le> upload_size info))"
    then have "file_row d' = file_row ?e" by (simp add: file_row_def fun_eq_iff)
    moreover have "\<exists>n \<ge> upload_size r. file_row ?e j = Some (r\<lparr>upload_size := n\<rparr>)
        \<and> (j \<noteq> i \<longrightarrow> n = upload_size r)" if "file_row d j = Some r" for j r
      by (intro exI [of _ "if confirms r user_id off sz \<and> j = i then off + sz else upload_size r"])
        (use rows [OF that] assms(3) in \<open>auto simp: confirms_def\<close>)
    moreover have "\<exists>r \<in> set (file_rows d'). fid r = i \<and> fuser_id r = user_id \<and> IsUploading r
          \<and> off + sz \<le> upload_size r" if ok
      using r hit that by (fastforce simp: fetch_file_def file_of_row_def IsUploading_def split: if_splits)
    ultimately show ?thesis using nf e r
      by (auto simp: files_inv_def progress_def confirm_db_def update_files_def)
  qed
qed

section \<open>Properties\<close>

definition sample_file :: "int \<Rightarrow> string \<Rightarrow> FileInfo" where
  "sample_file i m = FileInfo_default\<lparr>fid := i, fuser_id := 7, filename := ''a'', filesize := 10, md5 := m\<rparr>"

definition sample_db :: db where
  "sample_db = \<lparr>users = [User_new ''ann'' ''pw''\<lparr>uid := 7, token := ''t''\<rparr>], next_user = 8,
     file_rows = [sample_file 1 ''x'', sample_file 2 ''y''], next_file = 3,
     collate = id, now = ''2024'', db_faults = []\<rparr>"

text \<open>
  no two users ever share an id, or a name up to the collation of the column: registering and
  updating a token keep that, whatever fails, and the id of a new user was not in use.
\<close>

theorem usernames_stay_unique:
  assumes "users_inv d"
  shows "users_inv (fst (UserDAO_Insert d u)) \<and> users_inv (fst (UserDAO_UpdateToken d i t))
    \<and> (0 < snd (UserDAO_Insert d u) \<longrightarrow> user_row d (snd (UserDAO_Insert d u)) = None
         \<and> (\<forall>r \<in> set (users d). collate d (username r) \<noteq> collate d (username u)))"
proof -
  have "user_row d (snd (UserDAO_Insert d u)) = None
      \<and> (\<forall>r \<in> set (users d). collate d (username r) \<noteq> collate d (username u))"
    if "0 < snd (UserDAO_Insert d u)"
    using that assms by (force simp: UserDAO_Insert_def Let_def case_prod_unfold user_row_def
        find_None_iff' users_inv_def split: option.splits db_fault.splits if_splits)
  with users_inv_Insert [OF assms] users_inv_UpdateToken [OF assms] show ?thesis by blast
qed

theorem usernames_stay_unique_witness:
  "users_inv (fst (UserDAO_Insert sample_db (User_new ''bob'' ''pw'')))
     \<and> snd (UserDAO_Insert sample_db (User_new ''bob'' ''pw'')) = 8"
proof -
  have "users_inv sample_db" by (simp add: users_inv_def sample_db_def User_new_def)
  from usernames_stay_unique [OF this, of "User_new ''bob'' ''pw''" 0 "[]"] show ?thesis
    by (simp add: UserDAO_Insert_def next_fault_def sample_db_def User_new_def int32_def)
qed



text \<open>
  on a healthy connection the confirmed prefix grows exactly with the chunks in order: every
  contiguous chunk is accepted and the length is their sum; a chunk that leaves a gap is refused
  and one confirmed before is accepted again, and neither changes the table.
\<close>

theorem ConfirmUploadChunk_prefix:
  assumes "files_ok d" and r: "file_row d i = Some r" and "fuser_id r = user_id" and "status r = 0"
  shows "((\<forall>n \<in> set ns. 0 \<le> n) \<and> upload_size r + sum_list ns \<le> filesize r \<longrightarrow>
      snd (confirm_seq d i user_id (upload_size r) ns)
      \<and> file_row (fst (confirm_seq d i user_id (upload_size r) ns)) i
          = Some (r\<lparr>upload_size := upload_size r + sum_list ns\<rparr>))
    \<and> (upload_size r < off \<and> 0 \<le> sz \<longrightarrow> FileDAO_ConfirmUploadChunk d i user_id off sz = (d, False))
    \<and> (off + sz \<le> upload_size r \<and> 0 < sz \<longrightarrow> FileDAO_ConfirmUploadChunk d i user_id off sz = (d, True))"
proof -
  have k: "q = r" if "q \<in> set (file_rows d)" "fid q = i" for q
    using that assms(1) r find_key [of fid "file_rows d" q]
    by (auto simp: files_ok_def files_inv_def file_row_def)
  have keep: "confirm_db d i user_id off sz = d" if "upload_size r \<noteq> off" for off sz
    unfolding confirm_db_def by (rule update_files_none) (use that k in \<open>auto simp: confirms_def\<close>)
  have "upload_size r < off \<and> 0 \<le> sz \<longrightarrow> FileDAO_ConfirmUploadChunk d i user_id off sz = (d, False)"
    "off + sz \<le> upload_size r \<and> 0 < sz \<longrightarrow> FileDAO_ConfirmUploadChunk d i user_id off sz = (d, True)"
    using assms keep [of off sz] by (auto simp: confirm_healthy confirms_def)
  with confirm_seq_row [OF assms(1) r, of user_id "upload_size r" ns] assms show ?thesis by blast
qed

lemma sample_db_ok: "files_ok sample_db"
  by (simp add: files_ok_def files_inv_def clock_ok_def sample_db_def sample_file_def
      FileInfo_default_def file_clean_def file_fits_def)

lemma sample_db_row: "file_row sample_db 1 = Some (sample_file 1 ''x'')"
  by (simp add: file_row_def sample_db_def sample_file_def)

theorem ConfirmUploadChunk_prefix_witness:
  "snd (confirm_seq sample_db 1 7 0 [4, 0, 6])
     \<and> file_row (fst (confirm_seq sample_db 1 7 0 [4, 0, 6])) 1 = Some (sample_file 1 ''x''\<lparr>upload_size := 10\<rparr>)
     \<and> FileDAO_ConfirmUploadChunk sample_db 1 7 5 2 = (sample_db, False)"
  using ConfirmUploadChunk_prefix [OF sample_db_ok sample_db_row, where ns = "[4, 0, 6]" and user_id = 7
      and off = 5 and sz = 2]
  by (simp add: sample_file_def FileInfo_default_def)

text \<open>
  the listing of a user holds the rows of that user that are not deleted, each once, the
  newest first.
\<close>

theorem FindByUserId_complete:
  assumes "files_ok d"
  shows "\<exists>rows. FileDAO_FindByUserId d u = (d, rows) \<and> sorted (map (\<lambda>r. - fid r) rows) \<and> distinct rows
    \<and> set rows = {r \<in> set (file_rows d). fuser_id r = u \<and> status r \<noteq> 2}"
proof (intro exI conjI)
  let ?keep = "filter (\<lambda>r. fuser_id r = u \<and> status r \<noteq> 2) (file_rows d)"
  have fit: "\<forall>r \<in> set ?keep. file_clean r" and f: "next_fault d = (None, d)"
    using assms by (auto simp: files_ok_def next_fault_none)
  have "map file_of_row (takeWhile file_fits rows) = rows" if "\<forall>r \<in> set rows. file_clean r" for rows
    using that by (induction rows) (auto simp: file_of_row_clean, simp add: file_clean_def)
  from this [of "rev (sort_key fid ?keep)"] fit
  show "FileDAO_FindByUserId d u = (d, rev (sort_key fid ?keep))"
    by (simp add: FileDAO_FindByUserId_def f)
  have "sorted_wrt (\<lambda>x y. fid x \<le> fid y) (sort_key fid ?keep)"
    using sorted_sort_key [of fid ?keep] by (simp add: sorted_map)
  then show "sorted (map (\<lambda>r. - fid r) (rev (sort_key fid ?keep)))"
    by (simp add: sorted_map sorted_wrt_rev)
  show "distinct (rev (sort_key fid ?keep))"
    using assms by (simp add: files_ok_def files_inv_def distinct_map)
qed auto

theorem FindByUserId_complete_witness:
  "\<exists>rows. FileDAO_FindByUserId sample_db 7 = (sample_db, rows) \<and> length rows = 2
     \<and> sorted (map (\<lambda>r. - fid r) rows)"
proof -
  obtain rows where r: "FileDAO_FindByUserId sample_db 7 = (sample_db, rows)"
    "sorted (map (\<lambda>r. - fid r) rows)" "distinct rows"
    "set rows = {r \<in> set (file_rows sample_db). fuser_id r = 7 \<and> status r \<noteq> 2}"
    using FindByUserId_complete [OF sample_db_ok, of 7] by blast
  have "set rows = {sample_file 1 ''x'', sample_file 2 ''y''}"
    unfolding r(4) by (auto simp: sample_db_def sample_file_def FileInfo_default_def)
  moreover have "sample_file 1 ''x'' \<noteq> sample_file 2 ''y''" by (simp add: sample_file_def FileInfo_default_def)
  ultimately have "length rows = 2" using distinct_card [OF r(3)] by simp
  with r show ?thesis by blast
qed

text \<open>
  one row that does not fit the fetch buffers ends the listing: neither it nor any older file
  of the user is returned, although the call reports no error. (A digest of 64 characters that take
  more than one byte each fits its column and not the 64-byte buffer.)
\<close>

theorem FindByUserId_truncated:
  assumes "distinct (map fid (file_rows d))" and "bad \<in> set (file_rows d)" and "fuser_id bad = u"
    and "status bad \<noteq> 2" and "\<not> file_fits bad" and "r \<in> set (snd (FileDAO_FindByUserId d u))"
  shows "fid bad < fid r"
proof -
  let ?rows = "rev (sort_key fid (filter (\<lambda>r. fuser_id r = u \<and> status r \<noteq> 2) (file_rows d)))"
  from assms(2-4) have "bad \<in> set ?rows" by simp
  then obtain xs ys where rows: "?rows = xs @ bad # ys" and "bad \<notin> set xs"
    by (meson split_list_first)
  have "takeWhile file_fits ?rows = takeWhile file_fits xs"
    unfolding rows using assms(5) by (induction xs) auto
  with assms(6) have "r \<in> file_of_row ` set (takeWhile file_fits xs)"
    by (auto simp: FileDAO_FindByUserId_def Let_def case_prod_unfold split: if_splits)
  then obtain x where x: "x \<in> set xs" "r = file_of_row x" by (auto dest: set_takeWhileD)
  have "sorted (map fid (rev ?rows))" by simp
  then have "fid bad \<le> fid x" using x(1) unfolding rows by (auto simp: sorted_append)
  moreover have "fid bad \<noteq> fid x"
  proof
    assume "fid bad = fid x"
    moreover have "x \<in> set (file_rows d)"
      using arg_cong [OF rows, of set] x(1) by auto
    ultimately have "bad = x" using assms(1,2) by (auto simp: distinct_map dest: inj_onD)
    with x(1) \<open>bad \<notin> set xs\<close> show False by simp
  qed
  ultimately show ?thesis using x(2) by (simp add: file_of_row_def)
qed

theorem FindByUserId_truncated_witness:
  "\<forall>r \<in> set (snd (FileDAO_FindByUserId
       (sample_db\<lparr>file_rows := [sample_file 1 ''x'', sample_file 2 (concat (replicate 33 [CHR 0xC3, CHR 0xA9]))]\<rparr>) 7)). 2 < fid r"
proof
  let ?bad = "sample_file 2 (concat (replicate 33 [CHR 0xC3, CHR 0xA9]))"
  let ?d = "sample_db\<lparr>file_rows := [sample_file 1 ''x'', ?bad]\<rparr>"
  fix r assume "r \<in> set (snd (FileDAO_FindByUserId ?d 7))"
  from FindByUserId_truncated [OF _ _ _ _ _ this, of ?bad] show "2 < fid r"
    by (simp add: sample_file_def FileInfo_default_def file_fits_def length_concat sum_list_replicate)
qed

end
