(* ===== verification/UserService.thy ===== *)
theory UserService
  imports Database
begin

text \<open>
  \<open>services/user_service.cc\<close>: registration, login and tokens over the user table. What
  \<open>GenerateToken\<close> reads from the clock and from its generator is an argument. A password is
  stored and compared as the client sends it.
\<close>

section \<open>Tokens\<close>

text \<open>\<open>std::hex\<close>, \<open>setfill('0')\<close>, \<open>setw(16)\<close>: a negative count would print as its unsigned value.\<close>

definition hex16 :: "u64 \<Rightarrow> string" where
  "hex16 w = setw0 16 (show_base 16 (unat w))"

definition GenerateToken :: "u64 \<times> u64 \<Rightarrow> string" where
  "GenerateToken e = (case e of (ms, random) \<Rightarrow> hex16 ms @ hex16 random)"

definition hex_digit :: "char \<Rightarrow> bool" where
  "hex_digit c \<longleftrightarrow> c \<in> set ''0123456789abcdef''"

lemma digit_0: "digit 0 = CHR ''0''"
  by (simp add: digit_def flip: of_char_eq_iff [where 'a = nat])

lemma show_base_lead: "2 \<le> b \<Longrightarrow> b \<le> 16 \<Longrightarrow> 0 < n \<Longrightarrow> hd (show_base b n) \<noteq> CHR ''0''"
proof (induction b n rule: show_base.induct)
  case (1 b n)
  show ?case
  proof (cases "n < b")
    case True
    with 1 digit_inj [of n 0] show ?thesis by (auto simp: show_base.simps [of b n] digit_0)
  next
    case False
    with 1 show ?thesis by (auto simp: show_base.simps [of b n] div_greater_zero_iff)
  qed
qed

lemma dropWhile_zeros:
  assumes "2 \<le> b" and "b \<le> 16"
  shows "dropWhile (\<lambda>c. c = CHR ''0'') (setw0 w (show_base b n)) = (if n = 0 then [] else show_base b n)"
proof (cases "n = 0")
  case False
  with assms show_base_lead [of b n] obtain c cs where "show_base b n = c # cs" "c \<noteq> CHR ''0''"
    by (cases "show_base b n") auto
  with False show ?thesis by (simp add: setw0_def dropWhile_append)
next
  case True
  have "show_base b 0 = [CHR ''0'']" using assms by (simp add: show_base.simps [of b 0] digit_0)
  with True show ?thesis by (simp add: setw0_def dropWhile_append)
qed

lemma setw0_inj:
  assumes "2 \<le> b" and "b \<le> 16" and "setw0 w (show_base b m) = setw0 w (show_base b n)"
  shows "m = n"
proof -
  have "(if m = 0 then [] else show_base b m) = (if n = 0 then [] else show_base b n)"
    using dropWhile_zeros [OF assms(1,2), of w m] dropWhile_zeros [OF assms(1,2), of w n] assms(3) by simp
  then show ?thesis using show_base_inj [OF assms(1,2)] by (metis show_base_nonempty(1))
qed

lemma length_hex16: "length (hex16 w) = 16"
proof -
  have "unat w < 16 ^ 16" using unsigned_less [of w, where 'a = nat] by simp
  then show ?thesis using show_base_length [of 16 "unat w" 16] by (simp add: hex16_def length_setw0)
qed

lemma hex16_inj: "hex16 v = hex16 w \<Longrightarrow> v = w"
  unfolding hex16_def by (drule setw0_inj [rotated 2]) (simp_all add: word_unat_eq_iff)

lemma digit_hex: "d < 16 \<Longrightarrow> hex_digit (digit d)"
proof -
  have "list_all (\<lambda>d. hex_digit (digit d)) [0..<16]" by code_simp
  then show "d < 16 \<Longrightarrow> hex_digit (digit d)" by (simp add: list_all_iff)
qed

lemma hex16_digits: "c \<in> set (hex16 w) \<Longrightarrow> hex_digit c"
proof -
  assume "c \<in> set (hex16 w)"
  then have "c = CHR ''0'' \<or> c \<in> set (show_base 16 (unat w))"
    by (auto simp: hex16_def setw0_def split: if_splits)
  then show ?thesis
    using show_base_digits [of 16 c "unat w"] by (auto simp: digit_hex) (simp add: hex_digit_def)
qed

lemma GenerateToken_facts:
  "length (GenerateToken e) = 32" "\<forall>c \<in> set (GenerateToken e). hex_digit c"
  "GenerateToken e = GenerateToken e' \<Longrightarrow> e = e'"
proof -
  show "length (GenerateToken e) = 32" "\<forall>c \<in> set (GenerateToken e). hex_digit c"
    by (auto simp: GenerateToken_def length_hex16 hex16_digits split: prod.splits)
  assume "GenerateToken e = GenerateToken e'"
  then show "e = e'"
    by (cases e; cases e') (metis GenerateToken_def append_eq_append_conv case_prod_conv hex16_inj length_hex16)
qed

lemma token_no_nul: "CHR 0x00 \<notin> set (GenerateToken e)"
proof
  assume "CHR 0x00 \<in> set (GenerateToken e)"
  with GenerateToken_facts(2) [of e] have "hex_digit (CHR 0x00)" by (rule bspec)
  then show False by (simp add: hex_digit_def)
qed

lemma token_nonempty [simp]: "GenerateToken e \<noteq> []"
  using GenerateToken_facts(1) [of e] by auto

section \<open>Operations\<close>

text \<open>The empty string is failure.\<close>

definition Register :: "db \<Rightarrow> u64 \<times> u64 \<Rightarrow> string \<Rightarrow> string \<Rightarrow> db \<times> string" where
  "Register d e name pwd =
     (if name = [] \<or> pwd = [] then (d, [])
      else if length name > 64 \<or> length pwd > 128 then (d, [])
      else case UserDAO_FindByUsername d name of
             (d, Some existing) \<Rightarrow> (d, [])
           | (d, None) \<Rightarrow>
               (case UserDAO_Insert d (User_new name pwd\<lparr>token := GenerateToken e\<rparr>) of
                  (d, i) \<Rightarrow> if i \<le> 0 then (d, []) else (d, GenerateToken e)))"

definition Login :: "db \<Rightarrow> u64 \<times> u64 \<Rightarrow> string \<Rightarrow> string \<Rightarrow> db \<times> string" where
  "Login d e name pwd =
     (case UserDAO_FindByUsername d name of
        (d, None) \<Rightarrow> (d, [])
      | (d, Some user) \<Rightarrow>
          if password user \<noteq> pwd then (d, [])
          else (case UserDAO_UpdateToken d (uid user) (GenerateToken e) of
                  (d, ok) \<Rightarrow> if \<not> ok then (d, []) else (d, GenerateToken e)))"

definition VerifyToken :: "db \<Rightarrow> string \<Rightarrow> db \<times> int" where
  "VerifyToken d tok =
     (if tok = [] then (d, -1)
      else case UserDAO_FindByToken d tok of (d, None) \<Rightarrow> (d, -1) | (d, Some user) \<Rightarrow> (d, uid user))"

definition GetUserById :: "db \<Rightarrow> int \<Rightarrow> db \<times> User option" where
  "GetUserById d user_id = UserDAO_FindById d user_id"

definition GetUserByUsername :: "db \<Rightarrow> string \<Rightarrow> db \<times> User option" where
  "GetUserByUsername d name = UserDAO_FindByUsername d name"

section \<open>The user table as the service sees it\<close>

lemma filter_case_find:
  "(case filter P xs of [] \<Rightarrow> None | r # _ \<Rightarrow> Some r) = find P xs"
  by (simp add: find_filter)

lemma FindByUsername_ok:
  "users_ok d \<Longrightarrow> UserDAO_FindByUsername d n = (d, find (\<lambda>r. collate d (username r) = collate d n) (users d))"
  by (simp add: UserDAO_FindByUsername_def users_ok_def next_fault_none fetch_user_ok filter_case_find)

lemma FindByToken_ok:
  "users_ok d \<Longrightarrow> collate d tok \<noteq> collate d [] \<Longrightarrow>
   UserDAO_FindByToken d tok = (d, find (\<lambda>r. collate d (token r) = collate d tok) (users d))"
  by (simp add: UserDAO_FindByToken_def users_ok_def next_fault_none fetch_user_ok filter_case_find)
    (metis (mono_tags, lifting))

text \<open>Who is logged in under a token.\<close>

definition holder :: "db \<Rightarrow> string \<Rightarrow> int option" where
  "holder d tok = map_option uid (find (\<lambda>r. collate d (token r) = collate d tok) (users d))"

lemma VerifyToken_ok:
  "users_ok d \<Longrightarrow> collate d tok \<noteq> collate d [] \<Longrightarrow>
   VerifyToken d tok = (d, case holder d tok of Some i \<Rightarrow> i | None \<Rightarrow> -1)"
  by (auto simp: VerifyToken_def FindByToken_ok holder_def split: option.splits)

text \<open>
  What the clock and the generator are relied on for: a new token collates with no token in the
  table, nor with the empty one.
\<close>

definition fresh_token :: "db \<Rightarrow> string \<Rightarrow> bool" where
  "fresh_token d tok \<longleftrightarrow> collate d tok \<noteq> collate d []
     \<and> (\<forall>r \<in> set (users d). collate d (token r) \<noteq> collate d tok)"

definition taken :: "db \<Rightarrow> string \<Rightarrow> bool" where
  "taken d name \<longleftrightarrow> (\<exists>r \<in> set (users d). collate d (username r) = collate d name)"

text \<open>What a client may choose, without a NUL.\<close>

definition credentials :: "string \<Rightarrow> string \<Rightarrow> bool" where
  "credentials name pwd \<longleftrightarrow> name \<noteq> [] \<and> pwd \<noteq> [] \<and> length name \<le> 64 \<and> length pwd \<le> 128
     \<and> CHR 0x00 \<notin> set name \<and> CHR 0x00 \<notin> set pwd"

definition new_user :: "db \<Rightarrow> u64 \<times> u64 \<Rightarrow> string \<Rightarrow> string \<Rightarrow> User" where
  "new_user d e name pwd = User_new name pwd\<lparr>token := GenerateToken e, uid := next_user d, create_time := now d\<rparr>"

definition add_user :: "db \<Rightarrow> User \<Rightarrow> db" where
  "add_user d u = d\<lparr>users := users d @ [u], next_user := next_user d + 1\<rparr>"

definition set_token :: "db \<Rightarrow> int \<Rightarrow> string \<Rightarrow> db" where
  "set_token d i tok = d\<lparr>users := map (\<lambda>r. if uid r = i then r\<lparr>token := tok\<rparr> else r) (users d)\<rparr>"

lemma taken_find: "find (\<lambda>r. collate d (username r) = collate d name) (users d) = None \<longleftrightarrow> \<not> taken d name"
  by (auto simp: find_None_iff' taken_def)

lemma users_ok_faults: "users_ok d \<Longrightarrow> next_fault d = (None, d)"
  by (simp add: users_ok_def next_fault_none)

lemma user_clean_new: "users_ok d \<Longrightarrow> credentials name pwd \<Longrightarrow> user_clean (new_user d e name pwd)"
  by (simp add: user_clean_def user_fits_def new_user_def User_new_def credentials_def users_ok_def
      clock_ok_def GenerateToken_facts token_no_nul)

lemma users_ok_add:
  assumes "users_ok d" and "credentials name pwd" and "\<not> taken d name"
  shows "users_ok (add_user d (new_user d e name pwd))"
proof -
  have "users_inv (add_user d (new_user d e name pwd))"
    using assms(1,3) by (force simp: users_ok_def users_inv_def add_user_def new_user_def User_new_def taken_def)
  then show ?thesis using assms user_clean_new [OF assms(1,2)]
    by (simp add: users_ok_def clock_ok_def) (simp add: add_user_def)
qed

lemma users_ok_set_token:
  assumes "users_ok d" and "length tok \<le> 128" and "CHR 0x00 \<notin> set tok"
  shows "users_ok (set_token d i tok)"
proof -
  have "set_token d i tok = fst (UserDAO_UpdateToken d i tok)"
    using assms(1) by (simp add: UserDAO_UpdateToken_def users_ok_faults set_token_def)
  moreover have "users_inv d" using assms(1) by (simp add: users_ok_def)
  ultimately have "users_inv (set_token d i tok)" using users_inv_UpdateToken by metis
  with assms show ?thesis
    by (auto simp: users_ok_def clock_ok_def) (auto simp: set_token_def user_clean_def user_fits_def)
qed

lemma Register_ok:
  assumes "users_ok d" and "credentials name pwd" and "int32 (next_user d)"
  shows "Register d e name pwd =
    (if taken d name then (d, []) else (add_user d (new_user d e name pwd), GenerateToken e))"
proof (cases "taken d name")
  case True
  then obtain q where "find (\<lambda>r. collate d (username r) = collate d name) (users d) = Some q"
    using taken_find [of d name] by auto
  with True assms(1,2) show ?thesis by (simp add: Register_def credentials_def FindByUsername_ok)
next
  case False
  have "0 < next_user d" using assms(1) by (simp add: users_ok_def users_inv_def)
  with False assms show ?thesis
    by (auto simp: Register_def credentials_def FindByUsername_ok taken_find [THEN iffD2] UserDAO_Insert_def
        users_ok_faults Let_def add_user_def new_user_def User_new_def taken_def)
qed

lemma find_user:
  assumes "users_ok d" and "r \<in> set (users d)" and "collate d (username r) = collate d name"
  shows "find (\<lambda>q. collate d (username q) = collate d name) (users d) = Some r"
  using find_key [of "\<lambda>q. collate d (username q)" "users d" r] assms
  by (simp add: users_ok_def users_inv_def)

lemma Login_ok:
  assumes "users_ok d" and "r \<in> set (users d)" and "collate d (username r) = collate d name"
  shows "Login d e name pwd =
    (if password r = pwd then (set_token d (uid r) (GenerateToken e), GenerateToken e) else (d, []))"
  using assms by (auto simp: Login_def FindByUsername_ok find_user UserDAO_UpdateToken_def users_ok_faults set_token_def)

lemma holder_add:
  "fresh_token d (token u) \<Longrightarrow> holder (add_user d u) tok =
     (if collate d tok = collate d (token u) then Some (uid u) else holder d tok)"
  by (auto simp: holder_def add_user_def find_append fresh_token_def find_None_iff' split: option.splits
      dest: find_Some_set)

lemma uid_unique: "users_ok d \<Longrightarrow> r \<in> set (users d) \<Longrightarrow> q \<in> set (users d) \<Longrightarrow> uid q = uid r \<Longrightarrow> q = r"
  by (auto simp: users_ok_def users_inv_def distinct_map dest: inj_onD)

lemma find_update_token:
  assumes "\<And>q. q \<in> set xs \<Longrightarrow> uid q = uid r \<Longrightarrow> q = r" and "r \<in> set xs"
    and "\<And>q. q \<in> set xs \<Longrightarrow> k (token q) \<noteq> k tok"
  shows "map_option uid (find (\<lambda>q. k (token q) = k t) (map (\<lambda>q. if uid q = uid r then q\<lparr>token := tok\<rparr> else q) xs))
    = (if k t = k tok then Some (uid r)
       else map_option uid (find (\<lambda>q. k (token q) = k t \<and> uid q \<noteq> uid r) xs))"
proof (cases "k t = k tok")
  case True
  with assms(2,3) show ?thesis by (induction xs) auto
next
  case False
  with assms(1) show ?thesis by (induction xs) auto
qed

lemma holder_set_token:
  assumes "users_ok d" and "r \<in> set (users d)" and "fresh_token d tok"
  shows "holder (set_token d (uid r) tok) t =
    (if collate d t = collate d tok then Some (uid r)
     else map_option uid (find (\<lambda>q. collate d (token q) = collate d t \<and> uid q \<noteq> uid r) (users d)))"
  using find_update_token [of "users d" r "collate d" tok t] assms uid_unique [OF assms(1)]
  by (simp add: holder_def set_token_def fresh_token_def)

section \<open>Properties\<close>

definition empty_db :: db where
  "empty_db = \<lparr>users = [], next_user = 1, file_rows = [], next_file = 1, collate = id, now = ''2024'',
     db_faults = []\<rparr>"

lemma empty_db_ok: "users_ok empty_db"
  by (simp add: users_ok_def users_inv_def clock_ok_def empty_db_def)

text \<open>
  a token is 32 lower-case hexadecimal digits that determine the clock and the generator
  value they were made from.
\<close>

theorem GenerateToken_format:
  "length (GenerateToken e) = 32 \<and> list_all hex_digit (GenerateToken e)
     \<and> (GenerateToken e = GenerateToken e') = (e = e')"
  using GenerateToken_facts(1,2) [of e] GenerateToken_facts(3) [of e e'] by (auto simp: list_all_iff simp del: split_paired_All)

text \<open>
  a registration with admissible credentials fails exactly when the name is taken (up to
  collation), and then changes nothing; otherwise its token verifies as the new user, the tokens
  of all others verify as before, and logging in with the same credentials is accepted.
\<close>

theorem Register_then_login:
  assumes "users_ok d" and "credentials name pwd" and "int32 (next_user d)"
    and "fresh_token d (GenerateToken e)" and "Register d e name pwd = (d', tok)"
  shows "(tok = [] \<longleftrightarrow> taken d name) \<and> (tok = [] \<longrightarrow> d' = d)
    \<and> (tok \<noteq> [] \<longrightarrow> users_ok d' \<and> VerifyToken d' tok = (d', next_user d)
        \<and> (\<forall>t. collate d t \<noteq> collate d tok \<and> collate d t \<noteq> collate d [] \<longrightarrow>
              snd (VerifyToken d' t) = snd (VerifyToken d t))
        \<and> snd (Login d' e' name pwd) = GenerateToken e')"
proof (cases "taken d name")
  case True
  with assms show ?thesis by (simp add: Register_ok)
next
  case False
  let ?u = "new_user d e name pwd"
  have u: "token ?u = GenerateToken e" "uid ?u = next_user d" "username ?u = name" "password ?u = pwd"
    by (simp_all add: new_user_def User_new_def)
  from False assms have d': "d' = add_user d ?u" "tok = GenerateToken e" by (simp_all add: Register_ok)
  have ok: "users_ok d'" using users_ok_add [OF assms(1,2) False] d' by simp
  have c: "collate d' = collate d" and m: "?u \<in> set (users d')" by (simp_all add: d' add_user_def)
  have h: "holder d' t = (if collate d t = collate d tok then Some (next_user d) else holder d t)" for t
    using holder_add [of d ?u t] assms(4) d' u by simp
  have ne: "collate d tok \<noteq> collate d []" using assms(4) d' by (simp add: fresh_token_def)
  have "VerifyToken d' tok = (d', next_user d)" using VerifyToken_ok [OF ok] c ne h by simp
  moreover have "snd (VerifyToken d' t) = snd (VerifyToken d t)"
    if "collate d t \<noteq> collate d tok" "collate d t \<noteq> collate d []" for t
    using VerifyToken_ok [OF ok, of t] VerifyToken_ok [OF assms(1), of t] c h that by simp
  moreover have "snd (Login d' e' name pwd) = GenerateToken e'"
    using Login_ok [OF ok m, of name e' pwd] u by simp
  ultimately show ?thesis using ok False d'(2) by simp
qed

theorem Register_then_login_witness:
  "snd (VerifyToken (fst (Register empty_db (1, 2) ''ann'' ''secret'')) (GenerateToken (1, 2))) = 1"
proof -
  have f: "fresh_token empty_db (GenerateToken (1, 2))"
    by (simp add: fresh_token_def empty_db_def)
  have c: "credentials ''ann'' ''secret''" "int32 (next_user empty_db)"
    by (simp_all add: credentials_def int32_def empty_db_def)
  have "snd (Register empty_db (1, 2) ''ann'' ''secret'') = GenerateToken (1, 2)"
    using c empty_db_ok by (simp add: Register_ok) (simp add: taken_def empty_db_def)
  with Register_then_login [OF empty_db_ok c f surjective_pairing] show ?thesis
    by (simp add: empty_db_def)
qed

text \<open>
  C28: a login replaces the token of its user: the new token verifies as that user, the old one
  as nobody, every other token as before.
\<close>

theorem Login_replaces_token:
  assumes "users_ok d" and "r \<in> set (users d)" and "collate d (username r) = collate d name"
    and "fresh_token d (GenerateToken e)" and "distinct (map (\<lambda>q. collate d (token q)) (users d))"
    and "collate d (token r) \<noteq> collate d []" and "Login d e name (password r) = (d', tok)"
  shows "VerifyToken d' tok = (d', uid r) \<and> VerifyToken d' (token r) = (d', -1)
    \<and> (\<forall>q \<in> set (users d). uid q \<noteq> uid r \<and> collate d (token q) \<noteq> collate d [] \<longrightarrow>
         VerifyToken d' (token q) = (d', uid q))"
proof -
  from assms have d': "d' = set_token d (uid r) tok" "tok = GenerateToken e" using Login_ok [OF assms(1-3), of e "password r"] by auto
  have ok: "users_ok d'"
    unfolding d' by (rule users_ok_set_token) (simp_all add: assms(1) GenerateToken_facts token_no_nul)
  have c: "collate d' = collate d" by (simp add: d' set_token_def)
  have fresh: "collate d tok \<noteq> collate d []" "\<And>q. q \<in> set (users d) \<Longrightarrow> collate d (token q) \<noteq> collate d tok"
    using assms(4) d' by (auto simp: fresh_token_def)
  have h: "holder d' t = (if collate d t = collate d tok then Some (uid r)
     else map_option uid (find (\<lambda>q. collate d (token q) = collate d t \<and> uid q \<noteq> uid r) (users d)))" for t
    using holder_set_token [OF assms(1,2)] assms(4) d' by simp
  have same: "p = q" if "p \<in> set (users d)" "q \<in> set (users d)" "collate d (token p) = collate d (token q)" for p q
    using assms(5) that by (auto simp: distinct_map dest: inj_onD)
  have "find (\<lambda>q. collate d (token q) = collate d (token r) \<and> uid q \<noteq> uid r) (users d) = None"
    using same assms(2) by (auto simp: find_None_iff')
  then have "VerifyToken d' (token r) = (d', -1)"
    using VerifyToken_ok [OF ok] c assms(2,6) h fresh by simp
  moreover have "VerifyToken d' (token q) = (d', uid q)"
    if q: "q \<in> set (users d)" "uid q \<noteq> uid r" "collate d (token q) \<noteq> collate d []" for q
  proof -
    obtain p where p: "find (\<lambda>x. collate d (token x) = collate d (token q) \<and> uid x \<noteq> uid r) (users d) = Some p"
      using q by (cases "find (\<lambda>x. collate d (token x) = collate d (token q) \<and> uid x \<noteq> uid r) (users d)")
        (auto simp: find_None_iff')
    with same q have "p = q" using find_Some_set [OF p] by simp
    with p show ?thesis using VerifyToken_ok [OF ok] c q fresh h by simp
  qed
  ultimately show ?thesis using VerifyToken_ok [OF ok, of tok] c fresh h by simp
qed

theorem Login_replaces_token_witness:
  "snd (VerifyToken (fst (Login sample_db (1, 2) ''ann'' ''pw'')) ''t'') = -1"
proof -
  have ok: "users_ok sample_db"
    by (simp add: users_ok_def users_inv_def clock_ok_def sample_db_def User_new_def user_clean_def user_fits_def)
  have "fresh_token sample_db (GenerateToken (1, 2))"
    using GenerateToken_facts(1) [of "(1, 2)"]
    by (auto simp: fresh_token_def sample_db_def User_new_def dest!: arg_cong [where f = length])
  with Login_replaces_token [OF ok, of "User_new ''ann'' ''pw''\<lparr>uid := 7, token := ''t''\<rparr>" "''ann''" "(1, 2)"]
  show ?thesis
    by (cases "Login sample_db (1, 2) ''ann'' ''pw''") (simp add: sample_db_def User_new_def)
qed

text \<open>
  a wrong password or an unknown name never yields a token and never changes the table,
  whatever fails on the way.
\<close>

theorem Login_rejects:
  assumes "\<forall>r \<in> set (users d). collate d (username r) = collate d name \<longrightarrow> cstr (password r) \<noteq> pwd"
  shows "snd (Login d e name pwd) = [] \<and> users (fst (Login d e name pwd)) = users d"
proof -
  have "password u \<noteq> pwd" if "snd (UserDAO_FindByUsername d name) = Some u" for u
    using that assms by (auto simp: UserDAO_FindByUsername_def Let_def case_prod_unfold fetch_user_def
        user_of_row_def dest!: filter_eq_ConsD split: if_splits list.splits)
  then show ?thesis
    by (auto simp: Login_def case_prod_unfold split: option.splits)
qed

theorem Login_rejects_witness:
  "snd (Login sample_db (1, 2) ''ann'' ''guess'') = []"
  using Login_rejects [of sample_db "''ann''" "''guess''" "(1, 2)"]
  by (simp add: sample_db_def User_new_def cstr_def)

text \<open>
  a password with a NUL byte (JSON can carry one) is stored whole but read back as a C
  string, so the account that \<open>Register\<close> reports as created can never be logged into again.
\<close>

theorem Register_nul_password_locks_out:
  assumes "users_ok d" and "credentials name (filter (\<lambda>c. c \<noteq> CHR 0x00) pwd)" and "length pwd \<le> 128"
    and "int32 (next_user d)" and "\<not> taken d name" and "CHR 0x00 \<in> set pwd"
  shows "snd (Register d e name pwd) = GenerateToken e
    \<and> snd (Login (fst (Register d e name pwd)) e' name pwd) = []"
proof -
  let ?d = "add_user d (new_user d e name pwd)"
  have ne: "pwd \<noteq> []" "name \<noteq> []" "length name \<le> 64" using assms(2) by (auto simp: credentials_def)
  have "0 < next_user d" using assms(1) by (simp add: users_ok_def users_inv_def)
  then have r: "Register d e name pwd = (?d, GenerateToken e)"
    using assms ne by (auto simp: Register_def FindByUsername_ok taken_find [THEN iffD2] UserDAO_Insert_def
        users_ok_faults Let_def add_user_def new_user_def User_new_def taken_def)
  have "CHR 0x00 \<notin> set (cstr pwd)" by (auto simp: cstr_def dest: set_takeWhileD)
  with assms(6) have "cstr pwd \<noteq> pwd" by metis
  then have "\<forall>r \<in> set (users ?d). collate ?d (username r) = collate ?d name \<longrightarrow> cstr (password r) \<noteq> pwd"
    using assms(5) by (auto simp: add_user_def new_user_def User_new_def taken_def)
  then have "snd (Login ?d e' name pwd) = []"
    by (auto simp: Login_def case_prod_unfold UserDAO_FindByUsername_def Let_def fetch_user_def
        user_of_row_def dest!: filter_eq_ConsD split: if_splits list.splits option.splits)
  with r show ?thesis by simp
qed

theorem Register_nul_password_locks_out_witness:
  "snd (Register empty_db (1, 2) ''ann'' [CHR ''p'', CHR 0x00, CHR ''q'']) = GenerateToken (1, 2)
    \<and> snd (Login (fst (Register empty_db (1, 2) ''ann'' [CHR ''p'', CHR 0x00, CHR ''q''])) (3, 4) ''ann''
        [CHR ''p'', CHR 0x00, CHR ''q'']) = []"
  using Register_nul_password_locks_out [OF empty_db_ok, of "''ann''" "[CHR ''p'', CHR 0x00, CHR ''q'']" "(1, 2)" "(3, 4)"]
  by (simp add: credentials_def int32_def empty_db_def taken_def)

end
