(* ===== verification/Common.thy ===== *)
theory Common
  imports Prelude
begin

text \<open>
  \<open>common/common.h\<close> and the level filter of \<open>common/logger.cc\<close>: reading the configuration from the
  environment (\<open>None\<close> is an unset variable), the enumerations and constants. \<open>std::stoi\<close> (\<open>stoll\<close>) skips
  white space, takes an optional sign and the longest run of decimal digits, and raises when there
  is none or the value is out of the range of its type.
\<close>

section \<open>Numbers in text\<close>

definition is_digit :: "char \<Rightarrow> bool" where
  "is_digit c \<longleftrightarrow> 48 \<le> (of_char c :: nat) \<and> (of_char c :: nat) \<le> 57"

definition is_space :: "char \<Rightarrow> bool" where
  "is_space c \<longleftrightarrow> c = CHR '' '' \<or> (9 \<le> (of_char c :: nat) \<and> (of_char c :: nat) \<le> 13)"

definition digits_value :: "string \<Rightarrow> int" where
  "digits_value ds = foldl (\<lambda>n c. n * 10 + (int (of_char c) - 48)) 0 ds"

definition int_range :: "int \<Rightarrow> bool" where
  "int_range n \<longleftrightarrow> - (2 ^ 31) \<le> n \<and> n < 2 ^ 31"

definition std_sto :: "(int \<Rightarrow> bool) \<Rightarrow> string \<Rightarrow> cpp_exn + int" where
  "std_sto in_range s =
     (let s = dropWhile is_space s;
          neg = (s \<noteq> [] \<and> hd s = CHR ''-'');
          s = (if s \<noteq> [] \<and> (hd s = CHR ''-'' \<or> hd s = CHR ''+'') then tl s else s);
          ds = takeWhile is_digit s;
          n = (if neg then - digits_value ds else digits_value ds)
      in if ds = [] then Inl invalid_argument
         else if in_range n then Inr n else Inl out_of_range)"

definition stoi :: "string \<Rightarrow> cpp_exn + int" where "stoi = std_sto int_range"

definition stoll :: "string \<Rightarrow> cpp_exn + int" where "stoll = std_sto (\<lambda>n. i64 n)"

section \<open>Configuration\<close>

definition GetEnv :: "string option \<Rightarrow> string \<Rightarrow> string" where
  "GetEnv value dflt = (case value of None \<Rightarrow> dflt | Some v \<Rightarrow> if v = [] then dflt else v)"

definition GetEnvInt :: "string option \<Rightarrow> int \<Rightarrow> int" where
  "GetEnvInt value dflt =
     (case value of None \<Rightarrow> dflt
      | Some v \<Rightarrow> if v = [] then dflt else (case stoi v of Inr n \<Rightarrow> n | Inl e \<Rightarrow> dflt))"

datatype ErrorCode = kOk | kUnknown | kParamError | kAuthFailed | kNotFound | kIOError | kDBError
  | kRPCError | kTimeout | kFileExists | kDiskFull

fun ErrorCode_val :: "ErrorCode \<Rightarrow> int" where
  "ErrorCode_val kOk = 0"
| "ErrorCode_val kUnknown = -1"
| "ErrorCode_val kParamError = -2"
| "ErrorCode_val kAuthFailed = -3"
| "ErrorCode_val kNotFound = -4"
| "ErrorCode_val kIOError = -5"
| "ErrorCode_val kDBError = -6"
| "ErrorCode_val kRPCError = -7"
| "ErrorCode_val kTimeout = -8"
| "ErrorCode_val kFileExists = -9"
| "ErrorCode_val kDiskFull = -10"

definition kDefaultPort :: int where "kDefaultPort = 8080"
definition kDefaultChunkSize :: nat where "kDefaultChunkSize = 4 * 1024 * 1024"

section \<open>Logging\<close>

datatype LogLevel = kDebug | kInfo | kWarning | kError | kFatal

fun LogLevel_val :: "LogLevel \<Rightarrow> nat" where
  "LogLevel_val kDebug = 0"
| "LogLevel_val kInfo = 1"
| "LogLevel_val kWarning = 2"
| "LogLevel_val kError = 3"
| "LogLevel_val kFatal = 4"

fun LevelToStr :: "LogLevel \<Rightarrow> string" where
  "LevelToStr kDebug = ''DEBUG''"
| "LevelToStr kInfo = ''INFO ''"
| "LevelToStr kWarning = ''WARN ''"
| "LevelToStr kError = ''ERROR''"
| "LevelToStr kFatal = ''FATAL''"

text \<open>The levels are compared by their values, as \<open>level < level_\<close> does.\<close>

instantiation LogLevel :: linorder
begin

definition less_eq_LogLevel :: "LogLevel \<Rightarrow> LogLevel \<Rightarrow> bool" where
  "less_eq_LogLevel a b \<longleftrightarrow> LogLevel_val a \<le> LogLevel_val b"

definition less_LogLevel :: "LogLevel \<Rightarrow> LogLevel \<Rightarrow> bool" where
  "less_LogLevel a b \<longleftrightarrow> LogLevel_val a < LogLevel_val b"

instance
proof
  fix x y :: LogLevel
  show "x \<le> y \<Longrightarrow> y \<le> x \<Longrightarrow> x = y"
    by (cases x; cases y; simp add: less_eq_LogLevel_def)
qed (auto simp: less_eq_LogLevel_def less_LogLevel_def)

end

record tm =
  tm_year :: int
  tm_mon :: int
  tm_mday :: int
  tm_hour :: int
  tm_min :: int
  tm_sec :: int

text \<open>
  The logger with what it wrote to the two console streams and to its file. \<open>file_is_open\<close> is the
  state of the \<open>ofstream\<close>; \<open>opens\<close> says whether the operating system opens the named file.
\<close>

record logger =
  log_level :: LogLevel
  file_is_open :: bool
  use_file :: bool
  log_out :: string
  log_err :: string
  log_file :: string

definition SetLevel :: "logger \<Rightarrow> LogLevel \<Rightarrow> logger" where
  "SetLevel l lv = l\<lparr>log_level := lv\<rparr>"

definition newline :: string where "newline = [CHR 0x0A]"

definition SetLogFile :: "logger \<Rightarrow> (string \<Rightarrow> bool) \<Rightarrow> string \<Rightarrow> logger" where
  "SetLogFile l opens filepath =
     (let l = l\<lparr>file_is_open := opens filepath, use_file := opens filepath\<rparr> in
      if \<not> use_file l
      then l\<lparr>log_err := log_err l @ ''[Logger] '' @ [CHR 0xE6, CHR 0x97, CHR 0xA0, CHR 0xE6, CHR 0xB3, CHR 0x95,
        CHR 0xE6, CHR 0x89, CHR 0x93, CHR 0xE5, CHR 0xBC, CHR 0x80, CHR 0xE6, CHR 0x97, CHR 0xA5, CHR 0xE5, CHR 0xBF,
        CHR 0x97, CHR 0xE6, CHR 0x96, CHR 0x87, CHR 0xE4, CHR 0xBB, CHR 0xB6] @ '': '' @ filepath @ newline\<rparr>
      else l)"

definition log_line :: "tm \<Rightarrow> int \<Rightarrow> string \<Rightarrow> LogLevel \<Rightarrow> string \<Rightarrow> int \<Rightarrow> string \<Rightarrow> string \<Rightarrow> string" where
  "log_line t ms thread level src line func message =
     to_string (tm_year t + 1900) @ ''-'' @ setw0 2 (to_string (tm_mon t + 1)) @ ''-'' @ setw0 2 (to_string (tm_mday t))
     @ '' '' @ setw0 2 (to_string (tm_hour t)) @ '':'' @ setw0 2 (to_string (tm_min t)) @ '':''
     @ setw0 2 (to_string (tm_sec t)) @ ''.'' @ setw0 3 (to_string ms)
     @ '' ['' @ LevelToStr level @ ''] '' @ ''['' @ thread @ ''] ''
     @ ''['' @ src @ '':'' @ to_string line @ '' '' @ func @ ''] '' @ message @ newline"

definition Log :: "logger \<Rightarrow> tm \<Rightarrow> int \<Rightarrow> string \<Rightarrow> LogLevel \<Rightarrow> string \<Rightarrow> int \<Rightarrow> string \<Rightarrow> string \<Rightarrow> logger" where
  "Log l t ms thread level src line func message =
     (if level < log_level l then l
      else let output = log_line t ms thread level src line func message;
               l = (if level \<ge> kError then l\<lparr>log_err := log_err l @ output\<rparr> else l\<lparr>log_out := log_out l @ output\<rparr>)
           in if use_file l \<and> file_is_open l then l\<lparr>log_file := log_file l @ output\<rparr> else l)"

section \<open>Facts\<close>

lemma is_digit_digit: "d < 10 \<Longrightarrow> is_digit (digit d)"
  by (simp add: is_digit_def digit_def)

lemma digits_value_snoc: "digits_value (ds @ [c]) = digits_value ds * 10 + (int (of_char c) - 48)"
  by (simp add: digits_value_def)

lemma digits_value_show: "digits_value (show_base 10 n) = int n"
proof (induction "10::nat" n rule: show_base.induct)
  case (1 n)
  have d: "int (of_char (digit k)) - 48 = int k" if "k < 10" for k
    using that by (simp add: digit_def)
  show ?case
  proof (cases "n < 10")
    case True
    with d show ?thesis by (simp add: show_base.simps [of 10 n] digits_value_def)
  next
    case False
    then have "digits_value (show_base 10 n) = int (n div 10) * 10 + int (n mod 10)"
      using 1 d [of "n mod 10"] by (simp add: show_base.simps [of 10 n] digits_value_snoc)
    also have "\<dots> = int n" by (metis add.commute mod_mult_div_eq mult.commute of_nat_add of_nat_mult of_nat_numeral)
    finally show ?thesis .
  qed
qed

lemma takeWhile_show:
  "(rest = [] \<or> \<not> is_digit (hd rest)) \<Longrightarrow> takeWhile is_digit (show_base 10 n @ rest) = show_base 10 n"
proof -
  assume r: "rest = [] \<or> \<not> is_digit (hd rest)"
  have "\<forall>c \<in> set (show_base 10 n). is_digit c"
    using show_base_digits [of 10 _ n] is_digit_digit by fastforce
  then have "takeWhile is_digit (show_base 10 n @ rest) = show_base 10 n @ takeWhile is_digit rest"
    by (simp add: takeWhile_append2)
  with r show ?thesis by (cases rest) auto
qed

text \<open>Reading back a printed number, whatever follows it that is no digit.\<close>

lemma std_sto_to_string:
  assumes "in_range i" and "rest = [] \<or> \<not> is_digit (hd rest)"
  shows "std_sto in_range (to_string i @ rest) = Inr i"
proof -
  have first: "\<not> is_space (hd (show_base 10 n)) \<and> hd (show_base 10 n) \<noteq> CHR ''-'' \<and> hd (show_base 10 n) \<noteq> CHR ''+''"
    for n
  proof -
    obtain d where "d < 10" "hd (show_base 10 n) = digit d"
      using show_base_digits [OF _ hd_in_set, of 10 n] by auto
    with is_digit_digit [of d] show ?thesis by (auto simp: is_digit_def is_space_def)
  qed
  show ?thesis
  proof (cases "i < 0")
    case True
    have "\<not> is_space (CHR ''-'')" by (simp add: is_space_def)
    with True assms takeWhile_show [OF assms(2), of "nat (- i)"] digits_value_show [of "nat (- i)"]
    show ?thesis by (simp add: std_sto_def to_string_def Let_def)
  next
    case False
    have dw: "dropWhile is_space (show_base 10 (nat i) @ rest) = show_base 10 (nat i) @ rest"
      using first [of "nat i"] by (cases "show_base 10 (nat i)") auto
    have hd: "hd (show_base 10 (nat i) @ rest) = hd (show_base 10 (nat i))" by (simp add: hd_append)
    show ?thesis
      using False assms first [of "nat i"] takeWhile_show [OF assms(2), of "nat i"] digits_value_show [of "nat i"]
      by (simp add: std_sto_def to_string_def Let_def dw hd)
  qed
qed

lemma stoi_to_string:
  "int_range i \<Longrightarrow> rest = [] \<or> \<not> is_digit (hd rest) \<Longrightarrow> stoi (to_string i @ rest) = Inr i"
  by (simp add: stoi_def std_sto_to_string)

lemma stoll_to_string:
  "i64 i \<Longrightarrow> rest = [] \<or> \<not> is_digit (hd rest) \<Longrightarrow> stoll (to_string i @ rest) = Inr i"
  by (simp add: stoll_def std_sto_to_string)

text \<open>Once a file is open, every line that passes the filter is in it, in order.\<close>

lemma log_file_complete:
  assumes "use_file l" and "file_is_open l" and "\<forall>(t, ms, thread, lv, src, n, f, m) \<in> set es. log_level l \<le> lv"
  shows "log_file (foldl (\<lambda>l (t, ms, thread, lv, src, n, f, m). Log l t ms thread lv src n f m) l es)
    = log_file l @ concat (map (\<lambda>(t, ms, thread, lv, src, n, f, m). log_line t ms thread lv src n f m) es)"
  using assms
proof (induction es arbitrary: l)
  case (Cons e es)
  obtain t ms thread lv src n f m where e: "e = (t, ms, thread, lv, src, n, f, m)" by (cases e) auto
  let ?l = "Log l t ms thread lv src n f m"
  have "use_file ?l" "file_is_open ?l" "log_level ?l = log_level l" "log_file ?l = log_file l @ log_line t ms thread lv src n f m"
    using Cons.prems e by (auto simp: Log_def Let_def)
  with Cons.IH [of ?l] Cons.prems(3) e show ?case by simp
qed simp

end
