(* ===== verification/FileSystem.thy ===== *)
theory FileSystem
  imports Prelude "HOL-Library.AList"
begin

text \<open>
  The part of POSIX and of \<open>std::fstream\<close> that \<open>storage/storage_manager.cc\<close> uses: a tree of
  directories and regular files named by their component lists, path resolution with \<open>.\<close> and
  \<open>..\<close> (no symbolic links), \<open>mkdir\<close>, \<open>remove\<close>, \<open>stat\<close>, and positioned reads and writes.

  Every system call may fail. Which ones do is part of the environment: \<open>io_envs\<close> holds one
  entry per operation of the storage manager, and none means that everything succeeds.
\<close>

section \<open>State\<close>

type_synonym path = "string list"

record io_env =
  open_fails :: bool
  create_fails :: bool
  reopen_fails :: bool
  seek_fails :: bool
  write_cut :: "nat option" \<comment> \<open>a write error after this many bytes reached the file\<close>
  read_cut :: "nat option"
  call_fails :: bool \<comment> \<open>\<open>mkdir\<close>, \<open>remove\<close> or \<open>stat\<close>\<close>

definition io_ok :: io_env where
  "io_ok = \<lparr>open_fails = False, create_fails = False, reopen_fails = False, seek_fails = False,
     write_cut = None, read_cut = None, call_fails = False\<rparr>"

record fs =
  files :: "(path \<times> bytes) list"
  dirs :: "path list"
  cwd :: path
  dir_st_size :: int \<comment> \<open>\<open>st_size\<close> of a directory\<close>
  io_envs :: "io_env list"

definition next_io :: "fs \<Rightarrow> io_env \<times> fs" where
  "next_io s = (case io_envs s of [] \<Rightarrow> (io_ok, s) | e # es \<Rightarrow> (e, s\<lparr>io_envs := es\<rparr>))"

section \<open>Paths\<close>

text \<open>Every component but the last must be a directory.\<close>

fun walk :: "path list \<Rightarrow> path \<Rightarrow> string list \<Rightarrow> path option" where
  "walk ds cur [] = Some cur"
| "walk ds cur (c # cs) =
     (if c = [] \<or> c = ''.'' then walk ds cur cs
      else if c = ''..'' then walk ds (butlast cur) cs
      else if cs = [] then Some (cur @ [c])
      else if cur @ [c] \<in> set ds then walk ds (cur @ [c]) cs
      else None)"

definition resolve :: "fs \<Rightarrow> string \<Rightarrow> path option" where
  "resolve s p =
     (if p = [] then None
      else walk (dirs s) (if hd p = CHR ''/'' then [] else cwd s) (split_on (CHR ''/'') p))"

text \<open>The contents of the regular file a path names.\<close>

definition lookup_file :: "fs \<Rightarrow> string \<Rightarrow> bytes option" where
  "lookup_file s p = Option.bind (resolve s p) (map_of (files s))"

section \<open>Operations\<close>

definition put_file :: "fs \<Rightarrow> path \<Rightarrow> bytes \<Rightarrow> fs" where
  "put_file s p c = s\<lparr>files := AList.update p c (files s)\<rparr>"

text \<open>\<open>open\<close> for output with truncation: needs the parent directory, and no directory there.\<close>

definition create_file :: "fs \<Rightarrow> string \<Rightarrow> fs" where
  "create_file s p =
     (case resolve s p of
        Some q \<Rightarrow> if q \<notin> set (dirs s) \<and> butlast q \<in> set (dirs s) then put_file s q [] else s
      | None \<Rightarrow> s)"

text \<open>A write past the end leaves a hole of zeros; writing nothing changes nothing.\<close>

definition write_at :: "bytes \<Rightarrow> nat \<Rightarrow> bytes \<Rightarrow> bytes" where
  "write_at old off d =
     (if d = [] then old
      else take off (old @ replicate (off - length old) (CHR 0x00)) @ d @ drop (off + length d) old)"

definition write_file :: "fs \<Rightarrow> string \<Rightarrow> nat \<Rightarrow> bytes \<Rightarrow> fs" where
  "write_file s p off d =
     (case resolve s p of
        Some q \<Rightarrow> (case map_of (files s) q of Some c \<Rightarrow> put_file s q (write_at c off d) | None \<Rightarrow> s)
      | None \<Rightarrow> s)"

datatype mkdir_result = MkdirOk | MkdirExists | MkdirError

fun strip_slashes :: "string \<Rightarrow> string" where
  "strip_slashes p = rev (dropWhile (\<lambda>c. c = CHR ''/'') (rev p))"

definition mkdir :: "fs \<Rightarrow> string \<Rightarrow> fs \<times> mkdir_result" where
  "mkdir s p =
     (case resolve s (strip_slashes p) of
        None \<Rightarrow> (s, MkdirError)
      | Some q \<Rightarrow>
          if q \<in> set (dirs s) \<or> map_of (files s) q \<noteq> None then (s, MkdirExists)
          else if butlast q \<in> set (dirs s) then (s\<lparr>dirs := q # dirs s\<rparr>, MkdirOk)
          else (s, MkdirError))"

text \<open>\<open>std::remove\<close> unlinks a file and removes an empty directory.\<close>

definition remove_path :: "fs \<Rightarrow> string \<Rightarrow> fs \<times> bool" where
  "remove_path s p =
     (case resolve s p of
        None \<Rightarrow> (s, False)
      | Some q \<Rightarrow>
          if map_of (files s) q \<noteq> None then (s\<lparr>files := AList.delete q (files s)\<rparr>, True)
          else if q \<in> set (dirs s) \<and> q \<noteq> []
            \<and> (\<forall>x \<in> set (dirs s @ map fst (files s)). x \<noteq> [] \<longrightarrow> butlast x \<noteq> q)
          then (s\<lparr>dirs := filter (\<lambda>d. d \<noteq> q) (dirs s)\<rparr>, True)
          else (s, False))"

definition stat_size :: "fs \<Rightarrow> string \<Rightarrow> int option" where
  "stat_size s p =
     (case resolve s p of
        None \<Rightarrow> None
      | Some q \<Rightarrow>
          (case map_of (files s) q of
             Some c \<Rightarrow> Some (int (length c))
           | None \<Rightarrow> if q \<in> set (dirs s) then Some (dir_st_size s) else None))"

section \<open>Facts\<close>

lemma next_io_snd [simp]:
  "files (snd (next_io s)) = files s" "dirs (snd (next_io s)) = dirs s"
  "cwd (snd (next_io s)) = cwd s" "dir_st_size (snd (next_io s)) = dir_st_size s"
  "resolve (snd (next_io s)) p = resolve s p" "lookup_file (snd (next_io s)) p = lookup_file s p"
  by (simp_all add: next_io_def resolve_def lookup_file_def split: list.splits)

lemma next_io_none: "io_envs s = [] \<Longrightarrow> next_io s = (io_ok, s)"
  by (simp add: next_io_def)

lemma put_file_resolve [simp]: "resolve (put_file s q c) p = resolve s p"
  by (simp add: resolve_def put_file_def)

lemma put_file_files [simp]: "map_of (files (put_file s q c)) = (map_of (files s))(q \<mapsto> c)"
  by (simp add: put_file_def update_conv')

lemma put_file_frame [simp]:
  "dirs (put_file s q c) = dirs s" "cwd (put_file s q c) = cwd s"
  "io_envs (put_file s q c) = io_envs s"
  by (simp_all add: put_file_def)

lemma lookup_put_file:
  "lookup_file (put_file s q c) p = (if resolve s p = Some q then Some c else lookup_file s p)"
  by (auto simp: lookup_file_def split: bind_splits)

lemma write_at_Nil [simp]: "write_at c off [] = c"
  by (simp add: write_at_def)

lemma length_write_at:
  "length (write_at c off d) = (if d = [] then length c else max (length c) (off + length d))"
  by (auto simp: write_at_def min_def)

text \<open>What was written is read back, and nothing else changed.\<close>

lemma read_written: "take (length d) (drop off (write_at c off d)) = d"
proof (cases "d = []")
  case False
  have "length (take off (c @ replicate (off - length c) (CHR 0x00))) = off" by simp
  with False show ?thesis by (simp add: write_at_def)
qed simp

lemma nth_write_at_other:
  assumes "i < length c" and "i < off \<or> off + length d \<le> i"
  shows "write_at c off d ! i = c ! i"
  using assms by (auto simp: write_at_def nth_append min_def)

lemma write_at_append: "off = length c \<Longrightarrow> write_at c off d = c @ d"
  by (simp add: write_at_def)

lemma write_at_prefix: "take off (write_at c off d) = take off c" if "off \<le> length c"
  using that by (simp add: write_at_def)

text \<open>A rewrite of bytes that are already there changes nothing.\<close>

lemma write_at_same:
  "off + length d \<le> length c \<Longrightarrow> take (length d) (drop off c) = d \<Longrightarrow> write_at c off d = c"
  by (auto simp: write_at_def) (metis append_take_drop_id drop_drop add.commute)

end
