(* ===== verification/Storage.thy ===== *)
theory Storage
  imports FileSystem
begin

text \<open>
  \<open>storage/storage_manager.cc\<close>: the operations of \<open>StorageManager\<close> over the file system. The
  object's only field is \<open>base_path_\<close>, the argument \<open>base\<close> (not empty, as \<open>back()\<close> requires).

  The locale \<open>chunk_store\<close> is what the upload and download paths rely on: a successful write
  puts the chunk at its offset and touches nothing else, a read returns the bytes of the file.
  From these laws alone follow the facts on whole uploads; the interpretation \<open>disk\<close> discharges
  them for \<open>WriteChunk\<close> and \<open>ReadChunk\<close>.
\<close>

section \<open>Operations\<close>

definition GetAbsolutePath :: "string \<Rightarrow> string \<Rightarrow> string" where
  "GetAbsolutePath base filepath =
     (if filepath = [] then []
      else if last base = CHR ''/'' \<or> hd filepath = CHR ''/'' then base @ filepath
      else base @ ''/'' @ filepath)"

definition StorageManager_new :: "fs \<Rightarrow> string \<Rightarrow> fs" where
  "StorageManager_new s base =
     (let (e, s) = next_io s in if call_fails e then s else fst (mkdir s base))"

definition CreateUserDir :: "string \<Rightarrow> fs \<Rightarrow> int \<Rightarrow> fs \<times> bool" where
  "CreateUserDir base s user_id =
     (let (e, s) = next_io s;
          dir = base @ ''/'' @ to_string user_id
      in if call_fails e then (s, False)
         else case mkdir s dir of
                (s', MkdirOk) \<Rightarrow> (s', True)
              | (s', MkdirExists) \<Rightarrow> (s', True)
              | (s', MkdirError) \<Rightarrow> (s', False))"

text \<open>
  Open for update; if that fails, create (which truncates what is there) and open again; then
  seek, write, flush and close. A failing write may have stored part of the chunk.
\<close>

definition WriteChunk :: "string \<Rightarrow> fs \<Rightarrow> string \<Rightarrow> bytes \<Rightarrow> int \<Rightarrow> fs \<times> int" where
  "WriteChunk base s filepath data off =
     (let abspath = GetAbsolutePath base filepath;
          (e, s) = next_io s;
          opened = (\<not> open_fails e \<and> lookup_file s abspath \<noteq> None);
          s = (if opened \<or> create_fails e then s else create_file s abspath);
          opened = (opened \<or> (\<not> reopen_fails e \<and> lookup_file s abspath \<noteq> None))
      in if \<not> opened then (s, -1)
         else if off < 0 \<or> seek_fails e then (s, -1)
         else case write_cut e of
                Some n \<Rightarrow> (write_file s abspath (nat off) (take n data), -1)
              | None \<Rightarrow> (write_file s abspath (nat off) data, int (length data)))"

text \<open>
  A directory can be opened for reading, but reading it yields nothing. \<open>size\<close> is a \<open>size_t\<close>: the
  cast to \<open>int64_t\<close> makes sizes from \<open>2 ^ 63\<close> on negative, so they are not clipped and the
  buffer's constructor throws.
\<close>

definition ReadChunk :: "string \<Rightarrow> fs \<Rightarrow> string \<Rightarrow> int \<Rightarrow> nat \<Rightarrow> fs \<times> (cpp_exn + bytes)" where
  "ReadChunk base s filepath off sz =
     (let abspath = GetAbsolutePath base filepath;
          (e, s) = next_io s
      in if open_fails e then (s, Inr [])
         else case lookup_file s abspath of
                None \<Rightarrow> (s, Inr [])
              | Some c \<Rightarrow>
                  let file_size = int (length c); remaining = file_size - off in
                  if off < 0 \<or> seek_fails e then (s, Inr [])
                  else if remaining \<le> 0 then (s, Inr [])
                  else if 2 ^ 63 \<le> sz then (s, Inl length_error)
                  else let sz = (if int sz > remaining then nat remaining else sz);
                           got = (case read_cut e of Some n \<Rightarrow> min n sz | None \<Rightarrow> sz)
                       in (s, Inr (take got (drop (nat off) c))))"

definition DeleteFile :: "string \<Rightarrow> fs \<Rightarrow> string \<Rightarrow> fs \<times> bool" where
  "DeleteFile base s filepath =
     (let abspath = GetAbsolutePath base filepath;
          (e, s) = next_io s
      in if call_fails e then (s, False) else remove_path s abspath)"

definition GetFileSize :: "string \<Rightarrow> fs \<Rightarrow> string \<Rightarrow> fs \<times> int" where
  "GetFileSize base s filepath =
     (let abspath = GetAbsolutePath base filepath;
          (e, s) = next_io s
      in if call_fails e then (s, -1)
         else case stat_size s abspath of None \<Rightarrow> (s, -1) | Some n \<Rightarrow> (s, n))"

section \<open>What a file holds\<close>

definition stored :: "string \<Rightarrow> fs \<Rightarrow> string \<Rightarrow> bytes option" where
  "stored base s filepath = lookup_file s (GetAbsolutePath base filepath)"

text \<open>Two stored names denote the same place.\<close>

definition same_place :: "string \<Rightarrow> fs \<Rightarrow> string \<Rightarrow> string \<Rightarrow> bool" where
  "same_place base s p q \<longleftrightarrow>
     resolve s (GetAbsolutePath base p) \<noteq> None
     \<and> resolve s (GetAbsolutePath base p) = resolve s (GetAbsolutePath base q)"

lemma create_file_frame [simp]:
  "resolve (create_file s p) q = resolve s q" "dirs (create_file s p) = dirs s"
  "cwd (create_file s p) = cwd s"
  by (simp_all add: create_file_def split: option.splits)

lemma write_file_frame [simp]:
  "resolve (write_file s p off d) q = resolve s q" "dirs (write_file s p off d) = dirs s"
  "cwd (write_file s p off d) = cwd s"
  by (simp_all add: write_file_def split: option.splits)

lemma lookup_create_file:
  "lookup_file (create_file s p) q =
     (if resolve s q = resolve s p \<and> (\<exists>r. resolve s p = Some r \<and> r \<notin> set (dirs s) \<and> butlast r \<in> set (dirs s))
      then Some [] else lookup_file s q)"
  by (auto simp: create_file_def lookup_put_file split: option.splits)

lemma lookup_write_file:
  "lookup_file s p = Some c \<Longrightarrow> lookup_file (write_file s p off d) q =
     (if resolve s q = resolve s p then Some (write_at c off d) else lookup_file s q)"
  by (auto simp: write_file_def lookup_put_file lookup_file_def split: option.splits bind_splits)

lemma lookup_file_cong: "resolve s p = resolve s q \<Longrightarrow> lookup_file s p = lookup_file s q"
  by (simp add: lookup_file_def)

lemma WriteChunk_ok:
  assumes w: "WriteChunk base s p d off = (s', n)" and n: "0 \<le> n"
  shows "n = int (length d)" and "0 \<le> off"
    and "\<exists>c. (c = (case stored base s p of Some c \<Rightarrow> c | None \<Rightarrow> []) \<or> c = [])
      \<and> stored base s' p = Some (write_at c (nat off) d)"
proof -
  obtain e s1 where e: "next_io s = (e, s1)" by fastforce
  then have "s1 = snd (next_io s)" by simp
  then have io: "resolve s1 x = resolve s x" "lookup_file s1 x = lookup_file s x" "dirs s1 = dirs s" for x
    by simp_all
  let ?a = "GetAbsolutePath base p"
  show "n = int (length d)" and "0 \<le> off"
    using w n by (auto simp: WriteChunk_def Let_def e split: if_splits option.splits)
  show "\<exists>c. (c = (case stored base s p of Some c \<Rightarrow> c | None \<Rightarrow> []) \<or> c = [])
      \<and> stored base s' p = Some (write_at c (nat off) d)"
  proof (cases "\<not> open_fails e \<and> lookup_file s1 ?a \<noteq> None")
    case True
    then obtain c where c: "lookup_file s1 ?a = Some c" by blast
    with w n e True have "s' = write_file s1 ?a (nat off) d"
      by (auto simp: WriteChunk_def Let_def split: if_splits option.splits)
    with c show ?thesis by (auto simp: stored_def lookup_write_file io)
  next
    case False
    define s2 where "s2 = (if create_fails e then s1 else create_file s1 ?a)"
    from w n e False have s': "s' = write_file s2 ?a (nat off) d" and c: "lookup_file s2 ?a \<noteq> None"
      by (auto simp: WriteChunk_def Let_def s2_def split: if_splits option.splits)
    then obtain c where c: "lookup_file s2 ?a = Some c" by blast
    have "c = [] \<or> lookup_file s1 ?a = Some c"
      using c by (auto simp: s2_def lookup_create_file split: if_splits)
    with c s' show ?thesis by (auto simp: stored_def lookup_write_file io)
  qed
qed

text \<open>Without faults the old contents are the file's, and the write succeeds.\<close>

definition healthy :: "fs \<Rightarrow> bool" where
  "healthy s \<longleftrightarrow> io_envs s = []"

text \<open>A place where a file can be: its directory is there and it is not a directory itself.\<close>

definition placeable :: "string \<Rightarrow> fs \<Rightarrow> string \<Rightarrow> bool" where
  "placeable base s p \<longleftrightarrow>
     (case resolve s (GetAbsolutePath base p) of
        Some q \<Rightarrow> q \<notin> set (dirs s) \<and> butlast q \<in> set (dirs s)
      | None \<Rightarrow> False)"

lemma create_put_file_envs [simp]: "io_envs (create_file s p) = io_envs s"
  "io_envs (write_file s p off d) = io_envs s"
  by (simp_all add: create_file_def write_file_def split: option.splits)

lemma WriteChunk_frame:
  assumes "WriteChunk base s p d off = (s', n)"
  shows "resolve s' q = resolve s q" "dirs s' = dirs s" "cwd s' = cwd s"
    "healthy s \<Longrightarrow> healthy s'"
proof -
  from assms show "resolve s' q = resolve s q" "dirs s' = dirs s" "cwd s' = cwd s"
    by (auto simp: WriteChunk_def Let_def case_prod_unfold split: if_splits option.splits)
  from assms show "healthy s'" if "healthy s"
    using that by (auto simp: WriteChunk_def Let_def healthy_def next_io_none split: if_splits option.splits)
qed

lemma WriteChunk_other:
  assumes w: "WriteChunk base s p d off = (s', n)" and other: "\<not> same_place base s p q"
  shows "stored base s' q = stored base s q"
proof -
  obtain e s1 where e: "next_io s = (e, s1)" by fastforce
  then have "s1 = snd (next_io s)" by simp
  then have io: "resolve s1 x = resolve s x" "lookup_file s1 x = lookup_file s x" "dirs s1 = dirs s" for x
    by simp_all
  let ?a = "GetAbsolutePath base p" and ?b = "GetAbsolutePath base q"
  have ne: "resolve s ?b = resolve s ?a \<Longrightarrow> resolve s ?a = None"
    using other by (auto simp: same_place_def)
  define s2 where "s2 = (if \<not> open_fails e \<and> lookup_file s1 ?a \<noteq> None \<or> create_fails e
    then s1 else create_file s1 ?a)"
  have 2: "lookup_file s2 ?b = lookup_file s ?b" "resolve s2 x = resolve s x" for x
    using ne by (auto simp: s2_def lookup_create_file io)
  have "s' = s2 \<or> (\<exists>x. lookup_file s2 ?a \<noteq> None \<and> s' = write_file s2 ?a (nat off) x)"
    using w e by (auto simp: WriteChunk_def Let_def s2_def split: if_splits option.splits)
  with ne 2 show ?thesis
    by (auto simp: stored_def lookup_write_file) (auto simp: lookup_file_def)
qed

lemma WriteChunk_healthy:
  assumes h: "healthy s" and p: "placeable base s p" and off: "0 \<le> off"
  shows "snd (WriteChunk base s p d off) = int (length d)"
    and "stored base (fst (WriteChunk base s p d off)) p =
      Some (write_at (case stored base s p of Some c \<Rightarrow> c | None \<Rightarrow> []) (nat off) d)"
proof -
  let ?a = "GetAbsolutePath base p"
  from p obtain q where q: "resolve s ?a = Some q" "q \<notin> set (dirs s)" "butlast q \<in> set (dirs s)"
    by (auto simp: placeable_def split: option.splits)
  then have "lookup_file (create_file s ?a) ?a = Some []" by (simp add: lookup_create_file)
  with h off show "snd (WriteChunk base s p d off) = int (length d)"
    and "stored base (fst (WriteChunk base s p d off)) p =
      Some (write_at (case stored base s p of Some c \<Rightarrow> c | None \<Rightarrow> []) (nat off) d)"
    by (auto simp: WriteChunk_def Let_def healthy_def next_io_none io_ok_def stored_def
        lookup_write_file split: option.splits)
qed

lemma placeable_WriteChunk:
  "WriteChunk base s p d off = (s', n) \<Longrightarrow> placeable base s' q = placeable base s q"
  by (simp add: placeable_def WriteChunk_frame [of base s p d off s' n] split: option.splits)

lemma ReadChunk_frame:
  assumes "ReadChunk base s p off sz = (s', r)"
  shows "lookup_file s' q = lookup_file s q" "resolve s' q = resolve s q" "dirs s' = dirs s"
    "healthy s \<Longrightarrow> s' = s"
proof -
  from assms show "lookup_file s' q = lookup_file s q" "resolve s' q = resolve s q" "dirs s' = dirs s"
    by (auto simp: ReadChunk_def Let_def case_prod_unfold split: if_splits option.splits)
  from assms show "s' = s" if "healthy s"
    using that by (auto simp: ReadChunk_def Let_def healthy_def next_io_none split: if_splits option.splits)
qed

lemma ReadChunk_healthy:
  assumes "healthy s" and "stored base s p = Some c" and "0 \<le> off" and "sz < 2 ^ 63"
  shows "ReadChunk base s p off sz = (s, Inr (take sz (drop (nat off) c)))"
  using assms
  by (auto simp: ReadChunk_def Let_def healthy_def next_io_none io_ok_def stored_def nat_diff_distrib)

section \<open>The interface of a chunk store\<close>

text \<open>Writing chunks one after the other, each at the offset where the last one ended.\<close>

fun write_seq :: "('s \<Rightarrow> 'p \<Rightarrow> bytes \<Rightarrow> int \<Rightarrow> 's \<times> int) \<Rightarrow> 's \<Rightarrow> 'p \<Rightarrow> int \<Rightarrow> bytes list \<Rightarrow> 's" where
  "write_seq wr s p off [] = s"
| "write_seq wr s p off (d # ds) =
     write_seq wr (fst (wr s p d off)) p (off + int (length d)) ds"

locale chunk_store =
  fixes content :: "'s \<Rightarrow> 'p \<Rightarrow> bytes option"
    and wr :: "'s \<Rightarrow> 'p \<Rightarrow> bytes \<Rightarrow> int \<Rightarrow> 's \<times> int"
    and rd :: "'s \<Rightarrow> 'p \<Rightarrow> int \<Rightarrow> nat \<Rightarrow> 's \<times> (cpp_exn + bytes)"
    and ready :: "'s \<Rightarrow> 'p \<Rightarrow> bool"
  assumes write_size: "ready s p \<Longrightarrow> 0 \<le> off \<Longrightarrow> snd (wr s p d off) = int (length d)"
    and write_ready: "ready s p \<Longrightarrow> ready (fst (wr s p d off)) p"
    and write_content: "ready s p \<Longrightarrow> 0 \<le> off \<Longrightarrow> content (fst (wr s p d off)) p =
      Some (write_at (case content s p of Some c \<Rightarrow> c | None \<Rightarrow> []) (nat off) d)"
    and read_content: "ready s p \<Longrightarrow> content s p = Some c \<Longrightarrow> 0 \<le> off \<Longrightarrow> sz < 2 ^ 63 \<Longrightarrow>
      rd s p off sz = (s, Inr (take sz (drop (nat off) c)))"
begin

lemma write_seq_ready: "ready s p \<Longrightarrow> ready (write_seq wr s p off ds) p"
  by (induction ds arbitrary: s off) (auto simp: write_ready)

lemma write_seq_content:
  assumes "ready s p" and "content s p = Some c"
  shows "content (write_seq wr s p (int (length c)) ds) p = Some (c @ concat ds)"
  using assms
proof (induction ds arbitrary: s c)
  case (Cons d ds)
  then have "content (fst (wr s p d (int (length c)))) p = Some (c @ d)"
    by (simp add: write_content write_at_append)
  from Cons.IH [OF write_ready this] Cons.prems show ?case by simp
qed simp

lemma upload_content:
  assumes "ready s p" and "content s p = None" and "ds \<noteq> []"
  shows "content (write_seq wr s p 0 ds) p = Some (concat ds)"
proof (cases ds)
  case (Cons d r)
  have "content (fst (wr s p d 0)) p = Some d"
    using assms by (simp add: write_content write_at_append)
  from write_seq_content [OF write_ready this, where ds = r] assms(1) Cons show ?thesis by simp
qed (use assms in simp)

lemma upload_download:
  assumes "ready s p" and "content s p = None" and "ds \<noteq> []" and "0 \<le> off" and "sz < 2 ^ 63"
  shows "snd (rd (write_seq wr s p 0 ds) p off sz) = Inr (take sz (drop (nat off) (concat ds)))"
  using assms by (simp add: read_content [OF write_seq_ready upload_content])

lemma rewrite_content:
  assumes "ready s p" and "0 \<le> off"
  shows "content (fst (wr (fst (wr s p d off)) p d off)) p = content (fst (wr s p d off)) p"
proof -
  define c where "c = (case content s p of Some c \<Rightarrow> c | None \<Rightarrow> [])"
  have "write_at (write_at c (nat off) d) (nat off) d = write_at c (nat off) d"
    by (cases "d = []") (auto intro: write_at_same simp: read_written length_write_at)
  with assms show ?thesis by (simp add: write_content write_ready c_def)
qed

end

interpretation disk: chunk_store "stored base" "WriteChunk base" "ReadChunk base"
  "\<lambda>s p. healthy s \<and> placeable base s p" for base
proof unfold_locales
  fix s p d off
  assume r: "healthy s \<and> placeable base s p"
  then show "healthy (fst (WriteChunk base s p d off)) \<and> placeable base (fst (WriteChunk base s p d off)) p"
    by (cases "WriteChunk base s p d off") (auto simp: WriteChunk_frame placeable_WriteChunk)
qed (auto simp: WriteChunk_healthy ReadChunk_healthy)

section \<open>Properties\<close>

text \<open>A storage root with the directory of user 7, for the examples.\<close>

definition sample_fs :: fs where
  "sample_fs = \<lparr>files = [([''srv'', ''7'', ''old''], ''abcdef'')], dirs = [[], [''srv''], [''srv'', ''7'']],
     cwd = [], dir_st_size = 4096, io_envs = []\<rparr>"

text \<open>
  C35: chunks of any sizes written one after the other from offset 0 into a new file leave their
  concatenation there, and any window of it can then be read back with \<open>ReadChunk\<close>.
\<close>

theorem storage_upload_download:
  assumes "healthy s" and "placeable base s p" and "stored base s p = None"
    and "chunks \<noteq> []" and "0 \<le> off" and "sz < 2 ^ 63"
  shows "stored base (write_seq (WriteChunk base) s p 0 chunks) p = Some (concat chunks)
    \<and> snd (ReadChunk base (write_seq (WriteChunk base) s p 0 chunks) p off sz)
        = Inr (take sz (drop (nat off) (concat chunks)))"
  using disk.upload_content [of s base p chunks] disk.upload_download [of s base p chunks off sz] assms
  by simp

theorem storage_upload_download_witness:
  "snd (ReadChunk ''/srv'' (write_seq (WriteChunk ''/srv'') sample_fs ''7/new'' 0 [''ab'', ''cde'']) ''7/new'' 1 3)
     = Inr ''bcd''"
  using storage_upload_download [of sample_fs "''/srv''" "''7/new''" "[''ab'', ''cde'']" 1 3]
  by (simp add: healthy_def placeable_def sample_fs_def GetAbsolutePath_def resolve_def stored_def
      lookup_file_def)

text \<open>
  C36: whatever fails on the way, \<open>WriteChunk\<close> leaves every other file as it was, reports either
  the full length of the chunk or \<open>-1\<close>, and never succeeds at a negative offset.
\<close>

theorem WriteChunk_frame_and_result:
  assumes "WriteChunk base s p d off = (s', n)"
  shows "(n = -1 \<or> n = int (length d) \<and> 0 \<le> off)
    \<and> (\<not> same_place base s p q \<longrightarrow> stored base s' q = stored base s q)"
proof -
  have "n = -1 \<or> 0 \<le> n"
    using assms by (auto simp: WriteChunk_def Let_def case_prod_unfold split: if_splits option.splits)
  with WriteChunk_ok(1,2) [OF assms] WriteChunk_other [OF assms] show ?thesis by blast
qed

theorem WriteChunk_frame_and_result_witness:
  "stored ''/srv'' (fst (WriteChunk ''/srv'' sample_fs ''7/new'' ''xy'' 3)) ''7/old'' = Some ''abcdef''"
proof -
  obtain s' n where w: "WriteChunk ''/srv'' sample_fs ''7/new'' ''xy'' 3 = (s', n)" by fastforce
  have "\<not> same_place ''/srv'' sample_fs ''7/new'' ''7/old''"
    by (simp add: same_place_def sample_fs_def resolve_def GetAbsolutePath_def)
  with WriteChunk_frame_and_result [OF w, of "''7/old''"] w show ?thesis
    by (simp add: stored_def lookup_file_def resolve_def sample_fs_def GetAbsolutePath_def)
qed

text \<open>
  a chunk that is sent again after its acknowledgement was lost does no harm: writing it a
  second time at the same offset leaves the file as the first write left it.
\<close>

theorem WriteChunk_retry:
  assumes "healthy s" and "placeable base s p" and "0 \<le> off"
  shows "stored base (fst (WriteChunk base (fst (WriteChunk base s p d off)) p d off)) p
    = stored base (fst (WriteChunk base s p d off)) p"
  using disk.rewrite_content [of s base p off d] assms by simp

theorem WriteChunk_retry_witness:
  "stored ''/srv'' (fst (WriteChunk ''/srv'' (fst (WriteChunk ''/srv'' sample_fs ''7/old'' ''XY'' 2))
     ''7/old'' ''XY'' 2)) ''7/old'' = Some ''abXYef''"
proof -
  have "healthy sample_fs" "placeable ''/srv'' sample_fs ''7/old''"
    by (simp_all add: healthy_def placeable_def sample_fs_def GetAbsolutePath_def resolve_def)
  moreover from this have "stored ''/srv'' (fst (WriteChunk ''/srv'' sample_fs ''7/old'' ''XY'' 2)) ''7/old''
      = Some ''abXYef''"
    by (simp add: WriteChunk_healthy) (simp add: stored_def lookup_file_def resolve_def sample_fs_def
      GetAbsolutePath_def write_at_def)
  ultimately show ?thesis using WriteChunk_retry [of sample_fs "''/srv''" "''7/old''" 2 "''XY''"] by simp
qed

text \<open>
  \<open>WriteChunk\<close> takes any failure of its first \<open>open\<close> for a missing file. When that call fails
  on a file that exists (a signal, no free descriptor), the second \<open>open\<close> truncates it: the write
  succeeds, and everything stored before it is gone.
\<close>

theorem WriteChunk_failed_open_truncates:
  assumes "stored base s p = Some c" and "placeable base s p" and "0 \<le> off"
    and "io_envs s = io_ok\<lparr>open_fails := True\<rparr> # es"
  shows "snd (WriteChunk base s p d off) = int (length d)
    \<and> stored base (fst (WriteChunk base s p d off)) p = Some (write_at [] (nat off) d)"
proof -
  let ?a = "GetAbsolutePath base p" and ?s = "s\<lparr>io_envs := es\<rparr>"
  have e: "next_io s = (io_ok\<lparr>open_fails := True\<rparr>, ?s)"
    using assms(4) by (simp add: next_io_def)
  from e have same: "resolve ?s x = resolve s x" for x by (metis next_io_snd(5) snd_conv)
  have "lookup_file (create_file ?s ?a) ?a = Some []"
    using assms(2) by (auto simp: lookup_create_file placeable_def same split: option.splits)
  with e assms(3) show ?thesis
    by (auto simp: WriteChunk_def Let_def io_ok_def stored_def lookup_write_file same)
qed

theorem WriteChunk_failed_open_truncates_witness:
  "stored ''/srv'' (fst (WriteChunk ''/srv'' (sample_fs\<lparr>io_envs := [io_ok\<lparr>open_fails := True\<rparr>]\<rparr>)
     ''7/old'' ''g'' 6)) ''7/old'' = Some (replicate 6 (CHR 0x00) @ ''g'')"
  using WriteChunk_failed_open_truncates [of "''/srv''"
      "sample_fs\<lparr>io_envs := [io_ok\<lparr>open_fails := True\<rparr>]\<rparr>" "''7/old''" "''abcdef''" 6 "[]" "''g''"]
  by (simp add: stored_def placeable_def lookup_file_def resolve_def sample_fs_def GetAbsolutePath_def
      write_at_def)

end
