(* ===== verification/FileService.thy ===== *)
theory FileService
  imports Common Database Storage
begin

text \<open>
  \<open>services/file_service.cc\<close>: the upload protocol over the file table and the storage. The state
  of the service is the pair of the two, the storage root is the argument \<open>base\<close>, and the local
  time that \<open>GenerateFilepath\<close> reads is an argument of \<open>UploadStart\<close>.
\<close>

section \<open>File names\<close>

text \<open>
  The loop drops a first dot while a character follows that is not a dot. The filter compares
  signed characters: a byte from 128 on is negative, so it counts as a control character.
\<close>

fun strip_dot :: "string \<Rightarrow> string" where
  "strip_dot (c # d # cs) = (if c = CHR ''.'' \<and> d \<noteq> CHR ''.'' then strip_dot (d # cs) else c # d # cs)"
| "strip_dot cs = cs"

definition signed_char :: "char \<Rightarrow> int" where
  "signed_char c = (let n = of_char c in if n < 128 then n else n - 256)"

definition dangerous :: "char \<Rightarrow> bool" where
  "dangerous c \<longleftrightarrow> signed_char c < 32 \<or> c \<in> {CHR ''/'', CHR 0x5C, CHR '':'', CHR ''*'', CHR ''?'',
     CHR 0x22, CHR ''<'', CHR ''>'', CHR ''|''}"

definition shorten :: "string \<Rightarrow> string" where
  "shorten r =
     (if length r > 200
      then case find_last_of {CHR ''.''} r of
             Some dot \<Rightarrow> if length r - dot \<le> 20 then take (200 - (length r - dot)) r @ drop dot r
                         else take 200 r
           | None \<Rightarrow> take 200 r
      else r)"

definition SanitizeFilename :: "string \<Rightarrow> string" where
  "SanitizeFilename name =
     (let r = (case find_last_of {CHR ''/'', CHR 0x5C} name of
                 Some pos \<Rightarrow> drop (pos + 1) name
               | None \<Rightarrow> name);
          r = strip_dot r;
          r = filter (\<lambda>c. \<not> dangerous c) r;
          r = (if r = [] then ''unnamed'' else r)
      in shorten r)"

definition time_stamp :: "tm \<Rightarrow> string" where
  "time_stamp t = setw0 4 (to_string (tm_year t + 1900)) @ setw0 2 (to_string (tm_mon t + 1))
     @ setw0 2 (to_string (tm_mday t)) @ ''_'' @ setw0 2 (to_string (tm_hour t))
     @ setw0 2 (to_string (tm_min t)) @ setw0 2 (to_string (tm_sec t)) @ ''_''"

definition GenerateFilepath :: "tm \<Rightarrow> int \<Rightarrow> string \<Rightarrow> string" where
  "GenerateFilepath t user_id name = to_string user_id @ ''/'' @ time_stamp t @ name"

section \<open>Operations\<close>

record UploadStartResult =
  up_file_id :: int
  up_offset :: int
  up_is_resume :: bool

definition UploadStart ::
  "string \<Rightarrow> db \<times> fs \<Rightarrow> tm \<Rightarrow> int \<Rightarrow> string \<Rightarrow> int \<Rightarrow> string \<Rightarrow> (db \<times> fs) \<times> UploadStartResult" where
  "UploadStart base st t user_id name size0 md5sum =
     (let (d, s) = st in
        if name = [] \<or> size0 \<le> 0 then ((d, s), \<lparr>up_file_id = -1, up_offset = 0, up_is_resume = False\<rparr>)
        else let safe_name = SanitizeFilename name in
          case FileDAO_FindIncompleteByKey d user_id safe_name size0 md5sum of
            (d, Some existing) \<Rightarrow>
              ((d, s), \<lparr>up_file_id = fid existing, up_offset = upload_size existing, up_is_resume = True\<rparr>)
          | (d, None) \<Rightarrow>
              let (s, _) = CreateUserDir base s user_id;
                  path = GenerateFilepath t user_id safe_name;
                  (d, i) = FileDAO_Insert d (FileInfo_default\<lparr>fuser_id := user_id, filename := safe_name,
                             filepath := path, filesize := size0, md5 := md5sum, status := 0\<rparr>)
              in if i \<le> 0 then ((d, s), \<lparr>up_file_id = -2, up_offset = 0, up_is_resume = False\<rparr>)
                 else ((d, s), \<lparr>up_file_id = i, up_offset = 0, up_is_resume = False\<rparr>))"

definition UploadData :: "string \<Rightarrow> db \<times> fs \<Rightarrow> int \<Rightarrow> int \<Rightarrow> bytes \<Rightarrow> int \<Rightarrow> (db \<times> fs) \<times> int" where
  "UploadData base st i user_id data off =
     (let (d, s) = st in
        case FileDAO_FindById d i of
          (d, None) \<Rightarrow> ((d, s), -1)
        | (d, Some info) \<Rightarrow>
            if fuser_id info \<noteq> user_id then ((d, s), -1)
            else if \<not> IsUploading info then ((d, s), -1)
            else let (s, written) = WriteChunk base s (filepath info) data off in
              if written < 0 then ((d, s), -1)
              else let new_size = max (upload_size info) (off + written);
                       (d, _) = FileDAO_UpdateUploadSize d i new_size
                   in ((d, s), written))"

definition UploadFinalize :: "string \<Rightarrow> db \<times> fs \<Rightarrow> int \<Rightarrow> int \<Rightarrow> (db \<times> fs) \<times> bool" where
  "UploadFinalize base st i user_id =
     (let (d, s) = st in
        case FileDAO_FindById d i of
          (d, None) \<Rightarrow> ((d, s), False)
        | (d, Some info) \<Rightarrow>
            if fuser_id info \<noteq> user_id then ((d, s), False)
            else let (s, disk_size) = GetFileSize base s (filepath info) in
              if disk_size < filesize info then ((d, s), False)
              else let (d, _) = FileDAO_UpdateStatus d i 1;
                       (d, _) = FileDAO_UpdateUploadSize d i (filesize info)
                   in ((d, s), True))"

definition DownloadChunk ::
  "string \<Rightarrow> db \<times> fs \<Rightarrow> int \<Rightarrow> int \<Rightarrow> int \<Rightarrow> nat \<Rightarrow> (db \<times> fs) \<times> (cpp_exn + bytes)" where
  "DownloadChunk base st i user_id off sz =
     (let (d, s) = st in
        case FileDAO_FindById d i of
          (d, None) \<Rightarrow> ((d, s), Inr [])
        | (d, Some info) \<Rightarrow>
            if fuser_id info \<noteq> user_id \<or> IsDeleted info then ((d, s), Inr [])
            else let (s, r) = ReadChunk base s (filepath info) off sz in ((d, s), r))"

definition QueryFiles :: "db \<times> fs \<Rightarrow> int \<Rightarrow> (db \<times> fs) \<times> FileInfo list" where
  "QueryFiles st user_id = (let (d, s) = st; (d, rows) = FileDAO_FindByUserId d user_id in ((d, s), rows))"

definition GetFileInfo :: "db \<times> fs \<Rightarrow> int \<Rightarrow> (db \<times> fs) \<times> FileInfo option" where
  "GetFileInfo st i = (let (d, s) = st; (d, info) = FileDAO_FindById d i in ((d, s), info))"

definition Delete :: "string \<Rightarrow> db \<times> fs \<Rightarrow> int \<Rightarrow> int \<Rightarrow> (db \<times> fs) \<times> bool" where
  "Delete base st i user_id =
     (let (d, s) = st in
        case FileDAO_FindById d i of
          (d, None) \<Rightarrow> ((d, s), False)
        | (d, Some info) \<Rightarrow>
            if fuser_id info \<noteq> user_id then ((d, s), False)
            else let (d, _) = FileDAO_SoftDelete d i; (s, _) = DeleteFile base s (filepath info)
                 in ((d, s), True))"

section \<open>Sanitized names\<close>

lemma find_last_of_drop: "find_last_of C s = Some i \<Longrightarrow> i < length s"
  by (simp add: find_last_of_Some)

lemma shorten_set: "set (shorten r) \<subseteq> set r"
  by (auto simp: shorten_def dest: in_set_takeD in_set_dropD split: option.splits)

lemma shorten_length: "length (shorten r) \<le> 200"
  by (auto simp: shorten_def min_def dest!: find_last_of_drop split: option.splits)

lemma shorten_nonempty: "r \<noteq> [] \<Longrightarrow> shorten r \<noteq> []"
  by (auto simp: shorten_def dest!: find_last_of_drop split: option.splits)

lemma sanitize_chars: "c \<in> set (SanitizeFilename f) \<Longrightarrow> \<not> dangerous c"
proof -
  assume "c \<in> set (SanitizeFilename f)"
  moreover have "list_all (\<lambda>c. \<not> dangerous c) ''unnamed''" by code_simp
  ultimately show ?thesis
    using shorten_set by (fastforce simp: SanitizeFilename_def Let_def list_all_iff split: if_splits)
qed

lemma safe_char:
  assumes "\<not> dangerous c"
  shows "32 \<le> (of_char c :: nat) \<and> (of_char c :: nat) < 128 \<and> c \<noteq> CHR ''/'' \<and> c \<noteq> CHR 0x5C \<and> c \<noteq> CHR 0x00"
proof -
  have i: "(of_char c :: int) = int (of_char c)" by (simp add: of_nat_of_char)
  have sc: "32 \<le> signed_char c" and ne: "c \<noteq> CHR ''/'' \<and> c \<noteq> CHR 0x5C"
    using assms by (simp_all add: dangerous_def)
  have lt: "(of_char c :: nat) < 256" by (rule nat_of_char_less_256)
  have b: "32 \<le> (of_char c :: nat) \<and> (of_char c :: nat) < 128"
  proof (cases "(of_char c :: int) < 128")
    case True
    with sc i show ?thesis by (simp add: signed_char_def Let_def)
  next
    case False
    with sc i lt show ?thesis by (simp add: signed_char_def Let_def)
  qed
  then have "c \<noteq> CHR 0x00" by auto
  with b ne show ?thesis by blast
qed

section \<open>The stored path\<close>

definition path_component :: "string \<Rightarrow> bool" where
  "path_component c \<longleftrightarrow> CHR ''/'' \<notin> set c \<and> c \<notin> {[], ''.'', ''..''}"

lemma path_componentI: "CHR ''/'' \<notin> set c \<Longrightarrow> x \<in> set c \<Longrightarrow> x \<noteq> CHR ''.'' \<Longrightarrow> path_component c"
proof -
  assume a: "CHR ''/'' \<notin> set c" "x \<in> set c" "x \<noteq> CHR ''.''"
  then have "c \<noteq> []" "c \<noteq> ''.''" "c \<noteq> ''..''" by (metis empty_iff empty_set insert_iff list.simps(15))+
  with a(1) show ?thesis by (simp add: path_component_def)
qed

lemma to_string_char: "(of_char c :: nat) < 48 \<Longrightarrow> c \<noteq> CHR ''-'' \<Longrightarrow> c \<notin> set (to_string i)"
proof
  assume low: "(of_char c :: nat) < 48" and m: "c \<noteq> CHR ''-''" and "c \<in> set (to_string i)"
  then obtain k where "k < 10" "c = digit k" using to_string_chars [of c i] by blast
  with low digit_not_low [of k c] show False by simp
qed

lemma to_string_no_sep: "CHR ''/'' \<notin> set (to_string i)" "CHR ''.'' \<notin> set (to_string i)"
  by (rule to_string_char; simp)+

lemma to_string_component: "path_component (to_string i)"
proof (rule path_componentI)
  show "CHR ''/'' \<notin> set (to_string i)" by (rule to_string_no_sep)
  show "hd (to_string i) \<in> set (to_string i)" by simp
  then show "hd (to_string i) \<noteq> CHR ''.''" using to_string_no_sep(2) [of i] by metis
qed

lemma setw0_no_slash: "CHR ''/'' \<notin> set (setw0 w (to_string i))"
  using to_string_no_sep [of i] by (simp add: setw0_def)

lemma time_stamp_component: "CHR ''/'' \<notin> set n \<Longrightarrow> path_component (time_stamp t @ n)"
  by (rule path_componentI [of _ "CHR ''_''"]) (simp_all add: time_stamp_def setw0_no_slash)

lemma sanitize_no_slash: "CHR ''/'' \<notin> set (SanitizeFilename f)"
  using sanitize_chars safe_char by blast

lemma walk_append:
  "walk ds cur xs = Some b \<Longrightarrow> b \<in> set ds \<Longrightarrow> ys \<noteq> [] \<Longrightarrow> walk ds cur (xs @ ys) = walk ds b ys"
  by (induction ds cur xs rule: walk.induct) (auto split: if_splits)

lemma walk_component:
  "path_component c \<Longrightarrow> walk ds b (c # cs) =
     (if cs = [] then Some (b @ [c]) else if b @ [c] \<in> set ds then walk ds (b @ [c]) cs else None)"
  by (auto simp: path_component_def)

text \<open>The storage root names the directory \<open>b\<close>.\<close>

definition root_dir :: "string \<Rightarrow> fs \<Rightarrow> path \<Rightarrow> bool" where
  "root_dir base s b \<longleftrightarrow> base \<noteq> [] \<and> last base \<noteq> CHR ''/'' \<and> resolve s base = Some b \<and> b \<in> set (dirs s)"

lemma resolve_user_file:
  assumes "root_dir base s b" and "path_component u" and "path_component n"
  shows "resolve s (GetAbsolutePath base (u @ ''/'' @ n)) =
    (if b @ [u] \<in> set (dirs s) then Some (b @ [u, n]) else None)"
    and "resolve s (base @ ''/'' @ u) = Some (b @ [u])"
proof -
  have split: "split_on (CHR ''/'') (base @ CHR ''/'' # u @ CHR ''/'' # n) = split_on (CHR ''/'') base @ [u, n]"
    "split_on (CHR ''/'') (base @ CHR ''/'' # u) = split_on (CHR ''/'') base @ [u]"
    using assms(2,3) by (simp_all add: split_on_append split_on_no_sep path_component_def)
  have "u \<noteq> []" using assms(2) by (simp add: path_component_def)
  then have hd: "u \<noteq> []" "hd u \<noteq> CHR ''/''"
    using assms(2) hd_in_set [of u] by (auto simp: path_component_def simp del: hd_in_set)
  from assms(1) have w: "walk (dirs s) (if hd base = CHR ''/'' then [] else cwd s) (split_on (CHR ''/'') base) = Some b"
    and b: "b \<in> set (dirs s)" "base \<noteq> []" "last base \<noteq> CHR ''/''"
    by (auto simp: root_dir_def resolve_def)
  show "resolve s (GetAbsolutePath base (u @ ''/'' @ n)) =
    (if b @ [u] \<in> set (dirs s) then Some (b @ [u, n]) else None)"
    using walk_append [OF w b(1), of "[u, n]"] hd b assms(2,3)
    by (simp add: GetAbsolutePath_def resolve_def split walk_component del: walk.simps)
  show "resolve s (base @ ''/'' @ u) = Some (b @ [u])"
    using walk_append [OF w b(1), of "[u]"] b assms(2)
    by (simp add: resolve_def split walk_component del: walk.simps)
qed

lemma resolve_upload:
  assumes "root_dir base s b"
  shows "resolve s (GetAbsolutePath base (GenerateFilepath t u (SanitizeFilename f))) =
    (if b @ [to_string u] \<in> set (dirs s) then Some (b @ [to_string u, time_stamp t @ SanitizeFilename f]) else None)"
  unfolding GenerateFilepath_def
  using resolve_user_file(1) [OF assms to_string_component time_stamp_component [OF sanitize_no_slash]] by simp

section \<open>Creating the directory of a user\<close>

lemma strip_slashes_id: "p \<noteq> [] \<Longrightarrow> last p \<noteq> CHR ''/'' \<Longrightarrow> strip_slashes p = p"
  by (cases p rule: rev_cases) auto

lemma walk_mono: "walk ds cur cs = Some x \<Longrightarrow> walk (q # ds) cur cs = Some x"
  by (induction ds cur cs rule: walk.induct) (auto split: if_splits)

lemma resolve_add_dir: "resolve s p = Some x \<Longrightarrow> resolve (s\<lparr>dirs := q # dirs s\<rparr>) p = Some x"
  by (auto simp: resolve_def walk_mono split: if_splits)

lemma CreateUserDir_ok:
  assumes r: "root_dir base s b" and h: "healthy s" and nf: "map_of (files s) (b @ [to_string u]) = None"
  shows "\<exists>ds. CreateUserDir base s u = (s\<lparr>dirs := ds\<rparr>, True) \<and> root_dir base (s\<lparr>dirs := ds\<rparr>) b
    \<and> b @ [to_string u] \<in> set ds \<and> set ds \<subseteq> insert (b @ [to_string u]) (set (dirs s))"
proof -
  let ?q = "b @ [to_string u]"
  have "last (to_string u) \<in> set (to_string u)" by (rule last_in_set) simp
  then have last: "last (to_string u) \<noteq> CHR ''/''" using to_string_no_sep(1) [of u] by metis
  have res: "resolve s (strip_slashes (base @ ''/'' @ to_string u)) = Some ?q"
    using resolve_user_file(2) [OF r to_string_component to_string_component, of u] last
    by (simp add: strip_slashes_id del: strip_slashes.simps)
  have b: "b \<in> set (dirs s)" "next_io s = (io_ok, s)"
    using r h by (simp_all add: root_dir_def healthy_def next_io_none)
  show ?thesis
  proof (cases "?q \<in> set (dirs s)")
    case True
    with res b have "CreateUserDir base s u = (s\<lparr>dirs := dirs s\<rparr>, True)"
      by (simp add: CreateUserDir_def mkdir_def io_ok_def)
    with True r show ?thesis by (intro exI [of _ "dirs s"]) auto
  next
    case False
    with res b nf have "CreateUserDir base s u = (s\<lparr>dirs := ?q # dirs s\<rparr>, True)"
      by (simp add: CreateUserDir_def mkdir_def io_ok_def)
    moreover have "root_dir base (s\<lparr>dirs := ?q # dirs s\<rparr>) b"
      using r resolve_add_dir by (simp add: root_dir_def)
    ultimately show ?thesis by (intro exI [of _ "?q # dirs s"]) auto
  qed
qed

section \<open>The operations on a healthy system\<close>

lemma file_row_iff: "files_ok d \<Longrightarrow> file_row d i = Some r \<longleftrightarrow> r \<in> set (file_rows d) \<and> fid r = i"
  using find_key [of fid "file_rows d" r]
  by (auto simp: files_ok_def files_inv_def dest: file_row_key) (simp add: file_row_def)

lemma collate_ops [simp]:
  "collate (fst (FileDAO_UpdateUploadSize d i n)) = collate d"
  "collate (fst (FileDAO_UpdateStatus d i n)) = collate d" "collate (fst (FileDAO_Insert d f)) = collate d"
  by (simp_all add: FileDAO_UpdateUploadSize_def FileDAO_UpdateStatus_def FileDAO_Insert_def Let_def
      update_files_def case_prod_unfold)

lemma GetFileSize_stored:
  "healthy s \<Longrightarrow> stored base s p = Some c \<Longrightarrow> GetFileSize base s p = (s, int (length c))"
  by (auto simp: GetFileSize_def healthy_def next_io_none io_ok_def stored_def lookup_file_def stat_size_def
      split: bind_splits)

text \<open>The row \<open>r\<close> of file \<open>i\<close>, owned by \<open>u\<close>, on a healthy system.\<close>

definition owned :: "db \<times> fs \<Rightarrow> int \<Rightarrow> int \<Rightarrow> FileInfo \<Rightarrow> bool" where
  "owned st i u r \<longleftrightarrow> files_ok (fst st) \<and> healthy (snd st) \<and> file_row (fst st) i = Some r \<and> fuser_id r = u"

lemma UploadData_ok:
  assumes "owned (d, s) i u r" and "status r = 0" and "placeable base s (filepath r)" and "0 \<le> off"
  shows "UploadData base (d, s) i u data off =
    ((fst (FileDAO_UpdateUploadSize d i (max (upload_size r) (off + int (length data)))),
      fst (WriteChunk base s (filepath r) data off)), int (length data))"
  using assms WriteChunk_healthy(1) [of s base "filepath r" off data]
  by (cases "WriteChunk base s (filepath r) data off")
    (simp add: owned_def UploadData_def ftab.get IsUploading_def case_prod_unfold)

lemma owned_UploadData:
  assumes "owned (d, s) i u r" and "status r = 0" and "placeable base s (filepath r)" and "0 \<le> off"
  shows "owned (fst (UploadData base (d, s) i u data off)) i u
      (r\<lparr>upload_size := max (upload_size r) (off + int (length data))\<rparr>)"
    and "j \<noteq> i \<Longrightarrow> file_row (fst (fst (UploadData base (d, s) i u data off))) j = file_row d j"
    and "placeable base (snd (fst (UploadData base (d, s) i u data off))) p = placeable base s p"
    and "collate (fst (fst (UploadData base (d, s) i u data off))) = collate d"
proof -
  let ?w = "WriteChunk base s (filepath r) data off"
  have w: "?w = (fst ?w, snd ?w)" by simp
  show "owned (fst (UploadData base (d, s) i u data off)) i u
      (r\<lparr>upload_size := max (upload_size r) (off + int (length data))\<rparr>)"
    "j \<noteq> i \<Longrightarrow> file_row (fst (fst (UploadData base (d, s) i u data off))) j = file_row d j"
    "placeable base (snd (fst (UploadData base (d, s) i u data off))) p = placeable base s p"
    "collate (fst (fst (UploadData base (d, s) i u data off))) = collate d"
    using assms ftab.set_size_row [of d i] WriteChunk_frame(4) [OF w] placeable_WriteChunk [OF w, of p]
    by (auto simp: UploadData_ok owned_def simp flip: fun_upd_def)
qed

text \<open>Sending chunks one after the other.\<close>

fun upload_seq :: "string \<Rightarrow> db \<times> fs \<Rightarrow> int \<Rightarrow> int \<Rightarrow> int \<Rightarrow> bytes list \<Rightarrow> db \<times> fs" where
  "upload_seq base st i u off [] = st"
| "upload_seq base st i u off (c # cs) =
     upload_seq base (fst (UploadData base st i u c off)) i u (off + int (length c)) cs"

lemma upload_seq_ok:
  assumes "owned (d, s) i u r" and "status r = 0" and "placeable base s (filepath r)"
    and "upload_size r = off" and "0 \<le> off"
  shows "owned (upload_seq base (d, s) i u off cs) i u (r\<lparr>upload_size := off + int (length (concat cs))\<rparr>)
    \<and> snd (upload_seq base (d, s) i u off cs) = write_seq (WriteChunk base) s (filepath r) off cs
    \<and> (\<forall>j. j \<noteq> i \<longrightarrow> file_row (fst (upload_seq base (d, s) i u off cs)) j = file_row d j)
    \<and> collate (fst (upload_seq base (d, s) i u off cs)) = collate d"
  using assms
proof (induction cs arbitrary: d s r off)
  case (Cons c cs)
  let ?u = "fst (UploadData base (d, s) i u c off)" and ?r = "r\<lparr>upload_size := off + int (length c)\<rparr>"
  note o = owned_UploadData [OF Cons.prems(1-3), where data = c and off = off]
  have "owned (fst ?u, snd ?u) i u ?r" "placeable base (snd ?u) (filepath ?r)"
    using o(1,3) Cons.prems(3-5) by simp_all
  from Cons.IH [OF this(1) _ this(2), of "off + int (length c)"] Cons.prems o(2,4)
    UploadData_ok [OF Cons.prems(1-3,5), where data = c]
  show ?case by (simp add: add.assoc)
qed auto

lemma UploadFinalize_ok:
  assumes "owned (d, s) i u r" and "stored base s (filepath r) = Some c"
  shows "UploadFinalize base (d, s) i u =
    (if int (length c) < filesize r then ((d, s), False)
     else ((fst (FileDAO_UpdateUploadSize (fst (FileDAO_UpdateStatus d i 1)) i (filesize r)), s), True))"
  using assms by (simp add: owned_def UploadFinalize_def ftab.get GetFileSize_stored case_prod_unfold)

lemma owned_UploadFinalize:
  assumes "owned (d, s) i u r" and "stored base s (filepath r) = Some c" and "filesize r \<le> int (length c)"
  shows "owned (fst (UploadFinalize base (d, s) i u)) i u (r\<lparr>status := 1, upload_size := filesize r\<rparr>)"
    and "snd (fst (UploadFinalize base (d, s) i u)) = s"
  using assms ftab.set_status_row [of d i 1] ftab.set_size_row [of "fst (FileDAO_UpdateStatus d i 1)" i "filesize r"]
  by (simp_all add: UploadFinalize_ok [OF assms(1,2)] owned_def)

lemma DownloadChunk_ok:
  assumes "owned (d, s) i u r" and "status r \<noteq> 2" and "stored base s (filepath r) = Some c"
    and "0 \<le> off" and "sz < 2 ^ 63"
  shows "DownloadChunk base (d, s) i u off sz = ((d, s), Inr (take sz (drop (nat off) c)))"
  using assms by (simp add: owned_def DownloadChunk_def ftab.get IsDeleted_def ReadChunk_healthy)

section \<open>Starting an upload\<close>

definition resumable :: "db \<Rightarrow> int \<Rightarrow> string \<Rightarrow> int \<Rightarrow> string \<Rightarrow> FileInfo \<Rightarrow> bool" where
  "resumable d u name size0 m r \<longleftrightarrow> fuser_id r = u \<and> collate d (filename r) = collate d name
     \<and> filesize r = size0 \<and> collate d (md5 r) = collate d m \<and> status r = 0"

lemma FindIncomplete_ok:
  assumes "files_ok d"
  shows "FileDAO_FindIncompleteByKey d u name size0 m =
    (d, case rev (sort_key fid (filter (resumable d u name size0 m) (file_rows d))) of [] \<Rightarrow> None | r # _ \<Rightarrow> Some r)"
proof -
  have f: "next_fault d = (None, d)" using assms by (simp add: files_ok_def next_fault_none)
  have take: "fetch_file (take 1 rows) = (case rows of [] \<Rightarrow> None | r # _ \<Rightarrow> Some r)"
    if "\<forall>r \<in> set rows. file_clean r" for rows
    using that by (cases rows) (simp_all add: fetch_file_ok)
  have "\<forall>r \<in> set (rev (sort_key fid (filter (resumable d u name size0 m) (file_rows d)))). file_clean r"
    using assms by (auto simp: files_ok_def)
  from take [OF this] f show ?thesis
    by (simp add: FileDAO_FindIncompleteByKey_def resumable_def [abs_def])
qed

lemma FindIncomplete_unique:
  assumes "files_ok d" and "file_row d i = Some r" and "resumable d u name size0 m r"
    and "\<And>q. q \<in> set (file_rows d) \<Longrightarrow> resumable d u name size0 m q \<Longrightarrow> fid q = i"
  shows "FileDAO_FindIncompleteByKey d u name size0 m = (d, Some r)"
proof -
  let ?l = "filter (resumable d u name size0 m) (file_rows d)"
  have r: "r \<in> set (file_rows d)" "fid r = i" using assms(1,2) by (simp_all add: file_row_iff)
  have all: "q = r" if "q \<in> set ?l" for q
    using that assms file_row_iff [OF assms(1), of i q] by auto
  have "distinct ?l" using assms(1) by (simp add: files_ok_def files_inv_def distinct_map)
  moreover have "r \<in> set ?l" using r(1) assms(3) by simp
  then have "set ?l = {r}" using all by blast
  ultimately have "?l = [r]" by (rule distinct_singleton)
  then show ?thesis by (simp add: FindIncomplete_ok [OF assms(1)])
qed

definition tm_ok :: "tm \<Rightarrow> bool" where
  "tm_ok t \<longleftrightarrow> 0 \<le> tm_year t + 1900 \<and> tm_year t + 1900 < 10000 \<and> 0 \<le> tm_mon t \<and> tm_mon t < 12
     \<and> 0 \<le> tm_mday t \<and> tm_mday t < 32 \<and> 0 \<le> tm_hour t \<and> tm_hour t < 24
     \<and> 0 \<le> tm_min t \<and> tm_min t < 60 \<and> 0 \<le> tm_sec t \<and> tm_sec t < 61"

lemma length_time_stamp: "tm_ok t \<Longrightarrow> length (time_stamp t) = 16"
  using length_to_string [of "tm_year t + 1900" 4] length_to_string [of "tm_mon t + 1" 2]
    length_to_string [of "tm_mday t" 2] length_to_string [of "tm_hour t" 2]
    length_to_string [of "tm_min t" 2] length_to_string [of "tm_sec t" 2]
  by (simp add: tm_ok_def time_stamp_def length_setw0 max_def)

definition upload_row :: "tm \<Rightarrow> int \<Rightarrow> string \<Rightarrow> int \<Rightarrow> string \<Rightarrow> FileInfo" where
  "upload_row t u name size0 m = FileInfo_default\<lparr>fuser_id := u, filename := SanitizeFilename name,
     filepath := GenerateFilepath t u (SanitizeFilename name), filesize := size0, md5 := m\<rparr>"

lemma sanitize_length: "length (SanitizeFilename f) \<le> 200"
  by (simp add: SanitizeFilename_def Let_def shorten_length)

lemma sanitize_nonempty: "SanitizeFilename f \<noteq> []"
  by (simp add: SanitizeFilename_def Let_def shorten_nonempty)

lemma to_string_no_nul: "CHR 0x00 \<notin> set (to_string i)"
  by (rule to_string_char) simp_all

lemma upload_row_clean:
  assumes "tm_ok t" and "int32 u" and "length m \<le> 64" and "CHR 0x00 \<notin> set m"
  shows "file_clean (upload_row t u name size0 m)"
proof -
  have "CHR 0x00 \<notin> set (SanitizeFilename name)" using sanitize_chars safe_char by blast
  moreover have "CHR 0x00 \<notin> set (time_stamp t)"
    using to_string_no_nul by (auto simp: time_stamp_def setw0_def)
  moreover have "length (to_string u) \<le> 11"
    using assms(2) length_to_string_neg [of 10 u] by (simp add: int32_def)
  ultimately show ?thesis
    using assms length_time_stamp [OF assms(1)] sanitize_length [of name] to_string_no_nul [of u]
    by (simp add: file_clean_def file_fits_def upload_row_def FileInfo_default_def GenerateFilepath_def)
qed

text \<open>What \<open>UploadStart\<close> needs to begin a new upload.\<close>

definition can_start :: "string \<Rightarrow> db \<times> fs \<Rightarrow> path \<Rightarrow> tm \<Rightarrow> int \<Rightarrow> string \<Rightarrow> int \<Rightarrow> string \<Rightarrow> bool" where
  "can_start base st b t u name size0 m \<longleftrightarrow> files_ok (fst st) \<and> healthy (snd st) \<and> root_dir base (snd st) b
     \<and> map_of (files (snd st)) (b @ [to_string u]) = None
     \<and> tm_ok t \<and> int32 u \<and> int32 (next_file (fst st)) \<and> name \<noteq> [] \<and> 0 < size0
     \<and> length m \<le> 64 \<and> CHR 0x00 \<notin> set m
     \<and> (\<forall>r \<in> set (file_rows (fst st)). \<not> resumable (fst st) u (SanitizeFilename name) size0 m r)"

lemma UploadStart_new:
  assumes "can_start base (d, s) b t u name size0 m"
  shows "\<exists>d' ds tc. UploadStart base (d, s) t u name size0 m =
      ((d', s\<lparr>dirs := ds\<rparr>), \<lparr>up_file_id = next_file d, up_offset = 0, up_is_resume = False\<rparr>)
    \<and> 0 < next_file d \<and> file_row d (next_file d) = None \<and> collate d' = collate d
    \<and> owned (d', s\<lparr>dirs := ds\<rparr>) (next_file d) u (upload_row t u name size0 m\<lparr>fid := next_file d, fcreate_time := tc\<rparr>)
    \<and> (\<forall>j. j \<noteq> next_file d \<longrightarrow> file_row d' j = file_row d j)
    \<and> root_dir base (s\<lparr>dirs := ds\<rparr>) b \<and> b @ [to_string u] \<in> set ds
    \<and> set ds \<subseteq> insert (b @ [to_string u]) (set (dirs s))"
proof -
  let ?r = "upload_row t u name size0 m" and ?i = "next_file d"
  from assms obtain ds where ds: "CreateUserDir base s u = (s\<lparr>dirs := ds\<rparr>, True)"
    "root_dir base (s\<lparr>dirs := ds\<rparr>) b" "b @ [to_string u] \<in> set ds"
    "set ds \<subseteq> insert (b @ [to_string u]) (set (dirs s))"
    using CreateUserDir_ok [of base s b u] by (auto simp: can_start_def)
  have ok: "files_ok d" and clean: "file_clean ?r" and pos: "0 < ?i"
    using assms by (simp_all add: can_start_def upload_row_clean files_ok_def files_inv_def)
  have "snd (FileDAO_Insert d ?r) = ?i"
    using assms by (simp add: can_start_def FileDAO_Insert_def upload_row_def FileInfo_default_def
        files_ok_def next_fault_none)
  with ftab.ins_row [OF ok clean] pos obtain d' tc where ins: "FileDAO_Insert d ?r = (d', ?i)"
    "file_row d ?i = None" "files_ok d'"
    "file_row d' = (file_row d)(?i \<mapsto> ?r\<lparr>fid := ?i, upload_size := 0, status := 0, fcreate_time := tc\<rparr>)"
    by (cases "FileDAO_Insert d ?r") auto
  have zero: "?r\<lparr>fid := ?i, upload_size := 0, status := 0, fcreate_time := tc\<rparr> = ?r\<lparr>fid := ?i, fcreate_time := tc\<rparr>"
    by (simp add: upload_row_def FileInfo_default_def)
  have "filter (resumable d u (SanitizeFilename name) size0 m) (file_rows d) = []"
    using assms by (simp add: can_start_def filter_empty_conv)
  then have none: "FileDAO_FindIncompleteByKey d u (SanitizeFilename name) size0 m = (d, None)"
    by (simp add: FindIncomplete_ok [OF ok])
  have "?r\<lparr>status := 0\<rparr> = ?r" by (simp add: upload_row_def FileInfo_default_def)
  with ins(1) none ds(1) pos assms have "UploadStart base (d, s) t u name size0 m =
      ((d', s\<lparr>dirs := ds\<rparr>), \<lparr>up_file_id = ?i, up_offset = 0, up_is_resume = False\<rparr>)"
    by (simp add: UploadStart_def can_start_def upload_row_def [symmetric] FileInfo_default_def [symmetric])
  moreover have "collate d' = collate d" using collate_ops(3) [of d ?r] ins(1) by simp
  ultimately show ?thesis using ins ds pos assms
    by (intro exI [of _ d'] exI [of _ ds] exI [of _ tc])
      (simp add: zero owned_def can_start_def healthy_def upload_row_def FileInfo_default_def)
qed

section \<open>Properties\<close>

text \<open>
  whatever the client sends as a file name, the stored name is not empty, has at most 200
  bytes, and holds only printable ASCII characters, without separators and shell metacharacters.
\<close>

theorem SanitizeFilename_safe:
  "SanitizeFilename f \<noteq> [] \<and> length (SanitizeFilename f) \<le> 200
    \<and> (\<forall>c \<in> set (SanitizeFilename f). 32 \<le> (of_char c :: nat) \<and> (of_char c :: nat) < 128
         \<and> c \<notin> set ''/:*?<>|'' \<and> c \<noteq> CHR 0x5C \<and> c \<noteq> CHR 0x22)"
proof -
  have "c \<notin> set ''/:*?<>|'' \<and> c \<noteq> CHR 0x5C \<and> c \<noteq> CHR 0x22" if "\<not> dangerous c" for c
    using that by (simp add: dangerous_def)
  then show ?thesis
    using sanitize_nonempty sanitize_length sanitize_chars safe_char by blast
qed

theorem SanitizeFilename_safe_witness:
  "list_all (\<lambda>c. (of_char c :: nat) < 128) (SanitizeFilename ''../../etc/pass|wd'')
    \<and> SanitizeFilename ''../../etc/pass|wd'' \<noteq> []"
  using SanitizeFilename_safe [of "''../../etc/pass|wd''"] by (simp add: list_all_iff)

text \<open>
  C27: no file name escapes: the path stored for an upload resolves to an entry directly inside
  the directory of its user below the storage root, or does not resolve.
\<close>

theorem upload_path_contained:
  assumes "root_dir base s b"
    and "resolve s (GetAbsolutePath base (GenerateFilepath t u (SanitizeFilename f))) = Some p"
  shows "p = b @ [to_string u, time_stamp t @ SanitizeFilename f] \<and> butlast p = b @ [to_string u]"
  using resolve_upload [OF assms(1), of t u f] assms(2) by (auto split: if_splits simp: butlast_append)

definition sample_tm :: tm where
  "sample_tm = \<lparr>tm_year = 124, tm_mon = 0, tm_mday = 2, tm_hour = 3, tm_min = 4, tm_sec = 5\<rparr>"

lemma sample_root: "root_dir ''/srv'' sample_fs [''srv'']"
  by (simp add: root_dir_def sample_fs_def resolve_def)

lemma to_string_7: "to_string 7 = ''7''"
  by (simp add: to_string_def show_base.simps digit_def flip: of_char_eq_iff [where 'a = nat])

theorem upload_path_contained_witness:
  "\<exists>p. resolve sample_fs (GetAbsolutePath ''/srv'' (GenerateFilepath sample_tm 7 (SanitizeFilename ''../..''))) = Some p
     \<and> butlast p = [''srv'', ''7'']"
proof -
  have "resolve sample_fs (GetAbsolutePath ''/srv'' (GenerateFilepath sample_tm 7 (SanitizeFilename ''../..'')))
      = Some ([''srv'', ''7'', time_stamp sample_tm @ SanitizeFilename ''../..''])"
    using resolve_upload [OF sample_root] by (simp add: to_string_7 sample_fs_def)
  with upload_path_contained [OF sample_root this] show ?thesis by (simp add: to_string_7)
qed

text \<open>
  a hidden name is meant to lose its leading dot, and \<open>.bashrc\<close> does; but the dot is looked
  for before the forbidden characters are removed, so any forbidden character in front brings the
  hidden name back.
\<close>

theorem SanitizeFilename_keeps_hidden:
  assumes "dangerous c" and "c \<noteq> CHR ''/''" and "c \<noteq> CHR 0x5C" and "n \<noteq> []" and "length n < 200"
    and "\<forall>x \<in> set n. \<not> dangerous x" and "hd n \<noteq> CHR ''.''"
  shows "SanitizeFilename (c # CHR ''.'' # n) = CHR ''.'' # n \<and> SanitizeFilename (CHR ''.'' # n) = n"
proof -
  have dot: "\<not> dangerous (CHR ''.'')" by (simp add: dangerous_def signed_char_def)
  have "set n \<inter> {CHR ''/'', CHR 0x5C} = {}" using assms(6) by (auto simp: dangerous_def)
  with assms(2,3) have no: "find_last_of {CHR ''/'', CHR 0x5C} (c # CHR ''.'' # n) = None"
    "find_last_of {CHR ''/'', CHR 0x5C} (CHR ''.'' # n) = None"
    by (simp_all add: find_last_of_None del: find_last_of.simps)
  have f: "filter (\<lambda>x. \<not> dangerous x) n = n" using assms(6) by simp
  have "c \<noteq> CHR ''.''" using assms(1) dot by auto
  moreover have "strip_dot (CHR ''.'' # n) = n" using assms(4,7) by (cases n; cases "tl n") auto
  ultimately show ?thesis
    using assms(1,4,5) f dot no by (simp add: SanitizeFilename_def Let_def shorten_def)
qed

theorem SanitizeFilename_keeps_hidden_witness:
  "SanitizeFilename '':.bashrc'' = ''.bashrc''"
proof -
  have "\<forall>x \<in> set ''bashrc''. \<not> dangerous x" "dangerous (CHR '':'')"
    by (simp_all add: dangerous_def signed_char_def)
  with SanitizeFilename_keeps_hidden [of "CHR '':''" "''bashrc''"] show ?thesis by simp
qed

text \<open>
  a name in a non-ASCII script is erased: every byte of a multi-byte UTF-8 character is
  negative as a \<open>char\<close>, so it passes for a control character.
\<close>

theorem SanitizeFilename_drops_utf8:
  assumes "\<forall>c \<in> set f. 128 \<le> (of_char c :: nat)"
  shows "SanitizeFilename f = ''unnamed''"
proof -
  have bad: "dangerous c" if "c \<in> set f" for c
  proof -
    from that assms have "128 \<le> int (of_char c)" by force
    then have "128 \<le> (of_char c :: int)" by (simp add: of_nat_of_char)
    moreover have "(of_char c :: int) < 256" using nat_of_char_less_256 [of c]
      by (metis of_nat_less_iff of_nat_numeral of_nat_of_char)
    ultimately show ?thesis by (simp add: dangerous_def signed_char_def Let_def)
  qed
  have "c \<notin> set f" if "(of_char c :: nat) < 128" for c using assms that by force
  then have ns: "set f \<inter> {CHR ''/'', CHR 0x5C} = {}" "CHR ''.'' \<notin> set f" by auto
  then have "find_last_of {CHR ''/'', CHR 0x5C} f = None" by (simp add: find_last_of_None)
  moreover have "strip_dot f = f" using ns(2) by (cases f rule: strip_dot.cases) auto
  moreover have "filter (\<lambda>c. \<not> dangerous c) f = []" using bad by simp
  ultimately show ?thesis by (simp add: SanitizeFilename_def shorten_def)
qed

theorem SanitizeFilename_drops_utf8_witness:
  "SanitizeFilename [CHR 0xE4, CHR 0xB8, CHR 0xAD, CHR 0xE6, CHR 0x96, CHR 0x87] = ''unnamed''"
  by (rule SanitizeFilename_drops_utf8) simp

lemma placeable_upload:
  assumes "root_dir base s b" and "b @ [to_string u] \<in> set (dirs s)"
    and "b @ [to_string u, n] \<notin> set (dirs s)" and "n = time_stamp t @ SanitizeFilename f"
  shows "placeable base s (GenerateFilepath t u (SanitizeFilename f))"
  using resolve_upload [OF assms(1), of t u f] assms(2-4) by (simp add: placeable_def butlast_append)

text \<open>The state after a new upload was started and its chunks were sent in order.\<close>

lemma started_and_sent:
  assumes "can_start base (d, s) b t u name size0 m" and "UploadStart base (d, s) t u name size0 m = (st, res)"
    and "b @ [to_string u, time_stamp t @ SanitizeFilename name] \<notin> set (dirs s)"
    and "map_of (files s) (b @ [to_string u, time_stamp t @ SanitizeFilename name]) = None"
  shows "\<exists>tc. res = \<lparr>up_file_id = next_file d, up_offset = 0, up_is_resume = False\<rparr> \<and> 0 < next_file d
    \<and> owned (upload_seq base st (next_file d) u 0 cs) (next_file d) u
        (upload_row t u name size0 m\<lparr>fid := next_file d, fcreate_time := tc, upload_size := int (length (concat cs))\<rparr>)
    \<and> (cs \<noteq> [] \<longrightarrow> stored base (snd (upload_seq base st (next_file d) u 0 cs))
          (GenerateFilepath t u (SanitizeFilename name)) = Some (concat cs))
    \<and> (\<forall>j. j \<noteq> next_file d \<longrightarrow> file_row (fst (upload_seq base st (next_file d) u 0 cs)) j = file_row d j)
    \<and> collate (fst (upload_seq base st (next_file d) u 0 cs)) = collate d"
proof -
  from UploadStart_new [OF assms(1)] assms(2) obtain d' ds tc where
    st: "st = (d', s\<lparr>dirs := ds\<rparr>)" "res = \<lparr>up_file_id = next_file d, up_offset = 0, up_is_resume = False\<rparr>"
    and i: "0 < next_file d" "collate d' = collate d" "\<forall>j. j \<noteq> next_file d \<longrightarrow> file_row d' j = file_row d j"
    and o: "owned st (next_file d) u (upload_row t u name size0 m\<lparr>fid := next_file d, fcreate_time := tc\<rparr>)"
    and r: "root_dir base (s\<lparr>dirs := ds\<rparr>) b" "b @ [to_string u] \<in> set ds"
      "set ds \<subseteq> insert (b @ [to_string u]) (set (dirs s))"
    by auto
  let ?r = "upload_row t u name size0 m\<lparr>fid := next_file d, fcreate_time := tc\<rparr>"
    and ?s = "s\<lparr>dirs := ds\<rparr>" and ?p = "GenerateFilepath t u (SanitizeFilename name)"
  have "b @ [to_string u, time_stamp t @ SanitizeFilename name] \<notin> set (dirs ?s)"
    using assms(3) r(3) by auto
  then have p: "placeable base ?s ?p" using placeable_upload r(1,2) by simp
  have fr: "filepath ?r = ?p" "status ?r = 0" "upload_size ?r = 0"
    by (simp_all add: upload_row_def FileInfo_default_def)
  have "stored base ?s ?p = None"
    using resolve_upload [OF r(1), of t u name] r(2) assms(4) by (simp add: stored_def lookup_file_def)
  moreover have "healthy ?s" using o by (simp add: owned_def st)
  ultimately have "cs \<noteq> [] \<Longrightarrow> stored base (write_seq (WriteChunk base) ?s ?p 0 cs) ?p = Some (concat cs)"
    using disk.upload_content [of ?s base ?p cs] p by simp
  with upload_seq_ok [of d' ?s "next_file d" u ?r base 0 cs] o p fr i st show ?thesis by auto
qed

text \<open>
  C14: the whole way of a file: an upload that starts fresh, its chunks sent in order, and the
  finalization succeed, the row is marked complete with its full size, and from then on its owner
  downloads exactly the bytes that were sent, window by window.
\<close>

theorem upload_finalize_download:
  assumes "can_start base (d, s) b t u name (int (length (concat cs))) m" and "cs \<noteq> []"
    and "UploadStart base (d, s) t u name (int (length (concat cs))) m = (st, res)"
    and "b @ [to_string u, time_stamp t @ SanitizeFilename name] \<notin> set (dirs s)"
    and "map_of (files s) (b @ [to_string u, time_stamp t @ SanitizeFilename name]) = None"
    and "UploadFinalize base (upload_seq base st (up_file_id res) u 0 cs) (up_file_id res) u = (st', ok)"
    and "0 \<le> off" and "sz < 2 ^ 63"
  shows "0 < up_file_id res \<and> ok
    \<and> (\<exists>r. file_row (fst st') (up_file_id res) = Some r \<and> fuser_id r = u \<and> IsCompleted r
         \<and> upload_size r = int (length (concat cs)))
    \<and> DownloadChunk base st' (up_file_id res) u off sz = (st', Inr (take sz (drop (nat off) (concat cs))))"
proof -
  from started_and_sent [OF assms(1,3,4,5), of cs] obtain tc where
    res: "up_file_id res = next_file d" "0 < next_file d"
    and o: "owned (upload_seq base st (next_file d) u 0 cs) (next_file d) u
        (upload_row t u name (int (length (concat cs))) m\<lparr>fid := next_file d, fcreate_time := tc,
           upload_size := int (length (concat cs))\<rparr>)"
    and c: "stored base (snd (upload_seq base st (next_file d) u 0 cs))
          (GenerateFilepath t u (SanitizeFilename name)) = Some (concat cs)"
    using assms(2) by auto
  obtain d1 s1 where ds: "upload_seq base st (next_file d) u 0 cs = (d1, s1)" by fastforce
  let ?r = "upload_row t u name (int (length (concat cs))) m\<lparr>fid := next_file d, fcreate_time := tc,
           upload_size := int (length (concat cs))\<rparr>"
  have o1: "owned (d1, s1) (next_file d) u ?r" and c1: "stored base s1 (filepath ?r) = Some (concat cs)"
    and fs: "filesize ?r = int (length (concat cs))"
    using o c by (simp_all add: ds upload_row_def FileInfo_default_def)
  from assms(6) have fin: "UploadFinalize base (d1, s1) (next_file d) u = (st', ok)" by (simp add: res ds)
  have ok using UploadFinalize_ok [OF o1 c1] fin fs by simp
  let ?r' = "?r\<lparr>status := 1, upload_size := filesize ?r\<rparr>"
  from owned_UploadFinalize [OF o1 c1] fin fs have o2: "owned st' (next_file d) u ?r'" and s2: "snd st' = s1"
    by simp_all
  obtain d2 where st': "st' = (d2, s1)" using s2 by (cases st') simp
  have "DownloadChunk base (d2, s1) (next_file d) u off sz = ((d2, s1), Inr (take sz (drop (nat off) (concat cs))))"
    by (rule DownloadChunk_ok [of _ _ _ _ ?r']) (use o2 c1 st' assms(7,8) in simp_all)
  with \<open>ok\<close> o2 res st' fs show ?thesis by (auto simp: owned_def IsCompleted_def)
qed

lemma sample_tm_ok: "tm_ok sample_tm"
  by (simp add: tm_ok_def sample_tm_def)

lemma sample_can_start: "n \<noteq> 10 \<Longrightarrow> 0 < n \<Longrightarrow> can_start ''/srv'' (sample_db, sample_fs) [''srv''] sample_tm 7 ''note'' n ''m''"
  by (simp add: can_start_def sample_db_ok sample_root sample_tm_ok to_string_7 int32_def resumable_def)
    (simp add: healthy_def sample_fs_def sample_db_def sample_file_def FileInfo_default_def)

lemma sample_new_path:
  "[''srv''] @ [to_string 7, time_stamp sample_tm @ x] \<notin> set (dirs sample_fs)"
  "map_of (files sample_fs) ([''srv''] @ [to_string 7, time_stamp sample_tm @ x]) = None"
proof -
  have "length (time_stamp sample_tm @ x) \<noteq> length ''old''"
    using length_time_stamp [OF sample_tm_ok] by simp
  then have "time_stamp sample_tm @ x \<noteq> ''old''" by metis
  then show "[''srv''] @ [to_string 7, time_stamp sample_tm @ x] \<notin> set (dirs sample_fs)"
    "map_of (files sample_fs) ([''srv''] @ [to_string 7, time_stamp sample_tm @ x]) = None"
    by (simp_all add: sample_fs_def to_string_7)
qed

theorem upload_finalize_download_witness:
  "\<exists>st res st'. UploadStart ''/srv'' (sample_db, sample_fs) sample_tm 7 ''note'' 5 ''m'' = (st, res)
     \<and> UploadFinalize ''/srv'' (upload_seq ''/srv'' st (up_file_id res) 7 0 [''ab'', ''cde'']) (up_file_id res) 7
         = (st', True)
     \<and> DownloadChunk ''/srv'' st' (up_file_id res) 7 1 3 = (st', Inr ''bcd'')"
proof -
  obtain st res where u: "UploadStart ''/srv'' (sample_db, sample_fs) sample_tm 7 ''note'' 5 ''m'' = (st, res)"
    by fastforce
  obtain st' ok where f: "UploadFinalize ''/srv'' (upload_seq ''/srv'' st (up_file_id res) 7 0 [''ab'', ''cde''])
      (up_file_id res) 7 = (st', ok)" by fastforce
  from upload_finalize_download [of "''/srv''" sample_db sample_fs "[''srv'']" sample_tm 7 "''note''"
      "[''ab'', ''cde'']" "''m''" st res st' ok 1 3] u f sample_can_start [of 5] sample_new_path
  show ?thesis by (cases st') auto
qed

text \<open>
  after any contiguous prefix has been sent, starting the same upload again (same user, name,
  size and digest, at any later time) resumes it: the same id, the number of bytes sent as the
  offset, and nothing changed.
\<close>

theorem upload_resume:
  assumes "can_start base (d, s) b t u name size0 m" and "UploadStart base (d, s) t u name size0 m = (st, res)"
    and "b @ [to_string u, time_stamp t @ SanitizeFilename name] \<notin> set (dirs s)"
    and "map_of (files s) (b @ [to_string u, time_stamp t @ SanitizeFilename name]) = None"
  shows "UploadStart base (upload_seq base st (up_file_id res) u 0 cs) t' u name size0 m =
    (upload_seq base st (up_file_id res) u 0 cs,
     \<lparr>up_file_id = up_file_id res, up_offset = int (length (concat cs)), up_is_resume = True\<rparr>)"
proof -
  obtain d2 s2 where ds: "upload_seq base st (next_file d) u 0 cs = (d2, s2)" by fastforce
  from started_and_sent [OF assms, of cs] obtain tc where
    res: "up_file_id res = next_file d"
    and o: "owned (d2, s2) (next_file d) u (upload_row t u name size0 m\<lparr>fid := next_file d, fcreate_time := tc,
           upload_size := int (length (concat cs))\<rparr>)"
    and rest: "\<forall>j. j \<noteq> next_file d \<longrightarrow> file_row d2 j = file_row d j" "collate d2 = collate d"
    by (auto simp: ds)
  let ?r = "upload_row t u name size0 m\<lparr>fid := next_file d, fcreate_time := tc, upload_size := int (length (concat cs))\<rparr>"
  have ok: "files_ok d2" "file_row d2 (next_file d) = Some ?r" "files_ok d"
    using o assms(1) by (simp_all add: owned_def can_start_def)
  have "fid q = next_file d" if "q \<in> set (file_rows d2)" "resumable d2 u (SanitizeFilename name) size0 m q" for q
  proof (rule ccontr)
    assume "fid q \<noteq> next_file d"
    with that(1) rest(1) ok have "q \<in> set (file_rows d)"
      using file_row_iff [of d2 "fid q" q] file_row_iff [of d "fid q" q] by simp
    with that(2) assms(1) rest(2) show False by (auto simp: can_start_def resumable_def)
  qed
  moreover have "resumable d2 u (SanitizeFilename name) size0 m ?r"
    by (simp add: resumable_def upload_row_def FileInfo_default_def)
  ultimately have "FileDAO_FindIncompleteByKey d2 u (SanitizeFilename name) size0 m = (d2, Some ?r)"
    using FindIncomplete_unique [OF ok(1,2)] by blast
  with assms(1) res ds show ?thesis by (simp add: UploadStart_def can_start_def)
qed

theorem upload_resume_witness:
  "\<exists>st res. UploadStart ''/srv'' (sample_db, sample_fs) sample_tm 7 ''note'' 5 ''m'' = (st, res)
     \<and> snd (UploadStart ''/srv'' (upload_seq ''/srv'' st (up_file_id res) 7 0 [''ab'']) sample_tm 7 ''note'' 5 ''m'')
       = \<lparr>up_file_id = up_file_id res, up_offset = 2, up_is_resume = True\<rparr>"
proof -
  obtain st res where u: "UploadStart ''/srv'' (sample_db, sample_fs) sample_tm 7 ''note'' 5 ''m'' = (st, res)"
    by fastforce
  from upload_resume [OF _ u, of "[''srv'']" "[''ab'']" sample_tm] sample_can_start [of 5] sample_new_path u
  show ?thesis by auto
qed

text \<open>
  isolation of users: on a file that belongs to somebody else (or does not exist) uploading,
  finalizing, downloading and deleting fail, return no data and change neither the rows nor the
  storage, whatever fails on the way.
\<close>

theorem FileService_rejects_others:
  assumes "\<forall>r \<in> set (file_rows d). fid r = i \<longrightarrow> fuser_id r \<noteq> u"
    and "UploadData base (d, s) i u data off = ((d1, s1), n)" and "UploadFinalize base (d, s) i u = ((d2, s2), ok)"
    and "DownloadChunk base (d, s) i u off sz = ((d3, s3), bs)" and "Delete base (d, s) i u = ((d4, s4), del)"
  shows "n = -1 \<and> \<not> ok \<and> bs = Inr [] \<and> \<not> del \<and> s1 = s \<and> s2 = s \<and> s3 = s \<and> s4 = s
    \<and> file_rows d1 = file_rows d \<and> file_rows d2 = file_rows d \<and> file_rows d3 = file_rows d \<and> file_rows d4 = file_rows d"
proof -
  obtain e r where f: "FileDAO_FindById d i = (e, r)" by fastforce
  have e: "file_rows e = file_rows d" using find_state(4) [of d i] f by simp
  have "fuser_id x \<noteq> u" if "r = Some x" for x
    using that f assms(1) by (auto simp: FileDAO_FindById_def Let_def case_prod_unfold fetch_file_def file_of_row_def
        dest!: filter_eq_ConsD split: if_splits list.splits)
  with assms(2-5) e f show ?thesis
    by (auto simp: UploadData_def UploadFinalize_def DownloadChunk_def Delete_def split: option.splits)
qed

theorem FileService_rejects_others_witness:
  "snd (Delete ''/srv'' (sample_db, sample_fs) 1 8) = False"
proof -
  have "\<forall>r \<in> set (file_rows sample_db). fid r = 1 \<longrightarrow> fuser_id r \<noteq> 8"
    by (simp add: sample_db_def sample_file_def FileInfo_default_def)
  from FileService_rejects_others [OF this, of "''/srv''" sample_fs "[]" 0 _ _ _ _ _ _ 1] show ?thesis
    by (metis prod.collapse)
qed

text \<open>
  the finalization does not establish that the content arrived: it only compares sizes, so an
  upload of which nothing but the last bytes were sent is completed, and its owner downloads zeros.
\<close>

theorem finalize_accepts_holes:
  assumes "owned (d, s) i u r" and "status r = 0" and "placeable base s (filepath r)"
    and "stored base s (filepath r) = None" and "data \<noteq> []" and "0 < off"
    and "off + int (length data) = filesize r" and "UploadData base (d, s) i u data off = (st, n)"
    and "off < 2 ^ 63"
  shows "snd (UploadFinalize base st i u)
    \<and> snd (DownloadChunk base (fst (UploadFinalize base st i u)) i u 0 (nat off)) = Inr (replicate (nat off) (CHR 0x00))"
proof -
  let ?r = "r\<lparr>upload_size := max (upload_size r) (off + int (length data))\<rparr>"
    and ?c = "replicate (nat off) (CHR 0x00) @ data"
  have o: "owned st i u ?r" using owned_UploadData(1) [OF assms(1-3), of off data] assms(6,8) by simp
  have "snd st = fst (WriteChunk base s (filepath r) data off)"
    using UploadData_ok [OF assms(1-3), of off data] assms(6,8) by auto
  then have c: "stored base (snd st) (filepath ?r) = Some ?c"
    using WriteChunk_healthy(2) [of s base "filepath r" off data] assms(1,3-6)
    by (simp add: owned_def write_at_def)
  obtain d1 s1 where st: "st = (d1, s1)" by (cases st) auto
  have len: "filesize ?r \<le> int (length ?c)" using assms(6,7) by simp
  note fin = owned_UploadFinalize [OF o [unfolded st] c [unfolded st snd_conv] len]
  let ?f = "fst (UploadFinalize base (d1, s1) i u)"
  have "snd (UploadFinalize base (d1, s1) i u)"
    using UploadFinalize_ok [OF o [unfolded st] c [unfolded st snd_conv]] len by simp
  moreover have "DownloadChunk base (fst ?f, s1) i u 0 (nat off) = ((fst ?f, s1), Inr (take (nat off) (drop (nat 0) ?c)))"
    by (rule DownloadChunk_ok [of _ _ _ _ "?r\<lparr>status := 1, upload_size := filesize ?r\<rparr>"])
      (use fin c assms(6,9) st in \<open>simp_all add: nat_less_iff prod_eq_iff [symmetric]\<close>,
       metis fin(1) fin(2) prod.collapse)
  ultimately show ?thesis using fin(2) by (metis append_eq_conv_conj drop0 length_replicate nat_0 prod.collapse snd_conv st)
qed

definition sample_open :: "db \<times> fs" where
  "sample_open = (sample_db\<lparr>file_rows := [sample_file 1 ''x''\<lparr>filepath := ''7/new''\<rparr>,
     sample_file 2 ''y''\<lparr>filepath := ''7/new''\<rparr>]\<rparr>, sample_fs)"

lemma sample_open_owned:
  "owned sample_open 1 7 (sample_file 1 ''x''\<lparr>filepath := ''7/new''\<rparr>)"
  "owned sample_open 2 7 (sample_file 2 ''y''\<lparr>filepath := ''7/new''\<rparr>)"
  by (simp_all add: owned_def sample_open_def files_ok_def files_inv_def clock_ok_def sample_db_def
      sample_file_def FileInfo_default_def file_clean_def file_fits_def healthy_def sample_fs_def file_row_def)

lemma sample_open_new: "placeable ''/srv'' sample_fs ''7/new''" "stored ''/srv'' sample_fs ''7/new'' = None"
  by (simp_all add: placeable_def stored_def lookup_file_def sample_fs_def GetAbsolutePath_def resolve_def)

theorem finalize_accepts_holes_witness:
  "snd (UploadFinalize ''/srv'' (fst (UploadData ''/srv'' sample_open 1 7 ''z'' 9)) 1 7)"
  using finalize_accepts_holes [of "fst sample_open" sample_fs 1 7 _ "''/srv''" "''z''" 9, OF _ _ _ _ _ _ _ surjective_pairing]
    sample_open_owned(1) sample_open_new
  by (simp add: sample_open_def sample_file_def FileInfo_default_def)

definition sample_db1 :: db where
  "sample_db1 = sample_db\<lparr>file_rows := file_rows sample_db @
     [upload_row sample_tm 7 ''note'' 5 ''m''\<lparr>fid := 3, fcreate_time := ''2024''\<rparr>], next_file := 4\<rparr>"

lemma sample_started:
  "UploadStart ''/srv'' (sample_db, sample_fs) sample_tm 7 ''note'' 5 ''m'' =
     ((sample_db1, sample_fs), \<lparr>up_file_id = 3, up_offset = 0, up_is_resume = False\<rparr>)"
proof -
  have "FileDAO_FindIncompleteByKey sample_db 7 (SanitizeFilename ''note'') 5 ''m'' = (sample_db, None)"
    by (simp add: FileDAO_FindIncompleteByKey_def sample_db_def next_fault_def sample_file_def
        FileInfo_default_def fetch_file_def)
  moreover have "CreateUserDir ''/srv'' sample_fs 7 = (sample_fs, True)"
    by (simp add: CreateUserDir_def next_io_def sample_fs_def to_string_7 io_ok_def mkdir_def resolve_def)
  moreover have "FileInfo_default\<lparr>fuser_id := 7, filename := SanitizeFilename ''note'',
      filepath := GenerateFilepath sample_tm 7 (SanitizeFilename ''note''), filesize := 5, md5 := ''m'', status := 0\<rparr>
      = upload_row sample_tm 7 ''note'' 5 ''m''"
    by (simp add: upload_row_def FileInfo_default_def)
  ultimately show ?thesis
    by (simp add: UploadStart_def FileDAO_Insert_def next_fault_def)
      (simp add: sample_db1_def sample_db_def upload_row_def FileInfo_default_def int32_def Let_def)
qed

lemma sample_can_start2: "can_start ''/srv'' (sample_db1, sample_fs) [''srv''] sample_tm 7 ''note'' 6 ''n''"
proof -
  have "file_clean (upload_row sample_tm 7 ''note'' 5 ''m'')"
    by (rule upload_row_clean) (simp_all add: sample_tm_ok int32_def)
  then have "file_clean (upload_row sample_tm 7 ''note'' 5 ''m''\<lparr>fid := 3, fcreate_time := ''2024''\<rparr>)"
    by (simp add: file_clean_def file_fits_def)
  with sample_db_ok have "files_ok sample_db1"
    by (simp add: files_ok_def files_inv_def clock_ok_def sample_db1_def)
      (simp add: sample_db_def sample_file_def)
  then show ?thesis
    by (simp add: can_start_def sample_root sample_tm_ok to_string_7 int32_def resumable_def)
      (simp add: healthy_def sample_fs_def sample_db_def sample_db1_def sample_file_def FileInfo_default_def
        upload_row_def)
qed

text \<open>
  two uploads of one user with the same name that start in the same second get rows of their
  own (the digests differ) but the same path: what is sent for the second replaces the content of
  the first.
\<close>

theorem same_second_uploads_collide:
  assumes "can_start base (d, s) b t u name n1 m1" and "UploadStart base (d, s) t u name n1 m1 = (st1, res1)"
    and "can_start base st1 b t u name n2 m2" and "UploadStart base st1 t u name n2 m2 = (st2, res2)"
  shows "up_file_id res1 \<noteq> up_file_id res2
    \<and> (\<exists>r1 r2. file_row (fst st2) (up_file_id res1) = Some r1 \<and> file_row (fst st2) (up_file_id res2) = Some r2
         \<and> filepath r1 = filepath r2 \<and> md5 r1 = m1 \<and> md5 r2 = m2)"
proof -
  obtain d1 s1 where st1: "st1 = (d1, s1)" by (cases st1) auto
  obtain tc1 where 1: "up_file_id res1 = next_file d"
      "file_row d1 (next_file d) = Some (upload_row t u name n1 m1\<lparr>fid := next_file d, fcreate_time := tc1\<rparr>)"
    using UploadStart_new [OF assms(1)] unfolding assms(2) st1 owned_def by auto
  obtain d2 s2 where st2: "st2 = (d2, s2)" by (cases st2) auto
  obtain tc2 where 2: "up_file_id res2 = next_file d1" "file_row d1 (next_file d1) = None"
      "file_row d2 (next_file d1) = Some (upload_row t u name n2 m2\<lparr>fid := next_file d1, fcreate_time := tc2\<rparr>)"
    and same: "\<And>j. j \<noteq> next_file d1 \<Longrightarrow> file_row d2 j = file_row d1 j"
    using UploadStart_new [OF assms(3) [unfolded st1]] unfolding assms(4) [unfolded st1] st2 owned_def by force
  from 1 2(2) have ne: "next_file d \<noteq> next_file d1" by auto
  with 1 2 same [OF ne] st2 show ?thesis by (simp add: upload_row_def FileInfo_default_def)
qed

theorem same_second_uploads_collide_witness:
  "\<exists>st2 res2. UploadStart ''/srv'' (sample_db1, sample_fs) sample_tm 7 ''note'' 6 ''n'' = (st2, res2)
     \<and> up_file_id res2 \<noteq> 3
     \<and> (\<exists>r1 r2. file_row (fst st2) 3 = Some r1 \<and> file_row (fst st2) (up_file_id res2) = Some r2
         \<and> filepath r1 = filepath r2)"
proof -
  obtain st2 res2 where u: "UploadStart ''/srv'' (sample_db1, sample_fs) sample_tm 7 ''note'' 6 ''n'' = (st2, res2)"
    by fastforce
  have "can_start ''/srv'' (sample_db, sample_fs) [''srv''] sample_tm 7 ''note'' 5 ''m''"
    by (rule sample_can_start) simp_all
  from same_second_uploads_collide [OF this sample_started sample_can_start2 u] u show ?thesis by auto
qed

text \<open>
  such a shared path loses data: when the first upload is complete and the second sends as many
  bytes, the owner of the first downloads the bytes of the second.
\<close>

theorem shared_path_overwrites:
  assumes "owned (d, s) i u r1" and "status r1 = 1" and "owned (d, s) j u r2" and "status r2 = 0"
    and "i \<noteq> j" and "filepath r1 = filepath r2" and "placeable base s (filepath r2)"
    and "stored base s (filepath r1) = Some old" and "length data = length old" and "sz < 2 ^ 63"
    and "UploadData base (d, s) j u data 0 = (st, n)"
  shows "DownloadChunk base st i u 0 sz = (st, Inr (take sz data))"
proof -
  obtain d' s' where st: "st = (d', s')" by (cases st) auto
  have o: "owned st j u (r2\<lparr>upload_size := max (upload_size r2) (0 + int (length data))\<rparr>)"
    using owned_UploadData(1) [OF assms(3,4,7), of 0 data] assms(11) by simp
  have "file_row d' i = file_row d i"
    using owned_UploadData(2) [OF assms(3,4,7), of 0 i data] assms(5,11) st by simp
  then have 1: "owned (d', s') i u r1" using o assms(1) by (simp add: owned_def st)
  have "s' = fst (WriteChunk base s (filepath r2) data 0)"
    using UploadData_ok [OF assms(3,4,7), of 0 data] assms(11) st by simp
  then have "stored base s' (filepath r1) = Some (write_at old 0 data)"
    using WriteChunk_healthy(2) [of s base "filepath r2" 0 data] assms(1,6,7,8) by (simp add: owned_def)
  moreover have "write_at old 0 data = data" using assms(9) by (auto simp: write_at_def)
  ultimately show ?thesis using DownloadChunk_ok [OF 1, of base data 0 sz] assms(2,10) st by simp
qed

theorem shared_path_overwrites_witness:
  "\<exists>st. DownloadChunk ''/srv'' st 1 7 0 9 = (st, Inr ''123456'')"
proof -
  let ?r1 = "sample_file 1 ''x''\<lparr>filepath := ''7/old'', status := 1\<rparr>"
    and ?r2 = "sample_file 2 ''y''\<lparr>filepath := ''7/old''\<rparr>"
  let ?d = "sample_db\<lparr>file_rows := [?r1, ?r2]\<rparr>"
  have o: "owned (?d, sample_fs) 1 7 ?r1" "owned (?d, sample_fs) 2 7 ?r2"
    by (simp_all add: owned_def files_ok_def files_inv_def clock_ok_def sample_db_def sample_file_def
        FileInfo_default_def file_clean_def file_fits_def healthy_def sample_fs_def file_row_def)
  have p: "placeable ''/srv'' sample_fs ''7/old''" "stored ''/srv'' sample_fs ''7/old'' = Some ''abcdef''"
    by (simp_all add: placeable_def stored_def lookup_file_def sample_fs_def GetAbsolutePath_def resolve_def)
  obtain st n where u: "UploadData ''/srv'' (?d, sample_fs) 2 7 ''123456'' 0 = (st, n)" by fastforce
  have "DownloadChunk ''/srv'' st 1 7 0 9 = (st, Inr (take 9 ''123456''))"
    by (rule shared_path_overwrites [OF o(1) _ o(2) _ _ _ _ _ _ _ u, of "''abcdef''"])
      (simp_all add: p sample_file_def FileInfo_default_def)
  then show ?thesis by (intro exI [of _ st]) simp
qed

end
