(* ===== verification/Steps.thy ===== *)
theory Steps
  imports Prelude "HOL-Library.Multiset"
begin

text \<open>
  Runs of labelled step relations, shared by the concurrent components (the thread pool, the
  connection pool, the pending calls of the RPC client), and the two interfaces their proofs use:
  a relation that keeps an invariant, and one whose steps decrease a measure.
\<close>

section \<open>Runs\<close>

inductive run :: "('s \<Rightarrow> 'a \<Rightarrow> 's \<Rightarrow> bool) \<Rightarrow> 's \<Rightarrow> 'a list \<Rightarrow> 's \<Rightarrow> bool" for step where
  run_Nil: "run step s [] s"
| run_Cons: "step s a t \<Longrightarrow> run step t as u \<Longrightarrow> run step s (a # as) u"

inductive_simps run_Nil_iff [simp]: "run step s [] t"
inductive_simps run_Cons_iff: "run step s (a # as) u"

lemma run_append: "run step s as t \<Longrightarrow> run step t bs u \<Longrightarrow> run step s (as @ bs) u"
  by (induction rule: run.induct) (auto intro: run_Cons)

lemma run_append_iff: "run step s (as @ bs) u \<longleftrightarrow> (\<exists>t. run step s as t \<and> run step t bs u)"
  by (induction as arbitrary: s) (auto simp: run_Cons_iff)

text \<open>No step is possible.\<close>

definition stuck :: "('s \<Rightarrow> 'a \<Rightarrow> 's \<Rightarrow> bool) \<Rightarrow> 's \<Rightarrow> bool" where
  "stuck step s \<longleftrightarrow> (\<forall>a t. \<not> step s a t)"

lemma stuck_run: "stuck step s \<Longrightarrow> run step s as t \<Longrightarrow> as = [] \<and> t = s"
  by (cases as) (auto simp: run_Cons_iff stuck_def)

section \<open>Summing over the threads\<close>

lemma sum_threads_update:
  fixes f :: "'w \<Rightarrow> 'b::comm_monoid_add"
  assumes "i < length ws"
  shows "(\<Sum>w \<in># mset (ws[i := w]). f w) + f (ws ! i) = (\<Sum>w \<in># mset ws. f w) + f w"
proof -
  have "mset (ws[i := w]) + {#ws ! i#} = mset ws + {#w#}"
    using assms by (simp add: mset_update)
  then have "(\<Sum>w \<in># mset (ws[i := w]) + {#ws ! i#}. f w) = (\<Sum>w \<in># mset ws + {#w#}. f w)"
    by simp
  then show ?thesis by (simp add: add.commute)
qed

section \<open>Invariants\<close>

locale invariant =
  fixes step :: "'s \<Rightarrow> 'a \<Rightarrow> 's \<Rightarrow> bool" and inv :: "'s \<Rightarrow> bool"
  assumes preserved: "inv s \<Longrightarrow> step s a t \<Longrightarrow> inv t"
begin

lemma run_inv:
  assumes "run step s as t" and "inv s"
  shows "inv t"
  using assms by (induction rule: run.induct) (auto intro: preserved)

text \<open>What the invariant implies holds at every state on the way.\<close>

lemma run_prefix_inv:
  assumes "run step s (as @ bs) u" and "inv s"
  shows "\<exists>t. run step s as t \<and> inv t \<and> run step t bs u"
  using assms run_inv by (auto simp: run_append_iff)

end

section \<open>Progress\<close>

text \<open>
  Inside a region that is never left, every step decreases a measure: runs there are bounded, and
  one that has to stop reaches a state where no step is possible.
\<close>

locale draining = invariant step region for step :: "'s \<Rightarrow> 'a \<Rightarrow> 's \<Rightarrow> bool" and region +
  fixes weight :: "'s \<Rightarrow> nat"
  assumes decreases: "region s \<Longrightarrow> step s a t \<Longrightarrow> weight t < weight s"
begin

lemma run_bound: "run step s as t \<Longrightarrow> region s \<Longrightarrow> length as + weight t \<le> weight s"
proof (induction rule: run.induct)
  case (run_Cons s a t as u)
  with preserved decreases [of s a t] show ?case by fastforce
qed simp

lemma reaches_stuck: "region s \<Longrightarrow> \<exists>as t. run step s as t \<and> stuck step t \<and> region t"
proof (induction s rule: measure_induct_rule [of weight])
  case (less s)
  show ?case
  proof (cases "stuck step s")
    case False
    then obtain a t where "step s a t" by (auto simp: stuck_def)
    with less preserved decreases show ?thesis by (meson run_Cons)
  qed (use less.prems in \<open>auto intro: run_Nil\<close>)
qed

end

end
