(* ===== verification/Parallel.thy ===== *)
theory Parallel
  imports FileService Steps
begin

text \<open>
  Several requests for one upload at once: the workers of the stand-alone server that run
  \<open>FileService::UploadData\<close> (\<open>services/file_service.cc\<close>) for the same file. A step is one data access
  operation, or one call of \<open>StorageManager::WriteChunk\<close> on the file: the open, the creation with the
  second open, or the write.
\<close>

section \<open>Steps of one request\<close>

datatype uploader = Asked bytes int | Opening FileInfo bytes int | Creating FileInfo io_env bytes int
  | Writing FileInfo io_env bytes int | Recording FileInfo bytes int | Replied int

fun advance :: "string \<Rightarrow> int \<Rightarrow> int \<Rightarrow> db \<times> fs \<Rightarrow> uploader \<Rightarrow> (db \<times> fs) \<times> uploader" where
  "advance base i u (d, s) (Asked data off) =
     (case FileDAO_FindById d i of
        (d, None) \<Rightarrow> ((d, s), Replied (-1))
      | (d, Some info) \<Rightarrow> ((d, s), if fuser_id info \<noteq> u \<or> \<not> IsUploading info then Replied (-1) else Opening info data off))"
| "advance base i u (d, s) (Opening info data off) =
     (let (e, s) = next_io s in
      ((d, s), if \<not> open_fails e \<and> lookup_file s (GetAbsolutePath base (filepath info)) \<noteq> None
        then Writing info e data off else Creating info e data off))"
| "advance base i u (d, s) (Creating info e data off) =
     (let abspath = GetAbsolutePath base (filepath info);
          s = (if create_fails e then s else create_file s abspath)
      in ((d, s), if \<not> reopen_fails e \<and> lookup_file s abspath \<noteq> None then Writing info e data off else Replied (-1)))"
| "advance base i u (d, s) (Writing info e data off) =
     (let abspath = GetAbsolutePath base (filepath info) in
      if off < 0 \<or> seek_fails e then ((d, s), Replied (-1))
      else case write_cut e of
        Some n \<Rightarrow> ((d, write_file s abspath (nat off) (take n data)), Replied (-1))
      | None \<Rightarrow> ((d, write_file s abspath (nat off) data), Recording info data off))"
| "advance base i u (d, s) (Recording info data off) =
     (let written = int (length data); (d, _) = FileDAO_UpdateUploadSize d i (max (upload_size info) (off + written))
      in ((d, s), Replied written))"
| "advance base i u (d, s) (Replied n) = ((d, s), Replied n)"

text \<open>A request that runs alone is \<open>UploadData\<close>, whatever fails.\<close>

lemma alone_is_UploadData:
  "((\<lambda>(st, t). advance base i u st t) ^^ 5) (st, Asked data off)
     = (fst (UploadData base st i u data off), Replied (snd (UploadData base st i u data off)))"
proof -
  obtain d s where st: "st = (d, s)" by fastforce
  obtain d1 info where f: "FileDAO_FindById d i = (d1, info)" by fastforce
  obtain e s1 where e: "next_io s = (e, s1)" by fastforce
  show ?thesis
  proof (cases info)
    case (Some r)
    show ?thesis
      by (cases "fuser_id r \<noteq> u \<or> \<not> IsUploading r")
        (auto simp: numeral_eq_Suc st f e Some UploadData_def WriteChunk_def Let_def case_prod_unfold split: option.splits)
  qed (simp add: numeral_eq_Suc st f UploadData_def)
qed

fun busy :: "uploader \<Rightarrow> bool" where
  "busy (Replied n) = False"
| "busy _ = True"

inductive par_step :: "string \<Rightarrow> int \<Rightarrow> int \<Rightarrow> (db \<times> fs) \<times> uploader list \<Rightarrow> nat \<Rightarrow> (db \<times> fs) \<times> uploader list \<Rightarrow> bool"
  for base i u where
  Step: "k < length ts \<Longrightarrow> busy (ts ! k) \<Longrightarrow> advance base i u st (ts ! k) = (st', t) \<Longrightarrow>
    par_step base i u (st, ts) k (st', ts[k := t])"

inductive_cases par_stepE: "par_step base i u (st, ts) k x"
inductive_simps par_step_simps: "par_step base i u (st, ts) k x"

fun steps_left :: "uploader \<Rightarrow> nat" where
  "steps_left (Asked data off) = 5"
| "steps_left (Opening info data off) = 4"
| "steps_left (Creating info e data off) = 3"
| "steps_left (Writing info e data off) = 2"
| "steps_left (Recording info data off) = 1"
| "steps_left (Replied n) = 0"

definition all_left :: "uploader list \<Rightarrow> nat" where
  "all_left ts = (\<Sum>t \<in># mset ts. steps_left t)"

lemma advance_left: "busy t \<Longrightarrow> advance base i u st t = (st', t') \<Longrightarrow> steps_left t' < steps_left t"
  by (cases st; cases t) (auto simp: Let_def case_prod_unfold split: if_splits option.splits prod.splits)

interpretation uploads: draining "par_step base i u" "\<lambda>x. True" "\<lambda>(st, ts). all_left ts" for base i u
proof unfold_locales
  fix s a t
  assume "par_step base i u s a t"
  then show "(case t of (st, ts) \<Rightarrow> all_left ts) < (case s of (st, ts) \<Rightarrow> all_left ts)"
  proof cases
    case (Step ts st st' t')
    have "all_left (ts[a := t']) + steps_left (ts ! a) = all_left ts + steps_left t'"
      unfolding all_left_def by (rule sum_threads_update) (rule Step(3))
    with advance_left [OF Step(4,5)] Step(1,2) show ?thesis by simp
  qed
qed simp

section \<open>A file in pieces\<close>

text \<open>A piece of the content, and what of the content is in place.\<close>

definition piece :: "bytes \<Rightarrow> bytes \<times> int \<Rightarrow> bool" where
  "piece C x \<longleftrightarrow> (case x of (data, off) \<Rightarrow> 0 \<le> off \<and> nat off + length data \<le> length C \<and> data = take (length data) (drop (nat off) C))"

definition in_place :: "bytes \<Rightarrow> bytes \<Rightarrow> nat \<Rightarrow> nat \<Rightarrow> bool" where
  "in_place C c off n \<longleftrightarrow> (\<forall>j. off \<le> j \<and> j < off + n \<longrightarrow> j < length c \<and> c ! j = C ! j)"

lemma nth_write_at_in: "off \<le> j \<Longrightarrow> j < off + length d \<Longrightarrow> write_at c off d ! j = d ! (j - off)"
proof -
  assume j: "off \<le> j" "j < off + length d"
  then have "off \<le> length (write_at c off d)" by (auto simp: length_write_at)
  with j have "take (length d) (drop off (write_at c off d)) ! (j - off) = write_at c off d ! j" by simp
  then show ?thesis by (simp add: read_written)
qed

lemma piece_nth:
  assumes "piece C (data, off)" and "j < length data"
  shows "data ! j = C ! (nat off + j)"
proof -
  have "data = take (length data) (drop (nat off) C)" using assms(1) by (simp add: piece_def)
  then have "data ! j = take (length data) (drop (nat off) C) ! j" by (rule arg_cong)
  also have "\<dots> = C ! (nat off + j)"
  proof -
    have "nat off + length data \<le> length C" using assms(1) by (simp add: piece_def)
    then show ?thesis using assms(2) by simp
  qed
  finally show ?thesis .
qed

lemma write_at_in_place:
  assumes "piece C (data, off)"
  shows "in_place C c a n \<Longrightarrow> in_place C (write_at c (nat off) data) a n"
    and "in_place C (write_at c (nat off) data) (nat off) (length data)"
    and "length c \<le> length C \<Longrightarrow> length (write_at c (nat off) data) \<le> length C"
proof -
  have new: "j < length (write_at c (nat off) data) \<and> write_at c (nat off) data ! j = C ! j"
    if "nat off \<le> j" "j < nat off + length data" for j
    using that piece_nth [OF assms, of "j - nat off"] by (auto simp: nth_write_at_in length_write_at)
  have old: "j < length (write_at c (nat off) data) \<and> write_at c (nat off) data ! j = C ! j"
    if "j < length c" "c ! j = C ! j" for j
    using that new [of j] nth_write_at_other [of j c "nat off" data] by (cases "nat off \<le> j \<and> j < nat off + length data") (auto simp: length_write_at)
  show "in_place C c a n \<Longrightarrow> in_place C (write_at c (nat off) data) a n" using old by (simp add: in_place_def)
  show "in_place C (write_at c (nat off) data) (nat off) (length data)" using new by (simp add: in_place_def)
  show "length c \<le> length C \<Longrightarrow> length (write_at c (nat off) data) \<le> length C"
    using assms by (simp add: length_write_at piece_def)
qed

lemma all_in_place:
  assumes "length c \<le> length C" and "\<And>j. j < length C \<Longrightarrow> \<exists>a n. in_place C c a n \<and> a \<le> j \<and> j < a + n"
  shows "c = C"
proof -
  have "j < length c \<and> c ! j = C ! j" if "j < length C" for j
    using assms(2) [OF that] by (auto simp: in_place_def)
  with assms(1) show ?thesis by (metis le_antisym linorder_not_less nat_less_le nth_equalityI)
qed

section \<open>Uploads of pieces\<close>

text \<open>Where a worker with a piece can be, when the file of the row \<open>r\<close> exists and nothing fails.\<close>

fun at_step :: "FileInfo \<Rightarrow> bytes \<Rightarrow> bytes \<Rightarrow> uploader \<Rightarrow> bytes \<times> int \<Rightarrow> bool" where
  "at_step r C c (Asked data off) x \<longleftrightarrow> x = (data, off)"
| "at_step r C c (Opening info data off) x \<longleftrightarrow> x = (data, off) \<and> info\<lparr>upload_size := 0\<rparr> = r\<lparr>upload_size := 0\<rparr>"
| "at_step r C c (Creating info e data off) x \<longleftrightarrow> False"
| "at_step r C c (Writing info e data off) x \<longleftrightarrow> x = (data, off) \<and> info\<lparr>upload_size := 0\<rparr> = r\<lparr>upload_size := 0\<rparr> \<and> e = io_ok"
| "at_step r C c (Recording info data off) x \<longleftrightarrow> x = (data, off) \<and> in_place C c (nat off) (length data)"
| "at_step r C c (Replied n) x \<longleftrightarrow> n = int (length (fst x)) \<and> in_place C c (nat (snd x)) (length (fst x))"

definition grows :: "bytes \<Rightarrow> bytes \<Rightarrow> bytes \<Rightarrow> bool" where
  "grows C c c' \<longleftrightarrow> length c' \<le> length C \<and> (\<forall>a n. in_place C c a n \<longrightarrow> in_place C c' a n)"

lemma at_step_grows: "grows C c c' \<Longrightarrow> at_step r C c t x \<Longrightarrow> at_step r C c' t x"
  by (cases t) (auto simp: grows_def)

lemma same_path: "info\<lparr>upload_size := 0\<rparr> = r\<lparr>upload_size := 0\<rparr> \<Longrightarrow> filepath info = filepath r"
  by (cases info; cases r) simp

lemma advance_at:
  assumes o: "owned (d, s) i u (r\<lparr>upload_size := n\<rparr>)" and "status r = 0" and c: "stored base s (filepath r) = Some c"
    and "length c \<le> length C" and x: "piece C x" and at: "at_step r C c t x" and step: "advance base i u (d, s) t = ((d', s'), t')"
  shows "\<exists>n' c'. owned (d', s') i u (r\<lparr>upload_size := n'\<rparr>) \<and> stored base s' (filepath r) = Some c' \<and> grows C c c' \<and> at_step r C c' t' x"
proof (cases t)
  case (Asked data off)
  with assms show ?thesis
    by (intro exI [of _ n] exI [of _ c]) (auto simp: owned_def ftab.get IsUploading_def grows_def)
next
  case (Opening info data off)
  with assms same_path [of info r] show ?thesis
    by (intro exI [of _ n] exI [of _ c]) (auto simp: owned_def healthy_def next_io_none io_ok_def stored_def grows_def)
next
  case (Writing info e data off)
  have p: "piece C (data, off)" "filepath info = filepath r" using at x Writing same_path by auto
  let ?a = "GetAbsolutePath base (filepath r)" and ?c = "write_at c (nat off) data"
  have s': "d' = d" "s' = write_file s ?a (nat off) data" "t' = Recording info data off"
    using step at p by (auto simp: Writing io_ok_def Let_def piece_def)
  have "stored base s' (filepath r) = Some ?c" using c by (simp add: s' stored_def lookup_write_file)
  moreover have "grows C c ?c" "in_place C ?c (nat off) (length data)"
    using write_at_in_place [OF p(1)] assms(4) by (simp_all add: grows_def)
  moreover have "owned (d', s') i u (r\<lparr>upload_size := n\<rparr>)" using o by (simp add: s' owned_def healthy_def)
  ultimately show ?thesis using at Writing s' by (intro exI [of _ n] exI [of _ ?c]) simp
next
  case (Recording info data off)
  let ?n = "max (upload_size info) (off + int (length data))"
  have s': "d' = fst (FileDAO_UpdateUploadSize d i ?n)" "s' = s" "t' = Replied (int (length data))"
    using step by (simp_all add: Recording Let_def case_prod_unfold)
  have "owned (d', s') i u (r\<lparr>upload_size := ?n\<rparr>)"
    using o ftab.set_size_row [of d i ?n] by (simp add: s' owned_def)
  then show ?thesis using at c assms(4) Recording s'
    by (intro exI [of _ ?n] exI [of _ c]) (auto simp: grows_def)
qed (use assms in \<open>auto intro!: exI [of _ n] simp: grows_def\<close>)

definition par_inv :: "string \<Rightarrow> int \<Rightarrow> int \<Rightarrow> FileInfo \<Rightarrow> bytes \<Rightarrow> nat \<Rightarrow> (bytes \<times> int) list \<Rightarrow> (db \<times> fs) \<times> uploader list \<Rightarrow> bool" where
  "par_inv base i u r C k xs z \<longleftrightarrow> status r = 0 \<and> list_all (piece C) xs \<and> (case z of (st, ts) \<Rightarrow>
     \<exists>n c. owned st i u (r\<lparr>upload_size := n\<rparr>) \<and> stored base (snd st) (filepath r) = Some c \<and> length c \<le> length C
       \<and> in_place C c 0 k \<and> list_all2 (at_step r C c) ts xs)"

lemma par_inv_step: "par_inv base i u r C k xs z \<Longrightarrow> par_step base i u z j z' \<Longrightarrow> par_inv base i u r C k xs z'"
proof (elim par_step.cases)
  fix j' ts st st' t
  assume inv: "par_inv base i u r C k xs z" and z: "z = (st, ts)" "z' = (st', ts[j' := t])"
    and j: "j' < length ts" and step: "advance base i u st (ts ! j') = (st', t)"
  from inv z obtain n c where
    1: "status r = 0" "owned st i u (r\<lparr>upload_size := n\<rparr>)" "stored base (snd st) (filepath r) = Some c" "length c \<le> length C"
      "in_place C c 0 k" "list_all2 (at_step r C c) ts xs" and xs: "list_all (piece C) xs" by (auto simp: par_inv_def)
  have l: "length ts = length xs" using 1(6) by (rule list_all2_lengthD)
  have "at_step r C c (ts ! j') (xs ! j')" using 1(6) j by (rule list_all2_nthD)
  moreover have "piece C (xs ! j')" using xs j l by (simp add: list_all_length)
  ultimately obtain n' c' where
    2: "owned st' i u (r\<lparr>upload_size := n'\<rparr>)" "stored base (snd st') (filepath r) = Some c'" "grows C c c'" "at_step r C c' t (xs ! j')"
    using advance_at [of "fst st" "snd st" i u n r base c C "xs ! j'" "ts ! j'" "fst st'" "snd st'" t] 1 step by auto
  have "list_all2 (at_step r C c') (ts[j' := t]) (xs[j' := xs ! j'])"
    using 2(3,4) 1(6) by (intro list_all2_update_cong) (auto intro: list_all2_mono at_step_grows)
  with 1 2 z xs show "par_inv base i u r C k xs z'" by (auto simp: par_inv_def grows_def)
qed

interpretation pieces: invariant "par_step base i u" "par_inv base i u r C k xs" for base i u r C k xs
  by unfold_locales (rule par_inv_step)

definition asked :: "(bytes \<times> int) list \<Rightarrow> uploader list" where
  "asked xs = map (\<lambda>(data, off). Asked data off) xs"

definition served :: "(bytes \<times> int) list \<Rightarrow> uploader list" where
  "served xs = map (\<lambda>(data, off). Replied (int (length data))) xs"

lemma stuck_served:
  assumes "stuck (par_step base i u) (st, ts)" and "t \<in> set ts"
  shows "\<not> busy t"
proof
  assume b: "busy t"
  from assms(2) obtain k where k: "k < length ts" "ts ! k = t" by (auto simp: in_set_conv_nth)
  obtain st' t' where "advance base i u st t = (st', t')" by fastforce
  with k b have "par_step base i u (st, ts) k (st', ts[k := t'])" by (intro par_step.Step) simp_all
  then show False using assms(1) unfolding stuck_def by blast
qed

lemma at_step_served: "at_step r C c t x \<Longrightarrow> \<not> busy t \<Longrightarrow> t = Replied (int (length (fst x))) \<and> in_place C c (nat (snd x)) (length (fst x))"
  by (cases t) auto

lemma all_served: "list_all2 (at_step r C c) ts xs \<Longrightarrow> \<forall>t \<in> set ts. \<not> busy t \<Longrightarrow>
  ts = served xs \<and> list_all (\<lambda>x. in_place C c (nat (snd x)) (length (fst x))) xs"
  by (induction rule: list_all2_induct) (auto simp: served_def dest: at_step_served)

section \<open>On a healthy system\<close>

lemma advance_Asked:
  "owned (d, s) i u r \<Longrightarrow> status r = 0 \<Longrightarrow> advance base i u (d, s) (Asked data off) = ((d, s), Opening r data off)"
  by (simp add: owned_def ftab.get IsUploading_def)

lemma advance_Opening:
  "healthy s \<Longrightarrow> advance base i u (d, s) (Opening info data off) =
     ((d, s), if stored base s (filepath info) = None then Creating info io_ok data off else Writing info io_ok data off)"
  by (simp add: healthy_def next_io_none io_ok_def stored_def)

lemma created: "placeable base s p \<Longrightarrow> stored base (create_file s (GetAbsolutePath base p)) p = Some []"
  by (auto simp: placeable_def stored_def lookup_create_file split: option.splits)

lemma advance_Creating:
  "placeable base s (filepath info) \<Longrightarrow> advance base i u (d, s) (Creating info io_ok data off) =
     ((d, create_file s (GetAbsolutePath base (filepath info))), Writing info io_ok data off)"
  using created [of base s "filepath info"] by (simp add: io_ok_def stored_def)

lemma advance_Writing:
  "0 \<le> off \<Longrightarrow> advance base i u (d, s) (Writing info io_ok data off) =
     ((d, write_file s (GetAbsolutePath base (filepath info)) (nat off) data), Recording info data off)"
  by (simp add: io_ok_def Let_def)

lemma advance_Recording:
  "advance base i u (d, s) (Recording info data off) =
     ((fst (FileDAO_UpdateUploadSize d i (max (upload_size info) (off + int (length data)))), s), Replied (int (length data)))"
  by (simp add: Let_def case_prod_unfold)

lemma rest_stored: "stored base s p = Some c \<Longrightarrow> stored base (write_file s (GetAbsolutePath base p) off data) p = Some (write_at c off data)"
  by (simp add: stored_def lookup_write_file)

lemma owned_record: "owned (d, s) i u r \<Longrightarrow> owned (fst (FileDAO_UpdateUploadSize d i n), s) i u (r\<lparr>upload_size := n\<rparr>)"
  using ftab.set_size_row [of d i n] by (simp add: owned_def)

lemma owned_disk: "owned (d, s) i u r \<Longrightarrow> owned (d, write_file s p off data) i u r" "owned (d, s) i u r \<Longrightarrow> owned (d, create_file s p) i u r"
  by (simp_all add: owned_def healthy_def)

lemma placeable_frame [simp]:
  "placeable base (create_file s q) p = placeable base s p" "placeable base (write_file s q off data) p = placeable base s p"
  by (cases "resolve s (GetAbsolutePath base p)"; simp add: placeable_def)+

lemma run_par_Cons:
  "run (par_step base i u) (st, ts) (k # ks) z \<longleftrightarrow> k < length ts \<and> busy (ts ! k) \<and>
     run (par_step base i u) (case advance base i u st (ts ! k) of (st', t) \<Rightarrow> (st', ts[k := t])) ks z"
  by (auto simp: run_Cons_iff par_step_simps split: prod.splits)

section \<open>Properties\<close>

text \<open>
  C15: pieces of one file sent at the same time, which cover what is missing of it: once the file exists,
  the workers that handle them at once have come to an end after at most five steps each, however their
  steps interleave, and then all have answered with success, the file holds the content and is finalized.
\<close>

theorem parallel_chunks_complete:
  assumes "owned (d, s) i u r" and "status r = 0" and "filesize r = int (length C)"
    and "stored base s (filepath r) = Some c" and "length c \<le> length C" and "in_place C c 0 k" and "list_all (piece C) xs"
    and cover: "\<forall>j < length C. k \<le> j \<longrightarrow> (\<exists>x \<in> set xs. nat (snd x) \<le> j \<and> j < nat (snd x) + length (fst x))"
    and run: "run (par_step base i u) ((d, s), asked xs) ks (st', ts')"
  shows "length ks \<le> 5 * length xs \<and> (stuck (par_step base i u) (st', ts') \<longrightarrow>
    ts' = served xs \<and> stored base (snd st') (filepath r) = Some C \<and> snd (UploadFinalize base st' i u))"
proof (intro conjI impI)
  have "all_left (asked xs) = 5 * length xs" by (induction xs) (auto simp: all_left_def asked_def)
  with uploads.run_bound [OF run TrueI] show "length ks \<le> 5 * length xs" by simp
  assume st: "stuck (par_step base i u) (st', ts')"
  have "list_all2 (at_step r C c) (asked xs) xs" by (simp add: asked_def list_all2_conv_all_nth split: prod.splits)
  moreover have "owned (d, s) i u (r\<lparr>upload_size := upload_size r\<rparr>)" using assms(1) by simp
  ultimately have "par_inv base i u r C k xs ((d, s), asked xs)" using assms(2,4-7) unfolding par_inv_def by fastforce
  from pieces.run_inv [OF run this] obtain n c' where
    1: "owned st' i u (r\<lparr>upload_size := n\<rparr>)" "stored base (snd st') (filepath r) = Some c'" "length c' \<le> length C" "in_place C c' 0 k"
      "list_all2 (at_step r C c') ts' xs" by (auto simp: par_inv_def)
  from all_served [OF 1(5)] stuck_served [OF st] have 2: "ts' = served xs"
    "list_all (\<lambda>x. in_place C c' (nat (snd x)) (length (fst x))) xs" by simp_all
  have "\<exists>a n. in_place C c' a n \<and> a \<le> j \<and> j < a + n" if j: "j < length C" for j
  proof (cases "k \<le> j")
    case True
    with cover j 2(2) show ?thesis by (fastforce simp: list_all_iff)
  next
    case False
    with 1(4) show ?thesis by (intro exI [of _ 0] exI [of _ k]) simp
  qed
  with all_in_place [OF 1(3)] have c': "c' = C" by blast
  with 1 2 UploadFinalize_ok [of "fst st'" "snd st'" i u "r\<lparr>upload_size := n\<rparr>" base C] assms(3)
  show "ts' = served xs" "stored base (snd st') (filepath r) = Some C" "snd (UploadFinalize base st' i u)" by simp_all
qed


definition sample_chunks :: "(bytes \<times> int) list" where
  "sample_chunks = [(''ab'', 0), (''cdefg'', 2), (''hij'', 7)]"

definition sample_existing :: "db \<times> fs" where
  "sample_existing = (sample_db\<lparr>file_rows := [sample_file 1 ''x''\<lparr>filepath := ''7/old''\<rparr>]\<rparr>, sample_fs)"

lemma sample_existing_owned: "owned sample_existing 1 7 (sample_file 1 ''x''\<lparr>filepath := ''7/old''\<rparr>)"
  by (simp add: owned_def sample_existing_def files_ok_def files_inv_def clock_ok_def sample_db_def
      sample_file_def FileInfo_default_def file_clean_def file_fits_def healthy_def sample_fs_def file_row_def)

theorem parallel_chunks_complete_witness:
  "\<exists>ks st ts. run (par_step ''/srv'' 1 7) (sample_existing, asked sample_chunks) ks (st, ts)
     \<and> length ks \<le> 15 \<and> ts = [Replied 2, Replied 5, Replied 3] \<and> stored ''/srv'' (snd st) ''7/old'' = Some ''abcdefghij''
     \<and> snd (UploadFinalize ''/srv'' st 1 7)"
proof -
  obtain ks z where r: "run (par_step ''/srv'' 1 7) (sample_existing, asked sample_chunks) ks z" "stuck (par_step ''/srv'' 1 7) z"
    using uploads.reaches_stuck [OF TrueI] by blast
  obtain st ts where z: "z = (st, ts)" by fastforce
  have c: "stored ''/srv'' sample_fs ''7/old'' = Some ''abcdef''"
    by (simp add: stored_def lookup_file_def sample_fs_def GetAbsolutePath_def resolve_def)
  have "j < 10 \<longrightarrow> (\<exists>x \<in> set sample_chunks. nat (snd x) \<le> j \<and> j < nat (snd x) + length (fst x))" for j
    by (simp add: sample_chunks_def) presburger
  moreover have "list_all (piece ''abcdefghij'') sample_chunks" by (simp add: piece_def sample_chunks_def)
  ultimately show ?thesis
    using parallel_chunks_complete [of "fst sample_existing" "snd sample_existing" 1 7 "sample_file 1 ''x''\<lparr>filepath := ''7/old''\<rparr>" "''abcdefghij''"
      "''/srv''" "''abcdef''" 0 sample_chunks ks st ts] r z sample_existing_owned c
    by (intro exI [of _ ks] exI [of _ st] exI [of _ ts])
      (simp add: sample_existing_def sample_file_def FileInfo_default_def in_place_def served_def sample_chunks_def)
qed

text \<open>
  The row is read before the write and updated after it, so a worker that is overtaken puts the length
  back that it computed from the old row: the second chunk is written and acknowledged, and forgotten.
\<close>

lemma parallel_progress_lost:
  assumes o: "owned (d, s) i u r" and "status r = 0" and c: "stored base s (filepath r) = Some c"
    and off: "0 \<le> off" "upload_size r \<le> off"
  shows "\<exists>st. run (par_step base i u) ((d, s), asked [(a, off), (b, off + int (length a))]) [0, 1, 1, 1, 1, 0, 0, 0]
      (st, [Replied (int (length a)), Replied (int (length b))])
    \<and> owned st i u (r\<lparr>upload_size := off + int (length a)\<rparr>)"
proof -
  let ?p = "GetAbsolutePath base (filepath r)" and ?m = "off + int (length a)"
  let ?s1 = "write_file s ?p (nat ?m) b" and ?d1 = "fst (FileDAO_UpdateUploadSize d i (?m + int (length b)))"
  let ?s2 = "write_file ?s1 ?p (nat off) a" and ?d2 = "fst (FileDAO_UpdateUploadSize ?d1 i ?m)"
  have "owned (?d1, ?s2) i u (r\<lparr>upload_size := ?m + int (length b)\<rparr>)" using o by (intro owned_record owned_disk)
  from owned_record [OF this, of ?m] have "owned (?d2, ?s2) i u (r\<lparr>upload_size := ?m\<rparr>)" by simp
  moreover have "healthy s" "healthy ?s1" using o owned_disk(1) [OF o] by (simp_all add: owned_def)
  moreover have "max (upload_size r) ?m = ?m" "max (upload_size r) (?m + int (length b)) = ?m + int (length b)" using off by simp_all
  ultimately show ?thesis using assms
    by (intro exI [of _ "(?d2, ?s2)"])
      (simp add: asked_def run_par_Cons advance_Asked advance_Opening advance_Writing advance_Recording rest_stored del: advance.simps)
qed

text \<open>
  \<open>WriteChunk\<close> creates a missing file by opening it for output, which truncates: when the two first
  chunks of an upload both find no file, the one that creates it last erases what the other has written.
  Both are acknowledged and the upload is finalized, with zeros for the first chunk.
\<close>

lemma parallel_first_chunk_erased:
  assumes o: "owned (d, s) i u r" and "status r = 0" and c: "stored base s (filepath r) = None"
    and p: "placeable base s (filepath r)" and f: "filesize r = int (length a + length b)" and "b \<noteq> []"
  shows "\<exists>st. run (par_step base i u) ((d, s), asked [(a, 0), (b, int (length a))]) [0, 1, 0, 1, 0, 0, 0, 1, 1, 1]
      (st, [Replied (int (length a)), Replied (int (length b))])
    \<and> stored base (snd st) (filepath r) = Some (replicate (length a) (CHR 0x00) @ b) \<and> snd (UploadFinalize base st i u)"
proof -
  let ?p = "GetAbsolutePath base (filepath r)" and ?n = "int (length a)"
  let ?s1 = "write_file (create_file s ?p) ?p 0 a" and ?d1 = "fst (FileDAO_UpdateUploadSize d i (max (upload_size r) ?n))"
  let ?s2 = "write_file (create_file ?s1 ?p) ?p (length a) b"
    and ?d2 = "fst (FileDAO_UpdateUploadSize ?d1 i (max (upload_size r) (?n + int (length b))))"
  have "owned (?d2, ?s2) i u (r\<lparr>upload_size := max (upload_size r) ?n\<rparr>\<lparr>upload_size := max (upload_size r) (?n + int (length b))\<rparr>)"
    using o by (intro owned_record owned_disk)
  moreover have z: "stored base ?s2 (filepath r) = Some (replicate (length a) (CHR 0x00) @ b)"
    using rest_stored [OF created [of base ?s1 "filepath r"], of "length a" b] p assms(6) by (simp add: write_at_def)
  ultimately have "snd (UploadFinalize base (?d2, ?s2) i u)" using f by (simp add: UploadFinalize_ok)
  moreover have "healthy s" using o by (simp add: owned_def)
  ultimately show ?thesis using assms z
    by (intro exI [of _ "(?d2, ?s2)"])
      (simp add: asked_def run_par_Cons advance_Asked advance_Opening advance_Creating advance_Writing advance_Recording del: advance.simps)
qed

end
