(* ===== verification/ThreadPool.thy ===== *)
theory ThreadPool
  imports Steps
begin

text \<open>
  \<open>threadpool/thread_pool.h\<close> and \<open>threadpool/thread_pool.cc\<close>: the task queue, its worker threads
  and the condition variable they sleep on. The unit of interleaving is one critical section of
  \<open>mutex_\<close>; a notification is sent after the lock was released, so it is a step of its own. A task
  is a value of a type parameter: \<open>Submit\<close> wraps it in a \<open>packaged_task\<close>, which returns normally
  whatever the task does. The lists \<open>submitted\<close>, \<open>started\<close> and \<open>finished\<close> record the history and
  no operation reads them.
\<close>

section \<open>State\<close>

text \<open>
  Where a worker is in \<open>WorkerLoop\<close>: about to take the lock and test the condition, asleep in
  \<open>cond_.wait\<close>, running a task outside the lock, or returned.
\<close>

datatype 't worker = AtLock | Asleep | Running 't | Exited

record 't pool =
  tasks :: "'t list"
  running :: bool
  workers :: "'t worker list"
  notifies :: nat \<comment> \<open>submissions whose \<open>notify_one\<close> is still to come\<close>
  broadcast :: bool \<comment> \<open>the destructor has not yet called \<open>notify_all\<close>\<close>
  submitted :: "'t list"
  started :: "'t list"
  finished :: "'t list"

definition worker_count :: "nat \<Rightarrow> nat \<Rightarrow> nat" where
  "worker_count hardware_concurrency num_threads =
     (if num_threads = 0 then if hardware_concurrency = 0 then 4 else hardware_concurrency
      else num_threads)"

definition ThreadPool_new :: "nat \<Rightarrow> nat \<Rightarrow> 't pool" where
  "ThreadPool_new hw n = \<lparr>tasks = [], running = True, workers = replicate (worker_count hw n) AtLock,
     notifies = 0, broadcast = False, submitted = [], started = [], finished = []\<rparr>"

definition TaskCount :: "'t pool \<Rightarrow> nat" where
  "TaskCount p = length (tasks p)"

section \<open>Operations\<close>

definition Submit :: "'t pool \<Rightarrow> 't \<Rightarrow> cpp_exn + 't pool" where
  "Submit p t =
     (if \<not> running p then Inl runtime_error
      else Inr (p\<lparr>tasks := tasks p @ [t], notifies := notifies p + 1, submitted := submitted p @ [t]\<rparr>))"

text \<open>\<open>notify_one\<close> wakes the sleeping worker \<open>i\<close>, if the system picks it.\<close>

definition wake :: "'t pool \<Rightarrow> nat \<Rightarrow> 't pool" where
  "wake p i = p\<lparr>workers := (workers p)[i := AtLock]\<rparr>"

definition notify_all :: "'t pool \<Rightarrow> 't pool" where
  "notify_all p = p\<lparr>workers := map (\<lambda>w. if w = Asleep then AtLock else w) (workers p), broadcast := False\<rparr>"

text \<open>The critical section of the destructor.\<close>

definition stop :: "'t pool \<Rightarrow> 't pool" where
  "stop p = p\<lparr>running := False, broadcast := True\<rparr>"

text \<open>One critical section of \<open>WorkerLoop\<close>, from the lock to the wait, the return or the task.\<close>

definition worker_section :: "'t pool \<Rightarrow> nat \<Rightarrow> 't pool" where
  "worker_section p i =
     (if \<not> (\<not> running p \<or> tasks p \<noteq> []) then p\<lparr>workers := (workers p)[i := Asleep]\<rparr>
      else if \<not> running p \<and> tasks p = [] then p\<lparr>workers := (workers p)[i := Exited]\<rparr>
      else p\<lparr>tasks := tl (tasks p), workers := (workers p)[i := Running (hd (tasks p))],
             started := started p @ [hd (tasks p)]\<rparr>)"

definition finish_task :: "'t pool \<Rightarrow> nat \<Rightarrow> 't \<Rightarrow> 't pool" where
  "finish_task p i t = p\<lparr>workers := (workers p)[i := AtLock], finished := finished p @ [t]\<rparr>"

text \<open>\<open>join\<close> returns for every worker.\<close>

definition joined :: "'t pool \<Rightarrow> bool" where
  "joined p \<longleftrightarrow> set (workers p) \<subseteq> {Exited}"

section \<open>Interleaving\<close>

datatype 't event = SubmitE 't | NotifyE nat | NotifyNoneE | StopE | NotifyAllE
  | SectionE nat | FinishE nat | SpuriousE nat

inductive pstep :: "'t pool \<Rightarrow> 't event \<Rightarrow> 't pool \<Rightarrow> bool" where
  submit: "Submit p t = Inr p' \<Longrightarrow> pstep p (SubmitE t) p'"
| notify: "0 < notifies p \<Longrightarrow> i < length (workers p) \<Longrightarrow> workers p ! i = Asleep \<Longrightarrow>
    pstep p (NotifyE i) (wake (p\<lparr>notifies := notifies p - 1\<rparr>) i)"
| notify_none: "0 < notifies p \<Longrightarrow> Asleep \<notin> set (workers p) \<Longrightarrow>
    pstep p NotifyNoneE (p\<lparr>notifies := notifies p - 1\<rparr>)"
| stop: "running p \<Longrightarrow> pstep p StopE (stop p)"
| notify_all: "broadcast p \<Longrightarrow> pstep p NotifyAllE (notify_all p)"
| critical: "i < length (workers p) \<Longrightarrow> workers p ! i = AtLock \<Longrightarrow>
    pstep p (SectionE i) (worker_section p i)"
| finish: "i < length (workers p) \<Longrightarrow> workers p ! i = Running t \<Longrightarrow>
    pstep p (FinishE i) (finish_task p i t)"
| spurious: "i < length (workers p) \<Longrightarrow> workers p ! i = Asleep \<Longrightarrow>
    pstep p (SpuriousE i) (wake p i)"

inductive_cases pstep_E: "pstep p e p'"

inductive_simps pstep_simps:
  "pstep p (SubmitE t) p'" "pstep p (NotifyE i) p'" "pstep p NotifyNoneE p'" "pstep p StopE p'"
  "pstep p NotifyAllE p'" "pstep p (SectionE i) p'" "pstep p (FinishE i) p'" "pstep p (SpuriousE i) p'"

lemmas pool_ops = Submit_def wake_def notify_all_def stop_def worker_section_def finish_task_def

section \<open>Invariants\<close>

fun load :: "'t worker \<Rightarrow> 't multiset" where
  "load (Running t) = {#t#}"
| "load _ = {#}"

definition in_hand :: "'t worker list \<Rightarrow> 't multiset" where
  "in_hand ws = (\<Sum>w \<in># mset ws. load w)"

definition awake :: "'t worker list \<Rightarrow> nat" where
  "awake ws = count (mset ws) AtLock"

lemma in_hand_update:
  "i < length ws \<Longrightarrow> in_hand (ws[i := w]) + load (ws ! i) = in_hand ws + load w"
  by (simp only: in_hand_def sum_threads_update)

lemma awake_update:
  assumes "i < length ws"
  shows "awake (ws[i := w]) + (if ws ! i = AtLock then 1 else 0) = awake ws + (if w = AtLock then 1 else 0)"
proof -
  have "mset (ws[i := w]) + {#ws ! i#} = mset ws + {#w#}"
    using assms by (simp add: mset_update)
  then have "count (mset (ws[i := w]) + {#ws ! i#}) AtLock = count (mset ws + {#w#}) AtLock"
    by simp
  then show ?thesis by (simp add: awake_def split: if_splits)
qed

text \<open>Tasks start in the order of their submission, and a started task is in hand or finished.\<close>

definition history_inv :: "'t pool \<Rightarrow> bool" where
  "history_inv p \<longleftrightarrow> submitted p = started p @ tasks p
     \<and> mset (started p) = mset (finished p) + in_hand (workers p)"

text \<open>
  There is a notification or an awake worker for each waiting task, or no worker sleeps; when the
  pool has stopped, workers sleep only until the broadcast, and none has left tasks behind.
\<close>

definition wakeup_inv :: "'t pool \<Rightarrow> bool" where
  "wakeup_inv p \<longleftrightarrow> (length (tasks p) \<le> notifies p + awake (workers p) \<or> Asleep \<notin> set (workers p))
     \<and> (\<not> running p \<and> \<not> broadcast p \<longrightarrow> Asleep \<notin> set (workers p))
     \<and> (broadcast p \<longrightarrow> \<not> running p)
     \<and> (Exited \<in> set (workers p) \<longrightarrow> \<not> running p \<and> tasks p = [])"

lemma history_new: "history_inv (ThreadPool_new hw n)"
  by (simp add: history_inv_def ThreadPool_new_def in_hand_def image_mset_const_eq)

lemma wakeup_new: "wakeup_inv (ThreadPool_new hw n)"
  by (simp add: wakeup_inv_def ThreadPool_new_def worker_count_def)

lemma in_hand_map:
  "in_hand (map (\<lambda>w. if w = Asleep then AtLock else w) ws) = in_hand ws"
  by (induction ws) (auto simp: in_hand_def)

lemma awake_map: "awake ws \<le> awake (map (\<lambda>w. if w = Asleep then AtLock else w) ws)"
  by (induction ws) (auto simp: awake_def)

lemma in_hand_simps:
  assumes "i < length ws"
  shows "load (ws ! i) = {#} \<Longrightarrow> in_hand (ws[i := w]) = in_hand ws + load w"
    and "ws ! i = Running t \<Longrightarrow> load w = {#} \<Longrightarrow> in_hand ws = add_mset t (in_hand (ws[i := w]))"
  using in_hand_update [OF assms, of w] by auto

lemma history_step: "pstep p e p' \<Longrightarrow> history_inv p \<Longrightarrow> history_inv p'"
  by (erule pstep.cases)
    (auto simp: history_inv_def pool_ops in_hand_map in_hand_simps(1) in_hand_simps(2) [where w = AtLock]
      split: if_splits)

lemma asleep_update: "Asleep \<in> set (ws[i := w]) \<Longrightarrow> Asleep \<in> set ws \<or> w = Asleep"
  by (metis insert_iff set_update_subset_insert subsetD)

lemma exited_update: "Exited \<in> set (ws[i := w]) \<Longrightarrow> Exited \<in> set ws \<or> w = Exited"
  by (metis insert_iff set_update_subset_insert subsetD)

lemma awake_simps:
  assumes "i < length ws"
  shows "ws ! i = AtLock \<Longrightarrow> w \<noteq> AtLock \<Longrightarrow> awake ws = Suc (awake (ws[i := w]))"
    and "ws ! i \<noteq> AtLock \<Longrightarrow> awake (ws[i := AtLock]) = Suc (awake ws)"
  using awake_update [OF assms, of w] awake_update [OF assms, of AtLock] by auto

lemma wakeup_section:
  assumes "i < length (workers p)" and "workers p ! i = AtLock" and "wakeup_inv p"
  shows "wakeup_inv (worker_section p i)"
proof (cases "tasks p")
  case Nil
  with assms(3) show ?thesis
    by (auto simp: wakeup_inv_def worker_section_def dest: asleep_update exited_update)
next
  case (Cons t ts)
  with assms awake_simps(1) [OF assms(1,2), of "Running t"] show ?thesis
    by (auto simp: wakeup_inv_def worker_section_def dest: asleep_update exited_update)
qed

lemma wakeup_step:
  assumes "pstep p e p'" and "wakeup_inv p"
  shows "wakeup_inv p'"
  using assms(1)
proof cases
  case notify_all
  with assms(2) awake_map [of "workers p"] show ?thesis
    by (auto simp: wakeup_inv_def notify_all_def)
next
  case (critical i)
  with assms(2) wakeup_section show ?thesis by metis
qed (use assms(2) in \<open>auto simp: wakeup_inv_def pool_ops(1,2,4,6) awake_simps(2)
      dest: asleep_update exited_update split: if_splits\<close>)

definition pool_inv :: "'t pool \<Rightarrow> bool" where
  "pool_inv p \<longleftrightarrow> history_inv p \<and> wakeup_inv p \<and> workers p \<noteq> []"

lemma workers_step: "pstep p e p' \<Longrightarrow> length (workers p') = length (workers p)"
  by (erule pstep.cases) (auto simp: pool_ops split: if_splits)

interpretation pool: invariant pstep pool_inv
  by unfold_locales
    (auto simp: pool_inv_def history_step wakeup_step dest: workers_step)

lemma pool_new: "pool_inv (ThreadPool_new hw n)"
  by (simp add: pool_inv_def history_new wakeup_new) (simp add: ThreadPool_new_def worker_count_def)

section \<open>Shutdown\<close>

fun rank :: "'t worker \<Rightarrow> nat" where
  "rank Exited = 0"
| "rank AtLock = 1"
| "rank Asleep = 2"
| "rank (Running t) = 2"

definition ranks :: "'t worker list \<Rightarrow> nat" where
  "ranks ws = (\<Sum>w \<in># mset ws. rank w)"

definition work_left :: "'t pool \<Rightarrow> nat" where
  "work_left p = 4 * length (tasks p) + notifies p + (if broadcast p then 1 else 0) + ranks (workers p)"

lemma ranks_update:
  "i < length ws \<Longrightarrow> ranks (ws[i := w]) + rank (ws ! i) = ranks ws + rank w"
  by (simp only: ranks_def sum_threads_update)

lemma ranks_map: "ranks (map (\<lambda>w. if w = Asleep then AtLock else w) ws) \<le> ranks ws"
  by (induction ws) (auto simp: ranks_def)

lemma work_left_step:
  assumes "pstep p e p'" and "\<not> running p" and "wakeup_inv p"
  shows "work_left p' < work_left p"
  using assms(1)
proof cases
  case notify_all
  with ranks_map [of "workers p"] show ?thesis by (simp add: work_left_def notify_all_def)
next
  case (critical i)
  then show ?thesis
    using ranks_update [of i "workers p" Exited] ranks_update [of i "workers p" "Running (hd (tasks p))"]
      assms(2) by (cases "tasks p") (simp_all add: work_left_def worker_section_def)
qed (use assms(2) ranks_update [of _ "workers p" AtLock] in \<open>force simp: work_left_def pool_ops\<close>)+

lemma stays_stopped: "pstep p e p' \<Longrightarrow> \<not> running p \<Longrightarrow> \<not> running p' \<and> submitted p' = submitted p"
  by (erule pstep.cases) (auto simp: pool_ops split: if_splits)

interpretation shutdown: draining pstep "\<lambda>p. pool_inv p \<and> \<not> running p" work_left
  by unfold_locales
    (auto simp: stays_stopped intro: pool.preserved work_left_step, simp add: pool_inv_def work_left_step)

text \<open>The steps of the pool itself: no new submission, no destructor, no spurious wake-up.\<close>

fun internal :: "'t event \<Rightarrow> bool" where
  "internal (SubmitE _) = False"
| "internal StopE = False"
| "internal (SpuriousE _) = False"
| "internal _ = True"

lemma busy_worker:
  assumes "w \<in> set (workers p)" and "w = AtLock \<or> w = Running t \<or> w = Asleep \<and> (0 < notifies p \<or> broadcast p)"
  shows "\<exists>e p'. pstep p e p' \<and> internal e"
proof -
  obtain i where i: "i < length (workers p)" "workers p ! i = w"
    using assms(1) by (meson in_set_conv_nth)
  from assms(2) i show ?thesis
    by (elim disjE conjE) (meson pstep.intros internal.simps)+
qed

lemma stuck_joined:
  assumes "pool_inv p" and "\<not> running p" and "stuck pstep p"
  shows "joined p"
  unfolding joined_def
proof
  fix w assume w: "w \<in> set (workers p)"
  have "\<not> broadcast p" using assms(3) by (auto simp: stuck_def intro: pstep.notify_all)
  with assms(1,2) have "Asleep \<notin> set (workers p)" by (auto simp: pool_inv_def wakeup_inv_def)
  with w have "w \<noteq> Asleep" by auto
  moreover have "w \<noteq> AtLock" "w \<noteq> Running t" for t
    using assms(3) busy_worker [OF w] by (auto simp: stuck_def)
  ultimately show "w \<in> {Exited}" by (cases w) auto
qed

lemma submissions:
  "run pstep p es p' \<Longrightarrow> submitted p' = submitted p @ concat (map (\<lambda>e. case e of SubmitE t \<Rightarrow> [t] | _ \<Rightarrow> []) es)"
  by (induction rule: run.induct) (auto simp: pool_ops elim!: pstep_E split: if_splits)

section \<open>Properties\<close>

text \<open>
  C20: under every interleaving of submissions, workers, notifications and spurious wake-ups the
  tasks start in the order of their submission, each once, none is lost (it waits in the queue, is
  in the hands of one worker, or is finished), and none is run that was not submitted.
\<close>

theorem threadpool_fifo_exactly_once:
  assumes "run pstep (ThreadPool_new hw n) es p"
  shows "submitted p = concat (map (\<lambda>e. case e of SubmitE t \<Rightarrow> [t] | _ \<Rightarrow> []) es)
    \<and> submitted p = started p @ tasks p
    \<and> mset (submitted p) = mset (finished p) + in_hand (workers p) + mset (tasks p)"
  using submissions [OF assms] pool.run_inv [OF assms pool_new]
  by (simp add: pool_inv_def history_inv_def) (simp add: ThreadPool_new_def)

definition sample_run :: "nat event list" where
  "sample_run = [SectionE 0, SubmitE 10, SubmitE 20, NotifyE 0, SectionE 0, NotifyNoneE]"

definition sample_pool :: "nat pool" where
  "sample_pool = \<lparr>tasks = [20], running = True, workers = [Running 10], notifies = 0, broadcast = False,
     submitted = [10, 20], started = [10], finished = []\<rparr>"

lemma sample_run_ok: "run pstep (ThreadPool_new 8 1) sample_run sample_pool"
  by (simp add: sample_run_def run_Cons_iff pstep_simps pool_ops ThreadPool_new_def worker_count_def
      sample_pool_def)

theorem threadpool_fifo_exactly_once_witness:
  "submitted sample_pool = [10, 20] \<and> started sample_pool = [10]
     \<and> mset (submitted sample_pool) = mset (finished sample_pool) + in_hand (workers sample_pool) + mset [20]"
  using threadpool_fifo_exactly_once [OF sample_run_ok] by (simp add: sample_run_def) (simp add: sample_pool_def)

text \<open>
  C21: no wake-up is lost: while a task waits in the queue, some worker or a pending notification
  can move, without another submission and without relying on spurious wake-ups.
\<close>

theorem threadpool_no_lost_wakeup:
  assumes "run pstep (ThreadPool_new hw n) es p" and "tasks p \<noteq> []"
  shows "\<exists>e p'. pstep p e p' \<and> internal e"
proof -
  have inv: "wakeup_inv p" "workers p \<noteq> []"
    using pool.run_inv [OF assms(1) pool_new] by (simp_all add: pool_inv_def)
  then obtain w where w: "w \<in> set (workers p)" by fastforce
  show ?thesis
  proof (cases w)
    case Exited
    with inv w assms(2) show ?thesis by (auto simp: wakeup_inv_def)
  next
    case Asleep
    with inv w have "broadcast p \<or> 0 < notifies p \<or> 0 < awake (workers p)"
      using assms(2) by (cases "tasks p") (auto simp: wakeup_inv_def)
    with Asleep w busy_worker [OF w] busy_worker [of AtLock p] show ?thesis
      by (auto simp: awake_def)
  qed (use busy_worker [OF w] in auto)
qed

theorem threadpool_no_lost_wakeup_witness:
  "\<exists>e p'. pstep sample_pool e p' \<and> internal e"
  using threadpool_no_lost_wakeup [OF sample_run_ok] by (simp add: sample_pool_def)

text \<open>
  C22: the destructor finishes the submitted work: once the pool is stopped nothing can be
  submitted, only boundedly many steps are left, the workers can all return, and whenever none of
  them can move they have all returned (\<open>join\<close> completes) with every submitted task finished.
\<close>

theorem threadpool_shutdown_drains:
  assumes "run pstep (ThreadPool_new hw n) es p" and "\<not> running p"
  shows "Submit p t = Inl runtime_error
    \<and> (\<forall>es' p'. run pstep p es' p' \<longrightarrow> length es' \<le> work_left p)
    \<and> (\<exists>es' p'. run pstep p es' p' \<and> joined p')
    \<and> (\<forall>es' p'. run pstep p es' p' \<and> (stuck pstep p' \<or> joined p') \<longrightarrow>
         joined p' \<and> tasks p' = [] \<and> mset (finished p') = mset (submitted p))"
proof -
  have inv: "pool_inv p \<and> \<not> running p"
    using pool.run_inv [OF assms(1) pool_new] assms(2) by simp
  have same: "submitted p' = submitted p" if "run pstep p es' p'" "pool_inv p \<and> \<not> running p" for es' p'
    using that(1) inv by (induction rule: run.induct) (metis stays_stopped pool.preserved)+
  have fin: "joined p' \<and> tasks p' = [] \<and> mset (finished p') = mset (submitted p)"
    if r: "run pstep p es' p'" and s: "stuck pstep p' \<or> joined p'" for es' p'
  proof -
    have i: "pool_inv p'" "\<not> running p'" using shutdown.run_inv [OF r inv] by auto
    with s have j: "joined p'" by (auto intro: stuck_joined)
    then have all: "\<forall>w \<in> set (workers p'). w = Exited" by (auto simp: joined_def)
    with i(1) have ex: "Exited \<in> set (workers p')"
      by (cases "workers p'") (auto simp: pool_inv_def)
    have "in_hand (workers p') = {#}" using all by (auto simp: in_hand_def intro!: sum_mset.neutral)
    with i(1) j ex same [OF r inv] show ?thesis
      by (auto simp: pool_inv_def history_inv_def wakeup_inv_def)
  qed
  obtain es' p' where "run pstep p es' p'" "stuck pstep p'" using shutdown.reaches_stuck [OF inv] by blast
  with fin have "\<exists>es' p'. run pstep p es' p' \<and> joined p'" by blast
  with fin shutdown.run_bound [OF _ inv] assms(2) show ?thesis
    by (auto simp: Submit_def) (metis le_trans le_add1)
qed

theorem threadpool_shutdown_drains_witness:
  "\<exists>es p. run pstep (stop sample_pool) es p \<and> joined p"
proof -
  have "run pstep (ThreadPool_new 8 1) (sample_run @ [StopE]) (stop sample_pool)"
    by (rule run_append [OF sample_run_ok]) (simp add: run_Cons_iff pstep_simps sample_pool_def)
  from threadpool_shutdown_drains [OF this] show ?thesis by (simp add: stop_def)
qed

end
