(* ===== verification/MysqlPool.thy ===== *)
theory MysqlPool
  imports Steps
begin

text \<open>
  The connection pool \<open>database/mysql_pool.cc\<close>, and the calls of \<open>ConfirmUploadChunk\<close> in
  \<open>database/file_dao.cc\<close> that take a second connection while they hold the first. A connection is
  a number; what the server answers to each call is an argument. Every operation holds \<open>mutex_\<close> from
  its beginning to its end, so each is one step; \<open>None\<close> is a call that sleeps on the condition
  variable. \<open>borrowed\<close>, \<open>lost\<close> and \<open>fresh\<close> record what the program does not: the handles given out,
  the number closed after a failed reconnection, the next new handle.
\<close>

section \<open>The pool\<close>

record mysql_pool =
  idle :: "nat list"
  total_created :: nat
  pool_size :: nat
  borrowed :: "nat list"
  lost :: nat
  fresh :: nat

record conn_env =
  connects :: bool
  pings :: bool
  reconnects :: bool

definition conn_up :: conn_env where
  "conn_up = \<lparr>connects = True, pings = True, reconnects = True\<rparr>"

definition conn_down :: conn_env where
  "conn_down = \<lparr>connects = False, pings = False, reconnects = False\<rparr>"

definition CreateConnection :: "mysql_pool \<Rightarrow> bool \<Rightarrow> mysql_pool \<times> nat option" where
  "CreateConnection p ok = (if ok then (p\<lparr>fresh := fresh p + 1\<rparr>, Some (fresh p)) else (p, None))"

definition add_initial :: "mysql_pool \<Rightarrow> bool \<Rightarrow> mysql_pool" where
  "add_initial p ok = (case CreateConnection p ok of
     (p, Some c) \<Rightarrow> p\<lparr>idle := idle p @ [c], total_created := total_created p + 1\<rparr>
   | (p, None) \<Rightarrow> p)"

text \<open>One attempt for each of the \<open>pool_size\<close> connections.\<close>

definition MysqlPool_new :: "bool list \<Rightarrow> mysql_pool" where
  "MysqlPool_new oks = fold (\<lambda>ok p. add_initial p ok) oks
     \<lparr>idle = [], total_created = 0, pool_size = length oks, borrowed = [], lost = 0, fresh = 0\<rparr>"

definition can_get :: "mysql_pool \<Rightarrow> bool" where
  "can_get p \<longleftrightarrow> idle p \<noteq> [] \<or> total_created p < pool_size p"

definition GetConnection :: "mysql_pool \<Rightarrow> conn_env \<Rightarrow> (mysql_pool \<times> nat option) option" where
  "GetConnection p e =
     (if \<not> can_get p then None
      else let (p, conn) =
             (if idle p \<noteq> [] then (p\<lparr>idle := tl (idle p)\<rparr>, Some (hd (idle p)))
              else case CreateConnection p (connects e) of
                     (p, Some c) \<Rightarrow> (p\<lparr>total_created := total_created p + 1\<rparr>, Some c)
                   | (p, None) \<Rightarrow> (p, None))
           in case conn of
                None \<Rightarrow> Some (p, None)
              | Some c \<Rightarrow> if \<not> pings e \<and> \<not> reconnects e then Some (p\<lparr>lost := lost p + 1\<rparr>, None)
                          else Some (p\<lparr>borrowed := c # borrowed p\<rparr>, Some c))"

definition ReturnConnection :: "mysql_pool \<Rightarrow> nat \<Rightarrow> mysql_pool" where
  "ReturnConnection p c = p\<lparr>idle := idle p @ [c], borrowed := remove1 c (borrowed p)\<rparr>"

definition AvailableCount :: "mysql_pool \<Rightarrow> nat" where
  "AvailableCount p = length (idle p)"

definition mpool_inv :: "mysql_pool \<Rightarrow> bool" where
  "mpool_inv p \<longleftrightarrow> distinct (idle p @ borrowed p) \<and> (\<forall>c \<in> set (idle p @ borrowed p). c < fresh p)
     \<and> total_created p = length (idle p) + length (borrowed p) + lost p
     \<and> total_created p \<le> pool_size p"

datatype pool_event = GetE conn_env | ReturnE nat

inductive mstep :: "mysql_pool \<Rightarrow> pool_event \<Rightarrow> mysql_pool \<Rightarrow> bool" where
  get: "GetConnection p e = Some (p', c) \<Longrightarrow> mstep p (GetE e) p'"
| give_back: "c \<in> set (borrowed p) \<Longrightarrow> mstep p (ReturnE c) (ReturnConnection p c)"

inductive_simps mstep_simps: "mstep p (GetE e) p'" "mstep p (ReturnE c) p'"

lemma add_initial_run:
  "length oks + total_created p \<le> pool_size p \<Longrightarrow> mpool_inv p \<Longrightarrow> lost p = 0 \<Longrightarrow> borrowed p = [] \<Longrightarrow>
   mpool_inv (fold (\<lambda>ok p. add_initial p ok) oks p) \<and> lost (fold (\<lambda>ok p. add_initial p ok) oks p) = 0
     \<and> borrowed (fold (\<lambda>ok p. add_initial p ok) oks p) = []
     \<and> pool_size (fold (\<lambda>ok p. add_initial p ok) oks p) = pool_size p"
proof (induction oks arbitrary: p)
  case (Cons ok oks)
  let ?p = "add_initial p ok"
  have "length oks + total_created ?p \<le> pool_size ?p" "mpool_inv ?p" "lost ?p = 0" "borrowed ?p = []"
    "pool_size ?p = pool_size p"
    using Cons.prems by (auto simp: add_initial_def CreateConnection_def mpool_inv_def)
  from Cons.IH [OF this(1-4)] this(5) show ?case by simp
qed simp

lemma MysqlPool_new_inv:
  "mpool_inv (MysqlPool_new oks)" "lost (MysqlPool_new oks) = 0" "borrowed (MysqlPool_new oks) = []"
  "pool_size (MysqlPool_new oks) = length oks"
  using add_initial_run [of oks "\<lparr>idle = [], total_created = 0, pool_size = length oks, borrowed = [],
      lost = 0, fresh = 0\<rparr>"]
  by (simp_all add: MysqlPool_new_def mpool_inv_def)

lemma GetConnection_inv:
  assumes "GetConnection p e = Some (p', c)" and "mpool_inv p"
  shows "mpool_inv p'" and "pool_size p' = pool_size p"
    and "case c of Some c \<Rightarrow> c \<notin> set (borrowed p) \<and> borrowed p' = c # borrowed p \<and> lost p' = lost p
      | None \<Rightarrow> borrowed p' = borrowed p"
  using assms
  by (cases "idle p"; auto simp: GetConnection_def CreateConnection_def can_get_def mpool_inv_def Let_def
      split: if_splits option.splits)+

lemma ReturnConnection_inv: "mpool_inv p \<Longrightarrow> c \<in> set (borrowed p) \<Longrightarrow> mpool_inv (ReturnConnection p c)"
  by (auto simp: mpool_inv_def ReturnConnection_def length_remove1 dest: notin_set_remove1)
    (use length_pos_if_in_set [of c "borrowed p"] in linarith)

lemma mstep_inv: "mstep p e p' \<Longrightarrow> mpool_inv p \<Longrightarrow> mpool_inv p'"
  by (erule mstep.cases) (auto intro: GetConnection_inv ReturnConnection_inv)

interpretation connections: invariant mstep mpool_inv
  by unfold_locales (rule mstep_inv)

section \<open>Lost connections\<close>

text \<open>All slots of the pool are used up by handles that were closed: an absorbing condition.\<close>

definition exhausted :: "mysql_pool \<Rightarrow> bool" where
  "exhausted p \<longleftrightarrow> idle p = [] \<and> borrowed p = [] \<and> pool_size p \<le> total_created p"

lemma exhausted_blocks: "exhausted p \<Longrightarrow> GetConnection p e = None"
  by (simp add: exhausted_def GetConnection_def can_get_def)

lemma exhausted_stuck: "exhausted p \<Longrightarrow> stuck mstep p"
  by (auto simp: stuck_def exhausted_blocks elim!: mstep.cases) (simp add: exhausted_def)

lemma drain_down:
  "borrowed p = [] \<Longrightarrow> total_created p = pool_size p \<Longrightarrow>
   \<exists>p'. run mstep p (replicate (length (idle p)) (GetE conn_down)) p' \<and> exhausted p'"
proof (induction "idle p" arbitrary: p)
  case (Cons c cs)
  let ?p = "p\<lparr>idle := cs, lost := lost p + 1\<rparr>"
  have "mstep p (GetE conn_down) ?p"
    using Cons(2) by (auto intro!: mstep.get simp: GetConnection_def can_get_def conn_down_def simp flip: Cons(2))
  with Cons(1) [of ?p] Cons.prems show ?case by (auto simp: run_Cons_iff simp flip: Cons(2))
qed (auto simp: exhausted_def)

lemma MysqlPool_new_full:
  "length (idle (MysqlPool_new (replicate n True))) = n \<and> total_created (MysqlPool_new (replicate n True)) = n"
proof -
  have "length (idle (fold (\<lambda>ok p. add_initial p ok) (replicate n True) p)) = length (idle p) + n
    \<and> total_created (fold (\<lambda>ok p. add_initial p ok) (replicate n True) p) = total_created p + n" for p
    by (induction n arbitrary: p) (auto simp: add_initial_def CreateConnection_def)
  then show ?thesis by (simp add: MysqlPool_new_def)
qed

section \<open>Properties of the pool\<close>

text \<open>
  C23: a connection belongs to one borrower at a time: whatever the server answers, a handle that
  is given out is not in use, and never more than \<open>pool_size\<close> are.
\<close>

theorem mysqlpool_exclusive:
  assumes "run mstep (MysqlPool_new oks) es p" and "GetConnection p e = Some (p', Some c)"
  shows "c \<notin> set (borrowed p) \<and> distinct (borrowed p') \<and> c \<notin> set (idle p')
    \<and> length (borrowed p') + length (idle p') + lost p' \<le> pool_size p'"
proof -
  from connections.run_inv [OF assms(1) MysqlPool_new_inv(1)] have i: "mpool_inv p" .
  from GetConnection_inv [OF assms(2) i] show ?thesis by (auto simp: mpool_inv_def)
qed

theorem mysqlpool_exclusive_witness:
  "\<exists>p'. GetConnection (MysqlPool_new [True, True]) conn_up = Some (p', Some 0) \<and> distinct (borrowed p')
     \<and> 0 \<notin> set (idle p')"
proof -
  obtain p' where g: "GetConnection (MysqlPool_new [True, True]) conn_up = Some (p', Some 0)"
    by (simp add: GetConnection_def can_get_def MysqlPool_new_def add_initial_def CreateConnection_def conn_up_def)
  from mysqlpool_exclusive [OF run_Nil g] g show ?thesis by auto
qed

text \<open>
  \<open>GetConnection\<close> closes a handle whose reconnection failed but does not count it down in
  \<open>total_created_\<close>. After one failure for each connection of an idle pool, every later call sleeps
  for ever, even when the server is back: no operation of the pool can end the wait.
\<close>

theorem mysqlpool_outage_blocks_forever:
  assumes "\<forall>r \<in> set es. r = GetE conn_down" and "length es = n"
  shows "\<exists>p. run mstep (MysqlPool_new (replicate n True)) es p
    \<and> (\<forall>es' p' e. run mstep p es' p' \<longrightarrow> GetConnection p' e = None)"
proof -
  have es: "es = replicate n (GetE conn_down)"
    using assms by (metis replicate_eqI)
  have "borrowed (MysqlPool_new (replicate n True)) = []" "pool_size (MysqlPool_new (replicate n True)) = n"
    by (simp_all add: MysqlPool_new_inv)
  with drain_down [of "MysqlPool_new (replicate n True)"] MysqlPool_new_full [of n]
  obtain p where "run mstep (MysqlPool_new (replicate n True)) es p" and ex: "exhausted p"
    by (auto simp: es)
  moreover from ex have "GetConnection p' e = None" if "run mstep p es' p'" for es' p' e
    using stuck_run [OF exhausted_stuck that] by (simp add: exhausted_blocks)
  ultimately show ?thesis by blast
qed

theorem mysqlpool_outage_blocks_forever_witness:
  "\<exists>p. run mstep (MysqlPool_new [True, True]) [GetE conn_down, GetE conn_down] p \<and> GetConnection p conn_up = None"
  using mysqlpool_outage_blocks_forever [of "[GetE conn_down, GetE conn_down]" 2]
  by (auto simp: numeral_2_eq_2 intro: run_Nil)

section \<open>Threads that confirm a chunk\<close>

text \<open>
  \<open>FileDAO::ConfirmUploadChunk\<close> as a user of the pool: it takes a connection; when the update
  changed one row it returns and the destructor of \<open>conn\<close> gives it back, otherwise \<open>FindById\<close>
  takes a second one while the first is still held. No connection ends the call.
\<close>

datatype client = Start | First nat | Want nat | Both nat nat | Done

fun held :: "client \<Rightarrow> nat multiset" where
  "held (First c) = {#c#}"
| "held (Want c) = {#c#}"
| "held (Both c d) = {#c, d#}"
| "held _ = {#}"

inductive cstep :: "mysql_pool \<times> client list \<Rightarrow> nat \<Rightarrow> mysql_pool \<times> client list \<Rightarrow> bool" where
  begin_ok: "i < length cs \<Longrightarrow> cs ! i = Start \<Longrightarrow> GetConnection p e = Some (p', Some c) \<Longrightarrow>
    cstep (p, cs) i (p', cs[i := First c])"
| begin_none: "i < length cs \<Longrightarrow> cs ! i = Start \<Longrightarrow> GetConnection p e = Some (p', None) \<Longrightarrow>
    cstep (p, cs) i (p', cs[i := Done])"
| changed: "i < length cs \<Longrightarrow> cs ! i = First c \<Longrightarrow>
    cstep (p, cs) i (ReturnConnection p c, cs[i := Done])"
| unchanged: "i < length cs \<Longrightarrow> cs ! i = First c \<Longrightarrow> cstep (p, cs) i (p, cs[i := Want c])"
| second_ok: "i < length cs \<Longrightarrow> cs ! i = Want c \<Longrightarrow> GetConnection p e = Some (p', Some d) \<Longrightarrow>
    cstep (p, cs) i (p', cs[i := Both c d])"
| second_none: "i < length cs \<Longrightarrow> cs ! i = Want c \<Longrightarrow> GetConnection p e = Some (p', None) \<Longrightarrow>
    cstep (p, cs) i (ReturnConnection p' c, cs[i := Done])"
| finished: "i < length cs \<Longrightarrow> cs ! i = Both c d \<Longrightarrow>
    cstep (p, cs) i (ReturnConnection (ReturnConnection p d) c, cs[i := Done])"

inductive_cases cstep_E: "cstep (p, cs) i s'"

definition clients_inv :: "mysql_pool \<times> client list \<Rightarrow> bool" where
  "clients_inv s \<longleftrightarrow> mpool_inv (fst s) \<and> mset (borrowed (fst s)) = (\<Sum>c \<in># mset (snd s). held c)"

lemma held_update:
  "i < length cs \<Longrightarrow> (\<Sum>c \<in># mset (cs[i := w]). held c) + held (cs ! i) = (\<Sum>c \<in># mset cs. held c) + held w"
  by (rule sum_threads_update)

lemma held_in_sum: "i < length cs \<Longrightarrow> held (cs ! i) \<subseteq># (\<Sum>c \<in># mset cs. held c)"
  using held_update [of i cs Done] by (metis add.right_neutral held.simps(5) mset_subset_eq_add_right)

lemma borrowed_Return: "mset (borrowed (ReturnConnection p c)) = mset (borrowed p) - {#c#}"
  by (simp add: ReturnConnection_def)

lemma cstep_inv: "cstep s i s' \<Longrightarrow> clients_inv s \<Longrightarrow> clients_inv s'"
proof (induction rule: cstep.induct)
  case (begin_ok i cs p e p' c)
  with GetConnection_inv [OF begin_ok(3)] held_update [of i cs "First c"] show ?case
    by (simp add: clients_inv_def)
next
  case (begin_none i cs p e p')
  with GetConnection_inv [OF begin_none(3)] held_update [of i cs Done] show ?case
    by (simp add: clients_inv_def)
next
  case (changed i cs c p)
  with held_in_sum [OF changed(1)] have "c \<in> set (borrowed p)"
    by (simp add: clients_inv_def flip: set_mset_mset)
  moreover have "(\<Sum>c \<in># mset cs. held c) = add_mset c (\<Sum>c \<in># mset (cs[i := Done]). held c)"
    using changed held_update [of i cs Done] by simp
  ultimately show ?case
    using changed by (simp add: clients_inv_def ReturnConnection_inv borrowed_Return)
next
  case (unchanged i cs c p)
  with held_update [of i cs "Want c"] show ?case by (simp add: clients_inv_def)
next
  case (second_ok i cs c p e p' d)
  with GetConnection_inv [OF second_ok(3)] held_update [of i cs "Both c d"] show ?case
    by (simp add: clients_inv_def)
next
  case (second_none i cs c p e p')
  with GetConnection_inv [OF second_none(3)] held_in_sum [OF second_none(1)]
  have "mpool_inv p'" "borrowed p' = borrowed p" "c \<in> set (borrowed p')"
    by (simp_all add: clients_inv_def flip: set_mset_mset)
  moreover have "(\<Sum>c \<in># mset cs. held c) = add_mset c (\<Sum>c \<in># mset (cs[i := Done]). held c)"
    using second_none held_update [of i cs Done] by simp
  ultimately show ?case
    using second_none by (simp add: clients_inv_def ReturnConnection_inv borrowed_Return)
next
  case (finished i cs c d p)
  then have sub: "{#c, d#} \<subseteq># mset (borrowed p)" using held_in_sum [OF finished(1)] by (simp add: clients_inv_def)
  then have d: "d \<in> set (borrowed p)" and "c \<in># mset (borrowed p) - {#d#}"
    by (metis insert_subset_eq_iff set_mset_mset add_mset_commute mset_subset_eqD union_single_eq_member)
      (metis add_mset_commute insert_subset_eq_iff single_subset_iff sub)
  then have "c \<in> set (borrowed (ReturnConnection p d))"
    by (simp add: borrowed_Return flip: set_mset_mset)
  moreover have "(\<Sum>c \<in># mset cs. held c) = add_mset c (add_mset d (\<Sum>c \<in># mset (cs[i := Done]). held c))"
    using finished held_update [of i cs Done] by simp
  ultimately show ?case
    using finished d by (simp add: clients_inv_def ReturnConnection_inv borrowed_Return)
qed

interpretation confirmations: invariant cstep clients_inv
  by unfold_locales (rule cstep_inv)

lemma clients_length: "run cstep s is s' \<Longrightarrow> length (snd s') = length (snd s)"
  by (induction rule: run.induct) (auto elim!: cstep.cases)

lemma clients_start: "clients_inv (MysqlPool_new oks, replicate n Start)"
  by (simp add: clients_inv_def MysqlPool_new_inv)

lemma can_get_some: "can_get p \<Longrightarrow> \<exists>p' c. GetConnection p e = Some (p', c)"
  by (auto simp: GetConnection_def Let_def split: option.splits prod.splits)

lemma held_one:
  "\<forall>c \<in> set cs. \<forall>x y. c \<noteq> Both x y \<Longrightarrow> size (\<Sum>c \<in># mset cs. held c) \<le> length cs"
proof (induction cs)
  case (Cons c cs)
  then show ?case by (cases c) auto
qed simp

text \<open>Each thread takes a connection and its update changes no row.\<close>

lemma all_hold_first:
  assumes "length (idle p) = k" and "total_created p = pool_size p"
  shows "\<exists>is p' hs. run cstep (p, ws @ replicate k Start) is (p', ws @ map Want hs) \<and> length hs = k
    \<and> idle p' = [] \<and> total_created p' = pool_size p'"
  using assms
proof (induction k arbitrary: p ws)
  case (Suc k)
  then obtain c ds where d: "idle p = c # ds" by (cases "idle p") auto
  let ?p = "p\<lparr>idle := ds, borrowed := c # borrowed p\<rparr>" and ?i = "length ws"
  have "GetConnection p conn_up = Some (?p, Some c)"
    using d by (simp add: GetConnection_def can_get_def conn_up_def)
  then have "cstep (p, ws @ replicate (Suc k) Start) ?i (?p, (ws @ replicate (Suc k) Start)[?i := First c])"
    by (intro begin_ok) simp_all
  moreover have "cstep (?p, (ws @ replicate (Suc k) Start)[?i := First c]) ?i
      (?p, (ws @ replicate (Suc k) Start)[?i := First c, ?i := Want c])"
    by (intro unchanged) simp_all
  ultimately have two: "run cstep (p, ws @ replicate (Suc k) Start) [?i, ?i] (?p, (ws @ [Want c]) @ replicate k Start)"
    by (auto simp: run_Cons_iff)
  from Suc.IH [of ?p "ws @ [Want c]"] Suc.prems d obtain "is" p' hs where
    "run cstep (?p, (ws @ [Want c]) @ replicate k Start) is (p', (ws @ [Want c]) @ map Want hs)"
    "length hs = k" "idle p' = []" "total_created p' = pool_size p'" by auto
  with run_append [OF two this(1)] show ?case
    by (intro exI [of _ "[?i, ?i] @ is"] exI [of _ p'] exI [of _ "c # hs"]) simp
qed (auto intro: run_Nil)

text \<open>
  C24: with one connection more than there are threads (not counting the lost ones), confirming
  chunks never deadlocks: while a thread is not done some thread can move.
\<close>

theorem confirm_no_deadlock:
  assumes "run cstep (MysqlPool_new oks, replicate n Start) is (p, cs)" and "n + lost p < pool_size p"
    and "c \<in> set cs" and "c \<noteq> Done"
  shows "\<exists>i s'. cstep (p, cs) i s'"
proof (rule ccontr)
  assume no: "\<not> ?thesis"
  from confirmations.run_inv [OF assms(1) clients_start] have inv: "clients_inv (p, cs)" .
  from clients_length [OF assms(1)] have len: "length cs = n" by simp
  have "\<forall>c \<in> set cs. \<forall>x y. c \<noteq> Both x y" "\<forall>c \<in> set cs. \<forall>x. c \<noteq> First x"
    using no by (auto simp: in_set_conv_nth) (metis cstep.finished cstep.changed)+
  with held_one have "size (\<Sum>c \<in># mset cs. held c) \<le> n" using len by blast
  with inv have "length (borrowed p) \<le> n" by (simp add: clients_inv_def flip: size_mset)
  with inv assms(2) have "can_get p" by (auto simp: clients_inv_def mpool_inv_def can_get_def)
  then obtain p' r where g: "GetConnection p conn_up = Some (p', r)" using can_get_some by blast
  from assms(3) obtain i where i: "i < length cs" "cs ! i = c" by (meson in_set_conv_nth)
  show False
  proof (cases c)
    case Start
    with i g no show False by (cases r) (metis cstep.begin_ok cstep.begin_none)+
  next
    case (Want x)
    with i g no show False by (cases r) (metis cstep.second_ok cstep.second_none)+
  qed (use i no assms(4) in \<open>metis cstep.finished cstep.changed\<close>)+
qed

theorem confirm_no_deadlock_witness:
  "\<exists>i s'. cstep (MysqlPool_new [True, True, True], [Start, Start]) i s'"
  using confirm_no_deadlock [of "[True, True, True]" 2 "[]" "MysqlPool_new [True, True, True]" "[Start, Start]" Start]
  by (simp add: MysqlPool_new_inv numeral_2_eq_2)

text \<open>
  with as many threads as connections it can: every thread holds the connection of its
  update, each waits in \<open>FindById\<close> for a second one, and nothing can move again.
\<close>

theorem confirm_deadlock:
  "\<exists>is p hs. run cstep (MysqlPool_new (replicate n True), replicate n Start) is (p, map Want hs)
     \<and> length hs = n \<and> stuck cstep (p, map Want hs)"
proof -
  have "pool_size (MysqlPool_new (replicate n True)) = n" by (simp add: MysqlPool_new_inv)
  with MysqlPool_new_full [of n] all_hold_first [of "MysqlPool_new (replicate n True)" n "[]"]
  obtain "is" p hs where r: "run cstep (MysqlPool_new (replicate n True), replicate n Start) is (p, map Want hs)"
    "length hs = n" and full: "idle p = []" "total_created p = pool_size p" by auto
  have "GetConnection p e = None" for e using full by (simp add: GetConnection_def can_get_def)
  then have "stuck cstep (p, map Want hs)" by (auto simp: stuck_def elim!: cstep_E)
  with r show ?thesis by blast
qed

end
