(* ===== verification/Connections.thy ===== *)
theory Connections
  imports Prelude "HOL-Library.AList"
begin

text \<open>
  \<open>gateway/network\<close>: \<open>Session\<close>, \<open>TcpConnectionManager\<close> and the callbacks of \<open>TcpServerWrapper\<close>.
  A connection object is a number. Which objects are still referenced somewhere is the argument
  \<open>live\<close> (what \<open>weak_ptr::lock\<close> sees); the clock and the peer address come as arguments. The
  unordered map of sessions is the list of its entries in iteration order.
\<close>

section \<open>Sessions\<close>

record Session =
  session_id :: u64
  session_conn :: nat
  peer_addr :: string
  session_created :: int
  last_active_time :: int

definition Session_new :: "u64 \<Rightarrow> nat \<Rightarrow> string \<Rightarrow> int \<Rightarrow> Session" where
  "Session_new i conn peer ms = \<lparr>session_id = i, session_conn = conn, peer_addr = peer,
     session_created = ms, last_active_time = ms\<rparr>"

definition UpdateLastActiveTime :: "Session \<Rightarrow> int \<Rightarrow> Session" where
  "UpdateLastActiveTime s ms = s\<lparr>last_active_time := ms\<rparr>"

definition Session_GetConnection :: "(nat \<Rightarrow> bool) \<Rightarrow> Session \<Rightarrow> nat option" where
  "Session_GetConnection live s = (if live (session_conn s) then Some (session_conn s) else None)"

section \<open>The connection manager\<close>

record conn_manager =
  sessions :: "(u64 \<times> Session) list"
  next_id :: u64

definition conn_manager_new :: conn_manager where
  "conn_manager_new = \<lparr>sessions = [], next_id = 1\<rparr>"

definition AddSession :: "conn_manager \<Rightarrow> nat \<Rightarrow> string \<Rightarrow> int \<Rightarrow> conn_manager \<times> Session" where
  "AddSession m conn peer ms =
     (let i = next_id m; s = Session_new i conn peer ms
      in (m\<lparr>sessions := AList.update i s (sessions m), next_id := i + 1\<rparr>, s))"

definition RemoveSession_id :: "conn_manager \<Rightarrow> u64 \<Rightarrow> conn_manager" where
  "RemoveSession_id m i = m\<lparr>sessions := AList.delete i (sessions m)\<rparr>"

fun erase_conn :: "(nat \<Rightarrow> bool) \<Rightarrow> nat \<Rightarrow> (u64 \<times> Session) list \<Rightarrow> (u64 \<times> Session) list" where
  "erase_conn live conn [] = []"
| "erase_conn live conn (e # es) =
     (if Session_GetConnection live (snd e) = Some conn then es else e # erase_conn live conn es)"

definition RemoveSession_conn :: "(nat \<Rightarrow> bool) \<Rightarrow> conn_manager \<Rightarrow> nat \<Rightarrow> conn_manager" where
  "RemoveSession_conn live m conn = m\<lparr>sessions := erase_conn live conn (sessions m)\<rparr>"

definition GetSession :: "conn_manager \<Rightarrow> u64 \<Rightarrow> Session option" where
  "GetSession m i = map_of (sessions m) i"

definition GetAllSessions :: "conn_manager \<Rightarrow> Session list" where
  "GetAllSessions m = map snd (sessions m)"

definition ConnectionCount :: "conn_manager \<Rightarrow> nat" where
  "ConnectionCount m = length (sessions m)"

text \<open>\<open>TcpServerWrapper::OnConnection\<close>, without the optional user callback.\<close>

datatype conn_event = Up nat string int | Down nat

definition OnConnection :: "(nat \<Rightarrow> bool) \<Rightarrow> conn_manager \<Rightarrow> conn_event \<Rightarrow> conn_manager" where
  "OnConnection live m e =
     (case e of Up conn peer ms \<Rightarrow> fst (AddSession m conn peer ms)
      | Down conn \<Rightarrow> RemoveSession_conn live m conn)"

section \<open>Invariant\<close>

text \<open>Entries are filed under their own ids, all below the next one, and no connection has two.\<close>

definition manager_inv :: "conn_manager \<Rightarrow> bool" where
  "manager_inv m \<longleftrightarrow> distinct (map fst (sessions m))
     \<and> (\<forall>(i, s) \<in> set (sessions m). session_id s = i \<and> i < next_id m)
     \<and> distinct (map (session_conn \<circ> snd) (sessions m))"

definition conns :: "conn_manager \<Rightarrow> nat list" where
  "conns m = map (session_conn \<circ> snd) (sessions m)"

lemma update_new: "i \<notin> fst ` set xs \<Longrightarrow> AList.update i v xs = xs @ [(i, v)]"
  by (induction xs) auto

lemma unat_next: "unat (x::u64) < 2 ^ 64 - 1 \<Longrightarrow> unat (x + 1) = Suc (unat x)"
  by (simp add: unat_word_ariths)

lemma AddSession_inv:
  assumes "manager_inv m" and "unat (next_id m) < 2 ^ 64 - 1" and "conn \<notin> set (conns m)"
  shows "manager_inv (fst (AddSession m conn peer ms))"
    and "conns (fst (AddSession m conn peer ms)) = conns m @ [conn]"
    and "unat (next_id (fst (AddSession m conn peer ms))) = Suc (unat (next_id m))"
proof -
  from assms(1) have new: "next_id m \<notin> fst ` set (sessions m)"
    by (auto simp: manager_inv_def)
  have lt: "i < next_id m + 1" if "i < next_id m" for i
    using that unat_next [OF assms(2)] by (simp add: word_less_nat_alt)
  have "next_id m < next_id m + 1" using unat_next [OF assms(2)] by (simp add: word_less_nat_alt)
  with assms(1,3) new lt show "manager_inv (fst (AddSession m conn peer ms))"
    by (auto simp: AddSession_def Let_def manager_inv_def update_new Session_new_def conns_def)
  show "conns (fst (AddSession m conn peer ms)) = conns m @ [conn]"
    using new by (simp add: AddSession_def Let_def conns_def update_new Session_new_def)
  show "unat (next_id (fst (AddSession m conn peer ms))) = Suc (unat (next_id m))"
    using unat_next [OF assms(2)] by (simp add: AddSession_def Let_def)
qed

lemma erase_conn_sub: "set (erase_conn live conn xs) \<subseteq> set xs"
  by (induction xs) auto

lemma erase_conn_distinct: "distinct (map f xs) \<Longrightarrow> distinct (map f (erase_conn live conn xs))"
  using erase_conn_sub by (induction xs) fastforce+

lemma erase_conn_conns:
  "live conn \<Longrightarrow> map (session_conn \<circ> snd) (erase_conn live conn xs) = remove1 conn (map (session_conn \<circ> snd) xs)"
  by (induction xs) (auto simp: Session_GetConnection_def)

lemma RemoveSession_inv:
  assumes "manager_inv m"
  shows "manager_inv (RemoveSession_conn live m conn)"
    and "live conn \<Longrightarrow> conns (RemoveSession_conn live m conn) = remove1 conn (conns m)"
    and "next_id (RemoveSession_conn live m conn) = next_id m"
  using assms erase_conn_sub [of live conn "sessions m"]
  by (auto simp: RemoveSession_conn_def manager_inv_def erase_conn_distinct conns_def erase_conn_conns)

lemma manager_new: "manager_inv conn_manager_new" "conns conn_manager_new = []"
  by (simp_all add: manager_inv_def conn_manager_new_def conns_def)

section \<open>Properties\<close>

text \<open>A connection object comes up once and goes down once; what is connected after the events.\<close>

fun connected :: "conn_event list \<Rightarrow> nat set \<Rightarrow> nat set option" where
  "connected [] S = Some S"
| "connected (Up c p ms # es) S = (if c \<in> S then None else connected es (insert c S))"
| "connected (Down c # es) S = (if c \<in> S then connected es (S - {c}) else None)"

definition OnConnections :: "((nat \<Rightarrow> bool) \<times> conn_event) list \<Rightarrow> conn_manager \<Rightarrow> conn_manager" where
  "OnConnections es m = fold (\<lambda>(live, e) m. OnConnection live m e) es m"

lemma OnConnections_track:
  assumes "manager_inv m" and "set (conns m) = S" and "connected (map snd es) S = Some T"
    and "\<forall>(live, e) \<in> set es. \<forall>c. e = Down c \<longrightarrow> live c"
    and "unat (next_id m) + length es < 2 ^ 64"
  shows "manager_inv (OnConnections es m) \<and> set (conns (OnConnections es m)) = T"
  using assms
proof (induction es arbitrary: m S)
  case (Cons x es)
  obtain live e where x: "x = (live, e)" by fastforce
  show ?case
  proof (cases e)
    case (Up c p ms)
    let ?m = "fst (AddSession m c p ms)"
    have c: "c \<notin> set (conns m)" and rest: "connected (map snd es) (insert c S) = Some T"
      using Cons.prems(2,3) by (auto simp: x Up split: if_splits)
    have lt: "unat (next_id m) < 2 ^ 64 - 1" using Cons.prems(5) by simp
    note a = AddSession_inv [OF Cons.prems(1) lt c, of p ms]
    have "OnConnections (x # es) m = OnConnections es ?m"
      by (simp add: OnConnections_def x Up OnConnection_def)
    then show ?thesis using Cons.IH [OF a(1) _ rest] a(2,3) Cons.prems by simp
  next
    case (Down c)
    let ?m = "RemoveSession_conn live m c"
    have rest: "connected (map snd es) (S - {c}) = Some T" and l: "live c"
      using Cons.prems(3,4) by (auto simp: x Down split: if_splits)
    note r = RemoveSession_inv [OF Cons.prems(1), of live c]
    have "distinct (conns m)" using Cons.prems(1) by (simp add: manager_inv_def conns_def)
    then have "set (conns ?m) = S - {c}" using r(2) [OF l] Cons.prems(2) by simp
    moreover have "OnConnections (x # es) m = OnConnections es ?m"
      by (simp add: OnConnections_def x Down OnConnection_def)
    ultimately show ?thesis using Cons.IH [OF r(1) _ rest] r(3) Cons.prems by simp
  qed
qed (simp add: OnConnections_def)

text \<open>
  C39: the sessions follow the connections: after any sequence of connects and disconnects there is
  exactly one session for each open connection and none for a closed one, the count is right, and
  every session is found under its own id.
\<close>

theorem sessions_follow_connections:
  assumes "connected (map snd es) {} = Some T" and "length es < 2 ^ 64 - 1"
    and "\<forall>(live, e) \<in> set es. \<forall>c. e = Down c \<longrightarrow> live c"
  shows "set (conns (OnConnections es conn_manager_new)) = T
    \<and> ConnectionCount (OnConnections es conn_manager_new) = card T
    \<and> (\<forall>s \<in> set (GetAllSessions (OnConnections es conn_manager_new)).
         GetSession (OnConnections es conn_manager_new) (session_id s) = Some s)"
proof -
  let ?m = "OnConnections es conn_manager_new"
  have "unat (next_id conn_manager_new) + length es < 2 ^ 64"
    using assms(2) by (simp add: conn_manager_new_def)
  then have inv: "manager_inv ?m" and T: "set (conns ?m) = T"
    using OnConnections_track [OF manager_new(1) _ assms(1,3)] manager_new(2) by simp_all
  have "distinct (conns ?m)" using inv by (simp add: manager_inv_def conns_def)
  then have "ConnectionCount ?m = card T"
    using distinct_card T by (fastforce simp: ConnectionCount_def conns_def)
  moreover have "GetSession ?m (session_id s) = Some s" if "s \<in> set (GetAllSessions ?m)" for s
    using that inv by (auto simp: GetAllSessions_def GetSession_def manager_inv_def intro!: map_of_is_SomeI)
  ultimately show ?thesis using T by blast
qed

theorem sessions_follow_connections_witness:
  "set (conns (OnConnections [(\<lambda>_. True, Up 4 ''a'' 0), (\<lambda>_. True, Up 5 ''b'' 1), (\<lambda>_. True, Down 4)]
     conn_manager_new)) = {5}"
  using sessions_follow_connections
    [of "[(\<lambda>_. True, Up 4 ''a'' 0), (\<lambda>_. True, Up 5 ''b'' 1), (\<lambda>_. True, Down 4)]" "{5}"]
  by (simp add: insert_Diff_if)

end
