(* ===== verification/Processor.thy ===== *)
theory Processor
  imports Framing ThreadPool
begin

text \<open>
  \<open>gateway/handler/business_processor.cc\<close> and \<open>gateway/handler/task.h\<close>: the IO thread keeps a
  decoder for each connection, turns what arrives into tasks and submits them to the thread pool.
  The decoders are filed under the address of the connection object, a number; the unordered map is
  an association list. \<open>clock k\<close> is what the constructor of the \<open>k\<close>-th task of a call reads.
\<close>

section \<open>Tasks and decoders\<close>

record NetworkTask =
  request :: Message
  task_conn :: nat
  enqueue_time_ms :: int

definition NetworkTask_new :: "Message \<Rightarrow> nat \<Rightarrow> int \<Rightarrow> NetworkTask" where
  "NetworkTask_new m conn ms = \<lparr>request = m, task_conn = conn, enqueue_time_ms = ms\<rparr>"

definition ElapsedMs :: "NetworkTask \<Rightarrow> int \<Rightarrow> int" where
  "ElapsedMs t now_ms = now_ms - enqueue_time_ms t"

type_synonym decoders = "(nat \<times> Decoder) list"

definition GetDecoder :: "decoders \<Rightarrow> nat \<Rightarrow> decoders \<times> Decoder" where
  "GetDecoder ds key = (case map_of ds key of
     Some d \<Rightarrow> (ds, d) | None \<Rightarrow> (ds @ [(key, Decoder_init)], Decoder_init))"

definition RemoveDecoder :: "decoders \<Rightarrow> nat \<Rightarrow> decoders" where
  "RemoveDecoder ds key = filter (\<lambda>e. fst e \<noteq> key) ds"

definition ActiveDecoderCount :: "decoders \<Rightarrow> nat" where
  "ActiveDecoderCount ds = length ds"

text \<open>\<open>GetDecoder\<close> returns a shared pointer: \<open>Feed\<close> updates the decoder in the map.\<close>

definition set_decoder :: "decoders \<Rightarrow> nat \<Rightarrow> Decoder \<Rightarrow> decoders" where
  "set_decoder ds key d = map (\<lambda>(k, x). if k = key then (k, d) else (k, x)) ds"

fun submit_all :: "'t pool \<Rightarrow> 't list \<Rightarrow> 't pool \<times> cpp_exn option" where
  "submit_all p [] = (p, None)"
| "submit_all p (t # ts) = (case Submit p t of Inl e \<Rightarrow> (p, Some e) | Inr p' \<Rightarrow> submit_all p' ts)"

text \<open>\<open>Feed\<close> raises nothing, so the handler of the source around it is never taken.\<close>

definition OnMessage ::
  "decoders \<times> NetworkTask pool \<Rightarrow> nat \<Rightarrow> bytes \<Rightarrow> (nat \<Rightarrow> int) \<Rightarrow> (decoders \<times> NetworkTask pool) \<times> cpp_exn option" where
  "OnMessage s conn raw_data clock =
     (let (ds, p) = s;
          (ds, d) = GetDecoder ds conn;
          (messages, d) = Feed d raw_data;
          ds = set_decoder ds conn d;
          (p, e) = submit_all p (map (\<lambda>(k, m). NetworkTask_new m conn (clock k)) (enumerate 0 messages))
      in ((ds, p), e))"

section \<open>Facts\<close>

definition decoder_of :: "decoders \<Rightarrow> nat \<Rightarrow> Decoder" where
  "decoder_of ds key = (case map_of ds key of Some d \<Rightarrow> d | None \<Rightarrow> Decoder_init)"

lemma map_of_set_decoder:
  "map_of (set_decoder ds key d) k = (if k = key \<and> map_of ds key \<noteq> None then Some d else map_of ds k)"
  by (induction ds) (auto simp: set_decoder_def)

lemma GetDecoder_snd: "snd (GetDecoder ds key) = decoder_of ds key"
  by (simp add: GetDecoder_def decoder_of_def split: option.splits)

lemma decoder_of_step:
  "decoder_of (set_decoder (fst (GetDecoder ds key)) key d) k = (if k = key then d else decoder_of ds k)"
  by (auto simp: decoder_of_def map_of_set_decoder GetDecoder_def map_of_append map_add_def split: option.splits)

lemma submit_all_running:
  "running p \<Longrightarrow> submit_all p ts = (p\<lparr>tasks := tasks p @ ts, notifies := notifies p + length ts,
     submitted := submitted p @ ts\<rparr>, None)"
  by (induction ts arbitrary: p) (auto simp: Submit_def)

lemma submit_all_stopped: "\<not> running p \<Longrightarrow> ts \<noteq> [] \<Longrightarrow> submit_all p ts = (p, Some runtime_error)"
  by (cases ts) (auto simp: Submit_def)

lemma OnMessage_running:
  assumes "running p" and "Feed (decoder_of ds conn) raw = (ms, d)"
  shows "\<exists>ds' p' ts. OnMessage (ds, p) conn raw clock = ((ds', p'), None) \<and> running p'
    \<and> submitted p' = submitted p @ ts \<and> map request ts = ms \<and> (\<forall>t \<in> set ts. task_conn t = conn)
    \<and> (\<forall>k. decoder_of ds' k = (if k = conn then d else decoder_of ds k))"
proof -
  let ?ts = "map (\<lambda>(k, m). NetworkTask_new m conn (clock k)) (enumerate 0 ms)"
  obtain ds1 where g: "GetDecoder ds conn = (ds1, decoder_of ds conn)"
    using GetDecoder_snd [of ds conn] by (cases "GetDecoder ds conn") simp
  have "OnMessage (ds, p) conn raw clock = ((set_decoder ds1 conn d, fst (submit_all p ?ts)), None)"
    using assms g by (simp add: OnMessage_def submit_all_running)
  moreover have "\<forall>k. decoder_of (set_decoder ds1 conn d) k = (if k = conn then d else decoder_of ds k)"
    using decoder_of_step [of ds conn d] g by simp
  moreover have "map request ?ts = ms"
    by (simp add: comp_def case_prod_unfold NetworkTask_new_def)
  moreover have "\<forall>t \<in> set ?ts. task_conn t = conn" by (auto simp: NetworkTask_new_def)
  ultimately show ?thesis using assms(1) by (auto simp: submit_all_running)
qed

text \<open>The network delivers chunks of many connections in some order.\<close>

fun deliver :: "decoders \<times> NetworkTask pool \<Rightarrow> (nat \<times> bytes \<times> (nat \<Rightarrow> int)) list \<Rightarrow> decoders \<times> NetworkTask pool" where
  "deliver s [] = s"
| "deliver s ((conn, raw, clock) # es) = deliver (fst (OnMessage s conn raw clock)) es"

definition chunks_of :: "nat \<Rightarrow> (nat \<times> bytes \<times> (nat \<Rightarrow> int)) list \<Rightarrow> bytes list" where
  "chunks_of conn es = map (\<lambda>(c, raw, clock). raw) (filter (\<lambda>e. fst e = conn) es)"

definition requests_of :: "nat \<Rightarrow> NetworkTask pool \<Rightarrow> Message list" where
  "requests_of conn p = map request (filter (\<lambda>t. task_conn t = conn) (submitted p))"

lemma deliver_requests:
  assumes "running p" and "deliver (ds, p) es = (ds', p')"
  shows "requests_of conn p' = requests_of conn p @ fst (FeedAll (decoder_of ds conn) (chunks_of conn es))
    \<and> running p' \<and> decoder_of ds' conn = snd (FeedAll (decoder_of ds conn) (chunks_of conn es))"
  using assms
proof (induction es arbitrary: ds p)
  case Nil
  then show ?case by (simp add: chunks_of_def)
next
  case (Cons e es)
  obtain c raw clock where e: "e = (c, raw, clock)" by (cases e) auto
  obtain ms d where f: "Feed (decoder_of ds c) raw = (ms, d)" by fastforce
  from OnMessage_running [OF Cons.prems(1) f, of clock] obtain ds1 p1 ts where
    1: "OnMessage (ds, p) c raw clock = ((ds1, p1), None)" "running p1" "submitted p1 = submitted p @ ts"
      "map request ts = ms" "\<forall>t \<in> set ts. task_conn t = c"
      "\<forall>k. decoder_of ds1 k = (if k = c then d else decoder_of ds k)" by blast
  then have "deliver (ds1, p1) es = (ds', p')" using Cons.prems(2) e by simp
  note ih = Cons.IH [OF 1(2) this]
  have "filter (\<lambda>t. task_conn t = conn) ts = (if c = conn then ts else [])"
    using 1(5) by (auto simp: filter_empty_conv)
  then have "requests_of conn p1 = requests_of conn p @ (if c = conn then ms else [])"
    using 1(3,4) by (simp add: requests_of_def)
  then show ?case using ih 1(6) f by (auto simp: chunks_of_def e split: prod.splits)
qed

text \<open>A buffer that begins with a whole header waits for the length that header announces.\<close>

lemma next_frame_waits:
  assumes "encodable m" and "24 \<le> k" and "k \<le> length (Encode m)"
    and "k + length x < length (Encode m)"
  shows "next_frame (take k (Encode m) @ x) = Incomplete"
proof -
  let ?b = "take k (Encode m) @ x"
  have "24 \<le> length (take k (Encode m))" using assms(2,3) by simp
  then have "DecodeFrom ?b = DecodeFrom (Encode m)"
    using DecodeFrom_append [of "take k (Encode m)" x] DecodeFrom_append [of "take k (Encode m)" "drop k (Encode m)"]
    by simp
  also have "\<dots> = (wire_header m, True)"
    using assms(1) by (simp add: Encode_wire encodable_def IsValid_def)
  finally have d: "DecodeFrom ?b = (wire_header m, True)" .
  have "length ?b < 24 + unat (body_length (wire_header m)) + unat (data_length (wire_header m))"
    using assms by (simp add: encodable_def unat_of_nat)
  with d show ?thesis by (simp add: next_frame_def Let_def)
qed

lemma Feed_waits:
  assumes "dec_inv d" and "next_frame (buffer d @ x) = Incomplete"
  shows "\<exists>d'. Feed d x = ([], d') \<and> dec_inv d' \<and> buffer d' = buffer d @ x"
  using Feed_drain [OF assms(1)] assms(2) drain_buffer_unfold [of "buffer d @ x"]
  by (cases "Feed d x") auto

section \<open>Properties\<close>

text \<open>
  connections do not disturb each other: whatever the order in which chunks of many connections
  arrive, the tasks submitted for a connection that sends the encodings of some messages (and
  perhaps the beginning of one more) hold exactly these messages, in their order.
\<close>

theorem processor_per_connection:
  assumes "running p" and "submitted p = []" and "deliver ([], p) es = (ds', p')"
    and "concat (chunks_of conn es) = EncodeBatch ms @ t" and "\<forall>m \<in> set ms. encodable m" and "wire.partial t"
  shows "requests_of conn p' = map wire_message ms"
proof -
  obtain r d where f: "FeedAll Decoder_init (chunks_of conn es) = (r, d)" by fastforce
  have "run_chunks drain_buffer [] (chunks_of conn es) = (map wire_message ms, t)"
    using wire.chunks assms(4-6) by (simp add: Encode_concat)
  then have "r = map wire_message ms"
    using FeedAll_run_chunks [OF dec_inv_init f] by (simp add: Decoder_init_def)
  moreover have "decoder_of [] conn = Decoder_init" by (simp add: decoder_of_def)
  ultimately show ?thesis
    using deliver_requests [OF assms(1,3), of conn] f assms(2) by (simp add: requests_of_def)
qed

definition sample_clock :: "nat \<Rightarrow> int" where "sample_clock k = int k"

theorem processor_per_connection_witness:
  "requests_of 1 (snd (deliver ([], ThreadPool_new 8 1)
     [(1, take 30 (Encode Message_default), sample_clock), (2, ''noise'', sample_clock),
      (1, drop 30 (Encode Message_default), sample_clock)])) = [wire_message Message_default]"
proof -
  let ?es = "[(1, take 30 (Encode Message_default), sample_clock), (2, ''noise'', sample_clock),
      (1, drop 30 (Encode Message_default), sample_clock)]"
  obtain ds' p' where d: "deliver ([], ThreadPool_new 8 1) ?es = (ds', p')" by fastforce
  have "encodable Message_default"
    by (simp add: encodable_def Message_default_def IsValid_def MessageHeader_default_def)
  then show ?thesis
    using processor_per_connection [OF _ _ d, of 1 "[Message_default]" "[]"] d
    by (simp add: ThreadPool_new_def chunks_of_def wire.partial_def)
qed

text \<open>
  no operation calls \<open>RemoveDecoder\<close>. A connection that is lost in the middle of a message
  leaves its decoder behind, and when a later connection is allocated at the same address, its
  first message is taken for the rest of the lost one: no task is created for it.
\<close>

theorem stale_decoder_swallows:
  assumes "running p" and "encodable m0" and "24 \<le> k" and "k + length (Encode m) < length (Encode m0)"
  shows "\<exists>ds p'. deliver ([], p) [(conn, take k (Encode m0), clock), (conn, Encode m, clock')] = (ds, p')
    \<and> requests_of conn p' = requests_of conn p \<and> ActiveDecoderCount ds = 1"
proof -
  obtain ds' p' where d: "deliver ([], p) [(conn, take k (Encode m0), clock), (conn, Encode m, clock')] = (ds', p')"
    by fastforce
  have "next_frame (take k (Encode m0)) = Incomplete"
    using next_frame_waits [OF assms(2,3), of "[]"] assms(4) by simp
  then obtain d1 where 1: "Feed Decoder_init (take k (Encode m0)) = ([], d1)" "dec_inv d1" "buffer d1 = take k (Encode m0)"
    using Feed_waits [OF dec_inv_init, of "take k (Encode m0)"] by (auto simp: Decoder_init_def)
  have "next_frame (take k (Encode m0) @ Encode m) = Incomplete"
    using next_frame_waits [OF assms(2,3), of "Encode m"] assms(4) by simp
  with Feed_waits [OF 1(2)] 1(3) obtain d2 where 2: "Feed d1 (Encode m) = ([], d2)" by auto
  from 1 2 have "fst (FeedAll Decoder_init [take k (Encode m0), Encode m]) = []" by simp
  then have "requests_of conn p' = requests_of conn p"
    using deliver_requests [OF assms(1) d, of conn] by (simp add: chunks_of_def decoder_of_def)
  moreover have "length ds' = 1"
    using d by (auto simp: OnMessage_def GetDecoder_def set_decoder_def Let_def case_prod_unfold)
  ultimately show ?thesis using d by (auto simp: ActiveDecoderCount_def)
qed

theorem stale_decoder_swallows_witness:
  "\<exists>ds p'. deliver ([], ThreadPool_new 8 1)
      [(1, take 24 (Encode (Message_default\<lparr>json_body := replicate 100 (CHR ''x'')\<rparr>)), sample_clock),
       (1, Encode Message_default, sample_clock)] = (ds, p') \<and> requests_of 1 p' = []"
proof -
  have "encodable (Message_default\<lparr>json_body := replicate 100 (CHR ''x'')\<rparr>)"
    by (simp add: encodable_def Message_default_def IsValid_def MessageHeader_default_def)
  from stale_decoder_swallows [OF _ this, of "ThreadPool_new 8 1" 24 Message_default 1 sample_clock sample_clock]
  show ?thesis
    by (auto simp: ThreadPool_new_def requests_of_def Message_default_def)
qed

end
