(* ===== verification/Json.thy ===== *)
theory Json
  imports Prelude "HOL-Library.AList"
begin

text \<open>
  The JSON library. \<open>nlohmann::json\<close> is not part of the program: the record \<open>json_ops\<close> holds the
  operations of it that the code calls, each with the exception it raises, and a JSON value is a
  type parameter. \<open>json_ok\<close> states what its documentation promises, on values built from the data
  type \<open>js\<close>; \<open>js_ops\<close> is an instance with a printer and a parser that satisfies it.
\<close>

section \<open>Operations\<close>

record 'j json_ops =
  parse :: "string \<Rightarrow> 'j" \<comment> \<open>\<open>parse(s, nullptr, false)\<close>: a discarded value for text that is not JSON\<close>
  parse_strict :: "string \<Rightarrow> cpp_exn + 'j"
  dump :: "'j \<Rightarrow> cpp_exn + string"
  null :: "'j"
  obj :: "(string \<times> 'j) list \<Rightarrow> 'j"
  str :: "string \<Rightarrow> 'j"
  num :: "int \<Rightarrow> 'j"
  boolean :: "bool \<Rightarrow> 'j"
  arr :: "'j list \<Rightarrow> 'j"
  json_empty :: "'j \<Rightarrow> bool" \<comment> \<open>\<open>empty()\<close>\<close>
  value_string :: "'j \<Rightarrow> string \<Rightarrow> string \<Rightarrow> cpp_exn + string" \<comment> \<open>\<open>value(key, "")\<close>\<close>
  value_int :: "'j \<Rightarrow> string \<Rightarrow> int \<Rightarrow> cpp_exn + int" \<comment> \<open>\<open>value(key, 0LL)\<close>\<close>
  value_size :: "'j \<Rightarrow> string \<Rightarrow> nat \<Rightarrow> cpp_exn + nat" \<comment> \<open>\<open>value(key, 0UL)\<close>\<close>
  value_json :: "'j \<Rightarrow> string \<Rightarrow> 'j \<Rightarrow> cpp_exn + 'j" \<comment> \<open>\<open>value(key, json::object())\<close>\<close>
  index_int :: "'j \<Rightarrow> string \<Rightarrow> cpp_exn + int" \<comment> \<open>\<open>j[key]\<close> converted to \<open>int64_t\<close>\<close>
  index_string :: "'j \<Rightarrow> string \<Rightarrow> cpp_exn + string"
  index_json :: "'j \<Rightarrow> string \<Rightarrow> cpp_exn + 'j"
  at_int :: "'j \<Rightarrow> string \<Rightarrow> cpp_exn + int" \<comment> \<open>\<open>j.at(key)\<close> converted to \<open>int64_t\<close>\<close>
  at_string :: "'j \<Rightarrow> string \<Rightarrow> cpp_exn + string"
  at_json :: "'j \<Rightarrow> string \<Rightarrow> cpp_exn + 'j"
  contains :: "'j \<Rightarrow> string \<Rightarrow> bool"
  string_member :: "'j \<Rightarrow> string \<Rightarrow> string option" \<comment> \<open>\<open>contains\<close> and \<open>is_string\<close>\<close>
  set_member :: "'j \<Rightarrow> string \<Rightarrow> 'j \<Rightarrow> cpp_exn + 'j" \<comment> \<open>\<open>j[key] = v\<close>\<close>

section \<open>Values\<close>

datatype js = JNull | JObj "(string \<times> js) list" | JStr string | JInt int | JBool bool | JArr "js list" | JDiscarded

primrec den :: "'j json_ops \<Rightarrow> js \<Rightarrow> 'j" where
  "den J JNull = null J"
| "den J (JObj kvs) = obj J (map (map_prod id (den J)) kvs)"
| "den J (JStr s) = str J s"
| "den J (JInt i) = num J i"
| "den J (JBool b) = boolean J b"
| "den J (JArr vs) = arr J (map (den J) vs)"
| "den J JDiscarded = null J"

declare den.simps(2) [simp del]

lemmas den_obj = den.simps(2)

text \<open>Texts are UTF-8: the library refuses to write others.\<close>

fun valid_utf8 :: "nat list \<Rightarrow> bool" where
  "valid_utf8 [] = True"
| "valid_utf8 (a # s) =
     (if a < 128 then valid_utf8 s
      else case s of
        b # s1 \<Rightarrow>
          if 194 \<le> a \<and> a \<le> 223 then 128 \<le> b \<and> b < 192 \<and> valid_utf8 s1
          else (case s1 of
            c # s2 \<Rightarrow>
              if 224 \<le> a \<and> a \<le> 239
              then (if a = 224 then 160 else 128) \<le> b \<and> b < (if a = 237 then 160 else 192)
                \<and> 128 \<le> c \<and> c < 192 \<and> valid_utf8 s2
              else (case s2 of
                d # s3 \<Rightarrow> 240 \<le> a \<and> a \<le> 244
                  \<and> (if a = 240 then 144 else 128) \<le> b \<and> b < (if a = 244 then 144 else 192)
                  \<and> 128 \<le> c \<and> c < 192 \<and> 128 \<le> d \<and> d < 192 \<and> valid_utf8 s3
              | [] \<Rightarrow> False)
          | [] \<Rightarrow> False)
      | [] \<Rightarrow> False)"

definition utf8 :: "string \<Rightarrow> bool" where
  "utf8 s = valid_utf8 (map of_char s)"

definition ascii :: "string \<Rightarrow> bool" where
  "ascii s \<longleftrightarrow> (\<forall>c \<in> set s. (of_char c :: nat) < 128)"

lemma ascii_utf8 [intro]: "ascii s \<Longrightarrow> utf8 s"
  unfolding utf8_def by (induction s) (auto simp: ascii_def)

lemma utf8_ascii_append: "ascii s \<Longrightarrow> utf8 (s @ t) = utf8 t"
  unfolding utf8_def by (induction s) (auto simp: ascii_def)

lemma ascii_simps [simp]:
  "ascii []" "ascii (c # s) \<longleftrightarrow> (of_char c :: nat) < 128 \<and> ascii s" "ascii (s @ t) \<longleftrightarrow> ascii s \<and> ascii t"
  by (auto simp: ascii_def)

text \<open>Values that can be written: distinct keys, UTF-8 texts, integers of 64 bits.\<close>

fun js_valid :: "js \<Rightarrow> bool" where
  "js_valid JNull = True"
| "js_valid (JObj kvs) = (distinct (map fst kvs) \<and> list_all (\<lambda>(k, v). utf8 k \<and> js_valid v) kvs)"
| "js_valid (JStr s) = utf8 s"
| "js_valid (JInt i) = i64 i"
| "js_valid (JBool b) = True"
| "js_valid (JArr vs) = list_all js_valid vs"
| "js_valid JDiscarded = False"

section \<open>What the library promises\<close>

definition json_roundtrip :: "'j json_ops \<Rightarrow> bool" where
  "json_roundtrip J \<longleftrightarrow> (\<forall>v. js_valid v \<longrightarrow>
     (\<exists>t. dump J (den J v) = Inr t \<and> t \<noteq> [] \<and> parse J t = den J v \<and> parse_strict J t = Inr (den J v)))"

definition json_missing :: "'j json_ops \<Rightarrow> bool" where
  "json_missing J \<longleftrightarrow> (\<forall>kvs k. map_of kvs k = None \<longrightarrow> (let j = den J (JObj kvs) in
     (\<forall>d. value_string J j k d = Inr d) \<and> (\<forall>d. value_int J j k d = Inr d) \<and> (\<forall>d. value_size J j k d = Inr d)
     \<and> (\<forall>d. value_json J j k d = Inr d) \<and> \<not> contains J j k \<and> string_member J j k = None
     \<and> at_int J j k = Inl out_of_range \<and> at_string J j k = Inl out_of_range \<and> at_json J j k = Inl out_of_range))"

definition json_present :: "'j json_ops \<Rightarrow> bool" where
  "json_present J \<longleftrightarrow> (\<forall>kvs k v. distinct (map fst kvs) \<and> map_of kvs k = Some v \<longrightarrow> (let j = den J (JObj kvs) in
     contains J j k \<and> index_json J j k = Inr (den J v) \<and> at_json J j k = Inr (den J v)
     \<and> (\<forall>d. value_json J j k d = Inr (den J v))
     \<and> (case v of
          JStr s \<Rightarrow> string_member J j k = Some s \<and> index_string J j k = Inr s \<and> at_string J j k = Inr s
            \<and> (\<forall>d. value_string J j k d = Inr s) \<and> at_int J j k = Inl type_error
            \<and> (\<forall>d. value_int J j k d = Inl type_error)
        | JInt i \<Rightarrow> string_member J j k = None \<and> (\<forall>d. value_string J j k d = Inl type_error)
            \<and> (i64 i \<longrightarrow> index_int J j k = Inr i \<and> at_int J j k = Inr i \<and> (\<forall>d. value_int J j k d = Inr i))
            \<and> (0 \<le> i \<and> i64 i \<longrightarrow> (\<forall>d. value_size J j k d = Inr (nat i)))
        | _ \<Rightarrow> True)))"

definition json_update :: "'j json_ops \<Rightarrow> bool" where
  "json_update J \<longleftrightarrow> (\<forall>kvs k v. distinct (map fst kvs) \<longrightarrow>
     set_member J (den J (JObj kvs)) k (den J v) = Inr (den J (JObj (AList.update k v kvs))))
   \<and> (\<forall>kvs. json_empty J (den J (JObj kvs)) \<longleftrightarrow> kvs = []) \<and> json_empty J (null J)"

text \<open>\<open>dump\<close> raises for a text that is not UTF-8.\<close>

fun texts_ok :: "js \<Rightarrow> bool" where
  "texts_ok (JObj kvs) = list_all (\<lambda>(k, v). utf8 k \<and> texts_ok v) kvs"
| "texts_ok (JStr s) = utf8 s"
| "texts_ok (JArr vs) = list_all texts_ok vs"
| "texts_ok v = True"

definition json_strict :: "'j json_ops \<Rightarrow> bool" where
  "json_strict J \<longleftrightarrow> (\<forall>v. \<not> texts_ok v \<longrightarrow> dump J (den J v) = Inl type_error)"

definition json_ok :: "'j json_ops \<Rightarrow> bool" where
  "json_ok J \<longleftrightarrow> json_roundtrip J \<and> json_missing J \<and> json_present J \<and> json_update J \<and> json_strict J"

lemma json_strictD: "json_ok J \<Longrightarrow> \<not> texts_ok v \<Longrightarrow> dump J (den J v) = Inl type_error"
  by (simp add: json_ok_def json_strict_def)

lemma json_dump:
  assumes "json_ok J" and "js_valid v"
  obtains t where "dump J (den J v) = Inr t" "t \<noteq> []" "parse J t = den J v"
  using assms by (auto simp: json_ok_def json_roundtrip_def)

lemma json_missingD:
  assumes "json_ok J" and "map_of kvs k = None"
  shows "value_string J (den J (JObj kvs)) k s = Inr s" "value_int J (den J (JObj kvs)) k i = Inr i"
    "value_size J (den J (JObj kvs)) k n = Inr n" "value_json J (den J (JObj kvs)) k j = Inr j"
    "\<not> contains J (den J (JObj kvs)) k" "string_member J (den J (JObj kvs)) k = None"
    "at_int J (den J (JObj kvs)) k = Inl out_of_range"
  using assms by (auto simp: json_ok_def json_missing_def Let_def)

lemma json_at:
  assumes "json_ok J" and "distinct (map fst kvs)" and "map_of kvs k = Some v"
  shows "let j = den J (JObj kvs) in
     contains J j k \<and> index_json J j k = Inr (den J v) \<and> at_json J j k = Inr (den J v)
     \<and> (\<forall>d. value_json J j k d = Inr (den J v))
     \<and> (case v of
          JStr s \<Rightarrow> string_member J j k = Some s \<and> index_string J j k = Inr s \<and> at_string J j k = Inr s
            \<and> (\<forall>d. value_string J j k d = Inr s) \<and> at_int J j k = Inl type_error
            \<and> (\<forall>d. value_int J j k d = Inl type_error)
        | JInt i \<Rightarrow> string_member J j k = None \<and> (\<forall>d. value_string J j k d = Inl type_error)
            \<and> (i64 i \<longrightarrow> index_int J j k = Inr i \<and> at_int J j k = Inr i \<and> (\<forall>d. value_int J j k d = Inr i))
            \<and> (0 \<le> i \<and> i64 i \<longrightarrow> (\<forall>d. value_size J j k d = Inr (nat i)))
        | _ \<Rightarrow> True)"
  using assms unfolding json_ok_def json_present_def by blast

lemma json_presentD:
  assumes "json_ok J" and "distinct (map fst kvs)" and "map_of kvs k = Some v"
  shows "contains J (den J (JObj kvs)) k" "index_json J (den J (JObj kvs)) k = Inr (den J v)"
    "at_json J (den J (JObj kvs)) k = Inr (den J v)" "value_json J (den J (JObj kvs)) k d = Inr (den J v)"
  using json_at [OF assms] by (simp_all add: Let_def)

lemma json_stringD:
  assumes "json_ok J" and "distinct (map fst kvs)" and "map_of kvs k = Some (JStr s)"
  shows "string_member J (den J (JObj kvs)) k = Some s" "index_string J (den J (JObj kvs)) k = Inr s"
    "at_string J (den J (JObj kvs)) k = Inr s" "value_string J (den J (JObj kvs)) k d = Inr s"
    "value_int J (den J (JObj kvs)) k i = Inl type_error"
  using json_at [OF assms] by (simp_all add: Let_def)

lemma json_intD:
  assumes "json_ok J" and "distinct (map fst kvs)" and "map_of kvs k = Some (JInt i)" and "i64 i"
  shows "index_int J (den J (JObj kvs)) k = Inr i" "at_int J (den J (JObj kvs)) k = Inr i"
    "value_int J (den J (JObj kvs)) k d = Inr i" "0 \<le> i \<Longrightarrow> value_size J (den J (JObj kvs)) k n = Inr (nat i)"
  using json_at [OF assms(1-3)] assms(4) by (simp_all add: Let_def)

lemma json_setD:
  "json_ok J \<Longrightarrow> distinct (map fst kvs) \<Longrightarrow>
   set_member J (den J (JObj kvs)) k (den J v) = Inr (den J (JObj (AList.update k v kvs)))"
  "json_ok J \<Longrightarrow> json_empty J (den J (JObj kvs)) \<longleftrightarrow> kvs = []"
  by (auto simp: json_ok_def json_update_def)

section \<open>An instance\<close>

text \<open>A prefix format; lengths are written in unary.\<close>

definition pr_nat :: "nat \<Rightarrow> string" where
  "pr_nat n = replicate n (CHR ''1'') @ ''.''"

lemma length_pr_nat [simp]: "length (pr_nat n) = Suc n"
  by (simp add: pr_nat_def)

fun pr :: "js \<Rightarrow> string" where
  "pr JNull = ''z''"
| "pr (JObj kvs) = ''o'' @ pr_nat (length kvs) @ concat (map (\<lambda>(k, v). pr_nat (length k) @ k @ pr v) kvs)"
| "pr (JStr s) = ''s'' @ pr_nat (length s) @ s"
| "pr (JInt i) = (if i < 0 then ''-'' @ pr_nat (nat (- i)) else ''+'' @ pr_nat (nat i))"
| "pr (JBool b) = (if b then ''t'' else ''f'')"
| "pr (JArr vs) = ''a'' @ pr_nat (length vs) @ concat (map pr vs)"
| "pr JDiscarded = ''?''"

definition ps_nat :: "string \<Rightarrow> nat \<times> string" where
  "ps_nat s = (length (takeWhile (\<lambda>c. c = CHR ''1'') s), tl (dropWhile (\<lambda>c. c = CHR ''1'') s))"

lemma ps_pr_nat [simp]: "ps_nat (pr_nat n @ s) = (n, s)"
  by (simp add: ps_nat_def pr_nat_def takeWhile_append dropWhile_append)

fun ps :: "nat \<Rightarrow> string \<Rightarrow> (js \<times> string) option"
  and ps_list :: "nat \<Rightarrow> nat \<Rightarrow> string \<Rightarrow> (js list \<times> string) option"
  and ps_fields :: "nat \<Rightarrow> nat \<Rightarrow> string \<Rightarrow> ((string \<times> js) list \<times> string) option" where
  "ps 0 s = None"
| "ps (Suc f) s = (case s of
     [] \<Rightarrow> None
   | c # s \<Rightarrow>
       let (n, r) = ps_nat s in
       if c = CHR ''z'' then Some (JNull, s)
       else if c = CHR ''t'' then Some (JBool True, s)
       else if c = CHR ''f'' then Some (JBool False, s)
       else if c = CHR ''+'' then Some (JInt (int n), r)
       else if c = CHR ''-'' then Some (JInt (- int n), r)
       else if c = CHR ''s'' then Some (JStr (take n r), drop n r)
       else if c = CHR ''a'' then map_option (map_prod JArr id) (ps_list f n r)
       else if c = CHR ''o'' then map_option (map_prod JObj id) (ps_fields f n r)
       else None)"
| "ps_list f 0 s = Some ([], s)"
| "ps_list 0 (Suc n) s = None"
| "ps_list (Suc f) (Suc n) s = (case ps f s of None \<Rightarrow> None
     | Some (v, s) \<Rightarrow> map_option (map_prod (Cons v) id) (ps_list f n s))"
| "ps_fields f 0 s = Some ([], s)"
| "ps_fields 0 (Suc n) s = None"
| "ps_fields (Suc f) (Suc n) s = (case ps_nat s of (l, s) \<Rightarrow>
     (case ps f (drop l s) of None \<Rightarrow> None
      | Some (v, r) \<Rightarrow> map_option (map_prod (Cons (take l s, v)) id) (ps_fields f n r)))"

lemma pr_pos: "0 < length (pr v)"
  by (cases v) auto

lemma ps_pr_all:
  "(\<forall>v r. js_valid v \<longrightarrow> length (pr v) \<le> f \<longrightarrow> ps f (pr v @ r) = Some (v, r))
   \<and> (\<forall>vs r. list_all js_valid vs \<longrightarrow> length (concat (map pr vs)) < f \<longrightarrow>
        ps_list f (length vs) (concat (map pr vs) @ r) = Some (vs, r))
   \<and> (\<forall>kvs r. list_all (js_valid \<circ> snd) kvs \<longrightarrow>
        length (concat (map (\<lambda>(k, v). pr_nat (length k) @ k @ pr v) kvs)) < f \<longrightarrow>
        ps_fields f (length kvs) (concat (map (\<lambda>(k, v). pr_nat (length k) @ k @ pr v) kvs) @ r) = Some (kvs, r))"
proof (induction f)
  case 0
  then show ?case using pr_pos by (auto simp: not_le)
next
  case (Suc f)
  have vs: "ps f (pr v @ r) = Some (v, r)" if "js_valid v" "length (pr v) \<le> f" for v r
    using Suc.IH that by blast
  have ls: "ps_list f (length vs) (concat (map pr vs) @ r) = Some (vs, r)"
    if "list_all js_valid vs" "length (concat (map pr vs)) < f" for vs r using Suc.IH that by blast
  have fs: "ps_fields f (length kvs) (concat (map (\<lambda>(k, v). pr_nat (length k) @ k @ pr v) kvs) @ r) = Some (kvs, r)"
    if "list_all (js_valid \<circ> snd) kvs" "length (concat (map (\<lambda>(k, v). pr_nat (length k) @ k @ pr v) kvs)) < f"
    for kvs r using Suc.IH that by blast
  have "ps (Suc f) (pr v @ r) = Some (v, r)" if v: "js_valid v" "length (pr v) \<le> Suc f" for v r
  proof (cases v)
    case (JArr us)
    with v ls [of us r] show ?thesis by (simp add: Let_def)
  next
    case (JObj kvs)
    have "list_all (js_valid \<circ> snd) kvs" using v(1) JObj by (auto simp: list_all_iff)
    with v JObj fs [of kvs r] show ?thesis by (simp add: Let_def)
  qed (use v in \<open>auto simp: Let_def\<close>)
  moreover have "ps_list (Suc f) (length vs) (concat (map pr vs) @ r) = Some (vs, r)"
    if "list_all js_valid vs" "length (concat (map pr vs)) < Suc f" for vs r
  proof (cases vs)
    case (Cons u us)
    have "length (pr u) + length (concat (map pr us)) < Suc f" using that(2) Cons by simp
    then have "length (pr u) \<le> f" "length (concat (map pr us)) < f" using pr_pos [of u] by linarith+
    with that(1) Cons vs [of u] ls [of us r] show ?thesis by simp
  qed simp
  moreover have "ps_fields (Suc f) (length kvs) (concat (map (\<lambda>(k, v). pr_nat (length k) @ k @ pr v) kvs) @ r) = Some (kvs, r)"
    if "list_all (js_valid \<circ> snd) kvs" "length (concat (map (\<lambda>(k, v). pr_nat (length k) @ k @ pr v) kvs)) < Suc f" for kvs r
  proof (cases kvs)
    case (Cons u us)
    obtain k v where u: "u = (k, v)" by (cases u)
    have "length (pr v) \<le> f" "length (concat (map (\<lambda>(k, v). pr_nat (length k) @ k @ pr v) us)) < f"
      using that(2) Cons u by auto
    with that(1) Cons u vs [of v] fs [of us r] show ?thesis by simp
  qed simp
  ultimately show ?case by blast
qed

definition ps_all :: "string \<Rightarrow> js option" where
  "ps_all s = (case ps (length s) s of Some (v, []) \<Rightarrow> Some v | _ \<Rightarrow> None)"

lemma ps_all_pr: "js_valid v \<Longrightarrow> ps_all (pr v) = Some v"
  using ps_pr_all [of "length (pr v)"] by (metis (mono_tags, lifting) append.right_neutral list.simps(4)
      option.simps(5) order_refl prod.simps(2) ps_all_def)

definition js_get :: "js \<Rightarrow> string \<Rightarrow> js option" where
  "js_get j k = (case j of JObj kvs \<Rightarrow> map_of kvs k | _ \<Rightarrow> None)"

definition js_value :: "(js \<Rightarrow> cpp_exn + 'a) \<Rightarrow> js \<Rightarrow> string \<Rightarrow> 'a \<Rightarrow> cpp_exn + 'a" where
  "js_value f j k d = (case j of JObj kvs \<Rightarrow> (case map_of kvs k of None \<Rightarrow> Inr d | Some v \<Rightarrow> f v) | _ \<Rightarrow> Inl type_error)"

definition js_index :: "(js \<Rightarrow> cpp_exn + 'a) \<Rightarrow> js \<Rightarrow> string \<Rightarrow> cpp_exn + 'a" where
  "js_index f j k = (case j of JObj kvs \<Rightarrow> (case map_of kvs k of None \<Rightarrow> f JNull | Some v \<Rightarrow> f v)
     | JNull \<Rightarrow> f JNull | _ \<Rightarrow> Inl type_error)"

definition js_at :: "(js \<Rightarrow> cpp_exn + 'a) \<Rightarrow> js \<Rightarrow> string \<Rightarrow> cpp_exn + 'a" where
  "js_at f j k = (case j of JObj kvs \<Rightarrow> (case map_of kvs k of None \<Rightarrow> Inl out_of_range | Some v \<Rightarrow> f v)
     | _ \<Rightarrow> Inl type_error)"

definition js_string :: "js \<Rightarrow> cpp_exn + string" where
  "js_string j = (case j of JStr s \<Rightarrow> Inr s | _ \<Rightarrow> Inl type_error)"

definition js_int :: "js \<Rightarrow> cpp_exn + int" where
  "js_int j = (case j of JInt i \<Rightarrow> Inr i | _ \<Rightarrow> Inl type_error)"

definition js_size :: "js \<Rightarrow> cpp_exn + nat" where
  "js_size j = (case j of JInt i \<Rightarrow> Inr (nat (i mod 2 ^ 64)) | _ \<Rightarrow> Inl type_error)"

definition js_ops :: "js json_ops" where
  "js_ops = \<lparr>parse = (\<lambda>s. case ps_all s of Some v \<Rightarrow> v | None \<Rightarrow> JDiscarded),
     parse_strict = (\<lambda>s. case ps_all s of Some v \<Rightarrow> Inr v | None \<Rightarrow> Inl invalid_argument),
     dump = (\<lambda>v. if js_valid v then Inr (pr v) else Inl type_error),
     null = JNull, obj = JObj, str = JStr, num = JInt, boolean = JBool, arr = JArr,
     json_empty = (\<lambda>j. j = JNull \<or> j = JObj [] \<or> j = JArr []),
     value_string = js_value js_string, value_int = js_value js_int, value_size = js_value js_size,
     value_json = js_value Inr, index_int = js_index js_int, index_string = js_index js_string,
     index_json = js_index Inr, at_int = js_at js_int, at_string = js_at js_string, at_json = js_at Inr,
     contains = (\<lambda>j k. js_get j k \<noteq> None),
     string_member = (\<lambda>j k. case js_get j k of Some (JStr s) \<Rightarrow> Some s | _ \<Rightarrow> None),
     set_member = (\<lambda>j k v. case j of JObj kvs \<Rightarrow> Inr (JObj (AList.update k v kvs)) | JNull \<Rightarrow> Inr (JObj [(k, v)])
       | _ \<Rightarrow> Inl type_error)\<rparr>"

lemma den_js_ops: "js_valid v \<Longrightarrow> den js_ops v = v"
proof (induction v)
  case (JObj kvs)
  then have "map (map_prod id (den js_ops)) kvs = kvs" by (intro map_idI) (auto simp: list_all_iff)
  then show ?case by (simp add: den_obj) (simp add: js_ops_def)
next
  case (JArr vs)
  then have "map (den js_ops) vs = vs" by (intro map_idI) (auto simp: list_all_iff)
  then show ?case by simp (simp add: js_ops_def)
qed (simp_all add: js_ops_def)

lemma map_of_den: "map_of (map (map_prod id f) kvs) k = map_option f (map_of kvs k)"
  by (induction kvs) auto

lemma update_den: "AList.update k (f v) (map (map_prod id f) kvs) = map (map_prod id f) (AList.update k v kvs)"
  by (induction kvs) auto

lemma texts_ok_den: "texts_ok (den js_ops v) = texts_ok v"
proof (induction v)
  case (JObj kvs)
  then have "list_all (\<lambda>(k, v). utf8 k \<and> texts_ok v) (map (map_prod id (den js_ops)) kvs)
      = list_all (\<lambda>(k, v). utf8 k \<and> texts_ok v) kvs"
    by (fastforce simp: list_all_iff)
  then show ?case by (simp add: den_obj) (simp add: js_ops_def)
next
  case (JArr vs)
  then have "list_all texts_ok (map (den js_ops) vs) = list_all texts_ok vs" by (simp add: list_all_iff)
  then show ?case by simp (simp add: js_ops_def)
qed (simp_all add: js_ops_def)

lemma js_valid_texts: "js_valid v \<Longrightarrow> texts_ok v"
  by (induction v) (auto simp: list_all_iff)

text \<open>The promises can be kept.\<close>

lemma js_ops_ok: "json_ok js_ops"
proof -
  note unf = js_value_def js_index_def js_at_def js_get_def js_string_def js_int_def js_size_def
  have o: "den js_ops (JObj kvs) = JObj (map (map_prod id (den js_ops)) kvs)" for kvs
    by (simp add: den_obj) (simp add: js_ops_def)
  have den: "den js_ops (JStr s) = JStr s" "den js_ops (JInt i) = JInt i" for s i by (simp_all add: js_ops_def)
  have "json_roundtrip js_ops"
    unfolding json_roundtrip_def
  proof (intro allI impI)
    fix v assume v: "js_valid v"
    moreover have "pr v \<noteq> []" using pr_pos [of v] by auto
    ultimately show "\<exists>t. dump js_ops (den js_ops v) = Inr t \<and> t \<noteq> [] \<and> parse js_ops t = den js_ops v
        \<and> parse_strict js_ops t = Inr (den js_ops v)"
      using ps_all_pr [OF v] den_js_ops [OF v] by (simp add: js_ops_def)
  qed
  moreover have "json_missing js_ops"
    unfolding json_missing_def o by (simp add: Let_def js_ops_def unf map_of_den)
  moreover have "json_present js_ops"
    unfolding json_present_def
  proof (intro allI impI)
    fix kvs :: "(string \<times> js) list" and k v
    assume a: "distinct (map fst kvs) \<and> map_of kvs k = Some v"
    define kvs' where "kvs' = map (map_prod id (den js_ops)) kvs"
    have m: "map_of kvs' k = Some (den js_ops v)" using a by (simp add: kvs'_def map_of_den)
    show "let j = den js_ops (JObj kvs) in
     contains js_ops j k \<and> index_json js_ops j k = Inr (den js_ops v) \<and> at_json js_ops j k = Inr (den js_ops v)
     \<and> (\<forall>d. value_json js_ops j k d = Inr (den js_ops v))
     \<and> (case v of
          JStr s \<Rightarrow> string_member js_ops j k = Some s \<and> index_string js_ops j k = Inr s \<and> at_string js_ops j k = Inr s
            \<and> (\<forall>d. value_string js_ops j k d = Inr s) \<and> at_int js_ops j k = Inl type_error
            \<and> (\<forall>d. value_int js_ops j k d = Inl type_error)
        | JInt i \<Rightarrow> string_member js_ops j k = None \<and> (\<forall>d. value_string js_ops j k d = Inl type_error)
            \<and> (i64 i \<longrightarrow> index_int js_ops j k = Inr i \<and> at_int js_ops j k = Inr i \<and> (\<forall>d. value_int js_ops j k d = Inr i))
            \<and> (0 \<le> i \<and> i64 i \<longrightarrow> (\<forall>d. value_size js_ops j k d = Inr (nat i)))
        | _ \<Rightarrow> True)"
      unfolding o kvs'_def [symmetric] Let_def using m
      by (cases v) (simp_all add: js_ops_def unf)
  qed
  moreover have "json_update js_ops"
    unfolding json_update_def o by (simp add: js_ops_def update_den)
  moreover have "json_strict js_ops"
    unfolding json_strict_def
  proof (intro allI impI)
    fix v assume "\<not> texts_ok v"
    then have "\<not> js_valid (den js_ops v)" using js_valid_texts texts_ok_den by blast
    then show "dump js_ops (den js_ops v) = Inl type_error" by (simp add: js_ops_def)
  qed
  ultimately show ?thesis by (simp add: json_ok_def)
qed

end
