(* ===== verification/Server.thy ===== *)
theory Server
  imports Processor UserService FileService Json
begin

text \<open>
  The stand-alone server: \<open>gateway/handler/request_router.cc\<close>, the handlers that
  \<open>gateway/bin/server_main.cc\<close> registers, \<open>ProcessTask\<close> of \<open>business_processor.cc\<close>, and the JSON
  accessors of \<open>protocol/message.cc\<close>. The state is the user and file tables and the storage.
\<close>

section \<open>JSON bodies\<close>

definition GetJson :: "'j json_ops \<Rightarrow> Message \<Rightarrow> 'j" where
  "GetJson J m = (if json_body m = [] then obj J [] else parse J (json_body m))"

definition SetJson :: "'j json_ops \<Rightarrow> Message \<Rightarrow> 'j \<Rightarrow> cpp_exn + Message" where
  "SetJson J m j = (case dump J j of Inl e \<Rightarrow> Inl e
     | Inr s \<Rightarrow> Inr (m\<lparr>json_body := s, header := (header m)\<lparr>body_length := of_nat (length s)\<rparr>\<rparr>))"

definition GetCmd :: "'j json_ops \<Rightarrow> Message \<Rightarrow> string" where
  "GetCmd J m = (case string_member J (GetJson J m) ''cmd'' of Some c \<Rightarrow> c | None \<Rightarrow> [])"

section \<open>Texts of the replies (UTF-8)\<close>

definition text_register_failed :: string where
  "text_register_failed =
     [CHR 0xE6, CHR 0xB3, CHR 0xA8, CHR 0xE5, CHR 0x86, CHR 0x8C, CHR 0xE5, CHR 0xA4, CHR 0xB1, CHR
      0xE8, CHR 0xB4, CHR 0xA5] @ '': '' @ [CHR 0xE7, CHR 0x94, CHR 0xA8, CHR 0xE6, CHR 0x88, CHR
      0xB7, CHR 0xE5, CHR 0x90, CHR 0x8D, CHR 0xE5, CHR 0xB7, CHR 0xB2, CHR 0xE5, CHR 0xAD, CHR
      0x98, CHR 0xE5, CHR 0x9C, CHR 0xA8, CHR 0xE6, CHR 0x88, CHR 0x96, CHR 0xE5, CHR 0x8F, CHR
      0x82, CHR 0xE6, CHR 0x95, CHR 0xB0, CHR 0xE9, CHR 0x94, CHR 0x99, CHR 0xE8, CHR 0xAF, CHR
      0xAF]"

definition text_login_failed :: string where
  "text_login_failed =
     [CHR 0xE7, CHR 0x99, CHR 0xBB, CHR 0xE5, CHR 0xBD, CHR 0x95, CHR 0xE5, CHR 0xA4, CHR 0xB1, CHR
      0xE8, CHR 0xB4, CHR 0xA5] @ '': '' @ [CHR 0xE7, CHR 0x94, CHR 0xA8, CHR 0xE6, CHR 0x88, CHR
      0xB7, CHR 0xE5, CHR 0x90, CHR 0x8D, CHR 0xE6, CHR 0x88, CHR 0x96, CHR 0xE5, CHR 0xAF, CHR
      0x86, CHR 0xE7, CHR 0xA0, CHR 0x81, CHR 0xE9, CHR 0x94, CHR 0x99, CHR 0xE8, CHR 0xAF, CHR
      0xAF]"

definition text_auth_failed :: string where
  "text_auth_failed =
     [CHR 0xE8, CHR 0xAE, CHR 0xA4, CHR 0xE8, CHR 0xAF, CHR 0x81, CHR 0xE5, CHR 0xA4, CHR 0xB1, CHR
      0xE8, CHR 0xB4, CHR 0xA5]"

definition text_start_failed :: string where
  "text_start_failed =
     [CHR 0xE4, CHR 0xB8, CHR 0x8A, CHR 0xE4, CHR 0xBC, CHR 0xA0, CHR 0xE5, CHR 0x88, CHR 0x9D, CHR
      0xE5, CHR 0xA7, CHR 0x8B, CHR 0xE5, CHR 0x8C, CHR 0x96, CHR 0xE5, CHR 0xA4, CHR 0xB1, CHR
      0xE8, CHR 0xB4, CHR 0xA5]"

definition text_write_failed :: string where
  "text_write_failed =
     [CHR 0xE6, CHR 0x95, CHR 0xB0, CHR 0xE6, CHR 0x8D, CHR 0xAE, CHR 0xE5, CHR 0x86, CHR 0x99, CHR
      0xE5, CHR 0x85, CHR 0xA5, CHR 0xE5, CHR 0xA4, CHR 0xB1, CHR 0xE8, CHR 0xB4, CHR 0xA5]"

definition text_finalized :: string where
  "text_finalized =
     [CHR 0xE4, CHR 0xB8, CHR 0x8A, CHR 0xE4, CHR 0xBC, CHR 0xA0, CHR 0xE5, CHR 0xAE, CHR 0x8C, CHR
      0xE6, CHR 0x88, CHR 0x90]"

definition text_finalize_failed :: string where
  "text_finalize_failed =
     [CHR 0xE4, CHR 0xB8, CHR 0x8A, CHR 0xE4, CHR 0xBC, CHR 0xA0, CHR 0xE5, CHR 0xAE, CHR 0x8C, CHR
      0xE6, CHR 0x88, CHR 0x90, CHR 0xE5, CHR 0xA4, CHR 0xB1, CHR 0xE8, CHR 0xB4, CHR 0xA5]"

definition text_no_file :: string where
  "text_no_file =
     [CHR 0xE6, CHR 0x96, CHR 0x87, CHR 0xE4, CHR 0xBB, CHR 0xB6, CHR 0xE4, CHR 0xB8, CHR 0x8D, CHR
      0xE5, CHR 0xAD, CHR 0x98, CHR 0xE5, CHR 0x9C, CHR 0xA8]"

definition text_read_failed :: string where
  "text_read_failed =
     [CHR 0xE8, CHR 0xAF, CHR 0xBB, CHR 0xE5, CHR 0x8F, CHR 0x96, CHR 0xE5, CHR 0xA4, CHR 0xB1, CHR
      0xE8, CHR 0xB4, CHR 0xA5, CHR 0xE6, CHR 0x88, CHR 0x96, CHR 0xE6, CHR 0x96, CHR 0x87, CHR
      0xE4, CHR 0xBB, CHR 0xB6, CHR 0xE6, CHR 0x9C, CHR 0xAB, CHR 0xE5, CHR 0xB0, CHR 0xBE]"

definition text_deleted :: string where
  "text_deleted =
     [CHR 0xE5, CHR 0x88, CHR 0xA0, CHR 0xE9, CHR 0x99, CHR 0xA4, CHR 0xE6, CHR 0x88, CHR 0x90, CHR
      0xE5, CHR 0x8A, CHR 0x9F]"

definition text_delete_failed :: string where
  "text_delete_failed =
     [CHR 0xE5, CHR 0x88, CHR 0xA0, CHR 0xE9, CHR 0x99, CHR 0xA4, CHR 0xE5, CHR 0xA4, CHR 0xB1, CHR
      0xE8, CHR 0xB4, CHR 0xA5]"

definition text_unknown_command :: string where
  "text_unknown_command =
     [CHR 0xE6, CHR 0x9C, CHR 0xAA, CHR 0xE7, CHR 0x9F, CHR 0xA5, CHR 0xE5, CHR 0x91, CHR 0xBD, CHR
      0xE4, CHR 0xBB, CHR 0xA4] @ '': ''"

lemma texts_utf8:
  "utf8 text_register_failed" "utf8 text_login_failed" "utf8 text_auth_failed" "utf8 text_start_failed"
  "utf8 text_write_failed" "utf8 text_finalized" "utf8 text_finalize_failed" "utf8 text_no_file"
  "utf8 text_read_failed" "utf8 text_deleted" "utf8 text_delete_failed"
  "utf8 (text_unknown_command @ s) = utf8 s"
  by (simp_all add: utf8_def text_register_failed_def text_login_failed_def text_auth_failed_def
      text_start_failed_def text_write_failed_def text_finalized_def text_finalize_failed_def text_no_file_def
      text_read_failed_def text_deleted_def text_delete_failed_def text_unknown_command_def)

section \<open>Replies\<close>

definition response_to :: "Message \<Rightarrow> Message" where
  "response_to req = Message_default\<lparr>header := MessageHeader_default\<lparr>msg_type := MessageType_val kResponse,
     request_id := request_id (header req)\<rparr>\<rparr>"

definition MakeResponse ::
  "'j json_ops \<Rightarrow> Message \<Rightarrow> int \<Rightarrow> string \<Rightarrow> (string \<times> 'j) list \<Rightarrow> bytes \<Rightarrow> cpp_exn + Message" where
  "MakeResponse J req code msg data binary =
     (case SetJson J (response_to req)
         (obj J ([(''code'', num J code), (''msg'', str J msg)]
            @ (if data = [] then [] else [(''data'', obj J data)]))) of
        Inl e \<Rightarrow> Inl e
      | Inr resp \<Rightarrow> Inr (resp\<lparr>binary_data := binary,
          header := (header resp)\<lparr>data_length := of_nat (length binary)\<rparr>\<rparr>))"

definition GetToken :: "'j json_ops \<Rightarrow> Message \<Rightarrow> cpp_exn + string" where
  "GetToken J req = value_string J (GetJson J req) ''token'' []"

section \<open>Handlers\<close>

text \<open>What a request reads besides the state: the token generator and the local time.\<close>

record req_env =
  entropy :: "u64 \<times> u64"
  local_time :: tm

type_synonym store = "db \<times> fs"
type_synonym handler = "req_env \<Rightarrow> store \<Rightarrow> Message \<Rightarrow> store \<times> (cpp_exn + Message)"

text \<open>A parameter of a request; the handler ends where an accessor raises.\<close>

definition take_arg :: "store \<Rightarrow> cpp_exn + 'a \<Rightarrow> ('a \<Rightarrow> store \<times> (cpp_exn + Message)) \<Rightarrow> store \<times> (cpp_exn + Message)" where
  "take_arg st x k = (case x of Inl e \<Rightarrow> (st, Inl e) | Inr a \<Rightarrow> k a)"

definition handle_register :: "'j json_ops \<Rightarrow> handler" where
  "handle_register J env st req =
     (let j = GetJson J req in
      take_arg st (value_string J j ''username'' []) (\<lambda>name.
      take_arg st (value_string J j ''password'' []) (\<lambda>pwd.
      let (d, token) = Register (fst st) (entropy env) name pwd; st = (d, snd st) in
      if token = [] then (st, MakeResponse J req (-1) text_register_failed [] [])
      else (st, MakeResponse J req 0 ''ok'' [(''token'', str J token)] []))))"

definition handle_login :: "'j json_ops \<Rightarrow> handler" where
  "handle_login J env st req =
     (let j = GetJson J req in
      take_arg st (value_string J j ''username'' []) (\<lambda>name.
      take_arg st (value_string J j ''password'' []) (\<lambda>pwd.
      let (d, token) = Login (fst st) (entropy env) name pwd; st = (d, snd st) in
      if token = [] then (st, MakeResponse J req (-1) text_login_failed [] [])
      else (st, MakeResponse J req 0 ''ok'' [(''token'', str J token)] []))))"

text \<open>The first two statements of every other handler.\<close>

definition with_user ::
  "'j json_ops \<Rightarrow> store \<Rightarrow> Message \<Rightarrow> (store \<Rightarrow> int \<Rightarrow> store \<times> (cpp_exn + Message)) \<Rightarrow> store \<times> (cpp_exn + Message)" where
  "with_user J st req k =
     take_arg st (GetToken J req) (\<lambda>token.
       let (d, user_id) = VerifyToken (fst st) token; st = (d, snd st) in
       if user_id \<le> 0 then (st, MakeResponse J req (-1) text_auth_failed [] []) else k st user_id)"

definition handle_upload_start :: "'j json_ops \<Rightarrow> string \<Rightarrow> handler" where
  "handle_upload_start J base env st req = with_user J st req (\<lambda>st user_id.
     let j = GetJson J req in
     take_arg st (value_string J j ''filename'' []) (\<lambda>name.
     take_arg st (value_int J j ''filesize'' 0) (\<lambda>size0.
     take_arg st (value_string J j ''md5'' []) (\<lambda>md5sum.
     let (st, r) = UploadStart base st (local_time env) user_id name size0 md5sum in
     if up_file_id r \<le> 0 then (st, MakeResponse J req (-1) text_start_failed [] [])
     else (st, MakeResponse J req 0 ''ok'' [(''file_id'', num J (up_file_id r)),
        (''offset'', num J (up_offset r)), (''is_resume'', boolean J (up_is_resume r))] [])))))"

definition handle_upload_data :: "'j json_ops \<Rightarrow> string \<Rightarrow> handler" where
  "handle_upload_data J base env st req = with_user J st req (\<lambda>st user_id.
     let j = GetJson J req in
     take_arg st (index_int J j ''file_id'') (\<lambda>i.
     take_arg st (value_int J j ''offset'' 0) (\<lambda>off.
     let (st, written) = UploadData base st i user_id (binary_data req) off in
     if written < 0 then (st, MakeResponse J req (-1) text_write_failed [] [])
     else (st, MakeResponse J req 0 ''ok'' [(''written'', num J written)] []))))"

definition handle_upload_finalize :: "'j json_ops \<Rightarrow> string \<Rightarrow> handler" where
  "handle_upload_finalize J base env st req = with_user J st req (\<lambda>st user_id.
     take_arg st (index_int J (GetJson J req) ''file_id'') (\<lambda>i.
     let (st, ok) = UploadFinalize base st i user_id in
     (st, if ok then MakeResponse J req 0 text_finalized [] []
          else MakeResponse J req (-1) text_finalize_failed [] [])))"

definition handle_download :: "'j json_ops \<Rightarrow> handler" where
  "handle_download J env st req = with_user J st req (\<lambda>st user_id.
     take_arg st (index_int J (GetJson J req) ''file_id'') (\<lambda>i.
     case GetFileInfo st i of
       (st, None) \<Rightarrow> (st, MakeResponse J req (-1) text_no_file [] [])
     | (st, Some info) \<Rightarrow>
         if fuser_id info \<noteq> user_id then (st, MakeResponse J req (-1) text_no_file [] [])
         else (st, MakeResponse J req 0 ''ok'' [(''filesize'', num J (filesize info)),
           (''filename'', str J (filename info)), (''md5'', str J (md5 info)),
           (''status'', num J (status info))] [])))"

definition handle_download_chunk :: "'j json_ops \<Rightarrow> string \<Rightarrow> handler" where
  "handle_download_chunk J base env st req = with_user J st req (\<lambda>st user_id.
     let j = GetJson J req in
     take_arg st (index_int J j ''file_id'') (\<lambda>i.
     take_arg st (value_int J j ''offset'' 0) (\<lambda>off.
     take_arg st (value_size J j ''size'' 0) (\<lambda>sz.
     let (st, r) = DownloadChunk base st i user_id off sz in
     take_arg st r (\<lambda>data.
     if data = [] then (st, MakeResponse J req (-1) text_read_failed [] [])
     else (st, MakeResponse J req 0 ''ok'' [(''size'', num J (int (length data)))] data))))))"

definition handle_list :: "'j json_ops \<Rightarrow> handler" where
  "handle_list J env st req = with_user J st req (\<lambda>st user_id.
     let (st, rows) = QueryFiles st user_id in
     (st, MakeResponse J req 0 ''ok'' [(''files'', arr J (map (\<lambda>f. obj J [(''id'', num J (fid f)),
        (''filename'', str J (filename f)), (''filesize'', num J (filesize f)),
        (''status'', num J (status f)), (''upload_size'', num J (upload_size f))]) rows))] []))"

definition handle_delete :: "'j json_ops \<Rightarrow> string \<Rightarrow> handler" where
  "handle_delete J base env st req = with_user J st req (\<lambda>st user_id.
     take_arg st (index_int J (GetJson J req) ''file_id'') (\<lambda>i.
     let (st, ok) = Delete base st i user_id in
     (st, if ok then MakeResponse J req 0 text_deleted [] []
          else MakeResponse J req (-1) text_delete_failed [] [])))"

section \<open>Routing\<close>

type_synonym router = "string \<rightharpoonup> handler"

definition RegisterHandler :: "router \<Rightarrow> string \<Rightarrow> handler \<Rightarrow> router" where
  "RegisterHandler r cmd h = r(cmd \<mapsto> h)"

definition Route :: "'j json_ops \<Rightarrow> router \<Rightarrow> handler" where
  "Route J r env st req =
     (let cmd = GetCmd J req in
      case r cmd of
        None \<Rightarrow> (st, SetJson J (response_to req)
          (obj J [(''code'', num J (-3)), (''msg'', str J (text_unknown_command @ cmd))]))
      | Some h \<Rightarrow> h env st req)"

definition server_router :: "'j json_ops \<Rightarrow> string \<Rightarrow> router" where
  "server_router J base = foldl (\<lambda>r (cmd, h). RegisterHandler r cmd h) Map.empty
     [(''register'', handle_register J), (''login'', handle_login J),
      (''upload_start'', handle_upload_start J base), (''upload_data'', handle_upload_data J base),
      (''upload_finalize'', handle_upload_finalize J base), (''download'', handle_download J),
      (''download_chunk'', handle_download_chunk J base), (''list'', handle_list J),
      (''delete'', handle_delete J base)]"

text \<open>
  A worker runs the task: the reply goes out when the handler returned one and the connection is
  still up. An exception ends in the \<open>packaged_task\<close>, whose future nobody reads.
\<close>

definition ProcessTask ::
  "'j json_ops \<Rightarrow> router \<Rightarrow> req_env \<Rightarrow> bool \<Rightarrow> store \<Rightarrow> NetworkTask \<Rightarrow> store \<times> bytes option" where
  "ProcessTask J r env is_connected st task =
     (case Route J r env st (request task) of
        (st, Inl e) \<Rightarrow> (st, None)
      | (st, Inr response) \<Rightarrow> (st, if is_connected then Some (Encode response) else None))"

text \<open>Without a task handler the command is echoed in a hand-written JSON text.\<close>

definition ProcessTask_default :: "'j json_ops \<Rightarrow> bool \<Rightarrow> NetworkTask \<Rightarrow> bytes option" where
  "ProcessTask_default J is_connected task =
     (if \<not> is_connected then None
      else case parse_strict J (''{'' @ [CHR 0x22] @ ''code'' @ [CHR 0x22] @ '':0,'' @ [CHR 0x22] @ ''msg'' @ [CHR 0x22] @
             '':'' @ [CHR 0x22] @ ''ok'' @ [CHR 0x22] @ '','' @ [CHR 0x22] @ ''echo_cmd'' @ [CHR 0x22] @ '':'' @ [CHR 0x22] @
             GetCmd J (request task) @ [CHR 0x22] @ ''}'') of
        Inl e \<Rightarrow> None
      | Inr j \<Rightarrow> (case SetJson J (response_to (request task)) j of Inl e \<Rightarrow> None | Inr m \<Rightarrow> Some (Encode m)))"

section \<open>Every reply answers its request\<close>

definition reply_to :: "Message \<Rightarrow> Message \<Rightarrow> bool" where
  "reply_to req resp \<longleftrightarrow> request_id (header resp) = request_id (header req)
     \<and> msg_type (header resp) = MessageType_val kResponse \<and> IsValid resp
     \<and> body_length (header resp) = of_nat (length (json_body resp))
     \<and> data_length (header resp) = of_nat (length (binary_data resp))"

definition answers :: "Message \<Rightarrow> 'a \<times> (cpp_exn + Message) \<Rightarrow> bool" where
  "answers req r \<longleftrightarrow> (\<forall>resp. snd r = Inr resp \<longrightarrow> reply_to req resp)"

named_theorems answer_intros

lemma answers_response [answer_intros]: "answers req (st, MakeResponse J req code msg data binary)"
  by (auto simp: answers_def MakeResponse_def SetJson_def reply_to_def response_to_def Message_default_def
      MessageHeader_default_def IsValid_def split: sum.splits)

lemma answers_error [answer_intros]: "answers req (st, SetJson J (response_to req) j)"
  by (auto simp: answers_def SetJson_def reply_to_def response_to_def Message_default_def
      MessageHeader_default_def IsValid_def split: sum.splits)

lemma answers_take [answer_intros]: "(\<And>a. answers req (k a)) \<Longrightarrow> answers req (take_arg st x k)"
  by (auto simp: take_arg_def answers_def split: sum.splits)

lemma answers_user [answer_intros]: "(\<And>st u. answers req (k st u)) \<Longrightarrow> answers req (with_user J st req k)"
  by (auto simp: with_user_def Let_def case_prod_unfold intro!: answer_intros)

lemma answers_if [answer_intros]: "answers req x \<Longrightarrow> answers req y \<Longrightarrow> answers req (if b then x else y)"
  by simp

lemma answers_if_reply [answer_intros]:
  "answers req (st, x) \<Longrightarrow> answers req (st, y) \<Longrightarrow> answers req (st, if b then x else y)"
  by simp

lemma answers_prod [answer_intros]: "(\<And>a b. answers req (f a b)) \<Longrightarrow> answers req (case p of (a, b) \<Rightarrow> f a b)"
  by (simp split: prod.splits)

lemma answers_option [answer_intros]:
  "answers req x \<Longrightarrow> (\<And>a. answers req (g a)) \<Longrightarrow> answers req (case z of None \<Rightarrow> x | Some a \<Rightarrow> g a)"
  by (simp split: option.splits)

lemmas handler_defs = handle_register_def handle_login_def handle_upload_start_def handle_upload_data_def
  handle_upload_finalize_def handle_download_def handle_download_chunk_def handle_list_def handle_delete_def

lemma handlers_answer:
  "answers req (handle_register J env st req)" "answers req (handle_login J env st req)"
  "answers req (handle_upload_start J base env st req)" "answers req (handle_upload_data J base env st req)"
  "answers req (handle_upload_finalize J base env st req)" "answers req (handle_download J env st req)"
  "answers req (handle_download_chunk J base env st req)" "answers req (handle_list J env st req)"
  "answers req (handle_delete J base env st req)"
  unfolding handler_defs Let_def by (intro answer_intros)+

lemma server_router_cases:
  "server_router J base cmd = Some h \<Longrightarrow> h \<in> {handle_register J, handle_login J,
     handle_upload_start J base, handle_upload_data J base, handle_upload_finalize J base, handle_download J,
     handle_download_chunk J base, handle_list J, handle_delete J base}"
  by (auto simp: server_router_def RegisterHandler_def split: if_splits)

lemma Route_answers: "answers req (Route J (server_router J base) env st req)"
proof (cases "server_router J base (GetCmd J req)")
  case None
  then show ?thesis by (simp add: Route_def answers_error)
next
  case (Some h)
  with server_router_cases [OF Some] show ?thesis by (auto simp: Route_def handlers_answer)
qed

section \<open>Nothing happens without a valid token\<close>

definition same_data :: "store \<Rightarrow> store \<Rightarrow> bool" where
  "same_data st st' \<longleftrightarrow> snd st' = snd st \<and> users (fst st') = users (fst st) \<and> file_rows (fst st') = file_rows (fst st)"

lemma VerifyToken_data: "users (fst (VerifyToken d tok)) = users d" "file_rows (fst (VerifyToken d tok)) = file_rows d"
  by (auto simp: VerifyToken_def UserDAO_FindByToken_def Let_def case_prod_unfold split: option.splits)

lemma with_user_rejects:
  assumes "\<forall>tok. GetToken J req = Inr tok \<longrightarrow> snd (VerifyToken (fst st) tok) \<le> 0"
  shows "same_data st (fst (with_user J st req k))"
    and "snd (with_user J st req k) = Inr resp \<Longrightarrow> MakeResponse J req (-1) text_auth_failed [] [] = Inr resp"
  using assms by (auto simp: with_user_def take_arg_def Let_def case_prod_unfold same_data_def VerifyToken_data
      split: sum.splits)

section \<open>Sample requests\<close>

definition sample_req :: "js \<Rightarrow> Message" where
  "sample_req v = Message_default\<lparr>json_body := pr v\<rparr>"

definition sample_env :: req_env where
  "sample_env = \<lparr>entropy = (1, 2), local_time = sample_tm\<rparr>"

definition sample_cmd :: "string \<Rightarrow> string \<Rightarrow> js" where
  "sample_cmd cmd tok = JObj [(''cmd'', JStr cmd), (''token'', JStr tok)]"

lemma sample_cmd_valid: "ascii cmd \<Longrightarrow> ascii tok \<Longrightarrow> js_valid (sample_cmd cmd tok)"
  by (auto simp: sample_cmd_def)

lemma sample_req_json: "js_valid v \<Longrightarrow> GetJson js_ops (sample_req v) = v"
  using pr_pos [of v] ps_all_pr [of v] by (simp add: GetJson_def sample_req_def js_ops_def)

lemma sample_req_cmd:
  "ascii cmd \<Longrightarrow> ascii tok \<Longrightarrow> GetCmd js_ops (sample_req (sample_cmd cmd tok)) = cmd"
  "ascii cmd \<Longrightarrow> ascii tok \<Longrightarrow> GetToken js_ops (sample_req (sample_cmd cmd tok)) = Inr tok"
  by (simp_all add: GetCmd_def GetToken_def sample_req_json sample_cmd_valid)
    (simp_all add: sample_cmd_def js_ops_def js_get_def js_value_def js_string_def)

section \<open>Properties\<close>

text \<open>
  whatever the command and the parameters, a reply carries the id of its request, is marked as
  a response with the right magic, and announces the lengths of its own parts.
\<close>

theorem server_replies_match:
  assumes "Route J (server_router J base) env st req = (st', Inr resp)"
  shows "reply_to req resp"
  using Route_answers [of req J base env st] assms by (simp add: answers_def)

theorem server_replies_match_witness:
  "\<exists>st' resp. Route js_ops (server_router js_ops ''/srv'') sample_env (sample_db, sample_fs)
       (sample_req (sample_cmd ''who'' [])) = (st', Inr resp) \<and> reply_to (sample_req (sample_cmd ''who'' [])) resp"
proof -
  have c: "GetCmd js_ops (sample_req (sample_cmd ''who'' [])) = ''who''" by (rule sample_req_cmd) simp_all
  have n: "server_router js_ops ''/srv'' ''who'' = None" by (simp add: server_router_def RegisterHandler_def)
  let ?v = "JObj [(''code'', JInt (-3)), (''msg'', JStr (text_unknown_command @ ''who''))]"
  have "utf8 (text_unknown_command @ ''who'')" by (simp add: texts_utf8 ascii_utf8)
  then have v: "js_valid ?v" by (auto simp: ascii_utf8)
  have o: "obj js_ops [(''code'', num js_ops (-3)), (''msg'', str js_ops (text_unknown_command @ ''who''))] = den js_ops ?v"
    by (simp add: den_obj)
  obtain t where t: "dump js_ops (den js_ops ?v) = Inr t" using json_dump [OF js_ops_ok v] by blast
  obtain resp where "Route js_ops (server_router js_ops ''/srv'') sample_env (sample_db, sample_fs)
      (sample_req (sample_cmd ''who'' [])) = ((sample_db, sample_fs), Inr resp)"
    using t by (simp add: Route_def c n SetJson_def o Let_def)
  from this server_replies_match [OF this] show ?thesis by blast
qed



text \<open>
  a request of a valid user whose \<open>file_id\<close> is missing or no number gets no reply at all: the
  accessor raises, the exception ends in the task's future, and the client waits for ever.
\<close>

theorem missing_file_id_gets_no_reply:
  assumes "GetCmd J (request task) \<in> {''upload_data'', ''upload_finalize'', ''download'', ''download_chunk'', ''delete''}"
    and "GetToken J (request task) = Inr tok" and "0 < snd (VerifyToken (fst st) tok)"
    and "index_int J (GetJson J (request task)) ''file_id'' = Inl type_error"
  shows "\<exists>st'. ProcessTask J (server_router J base) env is_connected st task = (st', None) \<and> same_data st st'"
proof -
  obtain h where h: "server_router J base (GetCmd J (request task)) = Some h"
    "h \<in> {handle_upload_data J base, handle_upload_finalize J base, handle_download J,
      handle_download_chunk J base, handle_delete J base}"
    using assms(1) by (auto simp: server_router_def RegisterHandler_def)
  let ?st = "(fst (VerifyToken (fst st) tok), snd st)"
  have "h env st (request task) = (?st, Inl type_error)"
    using h(2) assms(2-4) by (auto simp: handler_defs with_user_def take_arg_def Let_def case_prod_unfold)
  with h(1) have "ProcessTask J (server_router J base) env is_connected st task = (?st, None)"
    by (simp add: ProcessTask_def Route_def)
  then show ?thesis by (simp add: same_data_def VerifyToken_data)
qed

theorem missing_file_id_gets_no_reply_witness:
  "\<exists>st'. ProcessTask js_ops (server_router js_ops ''/srv'') sample_env True (sample_db, sample_fs)
     (NetworkTask_new (sample_req (sample_cmd ''delete'' ''t'')) 1 0) = (st', None)"
proof -
  let ?r = "sample_req (sample_cmd ''delete'' ''t'')"
  have c: "GetCmd js_ops ?r = ''delete''" "GetToken js_ops ?r = Inr ''t''" by (rule sample_req_cmd; simp)+
  have "snd (VerifyToken sample_db ''t'') = 7"
    by (simp add: VerifyToken_def UserDAO_FindByToken_def next_fault_def sample_db_def User_new_def
        fetch_user_def user_fits_def user_of_row_def)
  moreover have "index_int js_ops (GetJson js_ops ?r) ''file_id'' = Inl type_error"
    by (simp add: sample_req_json sample_cmd_valid)
      (simp add: sample_cmd_def js_ops_def js_index_def js_int_def)
  ultimately show ?thesis
    using missing_file_id_gets_no_reply [of js_ops "NetworkTask_new ?r 1 0" "''t''"
        "(sample_db, sample_fs)" "''/srv''" sample_env True]
    by (auto simp: NetworkTask_new_def c)
qed

end
