(* ===== verification/Client.thy ===== *)
theory Client
  imports Server
begin

text \<open>
  The client library \<open>client/file_client.cc\<close>. The network and the server behind it are a
  parameter \<open>net\<close>: it takes the state of the world and the message sent and gives the message
  that arrives under the same request id, or none before the timeout; how replies find their
  caller is the subject of \<open>RpcClient\<close>, whose table of promises this class repeats. The calls of
  one client come one after the other. The digest of OpenSSL is the parameter \<open>digest\<close>.

  Local files: \<open>local_files\<close> holds the contents, \<open>dir\<close> says which paths are directories,
  \<open>creatable\<close> which can be opened for writing, and \<open>room\<close> is how much the disk takes. A local file
  does not change while it is being uploaded.
\<close>

section \<open>State\<close>

record 'j ClientResponse =
  resp_code :: int
  resp_msg :: string
  resp_data :: 'j
  resp_binary :: bytes

definition is_ok :: "'j ClientResponse \<Rightarrow> bool" where "is_ok r \<longleftrightarrow> resp_code r = 0"

record local_fs =
  local_files :: "string \<rightharpoonup> bytes"
  dir :: "string \<Rightarrow> bool"
  creatable :: "string \<Rightarrow> bool"
  room :: nat

record 's FileClient =
  world :: 's
  disk :: local_fs
  connection :: bool \<comment> \<open>\<open>connection_\<close> is not null\<close>
  connected_flag :: bool
  client_decoder :: Decoder
  client_token :: string
  next_request_id :: u32
  progress_log :: "(int \<times> int) list" \<comment> \<open>the calls of the progress callback\<close>

type_synonym 's net = "'s \<Rightarrow> Message \<Rightarrow> 's \<times> Message option"

definition text_not_connected :: string where
  "text_not_connected = [CHR 0xE6, CHR 0x9C, CHR 0xAA, CHR 0xE8, CHR 0xBF, CHR 0x9E, CHR 0xE6, CHR 0x8E, CHR 0xA5]"

definition text_timeout :: string where
  "text_timeout = [CHR 0xE8, CHR 0xAF, CHR 0xB7, CHR 0xE6, CHR 0xB1, CHR 0x82, CHR 0xE8, CHR 0xB6, CHR 0x85,
     CHR 0xE6, CHR 0x97, CHR 0xB6]"

definition text_cannot_open :: string where
  "text_cannot_open = [CHR 0xE6, CHR 0x97, CHR 0xA0, CHR 0xE6, CHR 0xB3, CHR 0x95, CHR 0xE6, CHR 0x89, CHR 0x93,
     CHR 0xE5, CHR 0xBC, CHR 0x80, CHR 0xE6, CHR 0x96, CHR 0x87, CHR 0xE4, CHR 0xBB, CHR 0xB6] @ '': ''"

definition text_path_is_dir :: string where
  "text_path_is_dir = [CHR 0xE4, CHR 0xBF, CHR 0x9D, CHR 0xE5, CHR 0xAD, CHR 0x98, CHR 0xE8, CHR 0xB7, CHR 0xAF,
     CHR 0xE5, CHR 0xBE, CHR 0x84, CHR 0xE6, CHR 0x98, CHR 0xAF, CHR 0xE7, CHR 0x9B, CHR 0xAE, CHR 0xE5, CHR 0xBD,
     CHR 0x95, CHR 0xEF, CHR 0xBC, CHR 0x8C, CHR 0xE6, CHR 0x97, CHR 0xA0, CHR 0xE6, CHR 0xB3, CHR 0x95, CHR 0xE7,
     CHR 0xA1, CHR 0xAE, CHR 0xE5, CHR 0xAE, CHR 0x9A, CHR 0xE6, CHR 0x96, CHR 0x87, CHR 0xE4, CHR 0xBB, CHR 0xB6,
     CHR 0xE5, CHR 0x90, CHR 0x8D]"

definition text_cannot_create :: string where
  "text_cannot_create = [CHR 0xE6, CHR 0x97, CHR 0xA0, CHR 0xE6, CHR 0xB3, CHR 0x95, CHR 0xE5, CHR 0x88, CHR 0x9B,
     CHR 0xE5, CHR 0xBB, CHR 0xBA, CHR 0xE6, CHR 0x96, CHR 0x87, CHR 0xE4, CHR 0xBB, CHR 0xB6] @ '': ''"

definition text_save_failed :: string where
  "text_save_failed = [CHR 0xE5, CHR 0x86, CHR 0x99, CHR 0xE5, CHR 0x85, CHR 0xA5, CHR 0xE6, CHR 0x96, CHR 0x87,
     CHR 0xE4, CHR 0xBB, CHR 0xB6, CHR 0xE5, CHR 0xA4, CHR 0xB1, CHR 0xE8, CHR 0xB4, CHR 0xA5] @ '': ''"

definition plain_response :: "'j json_ops \<Rightarrow> int \<Rightarrow> string \<Rightarrow> 'j ClientResponse" where
  "plain_response J c m = \<lparr>resp_code = c, resp_msg = m, resp_data = null J, resp_binary = []\<rparr>"

section \<open>Connection and replies\<close>

definition FileClient_OnConnection :: "'s FileClient \<Rightarrow> bool \<Rightarrow> 's FileClient" where
  "FileClient_OnConnection c up = c\<lparr>connection := up, connected_flag := up\<rparr>"

text \<open>\<open>established\<close>: the connection came up within three seconds. The decoder stays as it is.\<close>

definition FileClient_Connect :: "'s FileClient \<Rightarrow> bool \<Rightarrow> 's FileClient \<times> bool" where
  "FileClient_Connect c established =
     (let c = c\<lparr>connection := False, connected_flag := False\<rparr>
      in if established then (FileClient_OnConnection c True, True) else (c, False))"

definition FileClient_Disconnect :: "'s FileClient \<Rightarrow> 's FileClient" where
  "FileClient_Disconnect c = c\<lparr>connected_flag := False, connection := False\<rparr>"

definition IsConnected :: "'s FileClient \<Rightarrow> bool" where "IsConnected c = connected_flag c"

text \<open>The conversion of a reply; \<open>code\<close> is read as an \<open>int\<close>.\<close>

definition to_int :: "int \<Rightarrow> int" where
  "to_int i = sint (word_of_int i :: 32 word)"

definition response_of :: "'j json_ops \<Rightarrow> Message \<Rightarrow> cpp_exn + 'j ClientResponse" where
  "response_of J m =
     (let j = GetJson J m in
      case value_int J j ''code'' (-1) of Inl e \<Rightarrow> Inl e
      | Inr c \<Rightarrow> (case value_string J j ''msg'' [] of Inl e \<Rightarrow> Inl e
      | Inr s \<Rightarrow> (case value_json J j ''data'' (obj J []) of Inl e \<Rightarrow> Inl e
      | Inr d \<Rightarrow> Inr \<lparr>resp_code = to_int c, resp_msg = s, resp_data = d, resp_binary = binary_data m\<rparr>)))"

text \<open>The IO thread: the replies to resolve, up to the first that raises.\<close>

fun resolutions :: "'j json_ops \<Rightarrow> Message list \<Rightarrow> (u32 \<times> 'j ClientResponse) list \<times> cpp_exn option" where
  "resolutions J [] = ([], None)"
| "resolutions J (m # ms) = (case response_of J m of
     Inl e \<Rightarrow> ([], Some e)
   | Inr r \<Rightarrow> (case resolutions J ms of (rs, e) \<Rightarrow> ((request_id (header m), r) # rs, e)))"

definition FileClient_OnMessage ::
  "'j json_ops \<Rightarrow> 's FileClient \<Rightarrow> bytes \<Rightarrow> 's FileClient \<times> (u32 \<times> 'j ClientResponse) list \<times> cpp_exn option" where
  "FileClient_OnMessage J c raw =
     (let (msgs, d) = Feed (client_decoder c) raw in (c\<lparr>client_decoder := d\<rparr>, resolutions J msgs))"

section \<open>Requests\<close>

definition NextRequestId :: "'s FileClient \<Rightarrow> 's FileClient \<times> u32" where
  "NextRequestId c = (c\<lparr>next_request_id := next_request_id c + 1\<rparr>, next_request_id c)"

definition request_message :: "'j json_ops \<Rightarrow> u32 \<Rightarrow> 'j \<Rightarrow> bytes \<Rightarrow> cpp_exn + Message" where
  "request_message J rid req binary =
     (case SetJson J (Message_default\<lparr>header := MessageHeader_default\<lparr>msg_type := MessageType_val kRequest,
          request_id := rid\<rparr>\<rparr>) req of
        Inl e \<Rightarrow> Inl e
      | Inr m \<Rightarrow> Inr (m\<lparr>binary_data := binary, header := (header m)\<lparr>data_length := of_nat (length binary)\<rparr>\<rparr>))"

text \<open>An exception of the JSON library leaves the call.\<close>

definition SendRequestWithBinary ::
  "'j json_ops \<Rightarrow> 's net \<Rightarrow> 's FileClient \<Rightarrow> 'j \<Rightarrow> bytes \<Rightarrow> 's FileClient \<times> (cpp_exn + 'j ClientResponse)" where
  "SendRequestWithBinary J net c req binary =
     (if \<not> connection c then (c, Inr (plain_response J (-1) text_not_connected))
      else let (c, rid) = NextRequestId c in
        case request_message J rid req binary of
          Inl e \<Rightarrow> (c, Inl e)
        | Inr m \<Rightarrow> (case net (world c) m of
            (w, None) \<Rightarrow> (c\<lparr>world := w\<rparr>, Inr (plain_response J (-2) text_timeout))
          | (w, Some r) \<Rightarrow> (c\<lparr>world := w\<rparr>, response_of J r)))"

definition SendRequest ::
  "'j json_ops \<Rightarrow> 's net \<Rightarrow> 's FileClient \<Rightarrow> 'j \<Rightarrow> 's FileClient \<times> (cpp_exn + 'j ClientResponse)" where
  "SendRequest J net c req = SendRequestWithBinary J net c req []"

definition FileClient_Register where
  "FileClient_Register J net c user pass =
     SendRequest J net c (obj J [(''cmd'', str J ''register''), (''username'', str J user), (''password'', str J pass)])"

definition FileClient_Login where
  "FileClient_Login J net c user pass =
     (case SendRequest J net c (obj J [(''cmd'', str J ''login''), (''username'', str J user), (''password'', str J pass)]) of
        (c, Inl e) \<Rightarrow> (c, Inl e)
      | (c, Inr resp) \<Rightarrow>
          if is_ok resp \<and> contains J (resp_data resp) ''token''
          then (case index_string J (resp_data resp) ''token'' of
                  Inl e \<Rightarrow> (c, Inl e) | Inr t \<Rightarrow> (c\<lparr>client_token := t\<rparr>, Inr resp))
          else (c, Inr resp))"

definition FileClient_UploadStart where
  "FileClient_UploadStart J net c tok name size0 md5sum =
     SendRequest J net c (obj J [(''cmd'', str J ''upload_start''), (''token'', str J tok), (''filename'', str J name),
       (''filesize'', num J size0), (''md5'', str J md5sum)])"

definition FileClient_UploadData where
  "FileClient_UploadData J net c tok file_id off chunk =
     SendRequestWithBinary J net c (obj J [(''cmd'', str J ''upload_data''), (''token'', str J tok),
       (''file_id'', num J file_id), (''offset'', num J off), (''size'', num J (int (length chunk)))]) chunk"

definition FileClient_UploadFinalize where
  "FileClient_UploadFinalize J net c tok file_id =
     SendRequest J net c (obj J [(''cmd'', str J ''upload_finalize''), (''token'', str J tok), (''file_id'', num J file_id)])"

definition FileClient_ListFiles where
  "FileClient_ListFiles J net c tok = SendRequest J net c (obj J [(''cmd'', str J ''list''), (''token'', str J tok)])"

definition FileClient_DeleteFile where
  "FileClient_DeleteFile J net c tok file_id =
     SendRequest J net c (obj J [(''cmd'', str J ''delete''), (''token'', str J tok), (''file_id'', num J file_id)])"

section \<open>Digest of a file\<close>

text \<open>The loop reads blocks of 8192 bytes; a file that cannot be opened gives the digest of nothing.\<close>

function digest_loop :: "bytes \<Rightarrow> bytes \<Rightarrow> bytes" where
  "digest_loop ctx rest = (if rest = [] then ctx else digest_loop (ctx @ take 8192 rest) (drop 8192 rest))"
  by pat_completeness auto
termination
  by (relation "measure (\<lambda>(ctx, rest). length rest)") auto

declare digest_loop.simps [simp del]

definition hex2 :: "u8 \<Rightarrow> string" where
  "hex2 w = setw0 2 (show_base 16 (unat w))"

definition ComputeFileMD5 :: "(bytes \<Rightarrow> u8 list) \<Rightarrow> bytes option \<Rightarrow> string" where
  "ComputeFileMD5 digest content =
     concat (map hex2 (digest (digest_loop [] (case content of None \<Rightarrow> [] | Some c \<Rightarrow> c))))"

section \<open>Upload\<close>

definition base_name :: "string \<Rightarrow> string" where
  "base_name path = (case find_last_of {CHR ''/'', CHR 0x5C} path of Some p \<Rightarrow> drop (p + 1) path | None \<Rightarrow> path)"

definition kChunkSize :: int where "kChunkSize = 4 * 1024 * 1024"

text \<open>
  \<open>buffer.resize\<close> and \<open>fs.read\<close>. The position is \<open>None\<close> once the stream has failed; then, and past
  the end of the file, the bytes of the buffer stay as they were.
\<close>

definition seek_to :: "int \<Rightarrow> nat option" where
  "seek_to off = (if off < 0 then None else Some (nat off))"

definition read_block :: "bytes \<Rightarrow> nat option \<Rightarrow> bytes \<Rightarrow> nat \<Rightarrow> nat option \<times> bytes" where
  "read_block content pos buf n =
     (let buf = take n buf @ replicate (n - length buf) (CHR 0x00) in
      case pos of None \<Rightarrow> (None, buf)
      | Some p \<Rightarrow> (let got = take n (drop p content) in
          (if length got < n then None else Some (p + n), got @ drop (length got) buf)))"

function upload_loop ::
  "'j json_ops \<Rightarrow> 's net \<Rightarrow> string \<Rightarrow> int \<Rightarrow> bytes \<Rightarrow> int \<Rightarrow> 's FileClient \<Rightarrow> nat option \<Rightarrow> bytes \<Rightarrow> int
     \<Rightarrow> 's FileClient \<times> (cpp_exn + 'j ClientResponse option)" where
  "upload_loop J net tok file_id content fsize c pos buf off =
     (if \<not> off < fsize then (c, Inr None)
      else let sz = nat (min kChunkSize (fsize - off));
               (pos, buf) = read_block content pos buf sz
           in case FileClient_UploadData J net c tok file_id off buf of
                (c, Inl e) \<Rightarrow> (c, Inl e)
              | (c, Inr resp) \<Rightarrow>
                  if \<not> is_ok resp then (c, Inr (Some resp))
                  else upload_loop J net tok file_id content fsize
                    (c\<lparr>progress_log := progress_log c @ [(off + int sz, fsize)]\<rparr>) pos buf (off + int sz))"
  by pat_completeness auto
termination
  by (relation "measure (\<lambda>(J, net, tok, i, content, fsize, c, pos, buf, off). nat (fsize - off))")
    (auto simp: kChunkSize_def)

declare upload_loop.simps [simp del]

definition UploadFile ::
  "'j json_ops \<Rightarrow> 's net \<Rightarrow> (bytes \<Rightarrow> u8 list) \<Rightarrow> 's FileClient \<Rightarrow> string \<Rightarrow> string
     \<Rightarrow> 's FileClient \<times> (cpp_exn + 'j ClientResponse)" where
  "UploadFile J net digest c tok local_path =
     (case local_files (disk c) local_path of
        None \<Rightarrow> (c, Inr (plain_response J (-1) (text_cannot_open @ local_path)))
      | Some content \<Rightarrow>
          let fsize = int (length content);
              md5sum = ComputeFileMD5 digest (local_files (disk c) local_path)
          in case FileClient_UploadStart J net c tok (base_name local_path) fsize md5sum of
            (c, Inl e) \<Rightarrow> (c, Inl e)
          | (c, Inr start_resp) \<Rightarrow>
              if \<not> is_ok start_resp then (c, Inr start_resp)
              else case index_int J (resp_data start_resp) ''file_id'' of Inl e \<Rightarrow> (c, Inl e)
              | Inr file_id \<Rightarrow> (case value_int J (resp_data start_resp) ''offset'' 0 of Inl e \<Rightarrow> (c, Inl e)
              | Inr off \<Rightarrow>
                  (case upload_loop J net tok file_id content fsize c (seek_to off) [] off of
                    (c, Inl e) \<Rightarrow> (c, Inl e)
                  | (c, Inr (Some resp)) \<Rightarrow> (c, Inr resp)
                  | (c, Inr None) \<Rightarrow>
                      (case FileClient_UploadFinalize J net c tok file_id of
                        (c, Inl e) \<Rightarrow> (c, Inl e)
                      | (c, Inr final_resp) \<Rightarrow>
                          if is_ok final_resp
                          then (case set_member J (resp_data final_resp) ''file_id'' (num J file_id) of
                                  Inl e \<Rightarrow> (c, Inl e) | Inr d \<Rightarrow> (c, Inr (final_resp\<lparr>resp_data := d\<rparr>)))
                          else (c, Inr final_resp)))))"

section \<open>Download\<close>

text \<open>
  The loop ends only when enough bytes came or a request failed: as a \<open>partial_function\<close> it has the
  value \<open>None\<close> when it runs for ever. \<open>out\<close> collects what is written to the local stream.
\<close>

partial_function (option) download_loop ::
  "'j json_ops \<Rightarrow> 's net \<Rightarrow> string \<Rightarrow> int \<Rightarrow> int \<Rightarrow> 's FileClient \<Rightarrow> bytes \<Rightarrow> int
     \<Rightarrow> ('s FileClient \<times> bytes \<times> (cpp_exn + 'j ClientResponse) option \<times> int) option" where
  "download_loop J net tok file_id fsize c out off =
     (if \<not> off < fsize then Some (c, out, None, off)
      else case SendRequest J net c (obj J [(''cmd'', str J ''download_chunk''), (''token'', str J tok),
              (''file_id'', num J file_id), (''offset'', num J off),
              (''size'', num J (min kChunkSize (fsize - off)))]) of
        (c, Inl e) \<Rightarrow> Some (c, out, Some (Inl e), off)
      | (c, Inr resp) \<Rightarrow>
          if \<not> is_ok resp then Some (c, out, Some (Inr resp), off)
          else download_loop J net tok file_id fsize
            (c\<lparr>progress_log := progress_log c @ [(off + int (length (resp_binary resp)), fsize)]\<rparr>)
            (out @ resp_binary resp) (off + int (length (resp_binary resp))))"

definition save_target :: "local_fs \<Rightarrow> string \<Rightarrow> string \<Rightarrow> string option" where
  "save_target l save_path name =
     (if dir l save_path
      then (if name = [] then None
            else Some ((if save_path \<noteq> [] \<and> last save_path \<noteq> CHR ''/'' then save_path @ ''/'' else save_path) @ name))
      else Some save_path)"

definition close_out :: "'s FileClient \<Rightarrow> string \<Rightarrow> bytes \<Rightarrow> 's FileClient \<times> bool" where
  "close_out c target out =
     (c\<lparr>disk := (disk c)\<lparr>local_files := (local_files (disk c))(target \<mapsto> take (room (disk c)) out)\<rparr>\<rparr>,
      length out \<le> room (disk c))"

definition DownloadFile ::
  "'j json_ops \<Rightarrow> 's net \<Rightarrow> 's FileClient \<Rightarrow> string \<Rightarrow> int \<Rightarrow> string
     \<Rightarrow> ('s FileClient \<times> (cpp_exn + 'j ClientResponse)) option" where
  "DownloadFile J net c tok file_id save_path =
     (case SendRequest J net c (obj J [(''cmd'', str J ''download''), (''token'', str J tok), (''file_id'', num J file_id)]) of
        (c, Inl e) \<Rightarrow> Some (c, Inl e)
      | (c, Inr info) \<Rightarrow>
          if \<not> is_ok info then Some (c, Inr info)
          else case value_int J (resp_data info) ''filesize'' 0 of Inl e \<Rightarrow> Some (c, Inl e)
          | Inr fsize \<Rightarrow>
              if fsize = 0 then Some (c, Inr (plain_response J (-1) text_no_file))
              else case value_string J (resp_data info) ''filename'' [] of Inl e \<Rightarrow> Some (c, Inl e)
              | Inr name \<Rightarrow> (case save_target (disk c) save_path name of
                  None \<Rightarrow> Some (c, Inr (plain_response J (-1) text_path_is_dir))
                | Some target \<Rightarrow>
                    if \<not> creatable (disk c) target
                    then Some (c, Inr (plain_response J (-1) (text_cannot_create @ target)))
                    else (case download_loop J net tok file_id fsize c [] 0 of
                        None \<Rightarrow> None
                      | Some (c, out, Some r, off) \<Rightarrow> Some (fst (close_out c target out), r)
                      | Some (c, out, None, off) \<Rightarrow> (case close_out c target out of (c, good) \<Rightarrow>
                          if \<not> good \<or> off \<noteq> fsize
                          then Some (c, Inr (plain_response J (-1) (text_save_failed @ target)))
                          else Some (c, Inr \<lparr>resp_code = 0, resp_msg = ''ok'',
                            resp_data = obj J [(''filesize'', num J fsize), (''path'', str J target)], resp_binary = []\<rparr>)))))"

section \<open>Facts\<close>

lemma to_int_small: "- (2 ^ 31) \<le> i \<Longrightarrow> i < 2 ^ 31 \<Longrightarrow> to_int i = i"
  unfolding to_int_def by (simp add: signed_take_bit_int_eq_self signed_of_int)

text \<open>While the replies bring no data the loop stays where it is.\<close>

lemma download_loop_stuck:
  assumes step: "\<And>c. S c \<Longrightarrow> \<exists>c' resp. SendRequest J net c (obj J [(''cmd'', str J ''download_chunk''), (''token'', str J tok),
        (''file_id'', num J i), (''offset'', num J off), (''size'', num J (min kChunkSize (fsize - off)))]) = (c', Inr resp)
      \<and> is_ok resp \<and> resp_binary resp = [] \<and> (\<forall>p. S (c'\<lparr>progress_log := p\<rparr>))"
    and "S c" and "off < fsize"
  shows "download_loop J net tok i fsize c out off = None"
proof (rule ccontr)
  assume "download_loop J net tok i fsize c out off \<noteq> None"
  then obtain r where "download_loop J net tok i fsize c out off = Some r" by blast
  then have "J = J \<and> net = net \<and> tok = tok \<and> i = i \<and> fsize = fsize \<and> off = off \<and> S c \<longrightarrow> False"
  proof (rule download_loop.raw_induct [rotated, where P = "\<lambda>J' net' tok' i' fsize' c out off' r.
      J' = J \<and> net' = net \<and> tok' = tok \<and> i' = i \<and> fsize' = fsize \<and> off' = off \<and> S c \<longrightarrow> False"])
    fix loop J' net' tok' i' fsize' c out off' r
    assume ih: "\<And>J' net' tok' i' fsize' c out off' r. loop J' net' tok' i' fsize' c out off' = Some r \<Longrightarrow>
        J' = J \<and> net' = net \<and> tok' = tok \<and> i' = i \<and> fsize' = fsize \<and> off' = off \<and> S c \<longrightarrow> False"
      and eq: "(if \<not> off' < fsize' then Some (c, out, None, off')
      else case SendRequest J' net' c (obj J' [(''cmd'', str J' ''download_chunk''), (''token'', str J' tok'),
              (''file_id'', num J' i'), (''offset'', num J' off'),
              (''size'', num J' (min kChunkSize (fsize' - off')))]) of
        (c, Inl e) \<Rightarrow> Some (c, out, Some (Inl e), off')
      | (c, Inr resp) \<Rightarrow>
          if \<not> is_ok resp then Some (c, out, Some (Inr resp), off')
          else loop J' net' tok' i' fsize'
            (c\<lparr>progress_log := progress_log c @ [(off' + int (length (resp_binary resp)), fsize')]\<rparr>)
            (out @ resp_binary resp) (off' + int (length (resp_binary resp)))) = Some r"
    show "J' = J \<and> net' = net \<and> tok' = tok \<and> i' = i \<and> fsize' = fsize \<and> off' = off \<and> S c \<longrightarrow> False"
    proof (intro impI)
      assume a: "J' = J \<and> net' = net \<and> tok' = tok \<and> i' = i \<and> fsize' = fsize \<and> off' = off \<and> S c"
      from step [of c] a obtain c' resp where s: "SendRequest J net c (obj J [(''cmd'', str J ''download_chunk''),
          (''token'', str J tok), (''file_id'', num J i), (''offset'', num J off),
          (''size'', num J (min kChunkSize (fsize - off)))]) = (c', Inr resp)"
        "is_ok resp" "resp_binary resp = []" "\<forall>p. S (c'\<lparr>progress_log := p\<rparr>)" by blast
      with eq a assms(3) have "loop J net tok i fsize (c'\<lparr>progress_log := progress_log c' @ [(off, fsize)]\<rparr>) out off = Some r"
        by simp
      from ih [OF this] s(4) show False by blast
    qed
  qed
  with assms(2) show False by blast
qed

text \<open>
  Reconnecting does not reset the decoder: after a connection that was lost in the middle of a
  reply, the first reply of the new connection is taken for the rest of the lost one.
\<close>

lemma stale_client_decoder:
  assumes "client_decoder c = Decoder_init" and "encodable m0" and "24 \<le> k" and "k + length (Encode m) < length (Encode m0)"
    and "FileClient_OnMessage J c (take k (Encode m0)) = (c1, out1)"
    and "FileClient_OnMessage J (fst (FileClient_Connect (FileClient_Disconnect c1) True)) (Encode m) = (c2, out2)"
  shows "out2 = ([], None)"
proof -
  have "next_frame (take k (Encode m0)) = Incomplete"
    using next_frame_waits [OF assms(2,3), of "[]"] assms(4) by simp
  then obtain d1 where 1: "Feed Decoder_init (take k (Encode m0)) = ([], d1)" "dec_inv d1" "buffer d1 = take k (Encode m0)"
    using Feed_waits [OF dec_inv_init, of "take k (Encode m0)"] by (auto simp: Decoder_init_def)
  have "next_frame (take k (Encode m0) @ Encode m) = Incomplete"
    using next_frame_waits [OF assms(2,3), of "Encode m"] assms(4) by simp
  with Feed_waits [OF 1(2)] 1(3) obtain d2 where "Feed d1 (Encode m) = ([], d2)" by auto
  with 1 assms(1,5,6) show ?thesis
    by (auto simp: FileClient_OnMessage_def FileClient_Connect_def FileClient_Disconnect_def FileClient_OnConnection_def)
qed

end
