(* ===== verification/EndToEnd.thy ===== *)
theory EndToEnd
  imports Client
begin

text \<open>
  The client library against the stand-alone server: the requests of \<open>client/file_client.cc\<close> reach
  the handlers of \<open>gateway/bin/server_main.cc\<close>, and their replies come back. That the wire carries
  messages unchanged is shown in \<open>Framing\<close>.
\<close>

section \<open>One exchange\<close>

definition direct_net :: "'j json_ops \<Rightarrow> string \<Rightarrow> req_env \<Rightarrow> store net" where
  "direct_net J base env st m =
     (case Route J (server_router J base) env st m of
        (st, Inl e) \<Rightarrow> (st, None)
      | (st, Inr resp) \<Rightarrow> (st, Some resp))"

definition sent :: "'s FileClient \<Rightarrow> 's \<Rightarrow> 's FileClient" where
  "sent c w = c\<lparr>next_request_id := next_request_id c + 1, world := w\<rparr>"

lemma sent_sel [simp]:
  "connection (sent c w) = connection c" "world (sent c w) = w" "disk (sent c w) = disk c"
  "progress_log (sent c w) = progress_log c"
  by (simp_all add: sent_def)

lemma request_message_ok:
  assumes "json_ok J" and "js_valid v"
  obtains m where "request_message J rid (den J v) bin = Inr m" "GetJson J m = den J v" "binary_data m = bin"
proof -
  obtain t where "dump J (den J v) = Inr t" "t \<noteq> []" "parse J t = den J v" using json_dump [OF assms] by blast
  then show ?thesis using that by (simp add: request_message_def SetJson_def GetJson_def)
qed

lemma exchange:
  assumes "json_ok J" and "js_valid v" and "connection c"
    and "\<And>m. GetJson J m = den J v \<Longrightarrow> binary_data m = bin \<Longrightarrow>
      \<exists>resp. Route J (server_router J base) env (world c) m = (st', Inr resp) \<and> response_of J resp = Inr r"
  shows "SendRequestWithBinary J (direct_net J base env) c (den J v) bin = (sent c st', Inr r)"
proof -
  obtain m where m: "request_message J (next_request_id c) (den J v) bin = Inr m" "GetJson J m = den J v" "binary_data m = bin"
    using request_message_ok [OF assms(1,2)] by blast
  from assms(4) [OF m(2,3)] obtain resp where
    "Route J (server_router J base) env (world c) m = (st', Inr resp)" "response_of J resp = Inr r" by blast
  with m(1) assms(3) show ?thesis
    by (simp add: SendRequestWithBinary_def NextRequestId_def direct_net_def sent_def)
qed

text \<open>What a handler sends is what the client reads.\<close>

definition reply_value :: "int \<Rightarrow> string \<Rightarrow> (string \<times> js) list \<Rightarrow> js" where
  "reply_value k s kvs = JObj ([(''code'', JInt k), (''msg'', JStr s)] @ (if kvs = [] then [] else [(''data'', JObj kvs)]))"

definition reply :: "'j json_ops \<Rightarrow> int \<Rightarrow> string \<Rightarrow> (string \<times> js) list \<Rightarrow> bytes \<Rightarrow> 'j ClientResponse" where
  "reply J k s kvs bin = \<lparr>resp_code = k, resp_msg = s, resp_data = den J (JObj kvs), resp_binary = bin\<rparr>"

lemma MakeResponse_reply:
  assumes "json_ok J" and "js_valid (JObj kvs)" and "utf8 s" and "k \<in> {0, -1}"
  shows "\<exists>resp. MakeResponse J req k s (map (map_prod id (den J)) kvs) bin = Inr resp
    \<and> response_of J resp = Inr (reply J k s kvs bin)"
proof -
  let ?kvs = "[(''code'', JInt k), (''msg'', JStr s)] @ (if kvs = [] then [] else [(''data'', JObj kvs)])"
  have "js_valid (JObj ?kvs)" using assms by (auto simp: ascii_utf8)
  from json_dump [OF assms(1) this] obtain t where
    t: "dump J (den J (JObj ?kvs)) = Inr t" "t \<noteq> []" "parse J t = den J (JObj ?kvs)" by blast
  define j where "j = den J (JObj ?kvs)"
  have o: "obj J ([(''code'', num J k), (''msg'', str J s)]
        @ (if map (map_prod id (den J)) kvs = [] then [] else [(''data'', obj J (map (map_prod id (den J)) kvs))])) = j"
    by (simp add: den_obj j_def)
  obtain resp where resp: "MakeResponse J req k s (map (map_prod id (den J)) kvs) bin = Inr resp" "json_body resp = t"
      "binary_data resp = bin"
    unfolding MakeResponse_def SetJson_def o using t(1) [folded j_def] by simp
  have g: "GetJson J resp = j" using resp(2) t by (simp add: GetJson_def j_def)
  have "i64 k" using assms(4) by auto
  then have "value_int J j ''code'' (-1) = Inr k"
    unfolding j_def by (intro json_intD(3) [OF assms(1)]) auto
  moreover have "value_string J j ''msg'' [] = Inr s"
    unfolding j_def by (intro json_stringD(4) [OF assms(1)]) auto
  moreover have "value_json J j ''data'' (obj J []) = Inr (den J (JObj kvs))"
  proof (cases "kvs = []")
    case True
    then have "value_json J j ''data'' (obj J []) = Inr (obj J [])"
      unfolding j_def by (intro json_missingD(4) [OF assms(1)]) auto
    with True show ?thesis by (simp add: den_obj)
  next
    case False
    then show ?thesis unfolding j_def by (intro json_presentD(4) [OF assms(1)]) auto
  qed
  moreover have "to_int k = k" using assms(4) to_int_small [of k] by auto
  ultimately have "response_of J resp = Inr (reply J k s kvs bin)"
    using resp(3) by (simp add: response_of_def g reply_def)
  with resp(1) show ?thesis by blast
qed

section \<open>The requests of an upload and a download\<close>

definition signed_in :: "store \<Rightarrow> string \<Rightarrow> int \<Rightarrow> bool" where
  "signed_in st tok u \<longleftrightarrow> VerifyToken (fst st) tok = (fst st, u) \<and> 0 < u \<and> utf8 tok"

lemma with_user_ok: "signed_in st tok u \<Longrightarrow> GetToken J m = Inr tok \<Longrightarrow> with_user J st m k = k st u"
  by (simp add: with_user_def take_arg_def signed_in_def)

lemma request_fields:
  assumes "json_ok J" and "GetJson J m = den J (JObj kvs)" and "distinct (map fst kvs)"
    and "map_of kvs ''cmd'' = Some (JStr c)" and "map_of kvs ''token'' = Some (JStr tok)"
  shows "GetCmd J m = c" and "GetToken J m = Inr tok"
  using json_stringD [OF assms(1,3)] assms by (simp_all add: GetCmd_def GetToken_def)

lemma route_handler:
  "GetCmd J m = c \<Longrightarrow> server_router J base c = Some h \<Longrightarrow> Route J (server_router J base) env st m = h env st m"
  by (simp add: Route_def Let_def)

lemma server_routes:
  "server_router J base ''upload_start'' = Some (handle_upload_start J base)"
  "server_router J base ''upload_data'' = Some (handle_upload_data J base)"
  "server_router J base ''upload_finalize'' = Some (handle_upload_finalize J base)"
  "server_router J base ''download'' = Some (handle_download J)"
  "server_router J base ''download_chunk'' = Some (handle_download_chunk J base)"
  by (simp_all add: server_router_def RegisterHandler_def)

text \<open>A request of a signed-in user whose handler answers with \<open>kvs'\<close>.\<close>

lemma ask:
  assumes "json_ok J" and "connection c" and "js_valid (JObj kvs)"
    and "map_of kvs ''cmd'' = Some (JStr cmd)" and "map_of kvs ''token'' = Some (JStr tok)"
    and "server_router J base cmd = Some h"
    and "js_valid (JObj out)" and "utf8 s"
    and "\<And>m. GetJson J m = den J (JObj kvs) \<Longrightarrow> binary_data m = bin \<Longrightarrow> GetToken J m = Inr tok \<Longrightarrow>
      h env (world c) m = (st', MakeResponse J m 0 s (map (map_prod id (den J)) out) bin')"
  shows "SendRequestWithBinary J (direct_net J base env) c (den J (JObj kvs)) bin = (sent c st', Inr (reply J 0 s out bin'))"
proof (rule exchange [OF assms(1,3,2)])
  fix m assume m: "GetJson J m = den J (JObj kvs)" and b: "binary_data m = bin"
  have "distinct (map fst kvs)" using assms(3) by simp
  note f = request_fields [OF assms(1) m this assms(4,5)]
  have "Route J (server_router J base) env (world c) m = (st', MakeResponse J m 0 s (map (map_prod id (den J)) out) bin')"
    using route_handler [OF f(1) assms(6)] assms(9) [OF m b f(2)] by simp
  then show "\<exists>resp. Route J (server_router J base) env (world c) m = (st', Inr resp)
      \<and> response_of J resp = Inr (reply J 0 s out bin')"
    using MakeResponse_reply [OF assms(1,7,8), of 0 m bin'] by auto
qed

lemma send_upload_start:
  assumes "json_ok J" and "connection c" and "signed_in (world c) tok u" and "utf8 name" and "utf8 md" and "i64 sz"
    and "UploadStart base (world c) (local_time env) u name sz md = (st', r)"
    and "0 < up_file_id r" and "i64 (up_file_id r)" and "i64 (up_offset r)"
  shows "FileClient_UploadStart J (direct_net J base env) c tok name sz md = (sent c st', Inr (reply J 0 ''ok''
    [(''file_id'', JInt (up_file_id r)), (''offset'', JInt (up_offset r)), (''is_resume'', JBool (up_is_resume r))] []))"
proof -
  let ?kvs = "[(''cmd'', JStr ''upload_start''), (''token'', JStr tok), (''filename'', JStr name),
       (''filesize'', JInt sz), (''md5'', JStr md)]"
  let ?out = "[(''file_id'', JInt (up_file_id r)), (''offset'', JInt (up_offset r)), (''is_resume'', JBool (up_is_resume r))]"
  have "SendRequestWithBinary J (direct_net J base env) c (den J (JObj ?kvs)) [] = (sent c st', Inr (reply J 0 ''ok'' ?out []))"
  proof (rule ask [OF assms(1,2) _ _ _ server_routes(1)])
    fix m assume m: "GetJson J m = den J (JObj ?kvs)" and t: "GetToken J m = Inr tok"
    note s = json_stringD(4) [OF assms(1), of ?kvs] and i = json_intD(3) [OF assms(1), of ?kvs]
    have "value_string J (GetJson J m) ''filename'' [] = Inr name"
      "value_string J (GetJson J m) ''md5'' [] = Inr md" "value_int J (GetJson J m) ''filesize'' 0 = Inr sz"
      unfolding m using assms(6) by (simp_all add: s i)
    then show "handle_upload_start J base env (world c) m = (st', MakeResponse J m 0 ''ok'' (map (map_prod id (den J)) ?out) [])"
      using assms(3,7,8) t by (simp add: handle_upload_start_def with_user_ok take_arg_def)
  qed (use assms in \<open>auto simp: signed_in_def ascii_utf8\<close>)
  then show ?thesis by (simp add: FileClient_UploadStart_def SendRequest_def den_obj)
qed

lemma send_upload_data:
  assumes "json_ok J" and "connection c" and "signed_in (world c) tok u"
    and "i64 i" and "i64 off" and "i64 (int (length chunk))"
    and "UploadData base (world c) i u chunk off = (st', w)" and "0 \<le> w" and "i64 w"
  shows "FileClient_UploadData J (direct_net J base env) c tok i off chunk
    = (sent c st', Inr (reply J 0 ''ok'' [(''written'', JInt w)] []))"
proof -
  let ?kvs = "[(''cmd'', JStr ''upload_data''), (''token'', JStr tok), (''file_id'', JInt i), (''offset'', JInt off),
       (''size'', JInt (int (length chunk)))]"
  have "SendRequestWithBinary J (direct_net J base env) c (den J (JObj ?kvs)) chunk
      = (sent c st', Inr (reply J 0 ''ok'' [(''written'', JInt w)] []))"
  proof (rule ask [OF assms(1,2) _ _ _ server_routes(2)])
    fix m assume m: "GetJson J m = den J (JObj ?kvs)" and b: "binary_data m = chunk" and t: "GetToken J m = Inr tok"
    have "index_int J (GetJson J m) ''file_id'' = Inr i" "value_int J (GetJson J m) ''offset'' 0 = Inr off"
      unfolding m using assms(4,5) json_intD(1,3) [OF assms(1), of ?kvs] by simp_all
    then show "handle_upload_data J base env (world c) m
        = (st', MakeResponse J m 0 ''ok'' (map (map_prod id (den J)) [(''written'', JInt w)]) [])"
      using assms(3,7,8) b t by (simp add: handle_upload_data_def with_user_ok take_arg_def)
  qed (use assms in \<open>auto simp: signed_in_def ascii_utf8\<close>)
  then show ?thesis by (simp add: FileClient_UploadData_def den_obj)
qed

lemma send_upload_finalize:
  assumes "json_ok J" and "connection c" and "signed_in (world c) tok u" and "i64 i"
    and "UploadFinalize base (world c) i u = (st', True)"
  shows "FileClient_UploadFinalize J (direct_net J base env) c tok i = (sent c st', Inr (reply J 0 text_finalized [] []))"
proof -
  let ?kvs = "[(''cmd'', JStr ''upload_finalize''), (''token'', JStr tok), (''file_id'', JInt i)]"
  have "SendRequestWithBinary J (direct_net J base env) c (den J (JObj ?kvs)) []
      = (sent c st', Inr (reply J 0 text_finalized [] []))"
  proof (rule ask [OF assms(1,2) _ _ _ server_routes(3)])
    fix m assume m: "GetJson J m = den J (JObj ?kvs)" and t: "GetToken J m = Inr tok"
    have "index_int J (GetJson J m) ''file_id'' = Inr i"
      unfolding m using assms(4) json_intD(1) [OF assms(1), of ?kvs] by simp
    then show "handle_upload_finalize J base env (world c) m
        = (st', MakeResponse J m 0 text_finalized (map (map_prod id (den J)) []) [])"
      using assms(3,5) t by (simp add: handle_upload_finalize_def with_user_ok take_arg_def)
  qed (use assms in \<open>auto simp: signed_in_def ascii_utf8 texts_utf8\<close>)
  then show ?thesis by (simp add: FileClient_UploadFinalize_def SendRequest_def den_obj)
qed

lemma send_download:
  assumes "json_ok J" and "connection c" and "signed_in (world c) tok u" and "i64 i"
    and "GetFileInfo (world c) i = (world c, Some r)" and "fuser_id r = u"
    and "i64 (filesize r)" and "i64 (status r)" and "utf8 (filename r)" and "utf8 (md5 r)"
  shows "SendRequest J (direct_net J base env) c
      (obj J [(''cmd'', str J ''download''), (''token'', str J tok), (''file_id'', num J i)])
    = (sent c (world c), Inr (reply J 0 ''ok'' [(''filesize'', JInt (filesize r)), (''filename'', JStr (filename r)),
        (''md5'', JStr (md5 r)), (''status'', JInt (status r))] []))"
proof -
  let ?kvs = "[(''cmd'', JStr ''download''), (''token'', JStr tok), (''file_id'', JInt i)]"
  let ?out = "[(''filesize'', JInt (filesize r)), (''filename'', JStr (filename r)),
        (''md5'', JStr (md5 r)), (''status'', JInt (status r))]"
  have "SendRequestWithBinary J (direct_net J base env) c (den J (JObj ?kvs)) [] = (sent c (world c), Inr (reply J 0 ''ok'' ?out []))"
  proof (rule ask [OF assms(1,2) _ _ _ server_routes(4)])
    fix m assume m: "GetJson J m = den J (JObj ?kvs)" and t: "GetToken J m = Inr tok"
    have "index_int J (GetJson J m) ''file_id'' = Inr i"
      unfolding m using assms(4) json_intD(1) [OF assms(1), of ?kvs] by simp
    then show "handle_download J env (world c) m = (world c, MakeResponse J m 0 ''ok'' (map (map_prod id (den J)) ?out) [])"
      using assms(3,5,6) t by (simp add: handle_download_def with_user_ok take_arg_def)
  qed (use assms in \<open>auto simp: signed_in_def ascii_utf8\<close>)
  then show ?thesis by (simp add: SendRequest_def den_obj)
qed

lemma send_download_chunk:
  assumes "json_ok J" and "connection c" and "signed_in (world c) tok u" and "i64 i" and "i64 off" and "0 \<le> sz" and "i64 sz"
    and "DownloadChunk base (world c) i u off (nat sz) = (st', Inr d)" and "d \<noteq> []" and "i64 (int (length d))"
  shows "SendRequest J (direct_net J base env) c (obj J [(''cmd'', str J ''download_chunk''), (''token'', str J tok),
        (''file_id'', num J i), (''offset'', num J off), (''size'', num J sz)])
    = (sent c st', Inr (reply J 0 ''ok'' [(''size'', JInt (int (length d)))] d))"
proof -
  let ?kvs = "[(''cmd'', JStr ''download_chunk''), (''token'', JStr tok), (''file_id'', JInt i),
       (''offset'', JInt off), (''size'', JInt sz)]"
  have "SendRequestWithBinary J (direct_net J base env) c (den J (JObj ?kvs)) []
      = (sent c st', Inr (reply J 0 ''ok'' [(''size'', JInt (int (length d)))] d))"
  proof (rule ask [OF assms(1,2) _ _ _ server_routes(5)])
    fix m assume m: "GetJson J m = den J (JObj ?kvs)" and t: "GetToken J m = Inr tok"
    have "index_int J (GetJson J m) ''file_id'' = Inr i" "value_int J (GetJson J m) ''offset'' 0 = Inr off"
      "value_size J (GetJson J m) ''size'' 0 = Inr (nat sz)"
      unfolding m using assms(4-7) json_intD(1,3,4) [OF assms(1), of ?kvs] by simp_all
    then show "handle_download_chunk J base env (world c) m
        = (st', MakeResponse J m 0 ''ok'' (map (map_prod id (den J)) [(''size'', JInt (int (length d)))]) d)"
      using assms(3,8,9) t by (simp add: handle_download_chunk_def with_user_ok take_arg_def)
  qed (use assms in \<open>auto simp: signed_in_def ascii_utf8\<close>)
  then show ?thesis by (simp add: SendRequest_def den_obj)
qed

section \<open>The loops\<close>

lemma read_block_ok:
  "k + n \<le> length content \<Longrightarrow> read_block content (Some k) buf n = (Some (k + n), take n (drop k content))"
  by (simp add: read_block_def)

lemma VerifyToken_cong:
  assumes "files_ok d" and "files_ok d'" and "users d' = users d" and "collate d' = collate d"
    and "VerifyToken d tok = (d, u)"
  shows "VerifyToken d' tok = (d', u)"
  using assms by (auto simp: VerifyToken_def UserDAO_FindByToken_def files_ok_def next_fault_none
      split: if_splits option.splits)

lemma users_UploadData:
  assumes "owned (d, s) i u r" and "status r = 0" and "placeable base s (filepath r)" and "0 \<le> off"
  shows "users (fst (fst (UploadData base (d, s) i u data off))) = users d"
  using UploadData_ok [OF assms, of data]
  by (simp add: FileDAO_UpdateUploadSize_def update_files_def Let_def case_prod_unfold)

lemma users_UploadFinalize: "users (fst (fst (UploadFinalize base (d, s) i u))) = users d"
  by (auto simp: UploadFinalize_def FileDAO_UpdateUploadSize_def FileDAO_UpdateStatus_def FileDAO_FindById_def
      update_files_def Let_def case_prod_unfold split: option.splits)

text \<open>The server has the first \<open>k\<close> bytes of an upload of \<open>content\<close>.\<close>

definition uploaded :: "string \<Rightarrow> store \<Rightarrow> string \<Rightarrow> int \<Rightarrow> int \<Rightarrow> FileInfo \<Rightarrow> bytes \<Rightarrow> nat \<Rightarrow> bool" where
  "uploaded base st tok i u r content k \<longleftrightarrow> owned st i u (r\<lparr>upload_size := int k\<rparr>) \<and> status r = 0
     \<and> placeable base (snd st) (filepath r) \<and> signed_in st tok u \<and> k \<le> length content
     \<and> stored base (snd st) (filepath r) = (if k = 0 then None else Some (take k content))"

lemma uploaded_step:
  assumes "uploaded base st tok i u r content k" and "k < length content" and "0 < n" and "k + n \<le> length content"
  shows "snd (UploadData base st i u (take n (drop k content)) (int k)) = int n"
    and "uploaded base (fst (UploadData base st i u (take n (drop k content)) (int k))) tok i u r content (k + n)"
proof -
  obtain d s where st: "st = (d, s)" by (cases st)
  let ?r = "r\<lparr>upload_size := int k\<rparr>" and ?b = "take n (drop k content)"
  let ?u = "UploadData base (d, s) i u ?b (int k)"
  have o: "owned (d, s) i u ?r" "status ?r = 0" "placeable base s (filepath ?r)" "0 \<le> int k"
    and sg: "signed_in (d, s) tok u"
    and c: "stored base s (filepath r) = (if k = 0 then None else Some (take k content))"
    using assms(1) by (simp_all add: uploaded_def st)
  have len: "length ?b = n" using assms(4) by simp
  note eq = UploadData_ok [OF o, of ?b]
  show "snd (UploadData base st i u ?b (int k)) = int n" using eq len by (simp add: st)
  have "stored base (snd (fst ?u)) (filepath r) = Some (write_at (if k = 0 then [] else take k content) k ?b)"
    using WriteChunk_healthy(2) [of s base "filepath r" "int k" ?b] o c by (simp add: eq owned_def)
  also have "write_at (if k = 0 then [] else take k content) k ?b = take (k + n) content"
    using assms(2) by (auto simp: write_at_append take_add)
  finally have "stored base (snd (fst ?u)) (filepath r) = Some (take (k + n) content)" .
  moreover have ow: "owned (fst ?u) i u (r\<lparr>upload_size := int (k + n)\<rparr>)"
    using owned_UploadData(1) [OF o, where data = ?b] len by simp
  moreover have "signed_in (fst ?u) tok u"
    using VerifyToken_cong [OF _ _ users_UploadData [OF o] owned_UploadData(4) [OF o]] ow o(1) sg
    by (simp add: signed_in_def owned_def)
  ultimately show "uploaded base (fst (UploadData base st i u ?b (int k))) tok i u r content (k + n)"
    using owned_UploadData(3) [OF o] o assms(3,4) by (simp add: uploaded_def st)
qed

lemma upload_loop_ok:
  assumes "json_ok J" and "connection c" and "uploaded base (world c) tok i u r content k"
    and "i64 i" and "i64 (int (length content))"
  shows "\<exists>c'. upload_loop J (direct_net J base env) tok i content (int (length content)) c (Some k) buf (int k) = (c', Inr None)
    \<and> connection c' \<and> disk c' = disk c \<and> uploaded base (world c') tok i u r content (length content)"
  using assms(2,3)
proof (induction "length content - k" arbitrary: c k buf rule: less_induct)
  case less
  show ?case
  proof (cases "k < length content")
    case False
    then have "k = length content" using less.prems(2) by (simp add: uploaded_def)
    with less.prems show ?thesis by (subst upload_loop.simps) simp
  next
    case True
    define n where "n = nat (min kChunkSize (int (length content) - int k))"
    have n: "0 < n" "k + n \<le> length content" using True by (auto simp: n_def kChunkSize_def)
    have dec: "length content - (k + n) < length content - k" using n True by linarith
    let ?b = "take n (drop k content)"
    obtain st' w where u: "UploadData base (world c) i u ?b (int k) = (st', w)" by fastforce
    with uploaded_step [OF less.prems(2) True n] have w: "w = int n" "uploaded base st' tok i u r content (k + n)"
      by simp_all
    have "FileClient_UploadData J (direct_net J base env) c tok i (int k) ?b = (sent c st', Inr (reply J 0 ''ok'' [(''written'', JInt w)] []))"
      by (rule send_upload_data [OF assms(1) less.prems(1) _ assms(4) _ _ u])
        (use less.prems(2) n w(1) assms(5) in \<open>auto simp: uploaded_def\<close>)
    moreover let ?c = "(sent c st')\<lparr>progress_log := progress_log (sent c st') @ [(int k + int n, int (length content))]\<rparr>"
    obtain c' where "upload_loop J (direct_net J base env) tok i content (int (length content)) ?c (Some (k + n)) ?b (int (k + n)) = (c', Inr None)"
      "connection c'" "disk c' = disk ?c" "uploaded base (world c') tok i u r content (length content)"
      using less.hyps [OF dec, of ?c ?b] less.prems(1) w(2) by auto
    ultimately show ?thesis
      using True n by (subst upload_loop.simps)
        (simp add: read_block_ok is_ok_def reply_def Let_def flip: n_def)
  qed
qed

section \<open>Whole files\<close>

lemma ascii_digit: "d < 16 \<Longrightarrow> (of_char (digit d) :: nat) < 128"
  by (simp add: digit_def)

lemma ascii_ComputeFileMD5: "ascii (ComputeFileMD5 digest x)"
proof -
  have "ascii (show_base 16 n)" for n
    using show_base_digits [of 16 _ n] ascii_digit by (fastforce simp: ascii_def)
  then have "ascii (hex2 w)" for w by (auto simp: hex2_def setw0_def ascii_def)
  then show ?thesis by (auto simp: ComputeFileMD5_def ascii_def)
qed

definition completed :: "string \<Rightarrow> store \<Rightarrow> string \<Rightarrow> int \<Rightarrow> int \<Rightarrow> FileInfo \<Rightarrow> bytes \<Rightarrow> bool" where
  "completed base st tok i u r content \<longleftrightarrow> owned st i u r \<and> status r = 1 \<and> filesize r = int (length content)
     \<and> stored base (snd st) (filepath r) = Some content \<and> signed_in st tok u"

lemma finalize_uploaded:
  assumes "uploaded base st tok i u r content (length content)" and "content \<noteq> []" and "filesize r = int (length content)"
  shows "\<exists>st'. UploadFinalize base st i u = (st', True)
    \<and> completed base st' tok i u (r\<lparr>status := 1, upload_size := int (length content)\<rparr>) content"
proof -
  obtain d s where st: "st = (d, s)" by (cases st)
  let ?r = "r\<lparr>upload_size := int (length content)\<rparr>"
  have o: "owned (d, s) i u ?r" and c: "stored base s (filepath ?r) = Some content" and sg: "signed_in (d, s) tok u"
    using assms(1,2) by (simp_all add: uploaded_def st)
  obtain st' b where f: "UploadFinalize base (d, s) i u = (st', b)" by fastforce
  have b using UploadFinalize_ok [OF o c] f assms(3) by simp
  have "owned st' i u (?r\<lparr>status := 1, upload_size := filesize ?r\<rparr>)" "snd st' = s"
    using owned_UploadFinalize [OF o c] f assms(3) by simp_all
  moreover have "collate (fst st') = collate d" "users (fst st') = users d"
    using UploadFinalize_ok [OF o c] f assms(3) users_UploadFinalize [of base d s i u] by auto
  then have "signed_in st' tok u"
    using VerifyToken_cong [of d "fst st'" tok u] o calculation(1) sg by (simp add: signed_in_def owned_def)
  ultimately show ?thesis using f \<open>b\<close> c assms(3) by (auto simp: completed_def st)
qed

lemma UploadFile_ok:
  assumes "json_ok J" and "local_files (disk c) path = Some content" and "connection c" and "signed_in (world c) tok u"
    and "utf8 (base_name path)" and "i64 (int (length content))" and "content \<noteq> []"
    and "UploadStart base (world c) (local_time env) u (base_name path) (int (length content))
        (ComputeFileMD5 digest (Some content)) = (st', res)"
    and "0 < up_file_id res" and "i64 (up_file_id res)" and "up_offset res = int k"
    and "uploaded base st' tok (up_file_id res) u r content k" and "filesize r = int (length content)"
  shows "\<exists>c' resp. UploadFile J (direct_net J base env) digest c tok path = (c', Inr resp) \<and> is_ok resp
    \<and> index_int J (resp_data resp) ''file_id'' = Inr (up_file_id res) \<and> connection c' \<and> disk c' = disk c
    \<and> completed base (world c') tok (up_file_id res) u (r\<lparr>status := 1, upload_size := int (length content)\<rparr>) content"
proof -
  let ?net = "direct_net J base env" and ?i = "up_file_id res" and ?md = "ComputeFileMD5 digest (Some content)"
  let ?out = "[(''file_id'', JInt ?i), (''offset'', JInt (int k)), (''is_resume'', JBool (up_is_resume res))]"
  have k: "i64 (int k)" using assms(6,12) by (simp add: uploaded_def)
  have 1: "FileClient_UploadStart J ?net c tok (base_name path) (int (length content)) ?md
      = (sent c st', Inr (reply J 0 ''ok'' ?out []))"
    using send_upload_start [OF assms(1,3,4,5) ascii_utf8 [OF ascii_ComputeFileMD5] assms(6,8,9,10)] k
    by (simp add: assms(11))
  have out: "index_int J (den J (JObj ?out)) ''file_id'' = Inr ?i" "value_int J (den J (JObj ?out)) ''offset'' 0 = Inr (int k)"
    using json_intD(1,3) [OF assms(1), of ?out] assms(10) k by simp_all
  obtain c2 where 2: "upload_loop J ?net tok ?i content (int (length content)) (sent c st') (Some k) [] (int k) = (c2, Inr None)"
    "connection c2" "disk c2 = disk c" "uploaded base (world c2) tok ?i u r content (length content)"
    using upload_loop_ok [of J "sent c st'" base tok ?i u r content k env "[]"] assms(1,3,6,10,12) by auto
  obtain st3 where 3: "UploadFinalize base (world c2) ?i u = (st3, True)"
    "completed base st3 tok ?i u (r\<lparr>status := 1, upload_size := int (length content)\<rparr>) content"
    using finalize_uploaded [OF 2(4) assms(7,13)] by blast
  have 4: "FileClient_UploadFinalize J ?net c2 tok ?i = (sent c2 st3, Inr (reply J 0 text_finalized [] []))"
    by (rule send_upload_finalize [OF assms(1) 2(2) _ assms(10) 3(1)]) (use 2(4) in \<open>simp add: uploaded_def\<close>)
  have 5: "set_member J (den J (JObj [])) ''file_id'' (num J ?i) = Inr (den J (JObj [(''file_id'', JInt ?i)]))"
    using json_setD(1) [OF assms(1), of "[]" "''file_id''" "JInt ?i"] by simp
  have 6: "index_int J (den J (JObj [(''file_id'', JInt ?i)])) ''file_id'' = Inr ?i"
    using json_intD(1) [OF assms(1), of "[(''file_id'', JInt ?i)]"] assms(10) by simp
  have "UploadFile J ?net digest c tok path
      = (sent c2 st3, Inr ((reply J 0 text_finalized [] [])\<lparr>resp_data := den J (JObj [(''file_id'', JInt ?i)])\<rparr>))"
    using assms(2) 1 2(1) 4 5 out by (simp add: UploadFile_def Let_def is_ok_def reply_def seek_to_def)
  with 2(2,3) 3(2) 6 show ?thesis by (auto simp: is_ok_def reply_def)
qed

lemma download_loop_ok:
  assumes "json_ok J" and "connection c" and "completed base (world c) tok i u r content"
    and "i64 i" and "i64 (int (length content))" and "k \<le> length content"
  shows "\<exists>c'. download_loop J (direct_net J base env) tok i (int (length content)) c (take k content) (int k)
      = Some (c', content, None, int (length content))
    \<and> connection c' \<and> disk c' = disk c \<and> world c' = world c"
  using assms(2,3,6)
proof (induction "length content - k" arbitrary: c k rule: less_induct)
  case less
  show ?case
  proof (cases "k < length content")
    case False
    with less.prems show ?thesis by (subst download_loop.simps) simp
  next
    case True
    define n where "n = nat (min kChunkSize (int (length content) - int k))"
    have n: "0 < n" "k + n \<le> length content" "int n = min kChunkSize (int (length content) - int k)" "n < 2 ^ 63"
      using True by (auto simp: n_def kChunkSize_def)
    have dec: "length content - (k + n) < length content - k" using n True by linarith
    let ?b = "take n (drop k content)"
    have len: "length ?b = n" using n(2) by simp
    obtain d s where w: "world c = (d, s)" by (cases "world c")
    have "DownloadChunk base (d, s) i u (int k) (nat (int n)) = ((d, s), Inr ?b)"
      using DownloadChunk_ok [of d s i u r base content "int k" n] less.prems(2) n(2,4) by (simp add: completed_def w)
    then have "SendRequest J (direct_net J base env) c (obj J [(''cmd'', str J ''download_chunk''), (''token'', str J tok),
        (''file_id'', num J i), (''offset'', num J (int k)), (''size'', num J (min kChunkSize (int (length content) - int k)))])
      = (sent c (d, s), Inr (reply J 0 ''ok'' [(''size'', JInt (int (length ?b)))] ?b))"
      unfolding n(3) [symmetric] using less.prems n(1,2,4) len assms(5)
      by (intro send_download_chunk [OF assms(1) less.prems(1) _ assms(4)]) (auto simp: completed_def w)
    moreover let ?c = "(sent c (d, s))\<lparr>progress_log := progress_log c @ [(int k + int n, int (length content))]\<rparr>"
    obtain c' where "download_loop J (direct_net J base env) tok i (int (length content)) ?c (take (k + n) content) (int (k + n))
        = Some (c', content, None, int (length content))"
      "connection c'" "disk c' = disk c" "world c' = world c"
      using less.hyps [OF dec, of ?c] less.prems n(2) w by auto
    ultimately show ?thesis
      using True len by (subst download_loop.simps)
        (simp add: is_ok_def reply_def take_add)
  qed
qed

lemma DownloadFile_ok:
  assumes "json_ok J" and "connection c" and "completed base (world c) tok i u r content" and "content \<noteq> []"
    and "i64 i" and "i64 (int (length content))" and "utf8 (filename r)" and "utf8 (md5 r)"
    and "save_target (disk c) path (filename r) = Some target" and "creatable (disk c) target" and "length content \<le> room (disk c)"
  shows "\<exists>c' resp. DownloadFile J (direct_net J base env) c tok i path = Some (c', Inr resp) \<and> is_ok resp
    \<and> local_files (disk c') = (local_files (disk c))(target \<mapsto> content) \<and> world c' = world c"
proof -
  let ?out = "[(''filesize'', JInt (filesize r)), (''filename'', JStr (filename r)), (''md5'', JStr (md5 r)),
      (''status'', JInt (status r))]"
  obtain d s where w: "world c = (d, s)" by (cases "world c")
  have "GetFileInfo (world c) i = (world c, Some r)" "fuser_id r = u"
    using assms(3) by (simp_all add: completed_def owned_def w GetFileInfo_def ftab.get)
  then have 1: "SendRequest J (direct_net J base env) c
      (obj J [(''cmd'', str J ''download''), (''token'', str J tok), (''file_id'', num J i)])
    = (sent c (world c), Inr (reply J 0 ''ok'' ?out []))"
    using assms by (intro send_download) (simp_all add: completed_def)
  have out: "value_int J (den J (JObj ?out)) ''filesize'' 0 = Inr (int (length content))"
    "value_string J (den J (JObj ?out)) ''filename'' [] = Inr (filename r)"
    using json_intD(3) [OF assms(1), of ?out] json_stringD(4) [OF assms(1), of ?out] assms(3,6)
    by (simp_all add: completed_def)
  obtain c2 where 2: "download_loop J (direct_net J base env) tok i (int (length content)) (sent c (world c)) [] 0
      = Some (c2, content, None, int (length content))" "disk c2 = disk c" "world c2 = world c"
    using download_loop_ok [of J "sent c (world c)" base tok i u r content 0 env] assms(1-3,5,6) by auto
  show ?thesis
    using 1 out 2 assms(4,9-11)
    by (simp add: DownloadFile_def is_ok_def reply_def close_out_def Let_def)
qed

lemma users_UploadStart: "users (fst (fst (UploadStart base (d, s) t u name sz m))) = users d"
  by (auto simp: UploadStart_def FileDAO_FindIncompleteByKey_def FileDAO_Insert_def Let_def case_prod_unfold
      split: option.splits)

lemma started_uploaded:
  assumes "can_start base (d, s) b t u name (int (length content)) m"
    and "b @ [to_string u, time_stamp t @ SanitizeFilename name] \<notin> set (dirs s)"
    and "map_of (files s) (b @ [to_string u, time_stamp t @ SanitizeFilename name]) = None"
    and "signed_in (d, s) tok u"
  shows "\<exists>st res tc. UploadStart base (d, s) t u name (int (length content)) m = (st, res)
    \<and> 0 < up_file_id res \<and> i64 (up_file_id res) \<and> up_offset res = 0
    \<and> uploaded base st tok (up_file_id res) u
        (upload_row t u name (int (length content)) m\<lparr>fid := up_file_id res, fcreate_time := tc\<rparr>) content 0"
proof -
  let ?n = "int (length content)"
  from UploadStart_new [OF assms(1)] obtain d' ds tc where
    st: "UploadStart base (d, s) t u name ?n m
        = ((d', s\<lparr>dirs := ds\<rparr>), \<lparr>up_file_id = next_file d, up_offset = 0, up_is_resume = False\<rparr>)"
    and i: "0 < next_file d" "collate d' = collate d"
    and o: "owned (d', s\<lparr>dirs := ds\<rparr>) (next_file d) u (upload_row t u name ?n m\<lparr>fid := next_file d, fcreate_time := tc\<rparr>)"
    and r: "root_dir base (s\<lparr>dirs := ds\<rparr>) b" "b @ [to_string u] \<in> set ds"
      "set ds \<subseteq> insert (b @ [to_string u]) (set (dirs s))" by blast
  let ?r = "upload_row t u name ?n m\<lparr>fid := next_file d, fcreate_time := tc\<rparr>"
    and ?s = "s\<lparr>dirs := ds\<rparr>" and ?p = "GenerateFilepath t u (SanitizeFilename name)"
  have "b @ [to_string u, time_stamp t @ SanitizeFilename name] \<notin> set (dirs ?s)" using assms(2) r(3) by auto
  then have p: "placeable base ?s ?p" using placeable_upload r(1,2) by simp
  have fr: "filepath ?r = ?p" "status ?r = 0" "?r\<lparr>upload_size := int 0\<rparr> = ?r"
    by (simp_all add: upload_row_def FileInfo_default_def)
  have none: "stored base ?s ?p = None"
    using resolve_upload [OF r(1), of t u name] r(2) assms(3) by (simp add: stored_def lookup_file_def)
  have "users d' = users d" using users_UploadStart [of base d s t u name ?n m] st by simp
  then have "signed_in (d', ?s) tok u"
    using VerifyToken_cong [of d d' tok u] o assms(1,4) i(2) by (simp add: signed_in_def owned_def can_start_def)
  then have "uploaded base (d', ?s) tok (next_file d) u ?r content 0"
    unfolding uploaded_def fr(3) using o p fr(1,2) none by simp
  moreover have "i64 (next_file d)" using assms(1) by (simp add: can_start_def int32_def)
  ultimately show ?thesis using st i(1) by auto
qed

lemma utf8_safe_name: "utf8 (SanitizeFilename f)"
  using sanitize_chars safe_char by (intro ascii_utf8) (auto simp: ascii_def)

section \<open>Properties\<close>


definition sample_digest :: "bytes \<Rightarrow> u8 list" where
  "sample_digest x = replicate 16 0"

definition sample_disk :: local_fs where
  "sample_disk = \<lparr>local_files = [''/home/note'' \<mapsto> ''abcde''], dir = (\<lambda>p. False), creatable = (\<lambda>p. True), room = 1000\<rparr>"

definition sample_client :: "store FileClient" where
  "sample_client = \<lparr>world = (sample_db, sample_fs), disk = sample_disk, connection = True, connected_flag = True,
     client_decoder = Decoder_init, client_token = ''t'', next_request_id = 1, progress_log = []\<rparr>"

lemma sample_md5: "ComputeFileMD5 sample_digest x = replicate 32 (CHR ''0'')"
proof -
  have "hex2 0 = ''00''" by (simp add: hex2_def setw0_def show_base.simps digit_0)
  then show ?thesis by (simp add: ComputeFileMD5_def sample_digest_def numeral_eq_Suc)
qed

lemma sample_signed_in: "signed_in (sample_db, sample_fs) ''t'' 7"
  by (simp add: signed_in_def VerifyToken_def UserDAO_FindByToken_def next_fault_def sample_db_def User_new_def
      fetch_user_def user_fits_def user_of_row_def ascii_utf8)

lemma sample_upload_start:
  "can_start ''/srv'' (sample_db, sample_fs) [''srv''] sample_tm 7 ''note'' 5 (replicate 32 (CHR ''0''))"
  by (simp add: can_start_def sample_db_ok sample_root sample_tm_ok to_string_7 int32_def resumable_def)
    (simp add: healthy_def sample_fs_def sample_db_def sample_file_def FileInfo_default_def)


lemma uploaded_seq:
  assumes "uploaded base st tok i u r content k" and "\<forall>x \<in> set cs. x \<noteq> []"
    and "take (length (concat cs)) (drop k content) = concat cs" and "k + length (concat cs) \<le> length content"
  shows "uploaded base (upload_seq base st i u (int k) cs) tok i u r content (k + length (concat cs))"
  using assms
proof (induction cs arbitrary: st k)
  case (Cons x cs)
  let ?n = "length x"
  have l: "0 < ?n" "k + ?n \<le> length content" using Cons.prems(2,4) by simp_all
  then have n: "0 < ?n" "k + ?n \<le> length content" "k < length content" by linarith+
  have "take (?n + length (concat cs)) (drop k content) = x @ concat cs" using Cons.prems(3) by simp
  then have x: "take ?n (drop k content) = x" "take (length (concat cs)) (drop (k + ?n) content) = concat cs"
    using n(2) by (simp_all add: take_add append_eq_append_conv add.commute)
  from uploaded_step(2) [OF Cons.prems(1) n(3,1,2)]
  have "uploaded base (fst (UploadData base st i u x (int k))) tok i u r content (k + ?n)" by (simp add: x)
  from Cons.IH [OF this] Cons.prems(2,4) x(2) show ?case by (simp add: add.assoc)
qed simp

text \<open>
  C11: an interrupted upload is resumed: when an earlier run started the upload and its chunks covered
  the first bytes of the file, \<open>UploadFile\<close> at any later time continues with the same file id and
  completes it: the server then holds the whole file, under a row marked complete.
\<close>

theorem client_resumes_upload:
  assumes "json_ok J" and "local_files (disk c) path = Some content" and "int (length content) < 2 ^ 63"
    and "connection c" and "utf8 (base_name path)" and "signed_in (d, s) tok u"
    and "can_start base (d, s) b t u (base_name path) (int (length content)) (ComputeFileMD5 digest (Some content))"
    and "b @ [to_string u, time_stamp t @ SanitizeFilename (base_name path)] \<notin> set (dirs s)"
    and "map_of (files s) (b @ [to_string u, time_stamp t @ SanitizeFilename (base_name path)]) = None"
    and "UploadStart base (d, s) t u (base_name path) (int (length content)) (ComputeFileMD5 digest (Some content)) = (st, res)"
    and "world c = upload_seq base st (up_file_id res) u 0 cs" and "\<forall>x \<in> set cs. x \<noteq> []" and "concat cs = take k content"
    and "k \<le> length content"
  shows "\<exists>c' resp r. UploadFile J (direct_net J base env) digest c tok path = (c', Inr resp) \<and> is_ok resp
    \<and> index_int J (resp_data resp) ''file_id'' = Inr (up_file_id res)
    \<and> completed base (world c') tok (up_file_id res) u r content"
proof -
  let ?md = "ComputeFileMD5 digest (Some content)" and ?n = "int (length content)"
  from started_uploaded [OF assms(7-9,6)] assms(10) obtain tc where
    i: "0 < up_file_id res" "i64 (up_file_id res)"
    and up: "uploaded base st tok (up_file_id res) u
      (upload_row t u (base_name path) ?n ?md\<lparr>fid := up_file_id res, fcreate_time := tc\<rparr>) content 0" by auto
  let ?r = "upload_row t u (base_name path) ?n ?md\<lparr>fid := up_file_id res, fcreate_time := tc\<rparr>"
  have len: "length (concat cs) = k" using assms(13,14) by simp
  have w: "uploaded base (world c) tok (up_file_id res) u ?r content k"
    using uploaded_seq [OF up assms(12)] assms(11,13,14) len by simp
  have start: "UploadStart base (world c) (local_time env) u (base_name path) ?n ?md
      = (world c, \<lparr>up_file_id = up_file_id res, up_offset = int k, up_is_resume = True\<rparr>)"
    using upload_resume [OF assms(7,10,8,9), of cs "local_time env"] assms(11) len by simp
  let ?res = "\<lparr>up_file_id = up_file_id res, up_offset = int k, up_is_resume = True\<rparr>"
  have ne: "content \<noteq> []" using assms(7) by (auto simp: can_start_def)
  have si: "signed_in (world c) tok u" using w by (simp add: uploaded_def)
  have n: "i64 ?n" using assms(3) by simp
  have j: "0 < up_file_id ?res" "i64 (up_file_id ?res)" "up_offset ?res = int k"
    "uploaded base (world c) tok (up_file_id ?res) u ?r content k" "filesize ?r = ?n"
    using i w by (simp_all add: upload_row_def FileInfo_default_def)
  from UploadFile_ok [OF assms(1,2,4) si assms(5) n ne start j] show ?thesis by auto
qed

theorem client_resumes_upload_witness:
  "\<exists>st res c' resp r. UploadStart ''/srv'' (sample_db, sample_fs) sample_tm 7 ''note'' 5 (replicate 32 (CHR ''0'')) = (st, res)
     \<and> UploadFile js_ops (direct_net js_ops ''/srv'' sample_env) sample_digest
         (sample_client\<lparr>world := upload_seq ''/srv'' st (up_file_id res) 7 0 [''ab'', ''c'']\<rparr>) ''t'' ''/home/note'' = (c', Inr resp)
     \<and> completed ''/srv'' (world c') ''t'' (up_file_id res) 7 r ''abcde''"
proof -
  obtain st res where u: "UploadStart ''/srv'' (sample_db, sample_fs) sample_tm 7 ''note'' 5 (replicate 32 (CHR ''0'')) = (st, res)"
    by fastforce
  let ?c = "sample_client\<lparr>world := upload_seq ''/srv'' st (up_file_id res) 7 0 [''ab'', ''c'']\<rparr>"
  have base: "base_name ''/home/note'' = ''note''" by (simp add: base_name_def)
  have "local_files (disk ?c) ''/home/note'' = Some ''abcde''" "connection ?c"
    by (simp_all add: sample_client_def sample_disk_def)
  from client_resumes_upload [OF js_ops_ok this(1) _ this(2), of sample_db sample_fs "''t''" 7 "''/srv''" "[''srv'']"
      sample_tm sample_digest st res "[''ab'', ''c'']" 3 sample_env]
    sample_signed_in sample_upload_start sample_new_path [of "SanitizeFilename ''note''"] base u
  show ?thesis by (auto simp: sample_md5 ascii_utf8)
qed

end
