(* ===== verification/RpcServer.thy ===== *)
theory RpcServer
  imports Server
begin

text \<open>
  The RPC server of \<open>rpc/rpc_server.cc\<close>, which dispatches decoded requests to registered methods.
  \<open>what\<close> is the text of an exception; a method is a parameter that changes a state of its own.
\<close>

section \<open>Server\<close>

text \<open>Unlike the business processor, the server makes a decoder on connect and drops it on disconnect.\<close>

definition RpcServer_OnConnection :: "decoders \<Rightarrow> nat \<Rightarrow> bool \<Rightarrow> decoders" where
  "RpcServer_OnConnection ds conn opened =
     (if opened then (conn, Decoder_init) # RemoveDecoder ds conn else RemoveDecoder ds conn)"

record rpc_task =
  rpc_conn :: nat
  rpc_method :: string
  rpc_msg :: Message

text \<open>
  The IO thread: \<open>j.value("method", "")\<close> is outside every handler of exceptions, so what it raises
  leaves \<open>OnMessage\<close> after the earlier messages of the batch were submitted.
\<close>

fun rpc_tasks :: "'j json_ops \<Rightarrow> nat \<Rightarrow> Message list \<Rightarrow> rpc_task list \<times> cpp_exn option" where
  "rpc_tasks J conn [] = ([], None)"
| "rpc_tasks J conn (m # ms) =
     (case value_string J (GetJson J m) ''method'' [] of
        Inl e \<Rightarrow> ([], Some e)
      | Inr method \<Rightarrow> (case rpc_tasks J conn ms of
          (ts, e) \<Rightarrow> (\<lparr>rpc_conn = conn, rpc_method = method, rpc_msg = m\<rparr> # ts, e)))"

definition RpcServer_OnMessage ::
  "'j json_ops \<Rightarrow> decoders \<times> rpc_task pool \<Rightarrow> nat \<Rightarrow> bytes \<Rightarrow> (decoders \<times> rpc_task pool) \<times> cpp_exn option" where
  "RpcServer_OnMessage J s conn raw =
     (let (ds, p) = s in
      case map_of ds conn of
        None \<Rightarrow> ((ds, p), None)
      | Some d \<Rightarrow>
          let (msgs, d) = Feed d raw;
              ds = set_decoder ds conn d;
              (ts, e) = rpc_tasks J conn msgs;
              (p, e') = submit_all p ts
          in ((ds, p), if e' = None then e else e'))"

type_synonym ('s, 'j) rpc_fun = "'s \<Rightarrow> 'j \<Rightarrow> bytes \<Rightarrow> 's \<times> (cpp_exn + 'j)"

record ('s, 'j) rpc_methods =
  methods :: "string \<rightharpoonup> ('s, 'j) rpc_fun" \<comment> \<open>these ignore the binary data\<close>
  binary_methods :: "string \<rightharpoonup> ('s, 'j) rpc_fun"

definition RegisterMethod :: "('s, 'j) rpc_methods \<Rightarrow> string \<Rightarrow> ('s \<Rightarrow> 'j \<Rightarrow> 's \<times> (cpp_exn + 'j)) \<Rightarrow> ('s, 'j) rpc_methods" where
  "RegisterMethod ms name f = ms\<lparr>methods := (methods ms)(name \<mapsto> (\<lambda>s j b. f s j))\<rparr>"

definition RegisterBinaryMethod :: "('s, 'j) rpc_methods \<Rightarrow> string \<Rightarrow> ('s, 'j) rpc_fun \<Rightarrow> ('s, 'j) rpc_methods" where
  "RegisterBinaryMethod ms name f = ms\<lparr>binary_methods := (binary_methods ms)(name \<mapsto> f)\<rparr>"

definition text_rpc_exception :: string where
  "text_rpc_exception = ''RPC'' @ [CHR 0xE5, CHR 0xBC, CHR 0x82, CHR 0xE5, CHR 0xB8, CHR 0xB8] @ '': ''"

definition text_unknown_method :: string where
  "text_unknown_method = [CHR 0xE6, CHR 0x9C, CHR 0xAA, CHR 0xE7, CHR 0x9F, CHR 0xA5, CHR 0xE6, CHR 0x96, CHR 0xB9,
     CHR 0xE6, CHR 0xB3, CHR 0x95] @ '': ''"

definition error_object :: "'j json_ops \<Rightarrow> int \<Rightarrow> string \<Rightarrow> 'j" where
  "error_object J code msg = obj J [(''code'', num J code), (''msg'', str J msg)]"

text \<open>The task of a worker: a registered method runs under a handler that turns what it raises into a result.\<close>

definition call_method ::
  "'j json_ops \<Rightarrow> (cpp_exn \<Rightarrow> string) \<Rightarrow> ('s, 'j) rpc_methods \<Rightarrow> 's \<Rightarrow> string \<Rightarrow> Message \<Rightarrow> 's \<times> 'j" where
  "call_method J what ms s method msg =
     (case binary_methods ms method of
        Some f \<Rightarrow> (case f s (GetJson J msg) (binary_data msg) of
            (s, Inr r) \<Rightarrow> (s, r) | (s, Inl e) \<Rightarrow> (s, error_object J (-1) (what e)))
      | None \<Rightarrow>
          (case methods ms method of
             Some f \<Rightarrow> (case f s (GetJson J msg) (binary_data msg) of
                 (s, Inr r) \<Rightarrow> (s, r) | (s, Inl e) \<Rightarrow> (s, error_object J (-1) (text_rpc_exception @ what e)))
           | None \<Rightarrow> (s, error_object J (-2) (text_unknown_method @ method))))"

definition run_rpc_task ::
  "'j json_ops \<Rightarrow> (cpp_exn \<Rightarrow> string) \<Rightarrow> ('s, 'j) rpc_methods \<Rightarrow> bool \<Rightarrow> 's \<Rightarrow> rpc_task \<Rightarrow> 's \<times> bytes option" where
  "run_rpc_task J what ms is_connected s t =
     (let (s, result) = call_method J what ms s (rpc_method t) (rpc_msg t) in
      case SetJson J (response_to (rpc_msg t)) result of
        Inl e \<Rightarrow> (s, None)
      | Inr resp \<Rightarrow> (s, if is_connected then Some (Encode resp) else None))"

section \<open>Dispatch\<close>

text \<open>What the IO threads see; an exception that leaves a callback ends the process.\<close>

datatype rpc_event = Connected nat | Disconnected nat | Arrived nat bytes

fun rpc_io :: "'j json_ops \<Rightarrow> decoders \<times> rpc_task pool \<Rightarrow> rpc_event list \<Rightarrow> (decoders \<times> rpc_task pool) \<times> cpp_exn option" where
  "rpc_io J s [] = (s, None)"
| "rpc_io J s (Connected c # es) = rpc_io J (RpcServer_OnConnection (fst s) c True, snd s) es"
| "rpc_io J s (Disconnected c # es) = rpc_io J (RpcServer_OnConnection (fst s) c False, snd s) es"
| "rpc_io J s (Arrived c raw # es) =
     (case RpcServer_OnMessage J s c raw of (s, None) \<Rightarrow> rpc_io J s es | (s, Some e) \<Rightarrow> (s, Some e))"

definition arrived :: "nat \<Rightarrow> rpc_event list \<Rightarrow> bytes list" where
  "arrived c es = concat (map (\<lambda>e. case e of Arrived c' raw \<Rightarrow> if c' = c then [raw] else [] | _ \<Rightarrow> []) es)"

definition tasks_of :: "nat \<Rightarrow> rpc_task pool \<Rightarrow> rpc_task list" where
  "tasks_of c p = filter (\<lambda>t. rpc_conn t = c) (submitted p)"

definition dispatched :: "'j json_ops \<Rightarrow> rpc_task \<Rightarrow> bool" where
  "dispatched J t \<longleftrightarrow> value_string J (GetJson J (rpc_msg t)) ''method'' [] = Inr (rpc_method t)"

lemma rpc_tasks_complete:
  "rpc_tasks J c ms = (ts, None) \<Longrightarrow> map rpc_msg ts = ms \<and> (\<forall>t \<in> set ts. rpc_conn t = c \<and> dispatched J t)"
  by (induction ms arbitrary: ts) (auto simp: dispatched_def split: sum.splits prod.splits)

lemma rpc_tasks_raise:
  assumes "\<forall>m \<in> set ms. \<exists>method. value_string J (GetJson J m) ''method'' [] = Inr method"
    and "value_string J (GetJson J m) ''method'' [] = Inl e"
  shows "\<exists>ts. rpc_tasks J c (ms @ m # ms') = (ts, Some e) \<and> map rpc_msg ts = ms"
  using assms by (induction ms) (auto split: sum.splits prod.splits)

lemma map_of_OnConnection:
  "map_of (RpcServer_OnConnection ds c b) k =
     (if k = c then (if b then Some Decoder_init else None) else map_of ds k)"
  by (induction ds) (auto simp: RpcServer_OnConnection_def RemoveDecoder_def)

lemma RpcServer_OnMessage_running:
  assumes "running p" and "RpcServer_OnMessage J (ds, p) c raw = ((ds', p'), None)"
  shows "running p' \<and> (\<exists>ts. submitted p' = submitted p @ ts \<and> (\<forall>t \<in> set ts. rpc_conn t = c \<and> dispatched J t)
    \<and> (\<forall>d. map_of ds c = Some d \<longrightarrow> map rpc_msg ts = fst (Feed d raw) \<and> map_of ds' c = Some (snd (Feed d raw))))
    \<and> (\<forall>k. k \<noteq> c \<longrightarrow> map_of ds' k = map_of ds k)"
proof (cases "map_of ds c")
  case None
  with assms show ?thesis by (auto simp: RpcServer_OnMessage_def)
next
  case (Some d)
  obtain ms d' where f: "Feed d raw = (ms, d')" by fastforce
  obtain ts e where t: "rpc_tasks J c ms = (ts, e)" by fastforce
  have "e = None" using assms Some f t by (simp add: RpcServer_OnMessage_def submit_all_running)
  with rpc_tasks_complete [of J c ms ts] t assms Some f show ?thesis
    by (auto simp: RpcServer_OnMessage_def submit_all_running map_of_set_decoder)
qed

lemma rpc_io_dispatch:
  assumes "running p" and "map_of ds c = Some d" and "rpc_io J (ds, p) es = ((ds', p'), None)"
    and "Connected c \<notin> set es" and "Disconnected c \<notin> set es"
  shows "\<exists>ts. tasks_of c p' = tasks_of c p @ ts \<and> map rpc_msg ts = fst (FeedAll d (arrived c es))
    \<and> (\<forall>t \<in> set ts. dispatched J t)"
  using assms
proof (induction es arbitrary: ds p d)
  case Nil
  then show ?case by (simp add: arrived_def)
next
  case (Cons e es)
  show ?case
  proof (cases e)
    case (Arrived k raw)
    obtain ds1 p1 where 1: "RpcServer_OnMessage J (ds, p) k raw = ((ds1, p1), None)"
      and rest: "rpc_io J (ds1, p1) es = ((ds', p'), None)"
      using Cons.prems(3) Arrived by (auto split: prod.splits option.splits)
    from RpcServer_OnMessage_running [OF Cons.prems(1) 1] obtain ts where
      ts: "running p1" "submitted p1 = submitted p @ ts" "\<forall>t \<in> set ts. rpc_conn t = k \<and> dispatched J t"
        "\<forall>d. map_of ds k = Some d \<longrightarrow> map rpc_msg ts = fst (Feed d raw) \<and> map_of ds1 k = Some (snd (Feed d raw))"
        "\<forall>j. j \<noteq> k \<longrightarrow> map_of ds1 j = map_of ds j" by blast
    let ?d = "if k = c then snd (Feed d raw) else d"
    have d: "map_of ds1 c = Some ?d" using ts(4,5) Cons.prems(2) by auto
    have "filter (\<lambda>t. rpc_conn t = c) ts = (if k = c then ts else [])"
      using ts(3) by (auto simp: filter_empty_conv)
    then have "tasks_of c p1 = tasks_of c p @ (if k = c then ts else [])"
      using ts(2) by (simp add: tasks_of_def)
    with Cons.IH [OF ts(1) d rest] Cons.prems(2,4,5) ts(3,4) Arrived show ?thesis
      by (fastforce simp: arrived_def split: prod.splits)
  next
    case (Connected k)
    have "map_of (RpcServer_OnConnection ds k True) c = Some d"
      using Cons.prems(2,4) Connected by (auto simp: map_of_OnConnection)
    from Cons.IH [OF Cons.prems(1) this] Cons.prems(3-5) Connected show ?thesis by (simp add: arrived_def)
  next
    case (Disconnected k)
    have "map_of (RpcServer_OnConnection ds k False) c = Some d"
      using Cons.prems(2,5) Disconnected by (auto simp: map_of_OnConnection)
    from Cons.IH [OF Cons.prems(1) this] Cons.prems(3-5) Disconnected show ?thesis by (simp add: arrived_def)
  qed
qed

lemma fresh_decoder_delivers:
  assumes "concat chunks = EncodeBatch ms @ t" and "\<forall>m \<in> set ms. encodable m" and "wire.partial t"
  shows "fst (FeedAll Decoder_init chunks) = map wire_message ms"
proof -
  obtain r d where f: "FeedAll Decoder_init chunks = (r, d)" by fastforce
  have "run_chunks drain_buffer [] chunks = (map wire_message ms, t)"
    using wire.chunks assms by (simp add: Encode_concat)
  then show ?thesis
    using FeedAll_run_chunks [OF dec_inv_init f] f by (simp add: Decoder_init_def)
qed

section \<open>Properties\<close>


definition rpc_request :: Message where
  "rpc_request = sample_req (sample_cmd ''x'' [])"

lemma rpc_request_ok: "encodable rpc_request"
  by (simp add: rpc_request_def encodable_def sample_req_def sample_cmd_def Message_default_def IsValid_def
      MessageHeader_default_def)

lemma rpc_request_method:
  "value_string js_ops (GetJson js_ops rpc_request) ''method'' [] = Inr []"
  "value_string js_ops (GetJson js_ops (wire_message rpc_request)) ''method'' [] = Inr []"
proof -
  have "GetJson js_ops (wire_message rpc_request) = GetJson js_ops rpc_request" by (simp add: GetJson_def)
  moreover have "GetJson js_ops rpc_request = sample_cmd ''x'' []"
    unfolding rpc_request_def by (intro sample_req_json sample_cmd_valid) simp_all
  ultimately show "value_string js_ops (GetJson js_ops rpc_request) ''method'' [] = Inr []"
    "value_string js_ops (GetJson js_ops (wire_message rpc_request)) ''method'' [] = Inr []"
    by (simp_all add: sample_cmd_def) (simp_all add: js_ops_def js_value_def)
qed

text \<open>A body that is no JSON text.\<close>

definition bad_request :: Message where
  "bad_request = Message_default\<lparr>json_body := ''{''\<rparr>"


text \<open>
  a message whose body is no JSON object (a peer may send any bytes) raises in the IO thread,
  outside every handler: the callback is left, the messages before it were submitted, it and those
  after it were not, although the decoder has consumed them all.
\<close>

theorem rpc_malformed_json_escapes:
  assumes "running p" and "\<forall>m \<in> set (ms @ m # ms'). encodable m"
    and "\<forall>m \<in> set ms. \<exists>method. value_string J (GetJson J m) ''method'' [] = Inr method"
    and "value_string J (GetJson J m) ''method'' [] = Inl e"
  shows "\<exists>ds' p'. rpc_io J (ds, p) [Connected c, Arrived c (EncodeBatch (ms @ m # ms'))] = ((ds', p'), Some e)
    \<and> map rpc_msg (tasks_of c p') = map rpc_msg (tasks_of c p) @ map wire_message ms"
proof -
  let ?ms = "map wire_message (ms @ m # ms')"
  obtain d where f: "Feed Decoder_init (EncodeBatch (ms @ m # ms')) = (?ms, d)"
    using fresh_decoder_delivers [of "[EncodeBatch (ms @ m # ms')]" "ms @ m # ms'" "[]"] assms(2)
    by (cases "Feed Decoder_init (EncodeBatch (ms @ m # ms'))") (simp add: wire.partial_def)
  have j: "GetJson J (wire_message x) = GetJson J x" for x by (simp add: GetJson_def)
  obtain ts where t: "rpc_tasks J c ?ms = (ts, Some e)" "map rpc_msg ts = map wire_message ms"
    using rpc_tasks_raise [of "map wire_message ms" J "wire_message m" e c "map wire_message ms'"] assms(3,4)
    by (auto simp: j)
  moreover have "\<forall>t \<in> set ts. rpc_conn t = c"
  proof -
    have "rpc_tasks J c xs = (ys, z) \<Longrightarrow> \<forall>t \<in> set ys. rpc_conn t = c" for xs ys z
      by (induction xs arbitrary: ys) (auto split: sum.splits prod.splits)
    with t(1) show ?thesis by blast
  qed
  ultimately show ?thesis
    using assms(1) f by (simp add: RpcServer_OnMessage_def map_of_OnConnection submit_all_running tasks_of_def)
qed

theorem rpc_malformed_json_escapes_witness:
  "\<exists>ds p. rpc_io js_ops ([], ThreadPool_new 4 1) [Connected 1, Arrived 1 (EncodeBatch [rpc_request, bad_request, rpc_request])]
     = ((ds, p), Some type_error) \<and> map rpc_msg (tasks_of 1 p) = [wire_message rpc_request]"
proof -
  have "encodable bad_request"
    by (simp add: encodable_def bad_request_def Message_default_def IsValid_def MessageHeader_default_def)
  moreover have "value_string js_ops (GetJson js_ops bad_request) ''method'' [] = Inl type_error"
    by (simp add: GetJson_def bad_request_def js_ops_def js_value_def ps_all_def ps_nat_def)
  ultimately show ?thesis
    using rpc_malformed_json_escapes [of "ThreadPool_new 4 1" "[rpc_request]" bad_request "[rpc_request]" js_ops
        type_error "[]" 1] rpc_request_ok rpc_request_method(1)
    by (simp add: ThreadPool_new_def tasks_of_def)
qed

text \<open>
  every task is answered under the id of its request, also when the method raises or does not
  exist: the peer decodes exactly one message, marked as a response, whose body is the result of
  the method or an error object; only a result the JSON library cannot write is not sent.
\<close>

theorem rpc_server_replies:
  assumes "call_method J what ms s (rpc_method t) (rpc_msg t) = (s', result)"
    and "dump J result = Inr body" and "length body < 2 ^ 32"
  shows "\<exists>out resp. run_rpc_task J what ms True s t = (s', Some out) \<and> fst (Feed Decoder_init out) = [resp]
    \<and> request_id (header resp) = request_id (header (rpc_msg t)) \<and> msg_type (header resp) = MessageType_val kResponse
    \<and> json_body resp = body
    \<and> (binary_methods ms (rpc_method t) = None \<and> methods ms (rpc_method t) = None \<longrightarrow>
       result = error_object J (-2) (text_unknown_method @ rpc_method t) \<and> s' = s)"
proof -
  obtain resp where r: "SetJson J (response_to (rpc_msg t)) result = Inr resp" "encodable resp"
      "request_id (header resp) = request_id (header (rpc_msg t))" "msg_type (header resp) = MessageType_val kResponse"
      "json_body resp = body"
    using assms(2,3) by (auto simp: SetJson_def response_to_def encodable_def IsValid_def Message_default_def
        MessageHeader_default_def)
  have "fst (Feed Decoder_init (Encode resp)) = [wire_message resp]"
    using fresh_decoder_delivers [of "[Encode resp]" "[resp]" "[]"] r(2)
    by (simp add: wire.partial_def split: prod.splits)
  with r assms(1) show ?thesis by (auto simp: run_rpc_task_def call_method_def)
qed

definition sample_methods :: "(nat, js) rpc_methods" where
  "sample_methods = RegisterMethod \<lparr>methods = Map.empty, binary_methods = Map.empty\<rparr> ''Fail'' (\<lambda>s j. (s, Inl type_error))"

theorem rpc_server_replies_witness:
  "\<exists>out resp body. run_rpc_task js_ops (\<lambda>e. ''what'') sample_methods True 0 \<lparr>rpc_conn = 1, rpc_method = ''Fail'', rpc_msg = rpc_request\<rparr>
     = (0, Some out) \<and> fst (Feed Decoder_init out) = [resp] \<and> json_body resp = body \<and> body \<noteq> []"
proof -
  let ?t = "\<lparr>rpc_conn = 1, rpc_method = ''Fail'', rpc_msg = rpc_request\<rparr>"
  let ?v = "JObj [(''code'', JInt (-1)), (''msg'', JStr (text_rpc_exception @ ''what''))]"
  have c: "call_method js_ops (\<lambda>e. ''what'') sample_methods 0 (rpc_method ?t) (rpc_msg ?t) = (0, ?v)"
    by (simp add: call_method_def sample_methods_def RegisterMethod_def error_object_def) (simp add: js_ops_def)
  have "js_valid ?v" by (simp add: utf8_def text_rpc_exception_def)
  then have "dump js_ops ?v = Inr (pr ?v)" by (simp add: js_ops_def)
  from rpc_server_replies [OF c this] show ?thesis
    by (fastforce simp: text_rpc_exception_def)
qed

end
