(* ===== verification/RpcClient.thy ===== *)
theory RpcClient
  imports Steps
begin

text \<open>
  The pending calls of \<open>rpc/rpc_client.cc\<close>: a table from request ids to the promises of the threads
  that wait, shared by the calling threads and the IO thread. One critical section of
  \<open>pending_mutex_\<close>, and one operation on a future or on the id counter, is one step.
\<close>

section \<open>Client: the table of pending calls\<close>

text \<open>
  Where a thread is in \<open>Call\<close>: it has an id, its promise is in the table and it waits, its future is
  ready, its wait timed out but its entry is still there, it returned. A promise is named by its
  thread: it lives on the stack of \<open>Call\<close>.
\<close>

datatype 'j caller = Before | HasId u32 | Waiting u32 | Ready u32 'j | TimedOut u32 | Answered u32 'j | GaveUp

record 'j rpc_client =
  next_rid :: u32
  pending :: "u32 \<rightharpoonup> nat"
  callers :: "'j caller list"
  received :: "(u32 \<times> 'j) list" \<comment> \<open>the replies that arrived\<close>

definition RpcClient_new :: "nat \<Rightarrow> 'j rpc_client" where
  "RpcClient_new n = \<lparr>next_rid = 1, pending = Map.empty, callers = replicate n Before, received = []\<rparr>"

definition set_caller :: "'j rpc_client \<Rightarrow> nat \<Rightarrow> 'j caller \<Rightarrow> 'j rpc_client" where
  "set_caller c i x = c\<lparr>callers := (callers c)[i := x]\<rparr>"

definition NextId :: "'j rpc_client \<Rightarrow> 'j rpc_client \<times> u32" where
  "NextId c = (c\<lparr>next_rid := next_rid c + 1\<rparr>, next_rid c)"

definition SetPending :: "'j rpc_client \<Rightarrow> u32 \<Rightarrow> nat \<Rightarrow> 'j rpc_client" where
  "SetPending c k i = c\<lparr>pending := (pending c)(k \<mapsto> i)\<rparr>"

text \<open>\<open>set_value\<close> makes the future of a waiting thread ready; nobody reads one that timed out.\<close>

definition ResolvePending :: "'j rpc_client \<Rightarrow> u32 \<Rightarrow> 'j \<Rightarrow> 'j rpc_client" where
  "ResolvePending c k r =
     (let c = c\<lparr>received := received c @ [(k, r)]\<rparr> in
      case pending c k of
        None \<Rightarrow> c
      | Some i \<Rightarrow>
          (let c = c\<lparr>pending := (pending c)(k := None)\<rparr> in
           case callers c ! i of Waiting k' \<Rightarrow> set_caller c i (Ready k' r) | _ \<Rightarrow> c))"

inductive rpc_step :: "'j rpc_client \<Rightarrow> nat option \<Rightarrow> 'j rpc_client \<Rightarrow> bool" where
  offline: "i < length (callers c) \<Longrightarrow> callers c ! i = Before \<Longrightarrow> rpc_step c (Some i) (set_caller c i GaveUp)"
| take_id: "i < length (callers c) \<Longrightarrow> callers c ! i = Before \<Longrightarrow> NextId c = (c', k) \<Longrightarrow>
    rpc_step c (Some i) (set_caller c' i (HasId k))"
| enter: "i < length (callers c) \<Longrightarrow> callers c ! i = HasId k \<Longrightarrow>
    rpc_step c (Some i) (set_caller (SetPending c k i) i (Waiting k))"
| reply: "rpc_step c None (ResolvePending c k r)"
| time_out: "i < length (callers c) \<Longrightarrow> callers c ! i = Waiting k \<Longrightarrow>
    rpc_step c (Some i) (set_caller c i (TimedOut k))"
| give_up: "i < length (callers c) \<Longrightarrow> callers c ! i = TimedOut k \<Longrightarrow>
    rpc_step c (Some i) (set_caller (c\<lparr>pending := (pending c)(k := None)\<rparr>) i GaveUp)"
| get: "i < length (callers c) \<Longrightarrow> callers c ! i = Ready k r \<Longrightarrow>
    rpc_step c (Some i) (set_caller c i (Answered k r))"

section \<open>Invariant\<close>

fun call_id :: "'j caller \<Rightarrow> u32 option" where
  "call_id (HasId k) = Some k"
| "call_id (Waiting k) = Some k"
| "call_id (Ready k r) = Some k"
| "call_id (TimedOut k) = Some k"
| "call_id (Answered k r) = Some k"
| "call_id _ = None"

fun is_before :: "'j caller \<Rightarrow> nat" where
  "is_before Before = 1"
| "is_before _ = 0"

definition untaken :: "'j rpc_client \<Rightarrow> nat" where
  "untaken c = (\<Sum>x \<in># mset (callers c). is_before x)"

text \<open>Ids are below the counter, which cannot wrap, and no two calls have the same.\<close>

definition id_of :: "'j rpc_client \<Rightarrow> nat \<Rightarrow> u32 option" where
  "id_of c i = (if i < length (callers c) then call_id (callers c ! i) else None)"

definition ids_inv :: "'j rpc_client \<Rightarrow> bool" where
  "ids_inv c \<longleftrightarrow> unat (next_rid c) + untaken c < 2 ^ 32
     \<and> (\<forall>i k. id_of c i = Some k \<longrightarrow> k < next_rid c)
     \<and> (\<forall>i j k. id_of c i = Some k \<and> id_of c j = Some k \<longrightarrow> i = j)"

definition pending_inv :: "'j rpc_client \<Rightarrow> bool" where
  "pending_inv c \<longleftrightarrow>
     (\<forall>k i. pending c k = Some i \<longrightarrow> i < length (callers c) \<and> callers c ! i \<in> {Waiting k, TimedOut k})
     \<and> (\<forall>i < length (callers c). \<forall>k. callers c ! i = Waiting k \<longrightarrow> pending c k = Some i)
     \<and> (\<forall>i < length (callers c). \<forall>k r. callers c ! i \<in> {Ready k r, Answered k r} \<longrightarrow> (k, r) \<in> set (received c))"

lemma pendingD:
  "pending_inv c \<Longrightarrow> pending c k = Some i \<Longrightarrow>
   i < length (callers c) \<and> (callers c ! i = Waiting k \<or> callers c ! i = TimedOut k)"
  unfolding pending_inv_def by blast

lemma waitingD: "pending_inv c \<Longrightarrow> i < length (callers c) \<Longrightarrow> callers c ! i = Waiting k \<Longrightarrow> pending c k = Some i"
  unfolding pending_inv_def by blast

lemma readyD:
  "pending_inv c \<Longrightarrow> i < length (callers c) \<Longrightarrow> callers c ! i = Ready k r \<or> callers c ! i = Answered k r \<Longrightarrow>
   (k, r) \<in> set (received c)"
  unfolding pending_inv_def by blast

lemma pending_invI:
  assumes "\<And>k i. pending c k = Some i \<Longrightarrow> i < length (callers c) \<and> (callers c ! i = Waiting k \<or> callers c ! i = TimedOut k)"
    and "\<And>i k. i < length (callers c) \<Longrightarrow> callers c ! i = Waiting k \<Longrightarrow> pending c k = Some i"
    and "\<And>i k r. i < length (callers c) \<Longrightarrow> callers c ! i = Ready k r \<or> callers c ! i = Answered k r \<Longrightarrow>
      (k, r) \<in> set (received c)"
  shows "pending_inv c"
  unfolding pending_inv_def using assms by blast

lemma id_lt: "ids_inv c \<Longrightarrow> id_of c i = Some k \<Longrightarrow> k < next_rid c"
  unfolding ids_inv_def by blast

lemma id_inj: "ids_inv c \<Longrightarrow> id_of c i = Some k \<Longrightarrow> id_of c j = Some k \<Longrightarrow> i = j"
  unfolding ids_inv_def by blast

lemma ids_room: "ids_inv c \<Longrightarrow> unat (next_rid c) + untaken c < 2 ^ 32"
  unfolding ids_inv_def by blast

lemma ids_invI:
  assumes "unat (next_rid c) + untaken c < 2 ^ 32" and "\<And>i k. id_of c i = Some k \<Longrightarrow> k < next_rid c"
    and "\<And>i j k. id_of c i = Some k \<Longrightarrow> id_of c j = Some k \<Longrightarrow> i = j"
  shows "ids_inv c"
  unfolding ids_inv_def using assms by blast

lemma set_caller_sel [simp]:
  "next_rid (set_caller c i x) = next_rid c" "pending (set_caller c i x) = pending c"
  "received (set_caller c i x) = received c" "callers (set_caller c i x) = (callers c)[i := x]"
  by (simp_all add: set_caller_def)

lemma untaken_update:
  "i < length (callers c) \<Longrightarrow> untaken (set_caller c i x) + is_before (callers c ! i) = untaken c + is_before x"
  by (simp add: untaken_def sum_threads_update)

lemma id_of_update:
  "i < length (callers c) \<Longrightarrow> id_of (set_caller c i x) j = (if j = i then call_id x else id_of c j)"
  by (simp add: id_of_def nth_list_update)

text \<open>A step of a thread that keeps its id, or gives it up.\<close>

lemma ids_keep:
  assumes "ids_inv c" and "i < length (callers c)" and "call_id x = call_id (callers c ! i) \<or> call_id x = None"
    and "is_before x = 0"
  shows "ids_inv (set_caller c i x)"
proof -
  have sub: "id_of c j = Some k" if "id_of (set_caller c i x) j = Some k" for j k
    using that assms(2,3) by (cases "j = i") (auto simp: id_of_update, simp add: id_of_def)
  have "untaken (set_caller c i x) \<le> untaken c"
    using untaken_update [OF assms(2), of x] assms(4) by simp
  with ids_room [OF assms(1)] show ?thesis
    by (intro ids_invI) (auto dest!: sub dest: id_lt [OF assms(1)] id_inj [OF assms(1)])
qed

lemma ids_cong: "ids_inv c \<Longrightarrow> callers d = callers c \<Longrightarrow> next_rid d = next_rid c \<Longrightarrow> ids_inv d"
proof -
  assume a: "ids_inv c" "callers d = callers c" "next_rid d = next_rid c"
  then have "id_of d = id_of c" "untaken d = untaken c" by (simp_all add: id_of_def untaken_def fun_eq_iff)
  with a(1,3) show "ids_inv d" by (simp add: ids_inv_def)
qed

lemma take_id_ids:
  assumes "ids_inv c" and "i < length (callers c)" and "callers c ! i = Before"
  shows "ids_inv (set_caller (c\<lparr>next_rid := next_rid c + 1\<rparr>) i (HasId (next_rid c)))"
proof -
  let ?c = "c\<lparr>next_rid := next_rid c + 1\<rparr>" and ?k = "next_rid c"
  have "untaken (set_caller ?c i (HasId ?k)) + 1 = untaken ?c"
    using untaken_update [of i ?c "HasId ?k"] assms(2,3) by simp
  moreover have "untaken ?c = untaken c" by (simp add: untaken_def)
  ultimately have u: "untaken (set_caller ?c i (HasId ?k)) + 1 = untaken c" by simp
  with ids_room [OF assms(1)] have "unat ?k + 1 < 2 ^ 32" by simp
  then have n: "unat (?k + 1) = unat ?k + 1" by (simp add: unat_word_ariths)
  then have lt: "k < ?k + 1" if "k < ?k \<or> k = ?k" for k
    using that by (auto simp: word_less_nat_alt)
  have id: "id_of (set_caller ?c i (HasId ?k)) j = (if j = i then Some ?k else id_of c j)" for j
    using assms(2) id_of_update [of i ?c "HasId ?k" j] by (simp add: id_of_def)
  show ?thesis
  proof (rule ids_invI)
    show "unat (next_rid (set_caller ?c i (HasId ?k))) + untaken (set_caller ?c i (HasId ?k)) < 2 ^ 32"
      using ids_room [OF assms(1)] u n by simp
  next
    fix j k assume "id_of (set_caller ?c i (HasId ?k)) j = Some k"
    then have "k = ?k \<or> id_of c j = Some k" by (simp add: id split: if_splits)
    then have "k < ?k \<or> k = ?k" using id_lt [OF assms(1)] by blast
    then show "k < next_rid (set_caller ?c i (HasId ?k))" using lt by simp
  next
    fix j j' k
    assume "id_of (set_caller ?c i (HasId ?k)) j = Some k" "id_of (set_caller ?c i (HasId ?k)) j' = Some k"
    then show "j = j'" using id_lt [OF assms(1), of _ ?k] id_inj [OF assms(1)] by (auto simp: id split: if_splits)
  qed
qed

lemma pending_update:
  assumes "pending_inv c" and "i < length (callers c)"
    and "\<And>k. pending c k = Some i \<Longrightarrow> x = Waiting k \<or> x = TimedOut k"
    and "\<And>k. x = Waiting k \<Longrightarrow> pending c k = Some i"
    and "\<And>k r. x = Ready k r \<or> x = Answered k r \<Longrightarrow> (k, r) \<in> set (received c)"
  shows "pending_inv (set_caller c i x)"
proof (rule pending_invI)
  fix k j assume "pending (set_caller c i x) k = Some j"
  then have p: "pending c k = Some j" by simp
  show "j < length (callers (set_caller c i x))
      \<and> (callers (set_caller c i x) ! j = Waiting k \<or> callers (set_caller c i x) ! j = TimedOut k)"
    using pendingD [OF assms(1) p] assms(2) assms(3) [of k] p by (cases "j = i") simp_all
next
  fix j k assume "j < length (callers (set_caller c i x))" "callers (set_caller c i x) ! j = Waiting k"
  then show "pending (set_caller c i x) k = Some j"
    using waitingD [OF assms(1), of j k] assms(2) assms(4) [of k] by (cases "j = i") simp_all
next
  fix j k r assume "j < length (callers (set_caller c i x))"
    "callers (set_caller c i x) ! j = Ready k r \<or> callers (set_caller c i x) ! j = Answered k r"
  then show "(k, r) \<in> set (received (set_caller c i x))"
    using readyD [OF assms(1), of j k r] assms(2) assms(5) [of k r] by (cases "j = i") simp_all
qed

text \<open>Removing an entry whose thread no longer waits, and logging a reply.\<close>

lemma pending_drop:
  assumes "pending_inv c" and "\<And>j. j < length (callers c) \<Longrightarrow> callers c ! j \<noteq> Waiting k"
    and "callers d = callers c" and "pending d = (pending c)(k := None)" and "set (received c) \<subseteq> set (received d)"
  shows "pending_inv d"
proof (rule pending_invI)
  fix k' j assume "pending d k' = Some j"
  then have "pending c k' = Some j" using assms(4) by (simp split: if_splits)
  from pendingD [OF assms(1) this] show "j < length (callers d) \<and> (callers d ! j = Waiting k' \<or> callers d ! j = TimedOut k')"
    by (simp add: assms(3))
next
  fix j k' assume j: "j < length (callers d)" "callers d ! j = Waiting k'"
  then have "pending c k' = Some j" using waitingD [OF assms(1), of j k'] by (simp add: assms(3))
  moreover have "k' \<noteq> k" using assms(2) [of j] j by (auto simp: assms(3))
  ultimately show "pending d k' = Some j" by (simp add: assms(4))
next
  fix j k' r assume "j < length (callers d)" "callers d ! j = Ready k' r \<or> callers d ! j = Answered k' r"
  with readyD [OF assms(1), of j k' r] assms(3,5) show "(k', r) \<in> set (received d)" by auto
qed

lemma pending_cong:
  assumes "pending_inv c" and "callers d = callers c" and "pending d = pending c"
    and "set (received c) \<subseteq> set (received d)"
  shows "pending_inv d"
proof (rule pending_invI)
  fix k i assume "pending d k = Some i"
  with pendingD [OF assms(1), of k i] assms(2,3)
  show "i < length (callers d) \<and> (callers d ! i = Waiting k \<or> callers d ! i = TimedOut k)" by metis
next
  fix i k assume "i < length (callers d)" "callers d ! i = Waiting k"
  with waitingD [OF assms(1), of i k] assms(2,3) show "pending d k = Some i" by metis
next
  fix j k r assume "j < length (callers d)" "callers d ! j = Ready k r \<or> callers d ! j = Answered k r"
  with readyD [OF assms(1), of j k r] assms(2,4) show "(k, r) \<in> set (received d)" by (metis subsetD)
qed

definition client_inv :: "'j rpc_client \<Rightarrow> bool" where
  "client_inv c \<longleftrightarrow> ids_inv c \<and> pending_inv c"

text \<open>The table names at most one waiting thread for an id.\<close>

lemma waiting_unique:
  "pending_inv c \<Longrightarrow> pending c k = Some i \<Longrightarrow> j < length (callers c) \<Longrightarrow> callers c ! j = Waiting k \<Longrightarrow> j = i"
  using waitingD [of c j k] by simp

lemma resolve_inv:
  assumes "client_inv c"
  shows "client_inv (ResolvePending c k r)"
proof -
  have p: "pending_inv c" and d: "ids_inv c" using assms by (simp_all add: client_inv_def)
  let ?l = "c\<lparr>received := received c @ [(k, r)]\<rparr>"
  let ?c = "?l\<lparr>pending := (pending c)(k := None)\<rparr>"
  have ids: "ids_inv ?c" "ids_inv ?l" by (rule ids_cong [OF d]; simp)+
  show ?thesis
  proof (cases "pending c k")
    case None
    have "pending_inv ?l"
      by (rule pending_cong [OF p]) auto
    moreover have "ResolvePending c k r = ?l" using None by (simp add: ResolvePending_def Let_def)
    ultimately show ?thesis using ids(2) by (simp add: client_inv_def)
  next
    case (Some i)
    note i = pendingD [OF p Some]
    then show ?thesis
    proof (elim conjE disjE)
      assume l: "i < length (callers c)" and w: "callers c ! i = TimedOut k"
      have "callers c ! j \<noteq> Waiting k" if "j < length (callers c)" for j
        using waiting_unique [OF p Some that] w by auto
      then have "pending_inv ?c" by (rule pending_drop [OF p]) auto
      moreover have "ResolvePending c k r = ?c" using Some w by (simp add: ResolvePending_def Let_def)
      ultimately show ?thesis using ids(1) by (simp add: client_inv_def)
    next
      assume l: "i < length (callers c)" and w: "callers c ! i = Waiting k"
      let ?t = "set_caller c i (TimedOut k)"
      have id_k: "pending c k' = Some i \<Longrightarrow> k' = k" for k' using pendingD [OF p, of k' i] w by auto
      have 1: "pending_inv ?t" by (rule pending_update [OF p l]) (use id_k in blast)+
      have "callers ?t ! j \<noteq> Waiting k" if "j < length (callers ?t)" for j
        using waiting_unique [OF p Some, of j] that l by (cases "j = i") auto
      then have 2: "pending_inv (?t\<lparr>received := received c @ [(k, r)], pending := (pending c)(k := None)\<rparr>)" (is "pending_inv ?u")
        by (rule pending_drop [OF 1]) auto
      have 3: "pending_inv (set_caller ?u i (Ready k r))"
      proof (rule pending_update [OF 2])
        fix k' assume "pending ?u k' = Some i"
        with id_k [of k'] show "Ready k r = Waiting k' \<or> Ready k r = TimedOut k'" by (simp split: if_splits)
      qed (use l in simp_all)
      have "set_caller ?u i (Ready k r) = set_caller ?c i (Ready k r)" by (simp add: set_caller_def)
      moreover have "ResolvePending c k r = set_caller ?c i (Ready k r)"
        using Some w by (simp add: ResolvePending_def Let_def)
      moreover have "ids_inv (set_caller ?c i (Ready k r))" using ids(1) l w by (intro ids_keep) simp_all
      ultimately show ?thesis using 3 unfolding client_inv_def by metis
    qed
  qed
qed

lemma enter_inv:
  assumes "client_inv c" and i: "i < length (callers c)" "callers c ! i = HasId k"
  shows "client_inv (set_caller (SetPending c k i) i (Waiting k))"
proof -
  have p: "pending_inv c" and d: "ids_inv c" using assms by (simp_all add: client_inv_def)
  have id: "id_of c i = Some k" using i by (simp add: id_of_def)
  have fresh: "pending c k \<noteq> Some j" for j
  proof
    assume j: "pending c k = Some j"
    note w = pendingD [OF p j]
    then have "id_of c j = Some k" by (auto simp: id_of_def)
    with id_inj [OF d id] have "j = i" by simp
    with w i show False by auto
  qed
  have no: "pending c k' \<noteq> Some i" for k' using pendingD [OF p, of k' i] i by auto
  let ?c = "set_caller (SetPending c k i) i (Waiting k)"
  have "pending_inv ?c"
  proof (rule pending_invI)
    fix k' j assume "pending ?c k' = Some j"
    then consider "k' = k" "j = i" | "k' \<noteq> k" "pending c k' = Some j" by (cases "k' = k") (simp_all add: SetPending_def)
    then show "j < length (callers ?c) \<and> (callers ?c ! j = Waiting k' \<or> callers ?c ! j = TimedOut k')"
    proof cases
      case 2
      with no have "j \<noteq> i" by auto
      with pendingD [OF p 2(2)] show ?thesis by (simp add: SetPending_def)
    qed (use i in \<open>simp add: SetPending_def\<close>)
  next
    fix j k' assume j: "j < length (callers ?c)" "callers ?c ! j = Waiting k'"
    show "pending ?c k' = Some j"
    proof (cases "j = i")
      case False
      with j have "pending c k' = Some j" using waitingD [OF p, of j k'] by (simp add: SetPending_def)
      moreover from this fresh have "k' \<noteq> k" by metis
      ultimately show ?thesis by (simp add: SetPending_def)
    qed (use i j in \<open>simp add: SetPending_def\<close>)
  next
    fix j k' r assume "j < length (callers ?c)" "callers ?c ! j = Ready k' r \<or> callers ?c ! j = Answered k' r"
    with readyD [OF p, of j k' r] i show "(k', r) \<in> set (received ?c)"
      by (cases "j = i") (simp_all add: SetPending_def)
  qed
  moreover have "ids_inv (SetPending c k i)" by (rule ids_cong [OF d]) (simp_all add: SetPending_def)
  then have "ids_inv ?c" using i by (intro ids_keep) (simp_all add: SetPending_def)
  ultimately show ?thesis by (simp add: client_inv_def)
qed

lemma give_up_inv:
  assumes "client_inv c" and i: "i < length (callers c)" "callers c ! i = TimedOut k"
  shows "client_inv (set_caller (c\<lparr>pending := (pending c)(k := None)\<rparr>) i GaveUp)"
proof -
  have p: "pending_inv c" and d: "ids_inv c" using assms by (simp_all add: client_inv_def)
  let ?c = "c\<lparr>pending := (pending c)(k := None)\<rparr>"
  have "callers c ! j \<noteq> Waiting k" if "j < length (callers c)" for j
  proof
    assume w: "callers c ! j = Waiting k"
    with that i have "id_of c j = Some k" "id_of c i = Some k" by (simp_all add: id_of_def)
    then have "j = i" by (rule id_inj [OF d])
    with w i show False by simp
  qed
  then have 1: "pending_inv ?c" by (rule pending_drop [OF p]) auto
  have "pending ?c k' \<noteq> Some i" for k' using pendingD [OF p, of k' i] i by (auto split: if_splits)
  then have "pending_inv (set_caller ?c i GaveUp)" using i by (intro pending_update [OF 1]) auto
  moreover have "ids_inv ?c" by (rule ids_cong [OF d]) simp_all
  then have "ids_inv (set_caller ?c i GaveUp)" using i by (intro ids_keep) simp_all
  ultimately show ?thesis by (simp add: client_inv_def)
qed

lemma rpc_step_inv: "rpc_step c a c' \<Longrightarrow> client_inv c \<Longrightarrow> client_inv c'"
proof (induction rule: rpc_step.induct)
  case (offline i c)
  then have "pending c k' \<noteq> Some i" for k' using pendingD [of c k' i] by (auto simp: client_inv_def)
  with offline have "pending_inv (set_caller c i GaveUp)"
    by (intro pending_update) (simp_all add: client_inv_def)
  moreover have "ids_inv (set_caller c i GaveUp)" using offline by (intro ids_keep) (simp_all add: client_inv_def)
  ultimately show ?case by (simp add: client_inv_def)
next
  case (take_id i c c' k)
  then have c': "next_rid c = k" "c' = c\<lparr>next_rid := next_rid c + 1\<rparr>" by (auto simp: NextId_def)
  have no: "pending c k' \<noteq> Some i" for k' using pendingD [of c k' i] take_id by (auto simp: client_inv_def)
  have p: "pending_inv c" using take_id(4) by (simp add: client_inv_def)
  have "pending_inv c'"
    by (rule pending_cong [OF p]) (simp_all add: c')
  then have "pending_inv (set_caller c' i (HasId k))"
    by (rule pending_update) (use no take_id(1) c' in simp_all)
  with take_id take_id_ids [of c i] c' show ?case by (simp add: client_inv_def)
next
  case (time_out i c k)
  then have p: "pending_inv c" and d: "ids_inv c" by (simp_all add: client_inv_def)
  have "k' = k" if "pending c k' = Some i" for k' using pendingD [OF p that] time_out(2) by auto
  then have "pending_inv (set_caller c i (TimedOut k))" using time_out(1) by (intro pending_update [OF p]) simp_all
  moreover have "ids_inv (set_caller c i (TimedOut k))" using time_out(1,2) by (intro ids_keep [OF d]) simp_all
  ultimately show ?case by (simp add: client_inv_def)
next
  case (get i c k r)
  then have p: "pending_inv c" and d: "ids_inv c" by (simp_all add: client_inv_def)
  have "pending c k' \<noteq> Some i" for k' using pendingD [OF p, of k' i] get(2) by auto
  moreover have "(k, r) \<in> set (received c)" using readyD [OF p get(1)] get(2) by simp
  ultimately have "pending_inv (set_caller c i (Answered k r))" using get(1) by (intro pending_update [OF p]) simp_all
  moreover have "ids_inv (set_caller c i (Answered k r))" using get(1,2) by (intro ids_keep [OF d]) simp_all
  ultimately show ?case by (simp add: client_inv_def)
qed (rule enter_inv resolve_inv give_up_inv; assumption)+

interpretation calls: invariant rpc_step client_inv
  by unfold_locales (rule rpc_step_inv)

lemma client_new: "n < 2 ^ 32 - 1 \<Longrightarrow> client_inv (RpcClient_new n)"
proof -
  assume n: "n < 2 ^ 32 - 1"
  have u: "untaken (RpcClient_new n) = n" "unat (next_rid (RpcClient_new n)) = 1"
    by (simp_all add: untaken_def RpcClient_new_def)
  have id: "id_of (RpcClient_new n) i \<noteq> Some k" for i k by (simp add: id_of_def RpcClient_new_def)
  have "ids_inv (RpcClient_new n)"
  proof (rule ids_invI)
    show "unat (next_rid (RpcClient_new n)) + untaken (RpcClient_new n) < 2 ^ 32" using n by (simp add: u)
  qed (use id in metis)+
  moreover have "pending_inv (RpcClient_new n)" by (rule pending_invI) (simp_all add: RpcClient_new_def)
  ultimately show ?thesis by (simp add: client_inv_def)
qed

section \<open>Properties\<close>

text \<open>
  C31: the table never holds a dangling promise: whatever the order of calls, replies and timeouts,
  an entry belongs to a thread that is still inside \<open>Call\<close> with that id and whose promise was not
  set, so \<open>set_value\<close> is called at most once and never on a dead object; when every call has
  returned the table is empty.
\<close>

theorem rpc_no_dangling_promise:
  assumes "run rpc_step (RpcClient_new n) es c" and "n < 2 ^ 32 - 1"
  shows "(\<forall>k i. pending c k = Some i \<longrightarrow> i < length (callers c) \<and> (callers c ! i = Waiting k \<or> callers c ! i = TimedOut k))
    \<and> ((\<forall>x \<in> set (callers c). call_id x = None \<or> (\<exists>k r. x = Answered k r)) \<longrightarrow> pending c = Map.empty)"
proof -
  have p: "pending_inv c"
    using calls.run_inv [OF assms(1) client_new [OF assms(2)]] by (simp add: client_inv_def)
  have "pending c k = None" if all: "\<forall>x \<in> set (callers c). call_id x = None \<or> (\<exists>k r. x = Answered k r)" for k
  proof (rule ccontr)
    assume "pending c k \<noteq> None"
    then obtain i where "pending c k = Some i" by auto
    from pendingD [OF p this] have "callers c ! i \<in> set (callers c)" "callers c ! i = Waiting k \<or> callers c ! i = TimedOut k"
      by simp_all
    with all show False by fastforce
  qed
  with pendingD [OF p] show ?thesis by blast
qed

text \<open>
  C32: an answer belongs to its call: what \<open>Call\<close> returns is a reply that arrived with the id of
  this call, and no other call has that id.
\<close>

theorem rpc_answers_match:
  assumes "run rpc_step (RpcClient_new n) es c" and "n < 2 ^ 32 - 1" and "i < length (callers c)"
    and "callers c ! i = Answered k r"
  shows "(k, r) \<in> set (received c)
    \<and> (\<forall>j < length (callers c). call_id (callers c ! j) = Some k \<longrightarrow> j = i)"
proof -
  have p: "pending_inv c" and d: "ids_inv c"
    using calls.run_inv [OF assms(1) client_new [OF assms(2)]] by (simp_all add: client_inv_def)
  have "id_of c i = Some k" using assms(3,4) by (simp add: id_of_def)
  then have "j = i" if "j < length (callers c)" "call_id (callers c ! j) = Some k" for j
    using id_inj [OF d, of j k i] that by (simp add: id_of_def)
  with readyD [OF p assms(3)] assms(4) show ?thesis by blast
qed

text \<open>Two threads call; the second is answered first, the first one times out before its reply.\<close>

definition sample_calls :: "nat rpc_client" where
  "sample_calls = \<lparr>next_rid = 3, pending = Map.empty, callers = [GaveUp, Answered 2 20],
     received = [(2, 20), (1, 10)]\<rparr>"

lemma sample_calls_run:
  "run rpc_step (RpcClient_new 2) [Some 0, Some 1, Some 1, Some 0, None, Some 0, Some 1, Some 0, None] sample_calls"
proof -
  let ?c = "\<lambda>m p xs rs. \<lparr>next_rid = m, pending = p, callers = xs, received = rs\<rparr> :: nat rpc_client"
  note sel = set_caller_def SetPending_def NextId_def
  have "rpc_step (RpcClient_new 2) (Some 0) (?c 2 Map.empty [HasId 1, Before] [])"
    using take_id [of 0 "RpcClient_new 2"] by (simp add: RpcClient_new_def sel numeral_2_eq_2)
  moreover have "rpc_step (?c 2 Map.empty [HasId 1, Before] []) (Some 1) (?c 3 Map.empty [HasId 1, HasId 2] [])"
    using take_id [of 1 "?c 2 Map.empty [HasId 1, Before] []"] by (simp add: sel)
  moreover have "rpc_step (?c 3 Map.empty [HasId 1, HasId 2] []) (Some 1) (?c 3 [2 \<mapsto> 1] [HasId 1, Waiting 2] [])"
    using enter [of 1 "?c 3 Map.empty [HasId 1, HasId 2] []" 2] by (simp add: sel)
  moreover have "rpc_step (?c 3 [2 \<mapsto> 1] [HasId 1, Waiting 2] []) (Some 0) (?c 3 [2 \<mapsto> 1, 1 \<mapsto> 0] [Waiting 1, Waiting 2] [])"
    using enter [of 0 "?c 3 [2 \<mapsto> 1] [HasId 1, Waiting 2] []" 1] by (simp add: sel)
  moreover have "rpc_step (?c 3 [2 \<mapsto> 1, 1 \<mapsto> 0] [Waiting 1, Waiting 2] []) None (?c 3 [1 \<mapsto> 0] [Waiting 1, Ready 2 20] [(2, 20)])"
    using reply [of "?c 3 [2 \<mapsto> 1, 1 \<mapsto> 0] [Waiting 1, Waiting 2] []" 2 20]
    by (simp add: ResolvePending_def Let_def sel fun_upd_twist)
  moreover have "rpc_step (?c 3 [1 \<mapsto> 0] [Waiting 1, Ready 2 20] [(2, 20)]) (Some 0) (?c 3 [1 \<mapsto> 0] [TimedOut 1, Ready 2 20] [(2, 20)])"
    using time_out [of 0 "?c 3 [1 \<mapsto> 0] [Waiting 1, Ready 2 20] [(2, 20)]" 1] by (simp add: sel)
  moreover have "rpc_step (?c 3 [1 \<mapsto> 0] [TimedOut 1, Ready 2 20] [(2, 20)]) (Some 1) (?c 3 [1 \<mapsto> 0] [TimedOut 1, Answered 2 20] [(2, 20)])"
    using get [of 1 "?c 3 [1 \<mapsto> 0] [TimedOut 1, Ready 2 20] [(2, 20)]" 2 20] by (simp add: sel)
  moreover have "rpc_step (?c 3 [1 \<mapsto> 0] [TimedOut 1, Answered 2 20] [(2, 20)]) (Some 0) (?c 3 Map.empty [GaveUp, Answered 2 20] [(2, 20)])"
    using give_up [of 0 "?c 3 [1 \<mapsto> 0] [TimedOut 1, Answered 2 20] [(2, 20)]" 1] by (simp add: sel)
  moreover have "rpc_step (?c 3 Map.empty [GaveUp, Answered 2 20] [(2, 20)]) None sample_calls"
    using reply [of "?c 3 Map.empty [GaveUp, Answered 2 20] [(2, 20)]" 1 10]
    by (simp add: ResolvePending_def Let_def sample_calls_def)
  ultimately show ?thesis by (meson run_Cons run_Nil)
qed

theorem rpc_no_dangling_promise_witness: "pending sample_calls = Map.empty"
  using rpc_no_dangling_promise [OF sample_calls_run] by (simp add: sample_calls_def)

theorem rpc_answers_match_witness: "(2, 20) \<in> set (received sample_calls)"
  using rpc_answers_match [OF sample_calls_run, of 1 2 20] by (simp add: sample_calls_def)

end
