(* ===== verification/RpcLink.thy ===== *)
theory RpcLink
  imports RpcClient Server
begin

text \<open>
  The connection of an RPC client, \<open>Connect\<close>, \<open>Disconnect\<close> and the two callbacks of
  \<open>rpc/rpc_client.cc\<close>. The IO thread writes \<open>connected_\<close> and \<open>connection_\<close> one after the other while
  the caller polls the first: what it does between two reads is an argument. What arrives becomes
  replies of the table of \<open>RpcClient\<close>.
\<close>

section \<open>Connecting\<close>

record rpc_link =
  linked :: bool \<comment> \<open>\<open>connected_\<close>\<close>
  link_conn :: "nat option" \<comment> \<open>\<open>connection_\<close>\<close>
  link_decoder :: Decoder

definition rpc_link_new :: rpc_link where
  "rpc_link_new = \<lparr>linked = False, link_conn = None, link_decoder = Decoder_init\<rparr>"

text \<open>The two writes of \<open>OnConnection\<close>.\<close>

datatype link_write = WriteFlag bool | WriteConn "nat option"

primrec apply_write :: "rpc_link \<Rightarrow> link_write \<Rightarrow> rpc_link" where
  "apply_write l (WriteFlag b) = l\<lparr>linked := b\<rparr>"
| "apply_write l (WriteConn c) = l\<lparr>link_conn := c\<rparr>"

definition rpc_OnConnection :: "nat \<Rightarrow> bool \<Rightarrow> link_write list" where
  "rpc_OnConnection conn up = [WriteFlag up, WriteConn (if up then Some conn else None)]"

definition writes :: "link_write list list \<Rightarrow> rpc_link \<Rightarrow> rpc_link" where
  "writes ws l = (case ws of [] \<Rightarrow> l | w # _ \<Rightarrow> foldl apply_write l w)"

text \<open>An element of \<open>ws\<close> is what the IO thread writes before the next read of \<open>connected_\<close>.\<close>

fun rpc_poll :: "nat \<Rightarrow> link_write list list \<Rightarrow> rpc_link \<Rightarrow> rpc_link \<times> link_write list list \<times> nat" where
  "rpc_poll n ws l =
     (if n = 0 then (l, ws, 0)
      else let l = writes ws l in
        if linked l then (l, tl ws, 0)
        else case rpc_poll (n - 1) (tl ws) l of (l, ws, naps) \<Rightarrow> (l, ws, naps + 1))"

declare rpc_poll.simps [simp del]

definition rpc_Connect :: "rpc_link \<Rightarrow> link_write list list \<Rightarrow> rpc_link \<times> bool" where
  "rpc_Connect l ws = (case rpc_poll 30 ws l of (l, ws, naps) \<Rightarrow> let l = writes ws l in (l, linked l))"

definition rpc_Disconnect :: "rpc_link \<Rightarrow> rpc_link" where
  "rpc_Disconnect l = l\<lparr>linked := False, link_conn := None\<rparr>"

definition text_rpc_unconnected :: string where
  "text_rpc_unconnected = [CHR 0xE6, CHR 0x9C, CHR 0xAA, CHR 0xE8, CHR 0xBF, CHR 0x9E, CHR 0xE6, CHR 0x8E, CHR 0xA5]"

text \<open>The first test of \<open>Call\<close>: \<open>None\<close> when the call goes on.\<close>

definition call_refused :: "'j json_ops \<Rightarrow> rpc_link \<Rightarrow> 'j option" where
  "call_refused J l = (if link_conn l = None then Some (obj J [(''code'', num J (-1)), (''msg'', str J text_rpc_unconnected)])
     else None)"

section \<open>Replies\<close>

definition rpc_OnMessage :: "'j json_ops \<Rightarrow> rpc_link \<times> 'j rpc_client \<Rightarrow> bytes \<Rightarrow> rpc_link \<times> 'j rpc_client" where
  "rpc_OnMessage J s raw =
     (let (l, c) = s; (msgs, d) = Feed (link_decoder l) raw
      in (l\<lparr>link_decoder := d\<rparr>, foldl (\<lambda>c m. ResolvePending c (request_id (header m)) (GetJson J m)) c msgs))"

text \<open>It is a run of replies of the table, one for each message.\<close>

lemma replies_run:
  "run rpc_step c (replicate (length msgs) None) (foldl (\<lambda>c m. ResolvePending c (request_id (header m)) (GetJson J m)) c msgs)"
  by (induction msgs arbitrary: c) (auto intro: run_Nil run_Cons rpc_step.reply)

lemma rpc_OnMessage_replies:
  "rpc_OnMessage J (l, c) raw = (l', c') \<Longrightarrow> \<exists>n. run rpc_step c (replicate n None) c' \<and> n = length (fst (Feed (link_decoder l) raw))"
  using replies_run by (auto simp: rpc_OnMessage_def Let_def split: prod.splits)

section \<open>The wait\<close>

lemma rpc_poll_bound: "rpc_poll n ws l = (l', ws', naps) \<Longrightarrow> naps \<le> n"
proof (induction n arbitrary: ws l l' ws' naps)
  case (Suc n)
  from Suc.prems Suc.IH show ?case
    by (subst (asm) rpc_poll.simps) (auto simp: Let_def split: if_splits prod.splits)
qed (simp add: rpc_poll.simps)

text \<open>When both writes come before the same read, a connection is usable as soon as \<open>Connect\<close> returns.\<close>

lemma connect_whole: "rpc_Connect rpc_link_new [rpc_OnConnection conn True] = (l, ok) \<Longrightarrow> ok \<and> call_refused J l = None"
  by (auto simp: rpc_Connect_def rpc_poll.simps [of 30] writes_def rpc_OnConnection_def call_refused_def rpc_link_new_def Let_def)

text \<open>
  But the flag is written first: when the caller reads it between the two writes, \<open>Connect\<close> reports
  success and the call that follows is refused as not connected.
\<close>

lemma connect_race:
  assumes "rpc_OnConnection conn True = first @ later" and "first \<noteq> []" and "later \<noteq> []"
  shows "\<exists>l. rpc_Connect rpc_link_new [first, []] = (l, True) \<and> call_refused J l \<noteq> None \<and> call_refused J (foldl apply_write l later) = None"
proof -
  have "first = [WriteFlag True] \<and> later = [WriteConn (Some conn)]"
    using assms by (auto simp: rpc_OnConnection_def Cons_eq_append_conv)
  then show ?thesis
    by (auto simp: rpc_Connect_def rpc_poll.simps [of 30] writes_def call_refused_def rpc_link_new_def Let_def)
qed

end
