(* ===== verification/Services.thy ===== *)
theory Services
  imports RpcServer Client
begin

text \<open>
  The three service processes: the RPC methods that \<open>services/user_service_server.cc\<close>,
  \<open>services/file_service_server.cc\<close> and \<open>services/storage_service_server.cc\<close> register, and one RPC
  between two processes. The user and file services share the database; the storage service has a
  disk of its own, which is also that of the file service when both run on one host with the same
  root (\<open>file_disk = None\<close>).

  An RPC may not get through: \<open>outcomes\<close> holds one entry for each call from one process to another;
  none left means that all are delivered. Const \<open>operator[]\<close> with a missing key, on which the
  methods of the file service rely with \<open>file_id\<close>, is undefined behaviour of the JSON library; what
  it yields is left to the parameter \<open>index_int\<close>.
\<close>

section \<open>The processes and the calls between them\<close>

datatype rpc_outcome = Delivered | Unreachable | RequestLost | ReplyLost

datatype process = UserProc | FileProc | StorageProc

record cluster =
  cdb :: db
  file_disk :: "fs option"
  storage_disk :: fs
  outcomes :: "rpc_outcome list"

definition next_outcome :: "cluster \<Rightarrow> rpc_outcome \<times> cluster" where
  "next_outcome w = (case outcomes w of [] \<Rightarrow> (Delivered, w) | x # xs \<Rightarrow> (x, w\<lparr>outcomes := xs\<rparr>))"

definition disk_of_files :: "cluster \<Rightarrow> fs" where
  "disk_of_files w = (case file_disk w of Some s \<Rightarrow> s | None \<Rightarrow> storage_disk w)"

definition put_disk_of_files :: "cluster \<Rightarrow> fs \<Rightarrow> cluster" where
  "put_disk_of_files w s = (case file_disk w of Some _ \<Rightarrow> w\<lparr>file_disk := Some s\<rparr> | None \<Rightarrow> w\<lparr>storage_disk := s\<rparr>)"

text \<open>An operation of the file service on its database and disk.\<close>

definition on_files :: "cluster \<Rightarrow> (db \<times> fs \<Rightarrow> (db \<times> fs) \<times> 'a) \<Rightarrow> cluster \<times> 'a" where
  "on_files w f = (case f (cdb w, disk_of_files w) of ((d, s), x) \<Rightarrow> (put_disk_of_files (w\<lparr>cdb := d\<rparr>) s, x))"

definition on_db :: "cluster \<Rightarrow> (db \<Rightarrow> db \<times> 'a) \<Rightarrow> cluster \<times> 'a" where
  "on_db w f = (case f (cdb w) of (d, x) \<Rightarrow> (w\<lparr>cdb := d\<rparr>, x))"

definition on_storage :: "cluster \<Rightarrow> (fs \<Rightarrow> fs \<times> 'a) \<Rightarrow> cluster \<times> 'a" where
  "on_storage w f = (case f (storage_disk w) of (s, x) \<Rightarrow> (w\<lparr>storage_disk := s\<rparr>, x))"

text \<open>An argument of a method; what it raises ends the method.\<close>

definition bind_arg :: "'s \<Rightarrow> cpp_exn + 'a \<Rightarrow> ('a \<Rightarrow> 's \<times> (cpp_exn + 'b)) \<Rightarrow> 's \<times> (cpp_exn + 'b)" where
  "bind_arg w x k = (case x of Inl e \<Rightarrow> (w, Inl e) | Inr a \<Rightarrow> k a)"

lemma bind_arg_simps [simp]: "bind_arg w (Inr a) k = k a" "bind_arg w (Inl e) k = (w, Inl e)"
  by (simp_all add: bind_arg_def)

text \<open>
  \<open>RpcClient::Call\<close> on a fresh client, whose first request id is 1: the request as a message, and
  what the peer makes of it. A result that cannot be written, or an exception in the IO thread of
  the peer, means no reply; the caller then gives up after its timeout.
\<close>

definition rpc_timeout :: "'j json_ops \<Rightarrow> 'j" where
  "rpc_timeout J = obj J [(''code'', num J (-3)), (''msg'', str J (''RPC'' @ [CHR 0xE8, CHR 0xB6, CHR 0x85, CHR 0xE6, CHR 0x97, CHR 0xB6]))]"

definition call_message :: "'j json_ops \<Rightarrow> string \<Rightarrow> 'j \<Rightarrow> bytes \<Rightarrow> cpp_exn + Message" where
  "call_message J method args binary =
     (case set_member J args ''method'' (str J method) of Inl e \<Rightarrow> Inl e
      | Inr j \<Rightarrow> (case SetJson J (Message_default\<lparr>header := MessageHeader_default\<lparr>msg_type := MessageType_val kRequest,
            request_id := 1\<rparr>\<rparr>) j of Inl e \<Rightarrow> Inl e
        | Inr m \<Rightarrow> Inr (m\<lparr>binary_data := binary\<rparr>)))"

definition serve ::
  "'j json_ops \<Rightarrow> (cpp_exn \<Rightarrow> string) \<Rightarrow> ('s, 'j) rpc_methods \<Rightarrow> 's \<Rightarrow> Message \<Rightarrow> 's \<times> 'j option" where
  "serve J what ms w m =
     (case value_string J (GetJson J m) ''method'' [] of Inl e \<Rightarrow> (w, None)
      | Inr method \<Rightarrow> (case call_method J what ms w method m of
          (w, result) \<Rightarrow> (case SetJson J (response_to m) result of
             Inl e \<Rightarrow> (w, None) | Inr resp \<Rightarrow> (w, Some (GetJson J resp)))))"

definition Call ::
  "'j json_ops \<Rightarrow> (cpp_exn \<Rightarrow> string) \<Rightarrow> (cluster, 'j) rpc_methods \<Rightarrow> cluster \<Rightarrow> rpc_outcome \<Rightarrow> string \<Rightarrow> 'j \<Rightarrow> bytes
     \<Rightarrow> cluster \<times> (cpp_exn + 'j)" where
  "Call J what ms w outcome method args binary =
     bind_arg w (call_message J method args binary) (\<lambda>m.
       if outcome = RequestLost then (w, Inr (rpc_timeout J))
       else case serve J what ms w m of
         (w, None) \<Rightarrow> (w, Inr (rpc_timeout J))
       | (w, Some r) \<Rightarrow> (w, Inr (if outcome = ReplyLost then rpc_timeout J else r)))"

section \<open>User service\<close>

definition text_rpc_register_failed :: string where
  "text_rpc_register_failed = [CHR 0xE6, CHR 0xB3, CHR 0xA8, CHR 0xE5, CHR 0x86, CHR 0x8C, CHR 0xE5, CHR 0xA4, CHR 0xB1,
     CHR 0xE8, CHR 0xB4, CHR 0xA5]"

definition text_rpc_login_failed :: string where
  "text_rpc_login_failed = [CHR 0xE7, CHR 0x99, CHR 0xBB, CHR 0xE5, CHR 0xBD, CHR 0x95, CHR 0xE5, CHR 0xA4, CHR 0xB1,
     CHR 0xE8, CHR 0xB4, CHR 0xA5]"

definition rpc_Register :: "'j json_ops \<Rightarrow> u64 \<times> u64 \<Rightarrow> cluster \<Rightarrow> 'j \<Rightarrow> cluster \<times> (cpp_exn + 'j)" where
  "rpc_Register J e w args =
     bind_arg w (value_string J args ''username'' []) (\<lambda>name.
     bind_arg w (value_string J args ''password'' []) (\<lambda>pwd.
     case on_db w (\<lambda>d. Register d e name pwd) of (w, tok) \<Rightarrow>
       (w, Inr (if tok = [] then obj J [(''code'', num J (-1)), (''msg'', str J text_rpc_register_failed)]
                else obj J [(''code'', num J 0), (''token'', str J tok)]))))"

definition rpc_Login :: "'j json_ops \<Rightarrow> u64 \<times> u64 \<Rightarrow> cluster \<Rightarrow> 'j \<Rightarrow> cluster \<times> (cpp_exn + 'j)" where
  "rpc_Login J e w args =
     bind_arg w (value_string J args ''username'' []) (\<lambda>name.
     bind_arg w (value_string J args ''password'' []) (\<lambda>pwd.
     case on_db w (\<lambda>d. Login d e name pwd) of (w, tok) \<Rightarrow>
       (w, Inr (if tok = [] then obj J [(''code'', num J (-1)), (''msg'', str J text_rpc_login_failed)]
                else obj J [(''code'', num J 0), (''token'', str J tok)]))))"

definition rpc_VerifyToken :: "'j json_ops \<Rightarrow> cluster \<Rightarrow> 'j \<Rightarrow> cluster \<times> (cpp_exn + 'j)" where
  "rpc_VerifyToken J w args =
     bind_arg w (value_string J args ''token'' []) (\<lambda>tok.
     case on_db w (\<lambda>d. VerifyToken d tok) of (w, u) \<Rightarrow>
       (w, Inr (obj J [(''code'', num J (if 0 < u then 0 else -1)), (''user_id'', num J u)])))"

definition user_methods :: "'j json_ops \<Rightarrow> u64 \<times> u64 \<Rightarrow> (cluster, 'j) rpc_methods" where
  "user_methods J e = foldl (\<lambda>ms (name, f). RegisterMethod ms name f) \<lparr>methods = Map.empty, binary_methods = Map.empty\<rparr>
     [(''Register'', rpc_Register J e), (''Login'', rpc_Login J e), (''VerifyToken'', rpc_VerifyToken J)]"

section \<open>Storage service\<close>

definition text_invalid_write :: string where
  "text_invalid_write = [CHR 0xE6, CHR 0x97, CHR 0xA0, CHR 0xE6, CHR 0x95, CHR 0x88, CHR 0xE7, CHR 0x9A, CHR 0x84, CHR 0xE5,
     CHR 0xAD, CHR 0x98, CHR 0xE5, CHR 0x82, CHR 0xA8, CHR 0xE5, CHR 0x86, CHR 0x99, CHR 0xE5, CHR 0x85, CHR 0xA5, CHR 0xE8,
     CHR 0xAF, CHR 0xB7, CHR 0xE6, CHR 0xB1, CHR 0x82]"

fun has_dotdot :: "string \<Rightarrow> bool" where
  "has_dotdot (c # d # s) = ((c = CHR ''.'' \<and> d = CHR ''.'') \<or> has_dotdot (d # s))"
| "has_dotdot _ = False"

text \<open>The checks on the path: it begins with the user's directory, has no \<open>..\<close> and no backslash.\<close>

definition path_allowed :: "int \<Rightarrow> string \<Rightarrow> bool" where
  "path_allowed user_id p \<longleftrightarrow> take (length (to_string user_id) + 1) p = to_string user_id @ ''/''
     \<and> \<not> has_dotdot p \<and> CHR 0x5C \<notin> set p"

definition rpc_WriteChunk :: "'j json_ops \<Rightarrow> string \<Rightarrow> cluster \<Rightarrow> 'j \<Rightarrow> bytes \<Rightarrow> cluster \<times> (cpp_exn + 'j)" where
  "rpc_WriteChunk J base w args data =
     bind_arg w (at_string J args ''filepath'') (\<lambda>p.
     bind_arg w (at_int J args ''user_id'') (\<lambda>user_id.
     bind_arg w (at_int J args ''offset'') (\<lambda>off.
     let invalid = obj J [(''code'', num J (-1)), (''msg'', str J text_invalid_write)] in
     if user_id \<le> 0 \<or> off < 0 \<or> data = [] then (w, Inr invalid)
     else bind_arg w (at_int J args ''size'') (\<lambda>sz.
       if sz \<noteq> int (length data) \<or> \<not> path_allowed user_id p then (w, Inr invalid)
       else case on_storage w (\<lambda>s. CreateUserDir base s user_id) of (w, created) \<Rightarrow>
         if \<not> created then (w, Inr invalid)
         else case on_storage w (\<lambda>s. WriteChunk base s p data off) of (w, written) \<Rightarrow>
           (w, Inr (obj J [(''code'', num J (if written = int (length data) then 0 else -1)), (''written'', num J written)]))))))"

definition rpc_GetFileSize :: "'j json_ops \<Rightarrow> string \<Rightarrow> cluster \<Rightarrow> 'j \<Rightarrow> cluster \<times> (cpp_exn + 'j)" where
  "rpc_GetFileSize J base w args =
     bind_arg w (at_string J args ''filepath'') (\<lambda>p.
     case on_storage w (\<lambda>s. GetFileSize base s p) of (w, sz) \<Rightarrow>
       (w, Inr (obj J [(''code'', num J (if 0 \<le> sz then 0 else -1)), (''size'', num J sz)])))"

definition rpc_ReadChunk :: "'j json_ops \<Rightarrow> string \<Rightarrow> cluster \<Rightarrow> 'j \<Rightarrow> cluster \<times> (cpp_exn + 'j)" where
  "rpc_ReadChunk J base w args =
     bind_arg w (index_string J args ''filepath'') (\<lambda>p.
     bind_arg w (index_int J args ''offset'') (\<lambda>off.
     bind_arg w (value_size J args ''size'' 0) (\<lambda>sz.
     case on_storage w (\<lambda>s. ReadChunk base s p off sz) of (w, r) \<Rightarrow>
       bind_arg w r (\<lambda>data.
         (w, Inr (obj J [(''code'', num J 0), (''data'', str J data), (''size'', num J (int (length data)))]))))))"

definition rpc_DeleteFile :: "'j json_ops \<Rightarrow> string \<Rightarrow> cluster \<Rightarrow> 'j \<Rightarrow> cluster \<times> (cpp_exn + 'j)" where
  "rpc_DeleteFile J base w args =
     bind_arg w (index_string J args ''filepath'') (\<lambda>p.
     case on_storage w (\<lambda>s. DeleteFile base s p) of (w, ok) \<Rightarrow> (w, Inr (obj J [(''code'', num J (if ok then 0 else -1))])))"

definition storage_methods :: "'j json_ops \<Rightarrow> string \<Rightarrow> (cluster, 'j) rpc_methods" where
  "storage_methods J base =
     foldl (\<lambda>ms (name, f). RegisterMethod ms name f)
       (RegisterBinaryMethod \<lparr>methods = Map.empty, binary_methods = Map.empty\<rparr> ''WriteChunk'' (rpc_WriteChunk J base))
       [(''GetFileSize'', rpc_GetFileSize J base), (''ReadChunk'', rpc_ReadChunk J base), (''DeleteFile'', rpc_DeleteFile J base)]"

section \<open>File service\<close>

definition text_invalid_chunk :: string where
  "text_invalid_chunk = [CHR 0xE6, CHR 0x96, CHR 0x87, CHR 0xE4, CHR 0xBB, CHR 0xB6, CHR 0xE3, CHR 0x80, CHR 0x81, CHR 0xE6,
     CHR 0x9D, CHR 0x83, CHR 0xE9, CHR 0x99, CHR 0x90, CHR 0xE6, CHR 0x88, CHR 0x96, CHR 0xE4, CHR 0xB8, CHR 0x8A, CHR 0xE4,
     CHR 0xBC, CHR 0xA0, CHR 0xE5, CHR 0x81, CHR 0x8F, CHR 0xE7, CHR 0xA7, CHR 0xBB, CHR 0xE6, CHR 0x97, CHR 0xA0, CHR 0xE6,
     CHR 0x95, CHR 0x88]"

definition text_progress_failed :: string where
  "text_progress_failed = [CHR 0xE4, CHR 0xB8, CHR 0x8A, CHR 0xE4, CHR 0xBC, CHR 0xA0, CHR 0xE8, CHR 0xBF, CHR 0x9B, CHR 0xE5,
     CHR 0xBA, CHR 0xA6, CHR 0xE6, CHR 0x9B, CHR 0xB4, CHR 0xE6, CHR 0x96, CHR 0xB0, CHR 0xE5, CHR 0xA4, CHR 0xB1, CHR 0xE8,
     CHR 0xB4, CHR 0xA5]"

definition text_query_failed :: string where
  "text_query_failed = [CHR 0xE4, CHR 0xB8, CHR 0x8A, CHR 0xE4, CHR 0xBC, CHR 0xA0, CHR 0xE8, CHR 0xBF, CHR 0x9B, CHR 0xE5,
     CHR 0xBA, CHR 0xA6, CHR 0xE6, CHR 0x9F, CHR 0xA5, CHR 0xE8, CHR 0xAF, CHR 0xA2, CHR 0xE5, CHR 0xA4, CHR 0xB1, CHR 0xE8,
     CHR 0xB4, CHR 0xA5]"

definition rpc_UploadStart :: "'j json_ops \<Rightarrow> string \<Rightarrow> tm \<Rightarrow> cluster \<Rightarrow> 'j \<Rightarrow> cluster \<times> (cpp_exn + 'j)" where
  "rpc_UploadStart J base t w args =
     bind_arg w (value_int J args ''user_id'' 0) (\<lambda>u.
     bind_arg w (value_string J args ''filename'' []) (\<lambda>name.
     bind_arg w (value_int J args ''filesize'' 0) (\<lambda>sz.
     bind_arg w (value_string J args ''md5'' []) (\<lambda>m.
     case on_files w (\<lambda>st. UploadStart base st t u name sz m) of (w, r) \<Rightarrow>
       (w, Inr (obj J [(''code'', num J (if 0 < up_file_id r then 0 else -1)), (''file_id'', num J (up_file_id r)),
         (''offset'', num J (up_offset r)), (''is_resume'', boolean J (up_is_resume r))]))))))"

text \<open>Signed 64-bit arithmetic.\<close>

definition wrap64 :: "int \<Rightarrow> int" where
  "wrap64 i = sint (word_of_int i :: 64 word)"

definition chunk_rejected :: "FileInfo \<Rightarrow> int \<Rightarrow> int \<Rightarrow> bool" where
  "chunk_rejected info off sz \<longleftrightarrow> \<not> IsUploading info \<or> off < 0 \<or> sz \<le> 0 \<or> off > filesize info
     \<or> sz > wrap64 (filesize info - off) \<or> off > upload_size info
     \<or> (off < upload_size info \<and> wrap64 (off + sz) > upload_size info)"

definition validate_chunk :: "'j json_ops \<Rightarrow> cluster \<Rightarrow> 'j \<Rightarrow> cluster \<times> (cpp_exn + FileInfo option)" where
  "validate_chunk J w args =
     bind_arg w (at_int J args ''file_id'') (\<lambda>i.
     case on_db w (\<lambda>d. FileDAO_FindById d i) of (w, info) \<Rightarrow>
       bind_arg w (at_int J args ''offset'') (\<lambda>off.
       bind_arg w (at_int J args ''size'') (\<lambda>sz.
       case info of
         None \<Rightarrow> (w, Inr None)
       | Some f \<Rightarrow> bind_arg w (at_int J args ''user_id'') (\<lambda>u.
           (w, Inr (if fuser_id f \<noteq> u \<or> chunk_rejected f off sz then None else Some f))))))"

definition rpc_PrepareUploadChunk :: "'j json_ops \<Rightarrow> cluster \<Rightarrow> 'j \<Rightarrow> cluster \<times> (cpp_exn + 'j)" where
  "rpc_PrepareUploadChunk J w args =
     (case validate_chunk J w args of (w, r) \<Rightarrow> bind_arg w r (\<lambda>info.
        (w, Inr (case info of
           None \<Rightarrow> obj J [(''code'', num J (-1)), (''msg'', str J text_invalid_chunk)]
         | Some f \<Rightarrow> obj J [(''code'', num J 0), (''filepath'', str J (filepath f)), (''upload_size'', num J (upload_size f))]))))"

definition rpc_ConfirmUploadChunk :: "'j json_ops \<Rightarrow> cluster \<Rightarrow> 'j \<Rightarrow> cluster \<times> (cpp_exn + 'j)" where
  "rpc_ConfirmUploadChunk J w args =
     (let failed = (\<lambda>t. obj J [(''code'', num J (-1)), (''msg'', str J t)]) in
      case validate_chunk J w args of (w, r) \<Rightarrow> bind_arg w r (\<lambda>info.
        if info = None then (w, Inr (failed text_progress_failed))
        else bind_arg w (at_int J args ''file_id'') (\<lambda>i.
          bind_arg w (at_int J args ''user_id'') (\<lambda>u.
          bind_arg w (at_int J args ''offset'') (\<lambda>off.
          bind_arg w (at_int J args ''size'') (\<lambda>sz.
          case on_db w (\<lambda>d. FileDAO_ConfirmUploadChunk d i u off sz) of (w, ok) \<Rightarrow>
            if \<not> ok then (w, Inr (failed text_progress_failed))
            else case on_db w (\<lambda>d. FileDAO_FindById d i) of (w, confirmed) \<Rightarrow>
              (w, Inr (case confirmed of None \<Rightarrow> failed text_query_failed
                 | Some f \<Rightarrow> obj J [(''code'', num J 0), (''upload_size'', num J (upload_size f))]))))))))"

text \<open>The size check asks the storage service, over a connection of its own.\<close>

definition rpc_UploadFinalize ::
  "'j json_ops \<Rightarrow> (cpp_exn \<Rightarrow> string) \<Rightarrow> string \<Rightarrow> cluster \<Rightarrow> 'j \<Rightarrow> cluster \<times> (cpp_exn + 'j)" where
  "rpc_UploadFinalize J what base w args =
     (let code = (\<lambda>c. obj J [(''code'', num J c)]) in
      bind_arg w (at_int J args ''file_id'') (\<lambda>i.
      case on_db w (\<lambda>d. FileDAO_FindById d i) of
        (w, None) \<Rightarrow> (w, Inr (code (-1)))
      | (w, Some info) \<Rightarrow>
          bind_arg w (at_int J args ''user_id'') (\<lambda>u.
          if fuser_id info \<noteq> u \<or> \<not> IsUploading info \<or> upload_size info \<noteq> filesize info then (w, Inr (code (-1)))
          else let (outcome, w) = next_outcome w;
                   (w, ok) = (if outcome = Unreachable then (w, Inr False)
                     else case Call J what (storage_methods J base) w outcome ''GetFileSize''
                            (obj J [(''filepath'', str J (filepath info))]) [] of (w, r) \<Rightarrow>
                       bind_arg w r (\<lambda>stat.
                       bind_arg w (value_int J stat ''code'' (-1)) (\<lambda>c.
                       if to_int c \<noteq> 0 then (w, Inr False)
                       else bind_arg w (value_int J stat ''size'' (-1)) (\<lambda>sz. (w, Inr (sz = filesize info))))))
               in bind_arg w ok (\<lambda>ok.
                    case (if ok then on_db w (\<lambda>d. FileDAO_UpdateStatus d (fid info) 1) else (w, False)) of
                      (w, ok) \<Rightarrow> (w, Inr (code (if ok then 0 else -1)))))))"

definition rpc_GetFileInfo :: "'j json_ops \<Rightarrow> cluster \<Rightarrow> 'j \<Rightarrow> cluster \<times> (cpp_exn + 'j)" where
  "rpc_GetFileInfo J w args =
     bind_arg w (index_int J args ''file_id'') (\<lambda>i.
     case on_files w (\<lambda>st. GetFileInfo st i) of (w, info) \<Rightarrow>
       (w, Inr (case info of
          None \<Rightarrow> obj J [(''code'', num J (-1)), (''msg'', str J text_no_file)]
        | Some f \<Rightarrow> obj J [(''code'', num J 0), (''filesize'', num J (filesize f)), (''filename'', str J (filename f)),
            (''md5'', str J (md5 f)), (''status'', num J (status f))])))"

definition rpc_QueryFiles :: "'j json_ops \<Rightarrow> cluster \<Rightarrow> 'j \<Rightarrow> cluster \<times> (cpp_exn + 'j)" where
  "rpc_QueryFiles J w args =
     bind_arg w (index_int J args ''user_id'') (\<lambda>u.
     case on_files w (\<lambda>st. QueryFiles st u) of (w, rows) \<Rightarrow>
       (w, Inr (obj J [(''code'', num J 0), (''files'', arr J (map (\<lambda>f. obj J [(''id'', num J (fid f)),
          (''filename'', str J (filename f)), (''filesize'', num J (filesize f)), (''status'', num J (status f))]) rows))])))"

definition rpc_Delete :: "'j json_ops \<Rightarrow> string \<Rightarrow> cluster \<Rightarrow> 'j \<Rightarrow> cluster \<times> (cpp_exn + 'j)" where
  "rpc_Delete J base w args =
     bind_arg w (index_int J args ''file_id'') (\<lambda>i.
     bind_arg w (index_int J args ''user_id'') (\<lambda>u.
     case on_files w (\<lambda>st. Delete base st i u) of (w, ok) \<Rightarrow> (w, Inr (obj J [(''code'', num J (if ok then 0 else -1))]))))"

definition file_methods ::
  "'j json_ops \<Rightarrow> (cpp_exn \<Rightarrow> string) \<Rightarrow> string \<Rightarrow> string \<Rightarrow> tm \<Rightarrow> (cluster, 'j) rpc_methods" where
  "file_methods J what base sbase t =
     foldl (\<lambda>ms (name, f). RegisterMethod ms name f) \<lparr>methods = Map.empty, binary_methods = Map.empty\<rparr>
       [(''UploadStart'', rpc_UploadStart J base t), (''PrepareUploadChunk'', rpc_PrepareUploadChunk J),
        (''ConfirmUploadChunk'', rpc_ConfirmUploadChunk J), (''UploadFinalize'', rpc_UploadFinalize J what sbase),
        (''GetFileInfo'', rpc_GetFileInfo J), (''QueryFiles'', rpc_QueryFiles J), (''Delete'', rpc_Delete J base)]"

section \<open>Facts\<close>

lemma bind_arg_split: "bind_arg w x k = (case x of Inl e \<Rightarrow> (w, Inl e) | Inr a \<Rightarrow> k a)"
  by (simp add: bind_arg_def)

lemma wrap64_id: "i64 i \<Longrightarrow> wrap64 i = i"
  unfolding wrap64_def by (simp add: signed_of_int signed_take_bit_int_eq_self)

text \<open>The overflow-free reading of the checks on a chunk.\<close>

definition chunk_fits :: "FileInfo \<Rightarrow> int \<Rightarrow> int \<Rightarrow> bool" where
  "chunk_fits f off sz \<longleftrightarrow> IsUploading f \<and> 0 \<le> off \<and> 0 < sz \<and> off + sz \<le> filesize f
     \<and> (off = upload_size f \<or> off + sz \<le> upload_size f)"

lemma chunk_rejected_iff:
  assumes "i64 (filesize f)" and "i64 off" and "i64 sz"
  shows "chunk_rejected f off sz \<longleftrightarrow> \<not> chunk_fits f off sz"
proof (cases "0 \<le> off \<and> 0 < sz \<and> off \<le> filesize f")
  case True
  then have "wrap64 (filesize f - off) = filesize f - off" using assms by (intro wrap64_id) auto
  moreover have "wrap64 (off + sz) = off + sz" if "sz \<le> filesize f - off"
    using assms True that by (intro wrap64_id) auto
  ultimately show ?thesis using True by (auto simp: chunk_rejected_def chunk_fits_def)
qed (auto simp: chunk_rejected_def chunk_fits_def)

lemma on_db_healthy: "f (cdb w) = (cdb w, x) \<Longrightarrow> on_db w f = (w, x)"
  by (simp add: on_db_def)

definition chunk_args :: "int \<Rightarrow> int \<Rightarrow> int \<Rightarrow> int \<Rightarrow> (string \<times> js) list" where
  "chunk_args i u off sz = [(''file_id'', JInt i), (''user_id'', JInt u), (''offset'', JInt off), (''size'', JInt sz)]"

text \<open>Arguments that name a chunk, whatever else they hold.\<close>

definition chunk_fields :: "(string \<times> js) list \<Rightarrow> int \<Rightarrow> int \<Rightarrow> int \<Rightarrow> int \<Rightarrow> bool" where
  "chunk_fields kvs i u off sz \<longleftrightarrow> distinct (map fst kvs) \<and> map_of kvs ''file_id'' = Some (JInt i)
     \<and> map_of kvs ''user_id'' = Some (JInt u) \<and> map_of kvs ''offset'' = Some (JInt off)
     \<and> map_of kvs ''size'' = Some (JInt sz) \<and> i64 i \<and> i64 u \<and> i64 off \<and> i64 sz"

lemma chunk_args_fields: "i64 i \<Longrightarrow> i64 u \<Longrightarrow> i64 off \<Longrightarrow> i64 sz \<Longrightarrow> chunk_fields (chunk_args i u off sz) i u off sz"
  by (simp add: chunk_fields_def chunk_args_def)

lemma chunk_fields_at:
  assumes "json_ok J" and c: "chunk_fields kvs i u off sz"
  shows "at_int J (den J (JObj kvs)) ''file_id'' = Inr i" "at_int J (den J (JObj kvs)) ''user_id'' = Inr u"
    "at_int J (den J (JObj kvs)) ''offset'' = Inr off" "at_int J (den J (JObj kvs)) ''size'' = Inr sz"
  using c by (auto simp: chunk_fields_def intro!: json_intD(2) [OF assms(1)])

section \<open>Where a write lands\<close>

lemma walk_below:
  "''..'' \<notin> set cs \<Longrightarrow> walk ds cur cs = Some q \<Longrightarrow> take (length cur) q = cur"
proof (induction ds cur cs rule: walk.induct)
  case (2 ds cur c cs)
  show ?case
  proof (cases "c = [] \<or> c = ''.''")
    case True
    with 2 show ?thesis by simp
  next
    case False
    with 2(4,5) have d: "c \<noteq> ''..''" "''..'' \<notin> set cs"
      and w: "cs = [] \<and> q = cur @ [c] \<or> cs \<noteq> [] \<and> cur @ [c] \<in> set ds \<and> walk ds (cur @ [c]) cs = Some q"
      by (auto split: if_splits)
    from w show ?thesis
    proof
      assume c: "cs \<noteq> [] \<and> cur @ [c] \<in> set ds \<and> walk ds (cur @ [c]) cs = Some q"
      then have "take (length (cur @ [c])) q = cur @ [c]" using 2(3) False d by blast
      then have "take (length cur) (take (length (cur @ [c])) q) = cur" by simp
      then show ?thesis by (simp add: min_def)
    qed simp
  qed
qed simp

lemma has_dotdot_append: "has_dotdot (xs @ ''..'' @ ys)"
  by (induction xs rule: has_dotdot.induct) auto

lemma split_on_substring:
  "(\<exists>ys. s = hd (split_on sep s) @ ys) \<and> (\<forall>c \<in> set (split_on sep s). \<exists>xs ys. s = xs @ c @ ys)"
proof (induction s)
  case (Cons a s)
  obtain y ys where s: "split_on sep s = y # ys" by (cases "split_on sep s") auto
  with Cons obtain zs where z: "s = y @ zs" by auto
  have "\<exists>xs zs. a # s = xs @ c @ zs" if "c \<in> set (y # ys)" for c
  proof -
    have "c \<in> set (split_on sep s)" using that s by simp
    then obtain xs us where "s = xs @ c @ us" using conjunct2 [OF Cons] by blast
    then have "a # s = (a # xs) @ c @ us" by simp
    then show ?thesis by blast
  qed
  moreover have "\<exists>xs us. a # s = xs @ (a # y) @ us"
    by (intro exI [of _ "[]"] exI [of _ zs]) (simp add: z)
  moreover have "\<exists>xs us. a # s = xs @ [] @ us" by (intro exI [of _ "[]"] exI [of _ "a # s"]) simp
  ultimately show ?case using s z by auto
qed simp

lemma split_on_dotdot: "\<not> has_dotdot s \<Longrightarrow> ''..'' \<notin> set (split_on sep s)"
  using split_on_substring [of s sep] has_dotdot_append by metis

lemma has_dotdot_suffix: "has_dotdot s \<Longrightarrow> has_dotdot (xs @ s)"
proof (induction xs)
  case (Cons x xs)
  then show ?case by (cases "xs @ s") auto
qed simp

text \<open>An allowed path resolves below the directory of its user, if it resolves at all.\<close>

lemma allowed_below:
  assumes "root_dir base s b" and "path_allowed u p" and "resolve s (GetAbsolutePath base p) = Some q"
  shows "take (Suc (length b)) q = b @ [to_string u]"
proof -
  define rest where "rest = drop (length (to_string u) + 1) p"
  have p: "p = to_string u @ CHR ''/'' # rest"
    using assms(2) append_take_drop_id [of "length (to_string u) + 1" p] by (simp add: path_allowed_def rest_def)
  have "\<not> has_dotdot rest" using assms(2) has_dotdot_suffix [of rest "to_string u @ ''/''"] p by (auto simp: path_allowed_def)
  then have nd: "''..'' \<notin> set (split_on (CHR ''/'') rest)" by (rule split_on_dotdot)
  have comp: "path_component (to_string u)" by (rule to_string_component)
  have sp: "split_on (CHR ''/'') (base @ CHR ''/'' # p) = split_on (CHR ''/'') base @ to_string u # split_on (CHR ''/'') rest"
    using comp by (simp add: p split_on_append split_on_no_sep path_component_def)
  have hd: "p \<noteq> []" "hd p \<noteq> CHR ''/''"
    using to_string_no_sep(1) [of u] hd_in_set [of "to_string u"] by (auto simp: p simp del: hd_in_set)
  from assms(1) have w: "walk (dirs s) (if hd base = CHR ''/'' then [] else cwd s) (split_on (CHR ''/'') base) = Some b"
    and b: "b \<in> set (dirs s)" "base \<noteq> []" "last base \<noteq> CHR ''/''"
    by (auto simp: root_dir_def resolve_def)
  have "resolve s (GetAbsolutePath base p) = walk (dirs s) b (to_string u # split_on (CHR ''/'') rest)"
    using walk_append [OF w b(1), of "to_string u # split_on (CHR ''/'') rest"] hd b
    by (simp add: GetAbsolutePath_def resolve_def sp del: walk.simps)
  then have "walk (dirs s) (b @ [to_string u]) (split_on (CHR ''/'') rest) = Some q"
    using assms(3) walk_component [OF comp, of "dirs s" b "split_on (CHR ''/'') rest"]
    by (simp del: walk.simps split: if_splits)
  from walk_below [OF nd this] show ?thesis by simp
qed

lemma put_at_other:
  "resolve s p = Some r \<Longrightarrow> q \<noteq> r \<Longrightarrow> map_of (files (create_file s p)) q = map_of (files s) q
     \<and> map_of (files (write_file s p off d)) q = map_of (files s) q"
  by (simp add: create_file_def write_file_def split: option.splits)

lemma unresolved_write:
  "resolve s p = None \<Longrightarrow> create_file s p = s \<and> write_file s p off d = s"
  by (simp add: create_file_def write_file_def)

text \<open>What a write does to the disk: it may create the file, then it may put a part of the chunk there.\<close>

lemma WriteChunk_shape:
  assumes "WriteChunk base s p d off = (s', n)" and "next_io s = (e, s1)"
    and "s2 = (if \<not> open_fails e \<and> lookup_file s1 (GetAbsolutePath base p) \<noteq> None \<or> create_fails e then s1
      else create_file s1 (GetAbsolutePath base p))"
  shows "s' = s2 \<and> n = -1 \<or> (0 \<le> off \<and> lookup_file s2 (GetAbsolutePath base p) \<noteq> None
    \<and> (\<exists>k. s' = write_file s2 (GetAbsolutePath base p) (nat off) (take k d)
         \<and> (n = -1 \<or> k = length d \<and> n = int (length d))))"
proof -
  let ?a = "GetAbsolutePath base p"
  let ?open = "\<not> open_fails e \<and> lookup_file s1 ?a \<noteq> None"
  have "WriteChunk base s p d off =
    (if \<not> ?open \<and> (reopen_fails e \<or> lookup_file s2 ?a = None) then (s2, -1)
     else if off < 0 \<or> seek_fails e then (s2, -1)
     else case write_cut e of Some m \<Rightarrow> (write_file s2 ?a (nat off) (take m d), -1)
       | None \<Rightarrow> (write_file s2 ?a (nat off) d, int (length d)))"
  proof (cases ?open)
    case True
    then obtain c where c: "lookup_file s1 ?a = Some c" "\<not> open_fails e" by blast
    then have s2: "s2 = s1" by (simp add: assms(3))
    from c show ?thesis unfolding s2 by (simp add: WriteChunk_def Let_def assms(2))
  next
    case False
    then have s2: "s2 = (if create_fails e then s1 else create_file s1 ?a)" by (auto simp: assms(3))
    show ?thesis
    proof (cases "create_fails e")
      case True
      with s2 have s2: "s2 = s1" by simp
      from True False show ?thesis unfolding s2 by (auto simp: WriteChunk_def Let_def assms(2))
    next
      case no: False
      with s2 have s2: "s2 = create_file s1 ?a" by simp
      from no False show ?thesis unfolding s2 by (auto simp: WriteChunk_def Let_def assms(2))
    qed
  qed
  moreover define A B where "A \<longleftrightarrow> \<not> ?open \<and> (reopen_fails e \<or> lookup_file s2 ?a = None)" and "B \<longleftrightarrow> off < 0 \<or> seek_fails e"
  ultimately have eq: "(s', n) = (if A then (s2, -1) else if B then (s2, -1)
     else case write_cut e of Some m \<Rightarrow> (write_file s2 ?a (nat off) (take m d), -1)
       | None \<Rightarrow> (write_file s2 ?a (nat off) d, int (length d)))" using assms(1) by simp
  show ?thesis
  proof (cases "A \<or> B")
    case True
    with eq have "s' = s2 \<and> n = -1" by (auto split: if_splits)
    then show ?thesis by blast
  next
    case False
    then have l: "lookup_file s2 ?a \<noteq> None" "0 \<le> off" by (auto simp: assms(3) A_def B_def)
    have "\<exists>k. s' = write_file s2 ?a (nat off) (take k d) \<and> (n = -1 \<or> k = length d \<and> n = int (length d))"
    proof (cases "write_cut e")
      case None
      with eq False have "s' = write_file s2 ?a (nat off) d" "n = int (length d)" by simp_all
      then show ?thesis by (intro exI [of _ "length d"]) simp
    next
      case (Some m)
      with eq False have "s' = write_file s2 ?a (nat off) (take m d)" "n = -1" by simp_all
      then show ?thesis by (intro exI [of _ m]) simp
    qed
    with l show ?thesis by blast
  qed
qed

lemma WriteChunk_other_place:
  assumes "WriteChunk base s p d off = (s', n)" and "resolve s (GetAbsolutePath base p) \<noteq> Some q"
  shows "map_of (files s') q = map_of (files s) q"
proof -
  let ?a = "GetAbsolutePath base p"
  obtain e s1 where e: "next_io s = (e, s1)" by fastforce
  then have "s1 = snd (next_io s)" by simp
  then have s1: "resolve s1 ?a = resolve s ?a" "files s1 = files s" by simp_all
  have c: "map_of (files (create_file t ?a)) q = map_of (files t) q"
    "map_of (files (write_file t ?a o' d')) q = map_of (files t) q" if "resolve t ?a = resolve s ?a" for t o' d'
    using put_at_other [of t ?a _ q] unresolved_write [of t ?a] that [THEN sym] assms(2)
    by (cases "resolve t ?a"; fastforce)+
  define s2 where "s2 = (if \<not> open_fails e \<and> lookup_file s1 ?a \<noteq> None \<or> create_fails e then s1 else create_file s1 ?a)"
  have "resolve s2 ?a = resolve s ?a" "map_of (files s2) q = map_of (files s) q"
    using s1 c(1) [of s1] by (simp_all add: s2_def)
  with WriteChunk_shape [OF assms(1) e s2_def] c(2) [of s2] show ?thesis by auto
qed

lemma CreateUserDir_effect:
  assumes "CreateUserDir base s u = (s', ok)" and "root_dir base s b"
  shows "files s' = files s \<and> set (dirs s) \<subseteq> set (dirs s') \<and> set (dirs s') \<subseteq> insert (b @ [to_string u]) (set (dirs s))
    \<and> root_dir base s' b \<and> set (io_envs s') \<subseteq> set (io_envs s)"
proof -
  define s1 where "s1 = snd (next_io s)"
  have s1: "files s1 = files s" "dirs s1 = dirs s" "set (io_envs s1) \<subseteq> set (io_envs s)" "root_dir base s1 b"
    using assms(2) by (auto simp: s1_def next_io_def root_dir_def resolve_def split: list.splits)
  have "last (to_string u) \<in> set (to_string u)" by (rule last_in_set) simp
  then have "last (to_string u) \<noteq> CHR ''/''" using to_string_no_sep(1) [of u] by metis
  then have r: "resolve s1 (strip_slashes (base @ ''/'' @ to_string u)) = Some (b @ [to_string u])"
    using resolve_user_file(2) [OF s1(4) to_string_component to_string_component, of u]
    by (simp add: strip_slashes_id del: strip_slashes.simps)
  have "s' = s1 \<or> s' = s1\<lparr>dirs := (b @ [to_string u]) # dirs s1\<rparr>"
    using assms(1) r by (auto simp: CreateUserDir_def mkdir_def Let_def case_prod_unfold s1_def
        split: if_splits mkdir_result.splits)
  moreover have "root_dir base (s1\<lparr>dirs := q # dirs s1\<rparr>) b" for q
    using s1(4) resolve_add_dir by (simp add: root_dir_def)
  ultimately show ?thesis using s1 by auto
qed

lemma rpc_WriteChunk_cases:
  assumes "at_int J args ''user_id'' = Inr u" and c: "CreateUserDir base (storage_disk w) u = (s1, created)"
    and wr: "rpc_WriteChunk J base w args data = (w', r)"
  shows "w' = w \<or> w' = w\<lparr>storage_disk := s1\<rparr> \<or> (\<exists>p off s2 n. path_allowed u p
      \<and> WriteChunk base s1 p data off = (s2, n) \<and> w' = w\<lparr>storage_disk := s2\<rparr>)"
proof (cases "at_string J args ''filepath''")
  case p: (Inr p)
  show ?thesis
  proof (cases "at_int J args ''offset''")
    case off: (Inr off)
    obtain s2 n where s2: "WriteChunk base s1 p data off = (s2, n)" by fastforce
    have m: "on_storage w (\<lambda>s. CreateUserDir base s u) = (w\<lparr>storage_disk := s1\<rparr>, created)"
      "on_storage (w\<lparr>storage_disk := s1\<rparr>) (\<lambda>s. WriteChunk base s p data off) = (w\<lparr>storage_disk := s2\<rparr>, n)"
      using c s2 by (simp_all add: on_storage_def)
    have "path_allowed u p \<or> w' = w"
      using wr assms(1) p off by (auto simp: rpc_WriteChunk_def bind_arg_def Let_def split: if_splits sum.splits)
    moreover have "w' = w \<or> w' = w\<lparr>storage_disk := s1\<rparr> \<or> w' = w\<lparr>storage_disk := s2\<rparr>"
      using wr assms(1) p off m by (auto simp: rpc_WriteChunk_def bind_arg_def Let_def split: if_splits sum.splits)
    ultimately show ?thesis using s2 by blast
  qed (use wr assms p in \<open>simp add: rpc_WriteChunk_def\<close>)
qed (use wr in \<open>simp add: rpc_WriteChunk_def\<close>)

section \<open>Properties\<close>

definition write_args :: "string \<Rightarrow> int \<Rightarrow> int \<Rightarrow> int \<Rightarrow> (string \<times> js) list" where
  "write_args p u off sz = [(''filepath'', JStr p), (''user_id'', JInt u), (''offset'', JInt off), (''size'', JInt sz)]"

text \<open>
  C34: whatever path, offset and data a write request names, the storage service changes no file outside
  the directory of the user it names and creates no directory but that one, also when calls of the
  file system fail on the way; the tables are not touched.
\<close>

theorem storage_write_contained:
  assumes "root_dir base (storage_disk w) b" and "rpc_WriteChunk J base w args data = (w', r)"
    and "at_int J args ''user_id'' = Inr u" and "take (Suc (length b)) q \<noteq> b @ [to_string u]"
  shows "map_of (files (storage_disk w')) q = map_of (files (storage_disk w)) q
    \<and> set (dirs (storage_disk w')) \<subseteq> insert (b @ [to_string u]) (set (dirs (storage_disk w)))
    \<and> root_dir base (storage_disk w') b \<and> cdb w' = cdb w"
proof -
  obtain s1 ok where c: "CreateUserDir base (storage_disk w) u = (s1, ok)" by fastforce
  note s1 = CreateUserDir_effect [OF c assms(1)]
  from rpc_WriteChunk_cases [OF assms(3) c assms(2)]
  have "w' = w \<or> w' = w\<lparr>storage_disk := s1\<rparr> \<or> (\<exists>p off s2 n. path_allowed u p
      \<and> WriteChunk base s1 p data off = (s2, n) \<and> w' = w\<lparr>storage_disk := s2\<rparr>)" by blast
  then show ?thesis
  proof (elim disjE exE conjE)
    fix p off s2 n
    assume p: "path_allowed u p" and wr: "WriteChunk base s1 p data off = (s2, n)" and w': "w' = w\<lparr>storage_disk := s2\<rparr>"
    have "resolve s1 (GetAbsolutePath base p) \<noteq> Some q" using allowed_below [OF _ p, of base s1 b q] s1 assms(4) by auto
    from WriteChunk_other_place [OF wr this] WriteChunk_frame [OF wr] s1 w' show ?thesis
      by (auto simp: root_dir_def)
  qed (use assms(1) s1 in auto)
qed

definition sample_cluster :: cluster where
  "sample_cluster = \<lparr>cdb = sample_db, file_disk = None, storage_disk = sample_fs, outcomes = []\<rparr>"

theorem storage_write_contained_witness:
  "map_of (files (storage_disk (fst (rpc_WriteChunk js_ops ''/srv'' sample_cluster (JObj (write_args ''7/f'' 7 0 1)) ''x''))))
     [''srv'', ''8'', ''f''] = None"
proof -
  have "root_dir ''/srv'' (storage_disk sample_cluster) [''srv'']"
    by (simp add: root_dir_def sample_cluster_def sample_fs_def resolve_def)
  moreover have "at_int js_ops (JObj (write_args ''7/f'' 7 0 1)) ''user_id'' = Inr 7"
    by (simp add: write_args_def js_ops_def js_at_def js_int_def)
  moreover have "take (Suc (length [''srv''])) [''srv'', ''8'', ''f''] \<noteq> [''srv''] @ [to_string 7]"
    by code_simp
  ultimately show ?thesis
    using storage_write_contained [OF _ surjective_pairing, where base = "''/srv''" and w = sample_cluster
        and b = "[''srv'']" and J = js_ops and args = "JObj (write_args ''7/f'' 7 0 1)" and data = "''x''" and u = 7
        and q = "[''srv'', ''8'', ''f'']"]
    by (simp add: sample_cluster_def sample_fs_def)
qed

lemma validate_exact:
  assumes J: "json_ok J" and ok: "files_ok (cdb w)" and r: "file_row (cdb w) i = Some r"
    and c: "chunk_fields kvs i u off sz" and sz: "i64 (filesize r)"
  shows "validate_chunk J w (den J (JObj kvs)) = (w, Inr (if fuser_id r = u \<and> chunk_fits r off sz then Some r else None))"
proof -
  have f: "on_db w (\<lambda>d. FileDAO_FindById d i) = (w, Some r)"
    using FindById_ok [OF ok, of i] r by (intro on_db_healthy) simp
  have "chunk_rejected r off sz \<longleftrightarrow> \<not> chunk_fits r off sz"
    using c by (intro chunk_rejected_iff [OF sz]) (simp_all add: chunk_fields_def)
  then show ?thesis by (simp add: validate_chunk_def chunk_fields_at [OF J c] f)
qed

text \<open>
  C33: the file service admits exactly the chunks that belong to an unfinished upload of the caller, lie
  inside the file, and either continue the confirmed prefix or lie inside it; no addition or
  subtraction of the check overflows, whatever 64-bit values the request holds. Anything else is
  refused, and nothing changes in either case.
\<close>

theorem prepare_chunk_exact:
  assumes J: "json_ok J" and ok: "files_ok (cdb w)" and r: "file_row (cdb w) i = Some r"
    and c: "chunk_fields kvs i u off sz" and sz: "i64 (filesize r)"
  shows "rpc_PrepareUploadChunk J w (den J (JObj kvs)) = (w, Inr
    (if fuser_id r = u \<and> IsUploading r \<and> 0 \<le> off \<and> 0 < sz \<and> off + sz \<le> filesize r
        \<and> (off = upload_size r \<or> off + sz \<le> upload_size r)
     then obj J [(''code'', num J 0), (''filepath'', str J (filepath r)), (''upload_size'', num J (upload_size r))]
     else obj J [(''code'', num J (-1)), (''msg'', str J text_invalid_chunk)]))"
proof -
  from validate_exact [OF assms]
  have "rpc_PrepareUploadChunk J w (den J (JObj kvs)) = (w, Inr (if fuser_id r = u \<and> chunk_fits r off sz
      then obj J [(''code'', num J 0), (''filepath'', str J (filepath r)), (''upload_size'', num J (upload_size r))]
      else obj J [(''code'', num J (-1)), (''msg'', str J text_invalid_chunk)]))"
    by (simp add: rpc_PrepareUploadChunk_def)
  then show ?thesis unfolding chunk_fits_def .
qed

theorem prepare_chunk_exact_witness:
  "rpc_PrepareUploadChunk js_ops sample_cluster (den js_ops (JObj (chunk_args 1 7 (2 ^ 63 - 1) (2 ^ 63 - 1))))
     = (sample_cluster, Inr (obj js_ops [(''code'', num js_ops (-1)), (''msg'', str js_ops text_invalid_chunk)]))
   \<and> rpc_PrepareUploadChunk js_ops sample_cluster (den js_ops (JObj (chunk_args 1 7 0 10)))
     = (sample_cluster, Inr (obj js_ops [(''code'', num js_ops 0), (''filepath'', str js_ops []), (''upload_size'', num js_ops 0)]))"
proof -
  have ok: "files_ok (cdb sample_cluster)" "file_row (cdb sample_cluster) 1 = Some (sample_file 1 ''x'')"
    using sample_db_ok sample_db_row by (simp_all add: sample_cluster_def)
  show ?thesis
    using prepare_chunk_exact [OF js_ops_ok ok chunk_args_fields, of 7 "2 ^ 63 - 1" "2 ^ 63 - 1"]
      prepare_chunk_exact [OF js_ops_ok ok chunk_args_fields, of 7 0 10]
    by (simp add: sample_file_def FileInfo_default_def IsUploading_def)
qed

text \<open>
  A name may hold two dots in a row, and the sanitizer keeps them; no chunk of such a file is ever
  written, because the storage service takes them for a way out of the directory.
\<close>

lemma dotdot_name_never_stored:
  assumes "SanitizeFilename name = a @ ''..'' @ c" and "at_int J args ''user_id'' = Inr u"
    and "at_string J args ''filepath'' = Inr (GenerateFilepath t u (SanitizeFilename name))"
    and "rpc_WriteChunk J base w args data = (w', Inr resp)"
  shows "w' = w \<and> resp = obj J [(''code'', num J (-1)), (''msg'', str J text_invalid_write)]"
proof -
  let ?p = "GenerateFilepath t u (SanitizeFilename name)"
  have "?p = (to_string u @ ''/'' @ time_stamp t @ a) @ ''..'' @ c" by (simp add: GenerateFilepath_def assms(1))
  then have "\<not> path_allowed u ?p" using has_dotdot_append [of "to_string u @ ''/'' @ time_stamp t @ a" c]
    by (simp add: path_allowed_def)
  with assms(2-4) show ?thesis
    by (auto simp: rpc_WriteChunk_def bind_arg_def Let_def split: sum.splits if_splits)
qed

lemma dotdot_name_example: "SanitizeFilename ''a..b'' = ''a'' @ ''..'' @ ''b''"
  by code_simp

end
