(* ===== verification/Gateway.thy ===== *)
theory Gateway
  imports Services
begin

text \<open>
  The gateway of \<open>gateway/bin/gateway_main.cc\<close>, which holds no data and forwards each command to the
  services. A handler is a tree: it either replies or makes an RPC and continues with the result,
  so that the handlers of several workers can be run one after the other or interleaved, call by
  call. A deployment is what surrounds the processes: what ZooKeeper answers, which process listens
  at an address, the clock and the token generator, the storage roots.
\<close>

section \<open>Discovery and remote calls\<close>

record deployment =
  discovered :: "string \<Rightarrow> string list" \<comment> \<open>\<open>ZkClient::Discover\<close>\<close>
  listening :: "string \<times> int \<Rightarrow> process option"
  exn_text :: "cpp_exn \<Rightarrow> string"
  file_root :: string
  storage_root :: string
  surroundings :: req_env

definition GetUserService :: "deployment \<Rightarrow> string" where
  "GetUserService D = (case discovered D ''/FileServer/UserService'' of [] \<Rightarrow> ''127.0.0.1:9001'' | n # _ \<Rightarrow> n)"

definition GetFileService :: "deployment \<Rightarrow> string" where
  "GetFileService D = (case discovered D ''/FileServer/FileService'' of [] \<Rightarrow> ''127.0.0.1:9002'' | n # _ \<Rightarrow> n)"

definition GetStorageService :: "deployment \<Rightarrow> string" where
  "GetStorageService D = (case discovered D ''/FileServer/StorageService'' of [] \<Rightarrow> ''127.0.0.1:9003'' | n # _ \<Rightarrow> n)"

definition ParseAddr :: "string \<Rightarrow> cpp_exn + string \<times> int" where
  "ParseAddr addr =
     (case dropWhile (\<lambda>c. c \<noteq> CHR '':'') addr of
        [] \<Rightarrow> Inr (addr, 9001)
      | _ # port \<Rightarrow> (case stoi port of Inl e \<Rightarrow> Inl e | Inr p \<Rightarrow> Inr (takeWhile (\<lambda>c. c \<noteq> CHR '':'') addr, p)))"

text \<open>The table of the process that answers.\<close>

fun methods_of :: "'j json_ops \<Rightarrow> deployment \<Rightarrow> process \<Rightarrow> (cluster, 'j) rpc_methods" where
  "methods_of J D UserProc = user_methods J (entropy (surroundings D))"
| "methods_of J D FileProc = file_methods J (exn_text D) (file_root D) (storage_root D) (local_time (surroundings D))"
| "methods_of J D StorageProc = storage_methods J (storage_root D)"

definition text_cannot_connect :: string where
  "text_cannot_connect = [CHR 0xE6, CHR 0x97, CHR 0xA0, CHR 0xE6, CHR 0xB3, CHR 0x95, CHR 0xE8, CHR 0xBF, CHR 0x9E,
     CHR 0xE6, CHR 0x8E, CHR 0xA5] @ '' ''"

definition CallRpc ::
  "'j json_ops \<Rightarrow> deployment \<Rightarrow> cluster \<Rightarrow> string \<Rightarrow> string \<Rightarrow> 'j \<Rightarrow> bytes \<Rightarrow> cluster \<times> (cpp_exn + 'j)" where
  "CallRpc J D w service method args binary =
     (let addr = (if service = ''UserService'' then GetUserService D
                  else if service = ''FileService'' then GetFileService D else GetStorageService D)
      in case ParseAddr addr of
           Inl e \<Rightarrow> (w, Inl e)
         | Inr endpoint \<Rightarrow>
             let (outcome, w) = next_outcome w in
             (case listening D endpoint of
                Some p \<Rightarrow> if outcome = Unreachable
                  then (w, Inr (obj J [(''code'', num J (-1)), (''msg'', str J (text_cannot_connect @ service @ '' at '' @ addr))]))
                  else Call J (exn_text D) (methods_of J D p) w outcome method args binary
              | None \<Rightarrow> (w, Inr (obj J [(''code'', num J (-1)), (''msg'', str J (text_cannot_connect @ service @ '' at '' @ addr))]))))"

section \<open>Handlers\<close>

datatype 'j handling = Reply "cpp_exn + Message" | Rpc string string 'j bytes "'j \<Rightarrow> 'j handling"

definition arg :: "cpp_exn + 'a \<Rightarrow> ('a \<Rightarrow> 'j handling) \<Rightarrow> 'j handling" where
  "arg x k = (case x of Inl e \<Rightarrow> Reply (Inl e) | Inr a \<Rightarrow> k a)"

lemma arg_simps [simp]: "arg (Inr a) k = k a" "arg (Inl e) k = Reply (Inl e)"
  by (simp_all add: arg_def)

definition Gateway_MakeResponse :: "'j json_ops \<Rightarrow> Message \<Rightarrow> int \<Rightarrow> string \<Rightarrow> 'j \<Rightarrow> bytes \<Rightarrow> cpp_exn + Message" where
  "Gateway_MakeResponse J req code msg data binary =
     (case SetJson J (response_to req) (obj J ([(''code'', num J code), (''msg'', str J msg)]
         @ (if json_empty J data then [] else [(''data'', data)]))) of
        Inl e \<Rightarrow> Inl e
      | Inr resp \<Rightarrow> Inr (resp\<lparr>binary_data := binary,
          header := (header resp)\<lparr>data_length := of_nat (length binary)\<rparr>\<rparr>))"

text \<open>\<open>r.value("code", -1)\<close> is read as an \<open>int\<close>.\<close>

definition value_code :: "'j json_ops \<Rightarrow> 'j \<Rightarrow> cpp_exn + int" where
  "value_code J r = map_sum id to_int (value_int J r ''code'' (-1))"

definition Gateway_VerifyToken :: "'j json_ops \<Rightarrow> string \<Rightarrow> (int \<Rightarrow> 'j handling) \<Rightarrow> 'j handling" where
  "Gateway_VerifyToken J tok k =
     (if tok = [] then k (-1)
      else Rpc ''UserService'' ''VerifyToken'' (obj J [(''token'', str J tok)]) []
        (\<lambda>r. arg (value_int J r ''user_id'' 0) k))"

text \<open>The last statement of the handlers that pass a result on.\<close>

definition pass_on :: "'j json_ops \<Rightarrow> Message \<Rightarrow> 'j \<Rightarrow> 'j handling" where
  "pass_on J req r = arg (value_code J r) (\<lambda>c. arg (value_string J r ''msg'' []) (\<lambda>m.
     Reply (Gateway_MakeResponse J req c m r [])))"

text \<open>The first statements of the handlers that need a user.\<close>

definition with_uid :: "'j json_ops \<Rightarrow> Message \<Rightarrow> (int \<Rightarrow> 'j handling) \<Rightarrow> 'j handling" where
  "with_uid J req k =
     arg (value_string J (GetJson J req) ''token'' []) (\<lambda>tok.
       Gateway_VerifyToken J tok (\<lambda>user_id.
         if user_id \<le> 0 then Reply (Gateway_MakeResponse J req (-1) text_auth_failed (null J) []) else k user_id))"

definition gw_register :: "'j json_ops \<Rightarrow> Message \<Rightarrow> 'j handling" where
  "gw_register J req = Rpc ''UserService'' ''Register'' (GetJson J req) [] (pass_on J req)"

definition gw_login :: "'j json_ops \<Rightarrow> Message \<Rightarrow> 'j handling" where
  "gw_login J req = Rpc ''UserService'' ''Login'' (GetJson J req) [] (pass_on J req)"

definition gw_upload_start :: "'j json_ops \<Rightarrow> Message \<Rightarrow> 'j handling" where
  "gw_upload_start J req = with_uid J req (\<lambda>user_id.
     let j = GetJson J req in
     arg (index_json J j ''filename'') (\<lambda>name.
     arg (index_json J j ''filesize'') (\<lambda>sz.
     arg (index_json J j ''md5'') (\<lambda>m.
       Rpc ''FileService'' ''UploadStart'' (obj J [(''user_id'', num J user_id), (''filename'', name), (''filesize'', sz),
         (''md5'', m)]) [] (pass_on J req)))))"

definition text_check_failed :: string where
  "text_check_failed = [CHR 0xE4, CHR 0xB8, CHR 0x8A, CHR 0xE4, CHR 0xBC, CHR 0xA0, CHR 0xE6, CHR 0xA0, CHR 0xA1, CHR 0xE9,
     CHR 0xAA, CHR 0x8C, CHR 0xE5, CHR 0xA4, CHR 0xB1, CHR 0xE8, CHR 0xB4, CHR 0xA5]"

definition text_store_failed :: string where
  "text_store_failed = [CHR 0xE5, CHR 0xAD, CHR 0x98, CHR 0xE5, CHR 0x82, CHR 0xA8, CHR 0xE5, CHR 0x86, CHR 0x99, CHR 0xE5,
     CHR 0x85, CHR 0xA5, CHR 0xE5, CHR 0xA4, CHR 0xB1, CHR 0xE8, CHR 0xB4, CHR 0xA5]"

definition text_confirm_failed :: string where
  "text_confirm_failed = [CHR 0xE8, CHR 0xBF, CHR 0x9B, CHR 0xE5, CHR 0xBA, CHR 0xA6, CHR 0xE7, CHR 0xA1, CHR 0xAE, CHR 0xE8,
     CHR 0xAE, CHR 0xA4, CHR 0xE5, CHR 0xA4, CHR 0xB1, CHR 0xE8, CHR 0xB4, CHR 0xA5]"

text \<open>A chunk takes three calls: check it, write it, confirm it.\<close>

definition upload_confirmed :: "'j json_ops \<Rightarrow> Message \<Rightarrow> int \<Rightarrow> 'j \<Rightarrow> 'j handling" where
  "upload_confirmed J req sz confirmed =
     arg (value_code J confirmed) (\<lambda>c.
     if c \<noteq> 0 then arg (value_string J confirmed ''msg'' text_confirm_failed) (\<lambda>m.
       Reply (Gateway_MakeResponse J req c m (null J) []))
     else arg (at_json J confirmed ''upload_size'') (\<lambda>n.
       Reply (Gateway_MakeResponse J req 0 ''ok'' (obj J [(''written'', num J sz), (''upload_size'', n)]) [])))"

definition upload_written :: "'j json_ops \<Rightarrow> Message \<Rightarrow> 'j \<Rightarrow> int \<Rightarrow> 'j \<Rightarrow> 'j handling" where
  "upload_written J req args sz written =
     arg (value_code J written) (\<lambda>c.
     arg (if c \<noteq> 0 then Inr (-1) else value_int J written ''written'' (-1)) (\<lambda>n.
     if c \<noteq> 0 \<or> n \<noteq> sz then arg (value_string J written ''msg'' text_store_failed) (\<lambda>m.
       Reply (Gateway_MakeResponse J req (-1) m (null J) []))
     else Rpc ''FileService'' ''ConfirmUploadChunk'' args [] (upload_confirmed J req sz)))"

definition upload_prepared :: "'j json_ops \<Rightarrow> Message \<Rightarrow> int \<Rightarrow> 'j \<Rightarrow> int \<Rightarrow> int \<Rightarrow> 'j \<Rightarrow> 'j handling" where
  "upload_prepared J req user_id args off sz prepared =
     arg (value_code J prepared) (\<lambda>c.
     if c \<noteq> 0 then arg (value_string J prepared ''msg'' text_check_failed) (\<lambda>m.
       Reply (Gateway_MakeResponse J req c m (null J) []))
     else arg (value_int J prepared ''upload_size'' 0) (\<lambda>n.
       if wrap64 (off + sz) \<le> n
       then arg (at_json J prepared ''upload_size'') (\<lambda>v.
         Reply (Gateway_MakeResponse J req 0 ''ok'' (obj J [(''written'', num J sz), (''upload_size'', v)]) []))
       else arg (at_json J prepared ''filepath'') (\<lambda>p.
         Rpc ''StorageService'' ''WriteChunk'' (obj J [(''filepath'', p), (''user_id'', num J user_id),
           (''offset'', num J off), (''size'', num J sz)]) (binary_data req) (upload_written J req args sz))))"

definition upload_user :: "'j json_ops \<Rightarrow> Message \<Rightarrow> int \<Rightarrow> 'j handling" where
  "upload_user J req user_id =
     (let j = GetJson J req; sz = int (length (binary_data req)) in
      arg (value_int J j ''offset'' 0) (\<lambda>off.
      arg (at_json J j ''file_id'') (\<lambda>i.
        let args = obj J [(''file_id'', i), (''user_id'', num J user_id), (''offset'', num J off), (''size'', num J sz)] in
        Rpc ''FileService'' ''PrepareUploadChunk'' args [] (upload_prepared J req user_id args off sz))))"

definition gw_upload_data :: "'j json_ops \<Rightarrow> Message \<Rightarrow> 'j handling" where
  "gw_upload_data J req = with_uid J req (upload_user J req)"

definition gw_upload_finalize :: "'j json_ops \<Rightarrow> Message \<Rightarrow> 'j handling" where
  "gw_upload_finalize J req = with_uid J req (\<lambda>user_id.
     arg (index_json J (GetJson J req) ''file_id'') (\<lambda>i.
       Rpc ''FileService'' ''UploadFinalize'' (obj J [(''file_id'', i), (''user_id'', num J user_id)]) [] (pass_on J req)))"

definition gw_download :: "'j json_ops \<Rightarrow> Message \<Rightarrow> 'j handling" where
  "gw_download J req = with_uid J req (\<lambda>user_id.
     arg (index_json J (GetJson J req) ''file_id'') (\<lambda>i.
       Rpc ''FileService'' ''GetFileInfo'' (obj J [(''file_id'', i)]) [] (pass_on J req)))"

definition gw_download_chunk :: "'j json_ops \<Rightarrow> Message \<Rightarrow> 'j handling" where
  "gw_download_chunk J req = with_uid J req (\<lambda>user_id.
     let j = GetJson J req in
     arg (value_string J j ''filepath'' []) (\<lambda>p.
     arg (index_json J j ''offset'') (\<lambda>off.
     arg (index_json J j ''size'') (\<lambda>sz.
       Rpc ''StorageService'' ''ReadChunk'' (obj J [(''filepath'', str J p), (''offset'', off), (''size'', sz)]) []
         (\<lambda>r. arg (value_string J r ''data'' []) (\<lambda>data. Reply (Gateway_MakeResponse J req 0 ''ok'' r data)))))))"

definition gw_list :: "'j json_ops \<Rightarrow> Message \<Rightarrow> 'j handling" where
  "gw_list J req = with_uid J req (\<lambda>user_id.
     Rpc ''FileService'' ''QueryFiles'' (obj J [(''user_id'', num J user_id)]) []
       (\<lambda>r. Reply (Gateway_MakeResponse J req 0 ''ok'' r [])))"

definition gw_delete :: "'j json_ops \<Rightarrow> Message \<Rightarrow> 'j handling" where
  "gw_delete J req = with_uid J req (\<lambda>user_id.
     arg (index_json J (GetJson J req) ''file_id'') (\<lambda>i.
       Rpc ''FileService'' ''Delete'' (obj J [(''file_id'', i), (''user_id'', num J user_id)]) [] (pass_on J req)))"

definition gateway_router :: "'j json_ops \<Rightarrow> string \<rightharpoonup> (Message \<Rightarrow> 'j handling)" where
  "gateway_router J = foldl (\<lambda>r (cmd, h). r(cmd \<mapsto> h)) Map.empty
     [(''register'', gw_register J), (''login'', gw_login J), (''upload_start'', gw_upload_start J),
      (''upload_data'', gw_upload_data J), (''upload_finalize'', gw_upload_finalize J), (''download'', gw_download J),
      (''download_chunk'', gw_download_chunk J), (''list'', gw_list J), (''delete'', gw_delete J)]"

definition Gateway_Route :: "'j json_ops \<Rightarrow> (string \<rightharpoonup> (Message \<Rightarrow> 'j handling)) \<Rightarrow> Message \<Rightarrow> 'j handling" where
  "Gateway_Route J r req =
     (let cmd = GetCmd J req in
      case r cmd of
        None \<Rightarrow> Reply (SetJson J (response_to req) (obj J [(''code'', num J (-3)), (''msg'', str J (text_unknown_command @ cmd))]))
      | Some h \<Rightarrow> h req)"

section \<open>Running handlers\<close>

text \<open>One handler on its own.\<close>

primrec run_handling :: "'j handling \<Rightarrow> 'j json_ops \<Rightarrow> deployment \<Rightarrow> cluster \<Rightarrow> cluster \<times> (cpp_exn + Message)" where
  "run_handling (Reply x) = (\<lambda>J D w. (w, x))"
| "run_handling (Rpc service method args binary k) = (\<lambda>J D w.
     case CallRpc J D w service method args binary of
       (w, Inl e) \<Rightarrow> (w, Inl e) | (w, Inr r) \<Rightarrow> run_handling (k r) J D w)"

text \<open>The task of a worker: an exception ends in the future of the task.\<close>

definition gateway_task :: "'j json_ops \<Rightarrow> deployment \<Rightarrow> bool \<Rightarrow> cluster \<Rightarrow> NetworkTask \<Rightarrow> cluster \<times> bytes option" where
  "gateway_task J D is_connected w task =
     (case run_handling (Gateway_Route J (gateway_router J) (request task)) J D w of
        (w, Inl e) \<Rightarrow> (w, None)
      | (w, Inr response) \<Rightarrow> (w, if is_connected then Some (Encode response) else None))"

text \<open>
  The workers of the gateway at once: a step lets a new request in, or performs the next call of one
  of the handlers. Between two steps everything around the processes may change, except the root
  of the storage; the calls to a service are atomic.
\<close>

record 'j gateway =
  services :: cluster
  handlers :: "(Message \<times> 'j handling) list"

inductive gw_step :: "'j json_ops \<Rightarrow> string \<Rightarrow> (Message \<Rightarrow> bool) \<Rightarrow> 'j gateway \<Rightarrow> 'j gateway \<Rightarrow> bool"
  for J root admitted where
  Enter: "admitted req \<Longrightarrow> gw_step J root admitted g
    (g\<lparr>handlers := handlers g @ [(req, Gateway_Route J (gateway_router J) req)]\<rparr>)"
| Return: "k < length (handlers g) \<Longrightarrow> handlers g ! k = (req, Rpc service method args binary cont) \<Longrightarrow>
    storage_root D = root \<Longrightarrow> CallRpc J D (services g) service method args binary = (w, Inr r) \<Longrightarrow>
    gw_step J root admitted g (g\<lparr>services := w, handlers := (handlers g)[k := (req, cont r)]\<rparr>)"
| Raise: "k < length (handlers g) \<Longrightarrow> handlers g ! k = (req, Rpc service method args binary cont) \<Longrightarrow>
    storage_root D = root \<Longrightarrow> CallRpc J D (services g) service method args binary = (w, Inl e) \<Longrightarrow>
    gw_step J root admitted g (g\<lparr>services := w, handlers := (handlers g)[k := (req, Reply (Inl e))]\<rparr>)"

section \<open>What a call can bring\<close>

text \<open>What a caller sees when a call fails on the way, or reaches a process without the method.\<close>

definition failure :: "js \<Rightarrow> bool" where
  "failure v \<longleftrightarrow> (\<exists>c s. v = JObj [(''code'', JInt c), (''msg'', JStr s)] \<and> c \<in> {-1, -2, -3})"

lemma failure_error: "error_object J c s = den J (JObj [(''code'', JInt c), (''msg'', JStr s)])"
  by (simp add: error_object_def den_obj)

definition timeout_value :: js where
  "timeout_value = JObj [(''code'', JInt (-3)), (''msg'', JStr (''RPC'' @ [CHR 0xE8, CHR 0xB6, CHR 0x85, CHR 0xE6,
     CHR 0x97, CHR 0xB6]))]"

lemma rpc_timeout_failure: "rpc_timeout J = den J timeout_value" "failure timeout_value"
  by (simp_all add: rpc_timeout_def timeout_value_def den_obj failure_def)

lemma set_update_subset: "set (AList.update k v al) \<subseteq> insert (k, v) (set al)"
  by (induction al) auto

text \<open>The arguments as they arrive, with the name of the method among them.\<close>

definition with_method :: "string \<Rightarrow> (string \<times> js) list \<Rightarrow> (string \<times> js) list" where
  "with_method method kvs = AList.update ''method'' (JStr method) kvs"

lemma with_method_simps:
  "map_of (with_method method kvs) k = (if k = ''method'' then Some (JStr method) else map_of kvs k)"
  "distinct (map fst kvs) \<Longrightarrow> distinct (map fst (with_method method kvs))"
  by (simp_all add: with_method_def update_conv' distinct_update)

lemma with_method_valid: "js_valid (JObj kvs) \<Longrightarrow> utf8 method \<Longrightarrow> js_valid (JObj (with_method method kvs))"
  using set_update_subset [of "''method''" "JStr method" kvs]
  by (auto simp: with_method_def list_all_iff distinct_update ascii_utf8)

lemma call_message_ok:
  assumes "json_ok J" and "js_valid (JObj kvs)" and "utf8 method"
  obtains m where "call_message J method (den J (JObj kvs)) bin = Inr m"
    "GetJson J m = den J (JObj (with_method method kvs))" "binary_data m = bin"
proof -
  have "distinct (map fst kvs)" using assms(2) by simp
  then have s: "set_member J (den J (JObj kvs)) ''method'' (str J method) = Inr (den J (JObj (with_method method kvs)))"
    using json_setD(1) [OF assms(1), of kvs "''method''" "JStr method"] by (simp add: with_method_def)
  obtain t where "dump J (den J (JObj (with_method method kvs))) = Inr t" "t \<noteq> []"
    "parse J t = den J (JObj (with_method method kvs))"
    using json_dump [OF assms(1) with_method_valid [OF assms(2,3)]] by blast
  then show ?thesis using that by (simp add: call_message_def s SetJson_def GetJson_def)
qed

lemma Call_ok:
  assumes J: "json_ok J" and kvs: "js_valid (JObj kvs)" "utf8 method" and v: "js_valid v"
    and run: "\<And>m. GetJson J m = den J (JObj (with_method method kvs)) \<Longrightarrow> binary_data m = bin \<Longrightarrow>
      call_method J what ms w method m = (w1, den J v)"
  shows "Call J what ms w oc method (den J (JObj kvs)) bin =
    (if oc = RequestLost then (w, Inr (rpc_timeout J)) else (w1, Inr (if oc = ReplyLost then rpc_timeout J else den J v)))"
proof -
  obtain m where m: "call_message J method (den J (JObj kvs)) bin = Inr m"
    "GetJson J m = den J (JObj (with_method method kvs))" "binary_data m = bin"
    using call_message_ok [OF J kvs] by blast
  have "distinct (map fst (with_method method kvs))" using kvs by (intro with_method_simps(2)) simp
  then have n: "value_string J (GetJson J m) ''method'' [] = Inr method"
    unfolding m(2) by (intro json_stringD(4) [OF J]) (simp_all add: with_method_simps)
  obtain t where t: "dump J (den J v) = Inr t" "t \<noteq> []" "parse J t = den J v" using json_dump [OF J v] by blast
  then obtain m' where r: "SetJson J (response_to m) (den J v) = Inr m'" "GetJson J m' = den J v"
    by (simp add: SetJson_def GetJson_def)
  have "serve J what ms w m = (w1, Some (den J v))"
    by (simp add: serve_def n run [OF m(2,3)] r)
  then show ?thesis by (simp add: Call_def m(1))
qed

lemma next_outcome_eq: "\<exists>xs. next_outcome w = (fst (next_outcome w), w\<lparr>outcomes := xs\<rparr>)"
proof (cases "outcomes w")
  case Nil
  then have "next_outcome w = (Delivered, w\<lparr>outcomes := outcomes w\<rparr>)" by (simp add: next_outcome_def)
  then show ?thesis by (metis fst_conv)
qed (auto simp: next_outcome_def)

text \<open>
  The rule for a remote call: what holds of every failure and of the answer of whatever process is
  reached, also when that answer is lost, holds of the result. An exception changes nothing.
\<close>

lemma CallRpc_rule:
  assumes J: "json_ok J" and kvs: "js_valid (JObj kvs)" "utf8 method"
    and call: "CallRpc J D w service method (den J (JObj kvs)) bin = (w', x)"
    and lost: "\<And>xs v. failure v \<Longrightarrow> Q (w\<lparr>outcomes := xs\<rparr>) v"
    and served: "\<And>xs p. \<exists>w1 v. js_valid v \<and> Q w1 v \<and> (\<forall>v'. failure v' \<longrightarrow> Q w1 v') \<and>
      (\<forall>m. GetJson J m = den J (JObj (with_method method kvs)) \<and> binary_data m = bin \<longrightarrow>
        call_method J (exn_text D) (methods_of J D p) (w\<lparr>outcomes := xs\<rparr>) method m = (w1, den J v))"
  shows "(\<exists>e. x = Inl e \<and> w' = w) \<or> (\<exists>v. x = Inr (den J v) \<and> Q w' v)"
proof -
  define addr where "addr = (if service = ''UserService'' then GetUserService D
    else if service = ''FileService'' then GetFileService D else GetStorageService D)"
  let ?f = "JObj [(''code'', JInt (-1)), (''msg'', JStr (text_cannot_connect @ service @ '' at '' @ addr))]"
  have f: "obj J [(''code'', num J (-1)), (''msg'', str J (text_cannot_connect @ service @ '' at '' @ addr))] = den J ?f"
    "failure ?f" by (simp_all add: den_obj failure_def)
  show ?thesis
  proof (cases "ParseAddr addr")
    case (Inl e)
    with call show ?thesis by (auto simp: CallRpc_def addr_def [symmetric] Let_def)
  next
    case (Inr ep)
    obtain oc xs where o: "next_outcome w = (oc, w\<lparr>outcomes := xs\<rparr>)" using next_outcome_eq [of w] by blast
    have c: "(w', x) = (case listening D ep of Some p \<Rightarrow> if oc = Unreachable then (w\<lparr>outcomes := xs\<rparr>, Inr (den J ?f))
        else Call J (exn_text D) (methods_of J D p) (w\<lparr>outcomes := xs\<rparr>) oc method (den J (JObj kvs)) bin
      | None \<Rightarrow> (w\<lparr>outcomes := xs\<rparr>, Inr (den J ?f)))"
      using call unfolding CallRpc_def addr_def [symmetric] Let_def f(1) by (simp add: Inr o)
    show ?thesis
    proof (cases "listening D ep = None \<or> oc = Unreachable")
      case True
      with c have "w' = w\<lparr>outcomes := xs\<rparr>" "x = Inr (den J ?f)" by (auto split: option.splits)
      with lost [OF f(2), of xs] show ?thesis by blast
    next
      case False
      then obtain p where p: "listening D ep = Some p" by auto
      from served [of p xs] obtain w1 v where s: "js_valid v" "Q w1 v" "\<forall>v'. failure v' \<longrightarrow> Q w1 v'"
        "\<forall>m. GetJson J m = den J (JObj (with_method method kvs)) \<and> binary_data m = bin \<longrightarrow>
          call_method J (exn_text D) (methods_of J D p) (w\<lparr>outcomes := xs\<rparr>) method m = (w1, den J v)" by blast
      have "Call J (exn_text D) (methods_of J D p) (w\<lparr>outcomes := xs\<rparr>) oc method (den J (JObj kvs)) bin =
        (if oc = RequestLost then (w\<lparr>outcomes := xs\<rparr>, Inr (rpc_timeout J))
         else (w1, Inr (if oc = ReplyLost then rpc_timeout J else den J v)))"
        using s(4) by (intro Call_ok [OF J kvs s(1)]) blast
      with c p False have "(w', x) = (if oc = RequestLost then (w\<lparr>outcomes := xs\<rparr>, Inr (den J timeout_value))
         else (w1, Inr (if oc = ReplyLost then den J timeout_value else den J v)))"
        by (simp add: rpc_timeout_failure(1))
      with s(2,3) lost [OF rpc_timeout_failure(2), of xs] rpc_timeout_failure(2) show ?thesis
        by (cases "oc = RequestLost"; cases "oc = ReplyLost") auto
    qed
  qed
qed

lemma call_unknown:
  assumes "methods ms method = None" and "binary_methods ms method = None"
  shows "call_method J what ms w method m = (w, den J (JObj [(''code'', JInt (-2)), (''msg'', JStr (text_unknown_method @ method))]))"
  using assms by (simp add: call_method_def failure_error)

lemma unknown_valid: "utf8 method \<Longrightarrow> js_valid (JObj [(''code'', JInt (-2)), (''msg'', JStr (text_unknown_method @ method))])"
  by (auto simp: text_unknown_method_def utf8_def)

lemmas method_tables = user_methods_def file_methods_def storage_methods_def RegisterMethod_def RegisterBinaryMethod_def

end
