(* ===== verification/TwoPhase.thy ===== *)
theory TwoPhase
  imports Gateway "HOL-Library.Sublist"
begin

text \<open>
  The two-phase upload through the gateway: many workers handle chunks at once, every call between
  the processes may be lost on either way, every statement of the database and every call of the
  file system but the first open of a file may fail. \<open>C\<close> is the content that the chunks of file \<open>i\<close>
  are cut from.
\<close>

section \<open>Tables and places\<close>

definition row_name :: "FileInfo \<Rightarrow> string" where
  "row_name r = drop (length (to_string (fuser_id r)) + 1) (filepath r)"

definition row_path :: "FileInfo \<Rightarrow> bool" where
  "row_path r \<longleftrightarrow> filepath r = to_string (fuser_id r) @ ''/'' @ row_name r \<and> path_component (row_name r)"

definition place :: "path \<Rightarrow> FileInfo \<Rightarrow> path" where
  "place b r = b @ [to_string (fuser_id r), row_name r]"

definition held :: "fs \<Rightarrow> path \<Rightarrow> bytes" where
  "held s q = (case map_of (files s) q of Some c \<Rightarrow> c | None \<Rightarrow> [])"

definition rows_ok :: "db \<Rightarrow> bool" where
  "rows_ok d \<longleftrightarrow> files_inv d \<and> progress d \<and> distinct (map filepath (file_rows d))
     \<and> (\<forall>x \<in> set (users d). i64 (uid x))
     \<and> (\<forall>r \<in> set (file_rows d). file_clean r \<and> utf8 (filepath r) \<and> i64 (filesize r) \<and> row_path r)"

definition same_tables :: "db \<Rightarrow> db \<Rightarrow> bool" where
  "same_tables d d' \<longleftrightarrow> file_rows d' = file_rows d \<and> next_file d' = next_file d \<and> users d' = users d"

lemma same_tables_rows: "same_tables d d' \<Longrightarrow> rows_ok d' = rows_ok d \<and> file_row d' i = file_row d i"
  by (simp add: same_tables_def rows_ok_def files_inv_def progress_def file_row_def)

lemma same_tables_refl [simp]: "same_tables d d"
  by (simp add: same_tables_def)

lemma file_row_set: "file_row d i = Some r \<Longrightarrow> r \<in> set (file_rows d) \<and> fid r = i"
  by (auto simp: file_row_def dest: find_Some_set)

lemma FindById_any:
  assumes "rows_ok d" and "FileDAO_FindById d i = (d', x)"
  shows "same_tables d d' \<and> (x = None \<or> x = file_row d i)"
proof -
  have "filter (\<lambda>r. fid r = i) (file_rows d) = (case file_row d i of None \<Rightarrow> [] | Some r \<Rightarrow> [r])"
    using assms(1) filter_key [of fid "file_rows d" i "\<lambda>r. True"]
    by (auto simp: rows_ok_def files_inv_def file_row_def split: option.splits)
  moreover have "file_clean r" if "file_row d i = Some r" for r
    using that assms(1) file_row_set by (auto simp: rows_ok_def)
  ultimately show ?thesis
    using assms(2) by (auto simp: FileDAO_FindById_def Let_def case_prod_unfold same_tables_def fetch_file_def
        file_of_row_clean split: option.splits if_splits)
qed

lemma VerifyToken_any:
  assumes "VerifyToken d tok = (d', u)" and "\<forall>x \<in> set (users d). i64 (uid x)"
  shows "same_tables d d' \<and> i64 u"
proof -
  have "same_tables d (fst (UserDAO_FindByToken d tok))"
    by (simp add: UserDAO_FindByToken_def Let_def case_prod_unfold same_tables_def)
  moreover have "i64 (uid x)" if "snd (UserDAO_FindByToken d tok) = Some x" for x
    using that assms(2) by (auto simp: UserDAO_FindByToken_def Let_def case_prod_unfold fetch_user_def user_of_row_def
        dest!: filter_eq_ConsD split: if_splits list.splits)
  ultimately show ?thesis
    using assms(1) by (auto simp: VerifyToken_def Let_def case_prod_unfold split: if_splits option.splits)
qed

text \<open>Different rows have different places, and a path leads to its place or nowhere.\<close>

lemma resolve_row:
  assumes "root_dir base s b" and "row_path r"
  shows "resolve s (GetAbsolutePath base (filepath r)) =
    (if b @ [to_string (fuser_id r)] \<in> set (dirs s) then Some (place b r) else None)"
proof -
  have "filepath r = to_string (fuser_id r) @ ''/'' @ row_name r" using assms(2) by (simp add: row_path_def)
  with resolve_user_file(1) [OF assms(1) to_string_component, of "row_name r" "fuser_id r"] assms(2) show ?thesis
    by (simp add: row_path_def place_def)
qed

lemma place_inj:
  assumes "rows_ok d" and "r \<in> set (file_rows d)" and "r' \<in> set (file_rows d)" and "place b r = place b r'"
  shows "r = r'"
proof -
  have "filepath r = filepath r'" using assms by (auto simp: rows_ok_def row_path_def place_def)
  with assms(1-3) show ?thesis by (auto simp: rows_ok_def distinct_map dest: inj_onD)
qed

section \<open>Slices of the content\<close>

definition slice :: "bytes \<Rightarrow> int \<Rightarrow> bytes \<Rightarrow> bool" where
  "slice C off d \<longleftrightarrow> (0 \<le> off \<longrightarrow> d = take (length d) (drop (nat off) C))"

lemma write_slice:
  assumes "prefix c C" and "off \<le> length c" and "d = take (length d) (drop off C)"
  shows "prefix (write_at c off (take k d)) C \<and> length c \<le> length (write_at c off (take k d))
    \<and> (length d \<le> k \<longrightarrow> off + length d \<le> length (write_at c off (take k d)))"
proof -
  define e where "e = take k d"
  have c: "c = take (length c) C" using assms(1) by (auto simp: prefix_def)
  have "e = take (min k (length d)) (drop off C)" unfolding e_def by (subst assms(3)) simp
  then have e: "e = take (length e) (drop off C)" by (metis length_take min.cobounded2 min_def take_all take_take)
  have "take off c @ e @ drop (off + length e) c = take (max (length c) (off + length e)) C"
  proof -
    have "take off c @ e = take (off + length e) C"
    proof -
      have "take off c = take off C" using assms(2) by (subst c) simp
      with e show ?thesis by (metis take_add)
    qed
    moreover have "take (off + length e) C @ drop (off + length e) c = take (max (length c) (off + length e)) C"
    proof (cases "off + length e \<le> length c")
      case True
      have "take (off + length e) C = take (off + length e) c" using True by (subst c) simp
      with True c show ?thesis by (simp add: max_def)
    qed (simp add: max_def)
    ultimately show ?thesis by (metis append.assoc)
  qed
  then have "prefix (write_at c off e) C"
    using assms(1,2) by (simp add: write_at_def take_is_prefix)
  then show ?thesis
    using assms(2) length_write_at [of c off e] by (auto simp: e_def)
qed

section \<open>The disk\<close>

definition opens :: "fs \<Rightarrow> bool" where
  "opens s \<longleftrightarrow> (\<forall>e \<in> set (io_envs s). \<not> open_fails e)"

lemma next_io_opens: "opens s \<Longrightarrow> next_io s = (e, s1) \<Longrightarrow> \<not> open_fails e \<and> opens s1"
  by (auto simp: opens_def next_io_def io_ok_def split: list.splits)

lemma held_write:
  assumes "resolve s a = Some q" and "map_of (files s) q = Some c"
  shows "held (write_file s a off d) q = write_at c off d"
  using assms by (simp add: write_file_def held_def)

text \<open>Writing a slice at most where the file ends keeps the file a prefix of the content.\<close>

lemma WriteChunk_slice:
  assumes rd: "root_dir base s b" and row: "row_path r" and "opens s"
    and w: "WriteChunk base s (filepath r) d off = (s', n)"
    and pre: "prefix (held s (place b r)) C" and off: "off \<le> int (length (held s (place b r)))" and sl: "slice C off d"
  shows "prefix (held s' (place b r)) C \<and> length (held s (place b r)) \<le> length (held s' (place b r))
    \<and> (0 \<le> n \<longrightarrow> n = int (length d) \<and> off + int (length d) \<le> int (length (held s' (place b r))))"
proof -
  let ?a = "GetAbsolutePath base (filepath r)" and ?q = "place b r"
  obtain e s1 where e: "next_io s = (e, s1)" by fastforce
  then have "s1 = snd (next_io s)" by simp
  then have s1: "resolve s1 ?a = resolve s ?a" "files s1 = files s" "lookup_file s1 ?a = lookup_file s ?a" by simp_all
  define s2 where "s2 = (if \<not> open_fails e \<and> lookup_file s1 ?a \<noteq> None \<or> create_fails e then s1 else create_file s1 ?a)"
  have r: "resolve s ?a = None \<or> resolve s ?a = Some ?q" using resolve_row [OF rd row] by simp
  have 2: "held s2 ?q = held s ?q \<and> resolve s2 ?a = resolve s ?a"
  proof (cases "lookup_file s1 ?a")
    case None
    have "held (create_file s1 ?a) ?q = held s1 ?q"
    proof (cases "resolve s ?a")
      case no: None
      then show ?thesis using s1 by (simp add: create_file_def)
    next
      case (Some q)
      then have "map_of (files s1) ?q = None" using None r s1 by (simp add: lookup_file_def)
      with Some r s1(1) show ?thesis by (simp add: create_file_def held_def)
    qed
    then show ?thesis using s1 by (simp add: s2_def held_def)
  next
    case (Some c)
    then have "s2 = s1" using next_io_opens [OF assms(3) e] by (simp add: s2_def)
    with s1 show ?thesis by (simp add: held_def)
  qed
  from WriteChunk_shape [OF w e s2_def] show ?thesis
  proof
    assume "s' = s2 \<and> n = -1"
    with 2 pre show ?thesis by simp
  next
    assume "0 \<le> off \<and> lookup_file s2 ?a \<noteq> None \<and> (\<exists>k. s' = write_file s2 ?a (nat off) (take k d)
        \<and> (n = -1 \<or> k = length d \<and> n = int (length d)))"
    then obtain k where l: "lookup_file s2 ?a \<noteq> None" and s': "s' = write_file s2 ?a (nat off) (take k d)" and o: "0 \<le> off"
      and n: "n = -1 \<or> k = length d \<and> n = int (length d)" by blast
    from l obtain c where "resolve s2 ?a = Some ?q" "map_of (files s2) ?q = Some c"
      using r 2 by (auto simp: lookup_file_def split: bind_splits)
    then have "held s' ?q = write_at (held s ?q) (nat off) (take k d)"
      using held_write s' 2 by (simp add: held_def)
    moreover have "prefix (write_at (held s ?q) (nat off) (take k d)) C
        \<and> length (held s ?q) \<le> length (write_at (held s ?q) (nat off) (take k d))
        \<and> (length d \<le> k \<longrightarrow> nat off + length d \<le> length (write_at (held s ?q) (nat off) (take k d)))"
      using o off sl by (intro write_slice [OF pre]) (simp_all add: slice_def)
    ultimately show ?thesis using n o by auto
  qed
qed

lemma WriteChunk_opens: "WriteChunk base s p d off = (s', n) \<Longrightarrow> opens s \<Longrightarrow> opens s'"
proof -
  assume w: "WriteChunk base s p d off = (s', n)" and o: "opens s"
  obtain e s1 where e: "next_io s = (e, s1)" by fastforce
  from WriteChunk_shape [OF w e refl] next_io_opens [OF o e] show "opens s'"
    by (auto simp: opens_def split: if_splits)
qed

section \<open>The invariant\<close>

text \<open>What the disk holds of file \<open>i\<close> is a prefix of its content and covers what the table says is confirmed.\<close>

definition upload_inv :: "string \<Rightarrow> path \<Rightarrow> bytes \<Rightarrow> int \<Rightarrow> cluster \<Rightarrow> bool" where
  "upload_inv root b C i w \<longleftrightarrow> rows_ok (cdb w) \<and> root_dir root (storage_disk w) b \<and> opens (storage_disk w)
     \<and> (\<exists>r. file_row (cdb w) i = Some r \<and> prefix (held (storage_disk w) (place b r)) C
          \<and> upload_size r \<le> int (length (held (storage_disk w) (place b r))))"

text \<open>Confirmed lengths never shrink, nor does the file.\<close>

definition advances :: "path \<Rightarrow> int \<Rightarrow> cluster \<Rightarrow> cluster \<Rightarrow> bool" where
  "advances b i w w' \<longleftrightarrow>
     (\<forall>j r. file_row (cdb w) j = Some r \<longrightarrow> (\<exists>n \<ge> upload_size r. file_row (cdb w') j = Some (r\<lparr>upload_size := n\<rparr>)))
     \<and> (\<forall>r. file_row (cdb w) i = Some r \<longrightarrow>
          length (held (storage_disk w) (place b r)) \<le> length (held (storage_disk w') (place b r)))"

lemma place_upload_size [simp]: "place b (r\<lparr>upload_size := n\<rparr>) = place b r"
  by (simp add: place_def row_name_def)

text \<open>Steps that leave the tables and the disk as they are.\<close>

lemma quiet_step:
  assumes "upload_inv root b C i w" and "same_tables (cdb w) (cdb w')" and "storage_disk w' = storage_disk w"
  shows "upload_inv root b C i w' \<and> advances b i w w'"
proof -
  have "\<exists>n \<ge> upload_size r. Some r = Some (r\<lparr>upload_size := n\<rparr>)" for r :: FileInfo
    by (intro exI [of _ "upload_size r"]) simp
  with assms show ?thesis
    using same_tables_rows [OF assms(2)] by (auto simp: upload_inv_def advances_def)
qed

text \<open>A write that a worker was allowed to make.\<close>

lemma write_step:
  assumes inv: "upload_inv root b C i w" and row: "file_row (cdb w) j = Some r" and "0 \<le> off"
    and fit: "j = i \<Longrightarrow> off \<le> upload_size r \<and> slice C off d"
    and c: "CreateUserDir root (storage_disk w) u = (s1, ok)"
    and wr: "WriteChunk root s1 (filepath r) d off = (s2, n)"
  shows "upload_inv root b C i (w\<lparr>storage_disk := s1\<rparr>) \<and> advances b i w (w\<lparr>storage_disk := s1\<rparr>)
    \<and> upload_inv root b C i (w\<lparr>storage_disk := s2\<rparr>) \<and> advances b i w (w\<lparr>storage_disk := s2\<rparr>)
    \<and> (j = i \<and> 0 \<le> n \<longrightarrow> off + int (length d) \<le> int (length (held s2 (place b r))))"
proof -
  obtain ri where rd: "root_dir root (storage_disk w) b" and op: "opens (storage_disk w)" and rows: "rows_ok (cdb w)"
    and ri: "file_row (cdb w) i = Some ri" "prefix (held (storage_disk w) (place b ri)) C"
      "upload_size ri \<le> int (length (held (storage_disk w) (place b ri)))"
    using inv by (auto simp: upload_inv_def)
  note s1 = CreateUserDir_effect [OF c rd]
  have h1: "held s1 q = held (storage_disk w) q" for q using s1 by (simp add: held_def)
  have o1: "opens s1" using s1 op by (auto simp: opens_def)
  have rdat: "row_path r" using rows row file_row_set by (auto simp: rows_ok_def)
  have frame: "root_dir root s2 b" "opens s2"
    using s1 WriteChunk_frame [OF wr] WriteChunk_opens [OF wr o1] by (auto simp: root_dir_def)
  have keep: "prefix (held s2 (place b ri)) C \<and> length (held s1 (place b ri)) \<le> length (held s2 (place b ri))
    \<and> (j = i \<and> 0 \<le> n \<longrightarrow> off + int (length d) \<le> int (length (held s2 (place b r))))"
  proof (cases "j = i")
    case True
    then have "ri = r" using ri(1) row by simp
    with WriteChunk_slice [OF _ rdat o1 wr, of b C] s1 ri(2,3) fit [OF True] show ?thesis by (auto simp: h1)
  next
    case False
    have "place b r \<noteq> place b ri"
      using place_inj [OF rows, of r ri b] file_row_set [OF row] file_row_set [OF ri(1)] False by auto
    then have "resolve s1 (GetAbsolutePath root (filepath r)) \<noteq> Some (place b ri)"
      using resolve_row [of root s1 b r] s1 rdat by simp
    from WriteChunk_other_place [OF wr this] ri(2) False show ?thesis by (simp add: held_def h1 [unfolded held_def])
  qed
  have same: "\<exists>n \<ge> upload_size q. Some q = Some (q\<lparr>upload_size := n\<rparr>)" for q :: FileInfo
    by (intro exI [of _ "upload_size q"]) simp
  have "upload_inv root b C i (w\<lparr>storage_disk := s1\<rparr>)" "upload_inv root b C i (w\<lparr>storage_disk := s2\<rparr>)"
    using rows s1 o1 frame ri keep by (auto simp: upload_inv_def h1)
  moreover have "advances b i w (w\<lparr>storage_disk := s1\<rparr>)" "advances b i w (w\<lparr>storage_disk := s2\<rparr>)"
    using ri keep same by (auto simp: advances_def h1)
  ultimately show ?thesis using keep by blast
qed

text \<open>A confirmation of a chunk that is on the disk.\<close>

lemma confirm_rows:
  assumes "rows_ok d" and "0 \<le> sz" and c: "FileDAO_ConfirmUploadChunk d j u off sz = (d', ok)"
  shows "rows_ok d' \<and> (\<forall>k r. file_row d k = Some r \<longrightarrow> (\<exists>n \<ge> upload_size r. file_row d' k = Some (r\<lparr>upload_size := n\<rparr>)
      \<and> (n \<noteq> upload_size r \<longrightarrow> k = j \<and> n = off + sz \<and> upload_size r = off)))
    \<and> (ok \<longrightarrow> (\<exists>r. file_row d' j = Some r \<and> off + sz \<le> upload_size r))"
proof -
  have inv: "files_inv d" "progress d" using assms(1) by (auto simp: rows_ok_def)
  note safe = confirm_chunk_safe [OF inv assms(2) c]
  have rows: "file_rows d' = file_rows d \<or> file_rows d' = file_rows (confirm_db d j u off sz)"
    using confirm_cases [OF inv(1) c] by blast
  have us: "users d' = users d"
    using c by (auto simp: FileDAO_ConfirmUploadChunk_def Let_def case_prod_unfold update_files_def FileDAO_FindById_def
        split: if_splits option.splits)
  have "map filepath (file_rows d') = map filepath (file_rows d)"
    using rows by (auto simp: confirm_db_def update_files_def)
  moreover have "\<forall>r \<in> set (file_rows d'). file_clean r \<and> utf8 (filepath r) \<and> i64 (filesize r) \<and> row_path r"
    using rows assms(1) by (auto simp: rows_ok_def confirm_db_def update_files_def file_clean_def file_fits_def
        row_path_def row_name_def)
  ultimately have "rows_ok d'" using safe us assms(1) by (auto simp: rows_ok_def)
  moreover have "\<exists>n \<ge> upload_size r. file_row d' k = Some (r\<lparr>upload_size := n\<rparr>)
      \<and> (n \<noteq> upload_size r \<longrightarrow> k = j \<and> n = off + sz \<and> upload_size r = off)" if "file_row d k = Some r" for k r
  proof -
    have "file_row d' k = file_row d k \<or> file_row d' k = file_row (confirm_db d j u off sz) k"
      using rows by (auto simp: file_row_def)
    then show ?thesis
    proof
      assume "file_row d' k = file_row d k"
      with that show ?thesis by (intro exI [of _ "upload_size r"]) simp
    next
      assume k: "file_row d' k = file_row (confirm_db d j u off sz) k"
      show ?thesis
      proof (cases "fid r = j \<and> confirms r u off sz")
        case True
        with k that file_row_set [OF that] assms(2) show ?thesis
          by (intro exI [of _ "off + sz"]) (auto simp: confirm_db_row confirms_def)
      next
        case False
        with k that show ?thesis by (intro exI [of _ "upload_size r"]) (auto simp: confirm_db_row)
      qed
    qed
  qed
  moreover have "\<exists>r. file_row d' j = Some r \<and> off + sz \<le> upload_size r" if ok
  proof -
    from safe that obtain r where r: "r \<in> set (file_rows d')" "fid r = j" "off + sz \<le> upload_size r" by blast
    with find_key [of fid "file_rows d'" r] safe show ?thesis by (auto simp: file_row_def files_inv_def)
  qed
  ultimately show ?thesis by blast
qed

lemma confirm_step:
  assumes inv: "upload_inv root b C i w" and "0 \<le> sz"
    and c: "FileDAO_ConfirmUploadChunk (cdb w) j u off sz = (d', ok)"
    and stored: "j = i \<Longrightarrow> \<exists>r. file_row (cdb w) i = Some r \<and> off + sz \<le> int (length (held (storage_disk w) (place b r)))"
  shows "upload_inv root b C i (w\<lparr>cdb := d'\<rparr>) \<and> advances b i w (w\<lparr>cdb := d'\<rparr>)"
proof -
  obtain r where r: "file_row (cdb w) i = Some r" "prefix (held (storage_disk w) (place b r)) C"
      "upload_size r \<le> int (length (held (storage_disk w) (place b r)))" and rows: "rows_ok (cdb w)"
    using inv by (auto simp: upload_inv_def)
  note rs = confirm_rows [OF rows assms(2) c]
  then obtain n where n: "file_row d' i = Some (r\<lparr>upload_size := n\<rparr>)" "n \<noteq> upload_size r \<longrightarrow> i = j \<and> n = off + sz"
    using r(1) by blast
  have "n \<le> int (length (held (storage_disk w) (place b r)))"
    using n(2) r stored by (cases "n = upload_size r") auto
  with rs n(1) r inv have "upload_inv root b C i (w\<lparr>cdb := d'\<rparr>)" by (simp add: upload_inv_def)
  moreover have "advances b i w (w\<lparr>cdb := d'\<rparr>)" using rs by (auto simp: advances_def)
  ultimately show ?thesis ..
qed

section \<open>The calls of a chunk\<close>

lemma failure_fields:
  assumes "json_ok J" and "failure v"
  obtains c s where "c \<noteq> 0" "value_code J (den J v) = Inr c" "\<And>d. value_string J (den J v) ''msg'' d = Inr s"
    "c \<in> {-1, -2, -3}" "v = JObj [(''code'', JInt c), (''msg'', JStr s)]"
proof -
  obtain c s where v: "v = JObj [(''code'', JInt c), (''msg'', JStr s)]" "c \<in> {-1, -2, -3}"
    using assms(2) by (auto simp: failure_def)
  have "value_int J (den J v) ''code'' (-1) = Inr c"
    unfolding v(1) by (rule json_intD(3) [OF assms(1)]) (use v(2) in auto)
  moreover have "to_int c = c" using v(2) by (intro to_int_small) auto
  ultimately have "value_code J (den J v) = Inr c" by (simp add: value_code_def)
  moreover have "value_string J (den J v) ''msg'' d = Inr s" for d
    unfolding v(1) by (rule json_stringD(4) [OF assms(1)]) auto
  moreover have "c \<noteq> 0" using v(2) by auto
  ultimately show ?thesis using that v by blast
qed

lemma ok_fields:
  assumes "json_ok J" and "distinct (map fst kvs)" and "map_of kvs ''code'' = Some (JInt c)" and "c = 0 \<or> c = -1"
  shows "value_code J (den J (JObj kvs)) = Inr c"
proof -
  have "value_int J (den J (JObj kvs)) ''code'' (-1) = Inr c"
    by (rule json_intD(3) [OF assms(1-3)]) (use assms(4) in auto)
  moreover have "to_int c = c" using assms(4) by (intro to_int_small) auto
  ultimately show ?thesis by (simp add: value_code_def)
qed

text \<open>A method that only one of the processes has.\<close>

definition served_by :: "string \<Rightarrow> process \<Rightarrow> bool" where
  "served_by method p \<longleftrightarrow> (method, p) \<in> {(''VerifyToken'', UserProc), (''PrepareUploadChunk'', FileProc),
     (''ConfirmUploadChunk'', FileProc), (''UploadFinalize'', FileProc), (''WriteChunk'', StorageProc)}"

lemma not_served:
  assumes "served_by method p" and "q \<noteq> p"
  shows "call_method J what (methods_of J D q) w method m
    = (w, den J (JObj [(''code'', JInt (-2)), (''msg'', JStr (text_unknown_method @ method))]))"
  using assms by (intro call_unknown; cases q) (auto simp: served_by_def method_tables)

lemma served_utf8: "served_by method p \<Longrightarrow> utf8 method"
  by (auto simp: served_by_def ascii_utf8)

lemma unknown_failure: "failure (JObj [(''code'', JInt (-2)), (''msg'', JStr s)])"
  by (simp add: failure_def)

lemma call_served:
  assumes "binary_methods ms method = None" and "methods ms method = Some f"
    and "f w (GetJson J m) (binary_data m) = (w', Inr r)"
  shows "call_method J what ms w method m = (w', r)"
  using assms by (simp add: call_method_def)

lemma call_served_binary:
  assumes "binary_methods ms method = Some f" and "f w (GetJson J m) (binary_data m) = (w', Inr r)"
  shows "call_method J what ms w method m = (w', r)"
  using assms by (simp add: call_method_def)

lemma method_tables_lookup:
  "methods (methods_of J D UserProc) ''VerifyToken'' = Some (\<lambda>s j b. rpc_VerifyToken J s j)"
  "methods (methods_of J D FileProc) ''PrepareUploadChunk'' = Some (\<lambda>s j b. rpc_PrepareUploadChunk J s j)"
  "methods (methods_of J D FileProc) ''ConfirmUploadChunk'' = Some (\<lambda>s j b. rpc_ConfirmUploadChunk J s j)"
  "methods (methods_of J D FileProc) ''UploadFinalize'' = Some (\<lambda>s j b. rpc_UploadFinalize J (exn_text D) (storage_root D) s j)"
  "binary_methods (methods_of J D UserProc) = Map.empty" "binary_methods (methods_of J D FileProc) = Map.empty"
  "binary_methods (methods_of J D StorageProc) ''WriteChunk'' = Some (rpc_WriteChunk J (storage_root D))"
  by (simp_all add: method_tables)

text \<open>A call whose method, where there is one, ends with a result that satisfies \<open>Q\<close>.\<close>

lemma CallRpc_served:
  assumes J: "json_ok J" and kvs: "js_valid (JObj kvs)" and p: "served_by method p"
    and call: "CallRpc J D w service method (den J (JObj kvs)) bin = (w', x)"
    and lost: "\<And>xs v. failure v \<Longrightarrow> Q (w\<lparr>outcomes := xs\<rparr>) v"
    and served: "\<And>xs. \<exists>w1 v. js_valid v \<and> Q w1 v \<and> (\<forall>v'. failure v' \<longrightarrow> Q w1 v') \<and>
      (\<forall>m. GetJson J m = den J (JObj (with_method method kvs)) \<and> binary_data m = bin \<longrightarrow>
        call_method J (exn_text D) (methods_of J D p) (w\<lparr>outcomes := xs\<rparr>) method m = (w1, den J v))"
  shows "(\<exists>e. x = Inl e \<and> w' = w) \<or> (\<exists>v. x = Inr (den J v) \<and> Q w' v)"
proof (rule CallRpc_rule [OF J kvs served_utf8 [OF p] call, where Q = Q])
  show "Q (w\<lparr>outcomes := xs\<rparr>) v" if "failure v" for xs v by (rule lost [OF that])
  fix xs q
  show "\<exists>w1 v. js_valid v \<and> Q w1 v \<and> (\<forall>v'. failure v' \<longrightarrow> Q w1 v') \<and>
      (\<forall>m. GetJson J m = den J (JObj (with_method method kvs)) \<and> binary_data m = bin \<longrightarrow>
        call_method J (exn_text D) (methods_of J D q) (w\<lparr>outcomes := xs\<rparr>) method m = (w1, den J v))"
  proof (cases "q = p")
    case False
    let ?u = "JObj [(''code'', JInt (-2)), (''msg'', JStr (text_unknown_method @ method))]"
    show ?thesis
      using not_served [OF p False] lost [OF unknown_failure] lost unknown_valid [OF served_utf8 [OF p]]
      by (intro exI [of _ "w\<lparr>outcomes := xs\<rparr>"] exI [of _ ?u]) blast
  qed (use served [of xs] in blast)
qed

definition quiet :: "cluster \<Rightarrow> cluster \<Rightarrow> bool" where
  "quiet w w' \<longleftrightarrow> same_tables (cdb w) (cdb w') \<and> storage_disk w' = storage_disk w"

lemma quiet_outcomes [simp]: "quiet w (w\<lparr>outcomes := xs\<rparr>)"
  by (simp add: quiet_def)

lemma call_VerifyToken:
  assumes J: "json_ok J" and "utf8 tok" and ids: "\<forall>x \<in> set (users (cdb w)). i64 (uid x)"
    and call: "CallRpc J D w service ''VerifyToken'' (den J (JObj [(''token'', JStr tok)])) [] = (w', x)"
  shows "(\<exists>e. x = Inl e \<and> w' = w) \<or> (\<exists>v. x = Inr (den J v) \<and> quiet w w' \<and>
    (\<exists>u. i64 u \<and> u \<in> {0, snd (VerifyToken (cdb w) tok)} \<and> value_int J (den J v) ''user_id'' 0 = Inr u))"
proof -
  define Q where "Q = (\<lambda>w' v. quiet w w' \<and> (\<exists>u. i64 u \<and> u \<in> {0, snd (VerifyToken (cdb w) tok)} \<and> value_int J (den J v) ''user_id'' 0 = Inr u))"
  have none: "quiet w w1 \<Longrightarrow> failure v \<Longrightarrow> Q w1 v" for w1 v
  proof -
    assume q: "quiet w w1" and "failure v"
    then obtain c s where v: "v = JObj [(''code'', JInt c), (''msg'', JStr s)]" by (auto simp: failure_def)
    have "value_int J (den J v) ''user_id'' 0 = Inr 0" unfolding v by (rule json_missingD(2) [OF J]) simp
    with q show ?thesis unfolding Q_def by (intro conjI exI [of _ 0]) simp_all
  qed
  have "(\<exists>e. x = Inl e \<and> w' = w) \<or> (\<exists>v. x = Inr (den J v) \<and> Q w' v)"
  proof (rule CallRpc_served [OF J _ _ call])
    show "js_valid (JObj [(''token'', JStr tok)])" using assms(2) by (auto simp: ascii_utf8)
    show "served_by ''VerifyToken'' UserProc" by (simp add: served_by_def)
    show "Q (w\<lparr>outcomes := xs\<rparr>) v" if "failure v" for xs v using that by (simp add: none)
    fix xs
    obtain d' u where d: "VerifyToken (cdb w) tok = (d', u)" by fastforce
    note vt = VerifyToken_any [OF d ids]
    let ?w1 = "w\<lparr>cdb := d', outcomes := xs\<rparr>" and ?v = "JObj [(''code'', JInt (if 0 < u then 0 else -1)), (''user_id'', JInt u)]"
    have run: "call_method J (exn_text D) (methods_of J D UserProc) (w\<lparr>outcomes := xs\<rparr>) ''VerifyToken'' m = (?w1, den J ?v)"
      if "GetJson J m = den J (JObj (with_method ''VerifyToken'' [(''token'', JStr tok)]))" for m
    proof (rule call_served [OF _ method_tables_lookup(1)])
      have "value_string J (GetJson J m) ''token'' [] = Inr tok"
        unfolding that by (rule json_stringD(4) [OF J]) (simp_all add: with_method_simps)
      with d show "rpc_VerifyToken J (w\<lparr>outcomes := xs\<rparr>) (GetJson J m) = (?w1, Inr (den J ?v))"
        by (simp add: rpc_VerifyToken_def on_db_def den_obj)
    qed (simp add: method_tables)
    have "value_int J (den J ?v) ''user_id'' 0 = Inr u" by (rule json_intD(3) [OF J]) (use vt in auto)
    moreover have "quiet w ?w1" using vt by (simp add: quiet_def)
    ultimately have "Q ?w1 ?v" using vt d unfolding Q_def by (intro conjI exI [of _ u]) simp_all
    moreover have "js_valid ?v" using vt by (auto simp: ascii_utf8)
    ultimately show "\<exists>w1 v. js_valid v \<and> Q w1 v \<and> (\<forall>v'. failure v' \<longrightarrow> Q w1 v') \<and>
        (\<forall>m. GetJson J m = den J (JObj (with_method ''VerifyToken'' [(''token'', JStr tok)])) \<and> binary_data m = [] \<longrightarrow>
          call_method J (exn_text D) (methods_of J D UserProc) (w\<lparr>outcomes := xs\<rparr>) ''VerifyToken'' m = (w1, den J v))"
      using run none [OF \<open>quiet w ?w1\<close>] by (intro exI [of _ ?w1] exI [of _ ?v]) blast
  qed
  then show ?thesis unfolding Q_def .
qed

text \<open>The row a check admits.\<close>

definition admits :: "db \<Rightarrow> int \<Rightarrow> int \<Rightarrow> int \<Rightarrow> int \<Rightarrow> FileInfo \<Rightarrow> bool" where
  "admits d j u off sz r \<longleftrightarrow> file_row d j = Some r \<and> fuser_id r = u \<and> chunk_fits r off sz"

lemma chunk_fields_method: "chunk_fields kvs j u off sz \<Longrightarrow> chunk_fields (with_method method kvs) j u off sz"
  by (simp add: chunk_fields_def with_method_simps)

lemma validate_any:
  assumes J: "json_ok J" and rows: "rows_ok (cdb w)" and c: "chunk_fields kvs j u off sz"
  obtains d' y where "validate_chunk J w (den J (JObj kvs)) = (w\<lparr>cdb := d'\<rparr>, Inr y)" "same_tables (cdb w) d'"
    "\<And>r. y = Some r \<Longrightarrow> admits (cdb w) j u off sz r"
proof -
  obtain d' x where f: "FileDAO_FindById (cdb w) j = (d', x)" by fastforce
  note fa = FindById_any [OF rows f]
  have rej: "chunk_rejected r off sz \<longleftrightarrow> \<not> chunk_fits r off sz" if "x = Some r" for r
  proof -
    have "file_row (cdb w) j = Some r" using fa that by auto
    then have "r \<in> set (file_rows (cdb w))" by (simp add: file_row_set)
    then have "i64 (filesize r)" using rows by (auto simp: rows_ok_def)
    then show ?thesis using c by (intro chunk_rejected_iff) (simp_all add: chunk_fields_def)
  qed
  let ?y = "case x of None \<Rightarrow> None | Some r \<Rightarrow> if fuser_id r = u \<and> chunk_fits r off sz then Some r else None"
  have "validate_chunk J w (den J (JObj kvs)) = (w\<lparr>cdb := d'\<rparr>, Inr ?y)"
    using f rej by (cases x) (simp_all add: validate_chunk_def chunk_fields_at [OF J c] on_db_def)
  moreover have "admits (cdb w) j u off sz r" if "?y = Some r" for r
  proof -
    have "x = Some r \<and> fuser_id r = u \<and> chunk_fits r off sz" using that by (cases x) (auto split: if_splits)
    with fa show ?thesis by (auto simp: admits_def)
  qed
  ultimately show ?thesis using that fa by blast
qed

definition prepared_value :: "FileInfo \<Rightarrow> js" where
  "prepared_value r = JObj [(''code'', JInt 0), (''filepath'', JStr (filepath r)), (''upload_size'', JInt (upload_size r))]"

lemma rows_i64: "rows_ok d \<Longrightarrow> r \<in> set (file_rows d) \<Longrightarrow> i64 (upload_size r)"
  by (fastforce simp: rows_ok_def progress_def)

lemma call_Prepare:
  assumes J: "json_ok J" and kvs: "js_valid (JObj kvs)" "chunk_fields kvs j u off sz" and rows: "rows_ok (cdb w)"
    and call: "CallRpc J D w service ''PrepareUploadChunk'' (den J (JObj kvs)) [] = (w', x)"
  shows "(\<exists>e. x = Inl e \<and> w' = w) \<or> (\<exists>v. x = Inr (den J v) \<and>
    quiet w w' \<and> (failure v \<or> (\<exists>r. v = prepared_value r \<and> admits (cdb w) j u off sz r)))"
proof (rule CallRpc_served [OF J kvs(1) _ call,
      where Q = "\<lambda>w' v. quiet w w' \<and> (failure v \<or> (\<exists>r. v = prepared_value r \<and> admits (cdb w) j u off sz r))"])
  show "served_by ''PrepareUploadChunk'' FileProc" by (simp add: served_by_def)
  fix xs
  let ?w = "w\<lparr>outcomes := xs\<rparr>" and ?args = "JObj (with_method ''PrepareUploadChunk'' kvs)"
  obtain d' y where y: "validate_chunk J ?w (den J ?args) = (?w\<lparr>cdb := d'\<rparr>, Inr y)" "same_tables (cdb w) d'"
    "\<And>r. y = Some r \<Longrightarrow> admits (cdb w) j u off sz r"
    using validate_any [OF J _ chunk_fields_method [OF kvs(2)], of ?w] rows by auto
  define v where "v = (case y of None \<Rightarrow> JObj [(''code'', JInt (-1)), (''msg'', JStr text_invalid_chunk)] | Some r \<Rightarrow> prepared_value r)"
  have run: "call_method J (exn_text D) (methods_of J D FileProc) ?w ''PrepareUploadChunk'' m = (?w\<lparr>cdb := d'\<rparr>, den J v)"
    if "GetJson J m = den J ?args" for m
  proof (rule call_served [OF _ method_tables_lookup(2)])
    show "rpc_PrepareUploadChunk J ?w (GetJson J m) = (?w\<lparr>cdb := d'\<rparr>, Inr (den J v))"
      unfolding that rpc_PrepareUploadChunk_def y(1) by (cases y) (simp_all add: v_def prepared_value_def den_obj)
  qed (simp add: method_tables)
  have val: "js_valid v"
  proof (cases y)
    case None
    then show ?thesis by (simp add: v_def utf8_def text_invalid_chunk_def)
  next
    case (Some r)
    then have "r \<in> set (file_rows (cdb w))" using y(3) by (auto simp: admits_def dest: file_row_set)
    with rows rows_i64 [OF rows this] show ?thesis by (auto simp: Some v_def prepared_value_def rows_ok_def ascii_utf8)
  qed
  have q: "quiet w (?w\<lparr>cdb := d'\<rparr>) \<and> (failure v \<or> (\<exists>r. v = prepared_value r \<and> admits (cdb w) j u off sz r))"
    using y(2,3) by (auto simp: quiet_def v_def failure_def split: option.splits)
  show "\<exists>w1 v. js_valid v \<and> (quiet w w1 \<and> (failure v \<or> (\<exists>r. v = prepared_value r \<and> admits (cdb w) j u off sz r))) \<and>
      (\<forall>v'. failure v' \<longrightarrow> quiet w w1 \<and> (failure v' \<or> (\<exists>r. v' = prepared_value r \<and> admits (cdb w) j u off sz r))) \<and>
      (\<forall>m. GetJson J m = den J ?args \<and> binary_data m = [] \<longrightarrow>
        call_method J (exn_text D) (methods_of J D FileProc) ?w ''PrepareUploadChunk'' m = (w1, den J v))"
    using run val q by (intro exI [of _ "?w\<lparr>cdb := d'\<rparr>"] exI [of _ v]) blast
qed simp

definition written_value :: "int \<Rightarrow> int \<Rightarrow> js" where
  "written_value sz n = JObj [(''code'', JInt (if n = sz then 0 else -1)), (''written'', JInt n)]"

text \<open>What is known of a write: it stays within the invariant, and a full count means the chunk is there.\<close>

definition write_outcome :: "string \<Rightarrow> path \<Rightarrow> bytes \<Rightarrow> int \<Rightarrow> cluster \<Rightarrow> int \<Rightarrow> FileInfo \<Rightarrow> int \<Rightarrow> int \<Rightarrow> cluster \<Rightarrow> js \<Rightarrow> bool" where
  "write_outcome root b C i w j r off sz w' v \<longleftrightarrow> upload_inv root b C i w' \<and> advances b i w w' \<and> cdb w' = cdb w
     \<and> (failure v \<or> (\<exists>n. i64 n \<and> v = written_value sz n
          \<and> (j = i \<and> n = sz \<longrightarrow> off + sz \<le> int (length (held (storage_disk w') (place b r))))))"

lemma rpc_WriteChunk_any:
  assumes at: "at_string J args ''filepath'' = Inr p" "at_int J args ''user_id'' = Inr u" "at_int J args ''offset'' = Inr off"
      "at_int J args ''size'' = Inr (int (length data))"
    and c: "CreateUserDir base (storage_disk w) u = (s1, created)" and wr: "WriteChunk base s1 p data off = (s2, n)"
  shows "rpc_WriteChunk J base w args data \<in>
    {(w, Inr (den J (JObj [(''code'', JInt (-1)), (''msg'', JStr text_invalid_write)]))),
     (w\<lparr>storage_disk := s1\<rparr>, Inr (den J (JObj [(''code'', JInt (-1)), (''msg'', JStr text_invalid_write)]))),
     (w\<lparr>storage_disk := s2\<rparr>, Inr (den J (written_value (int (length data)) n)))}"
proof -
  have m: "on_storage w (\<lambda>s. CreateUserDir base s u) = (w\<lparr>storage_disk := s1\<rparr>, created)"
    "on_storage (w\<lparr>storage_disk := s1\<rparr>) (\<lambda>s. WriteChunk base s p data off) = (w\<lparr>storage_disk := s2\<rparr>, n)"
    using c wr by (simp_all add: on_storage_def)
  show ?thesis
    by (simp add: rpc_WriteChunk_def at m Let_def written_value_def den_obj)
qed

lemma advances_refl [simp]: "advances b i w w"
  unfolding advances_def by (auto intro: exI [of _ "upload_size _"])

lemma upload_inv_outcomes [simp]: "upload_inv root b C i (w\<lparr>outcomes := xs\<rparr>) = upload_inv root b C i w"
  by (simp add: upload_inv_def)

lemma advances_outcomes [simp]: "advances b i w (w'\<lparr>outcomes := xs\<rparr>) = advances b i w w'"
  by (simp add: advances_def)

lemma CreateUserDir_state: "WriteChunk base s p data off = (s', n) \<Longrightarrow> n = -1 \<or> n = int (length data)"
  by (auto simp: WriteChunk_def Let_def case_prod_unfold split: if_splits option.splits)

lemma call_Write:
  assumes J: "json_ok J" and kvs: "js_valid (JObj (write_args (filepath r) u off (int (length data))))"
    and inv: "upload_inv root b C i w" and row: "file_row (cdb w) j = Some r" and "0 \<le> off"
    and fit: "j = i \<Longrightarrow> off \<le> upload_size r \<and> slice C off data" and root: "storage_root D = root"
    and call: "CallRpc J D w service ''WriteChunk'' (den J (JObj (write_args (filepath r) u off (int (length data))))) data = (w', x)"
  shows "(\<exists>e. x = Inl e \<and> w' = w) \<or> (\<exists>v. x = Inr (den J v) \<and> write_outcome root b C i w j r off (int (length data)) w' v)"
proof (rule CallRpc_served [OF J kvs _ call, where Q = "write_outcome root b C i w j r off (int (length data))"])
  show "served_by ''WriteChunk'' StorageProc" by (simp add: served_by_def)
  show "write_outcome root b C i w j r off (int (length data)) (w\<lparr>outcomes := xs\<rparr>) v" if "failure v" for xs v
    using that inv by (simp add: write_outcome_def)
  fix xs
  let ?sz = "int (length data)" and ?w = "w\<lparr>outcomes := xs\<rparr>"
  let ?args = "JObj (with_method ''WriteChunk'' (write_args (filepath r) u off (int (length data))))"
  let ?bad = "JObj [(''code'', JInt (-1)), (''msg'', JStr text_invalid_write)]"
  obtain s1 created where c: "CreateUserDir root (storage_disk w) u = (s1, created)" by fastforce
  obtain s2 n where wr: "WriteChunk root s1 (filepath r) data off = (s2, n)" by fastforce
  note st = write_step [OF inv row assms(5) fit c wr]
  have w1: "upload_inv root b C i (?w\<lparr>storage_disk := s\<rparr>) = upload_inv root b C i (w\<lparr>storage_disk := s\<rparr>)"
    "advances b i w (?w\<lparr>storage_disk := s\<rparr>) = advances b i w (w\<lparr>storage_disk := s\<rparr>)" for s
    by (simp_all add: upload_inv_def advances_def)
  have d: "distinct (map fst (with_method ''WriteChunk'' (write_args (filepath r) u off ?sz)))"
    by (rule with_method_simps(2)) (simp add: write_args_def)
  have at1: "at_string J (den J ?args) ''filepath'' = Inr (filepath r)"
    by (rule json_stringD(3) [OF J d]) (simp add: with_method_simps write_args_def)
  have at2: "at_int J (den J ?args) ''user_id'' = Inr u" "at_int J (den J ?args) ''offset'' = Inr off"
    "at_int J (den J ?args) ''size'' = Inr ?sz"
    by (rule json_intD(2) [OF J d]; use kvs in \<open>simp add: with_method_simps write_args_def\<close>)+
  note at = at1 at2
  have i64: "i64 ?sz" using kvs by (simp add: write_args_def)
  then have n: "i64 n" using CreateUserDir_state [OF wr] by auto
  have wo: "write_outcome root b C i w j r off ?sz (?w\<lparr>storage_disk := s2\<rparr>) (written_value ?sz n)"
    using st n by (auto simp: write_outcome_def w1)
  have fo: "write_outcome root b C i w j r off ?sz w2 v" if "failure v" "w2 \<in> {?w, ?w\<lparr>storage_disk := s1\<rparr>, ?w\<lparr>storage_disk := s2\<rparr>}" for v w2
    using that st inv by (auto simp: write_outcome_def w1)
  have bad: "failure ?bad" "js_valid ?bad"
    by (simp_all add: failure_def utf8_def text_invalid_write_def)
  have vn: "js_valid (written_value ?sz n)" using n by (auto simp: written_value_def ascii_utf8)
  have "\<exists>w1 v. rpc_WriteChunk J root ?w (den J ?args) data = (w1, Inr (den J v)) \<and> js_valid v
      \<and> write_outcome root b C i w j r off ?sz w1 v \<and> (\<forall>v'. failure v' \<longrightarrow> write_outcome root b C i w j r off ?sz w1 v')"
  proof -
    have "rpc_WriteChunk J root ?w (den J ?args) data = (?w, Inr (den J ?bad))
      \<or> rpc_WriteChunk J root ?w (den J ?args) data = (?w\<lparr>storage_disk := s1\<rparr>, Inr (den J ?bad))
      \<or> rpc_WriteChunk J root ?w (den J ?args) data = (?w\<lparr>storage_disk := s2\<rparr>, Inr (den J (written_value ?sz n)))"
      using rpc_WriteChunk_any [OF at, of root ?w s1 created s2 n] c wr by simp
    moreover have "write_outcome root b C i w j r off ?sz w2 ?bad" if "w2 \<in> {?w, ?w\<lparr>storage_disk := s1\<rparr>}" for w2
      using fo [OF bad(1)] that by blast
    ultimately show ?thesis using bad(2) vn wo fo by blast
  qed
  then show "\<exists>w1 v. js_valid v \<and> write_outcome root b C i w j r off ?sz w1 v \<and>
      (\<forall>v'. failure v' \<longrightarrow> write_outcome root b C i w j r off ?sz w1 v') \<and>
      (\<forall>m. GetJson J m = den J ?args \<and> binary_data m = data \<longrightarrow>
        call_method J (exn_text D) (methods_of J D StorageProc) ?w ''WriteChunk'' m = (w1, den J v))"
    using call_served_binary [OF method_tables_lookup(7) [of J D]] root by metis
qed

definition confirmed_upto :: "cluster \<Rightarrow> int \<Rightarrow> int \<Rightarrow> bool" where
  "confirmed_upto w j n \<longleftrightarrow> (\<exists>r. file_row (cdb w) j = Some r \<and> n \<le> upload_size r)"

definition confirm_outcome :: "string \<Rightarrow> path \<Rightarrow> bytes \<Rightarrow> int \<Rightarrow> cluster \<Rightarrow> int \<Rightarrow> int \<Rightarrow> cluster \<Rightarrow> js \<Rightarrow> bool" where
  "confirm_outcome root b C i w j e w' v \<longleftrightarrow> upload_inv root b C i w' \<and> advances b i w w'
     \<and> (failure v \<or> (\<exists>n. i64 n \<and> v = JObj [(''code'', JInt 0), (''upload_size'', JInt n)] \<and> confirmed_upto w' j e))"

lemma advances_row:
  "advances b i w w' \<Longrightarrow> file_row (cdb w) j = Some r \<Longrightarrow>
     \<exists>n \<ge> upload_size r. file_row (cdb w') j = Some (r\<lparr>upload_size := n\<rparr>)"
  unfolding advances_def by blast

lemma advances_held:
  "advances b i w w' \<Longrightarrow> file_row (cdb w) i = Some r \<Longrightarrow>
     length (held (storage_disk w) (place b r)) \<le> length (held (storage_disk w') (place b r))"
  unfolding advances_def by blast

lemma advances_trans:
  assumes 1: "advances b i w1 w2" and 2: "advances b i w2 w3"
  shows "advances b i w1 w3"
  unfolding advances_def
proof (intro conjI allI impI)
  fix j r assume "file_row (cdb w1) j = Some r"
  from advances_row [OF 1 this] obtain n where n: "upload_size r \<le> n" "file_row (cdb w2) j = Some (r\<lparr>upload_size := n\<rparr>)" by blast
  from advances_row [OF 2 n(2)] obtain k where "n \<le> k" "file_row (cdb w3) j = Some (r\<lparr>upload_size := k\<rparr>)" by auto
  with n(1) show "\<exists>n \<ge> upload_size r. file_row (cdb w3) j = Some (r\<lparr>upload_size := n\<rparr>)" by (intro exI [of _ k]) simp
next
  fix r assume r: "file_row (cdb w1) i = Some r"
  from advances_row [OF 1 r] obtain n where "file_row (cdb w2) i = Some (r\<lparr>upload_size := n\<rparr>)" by blast
  from advances_held [OF 2 this] advances_held [OF 1 r]
  show "length (held (storage_disk w1) (place b r)) \<le> length (held (storage_disk w3) (place b r))" by simp
qed

lemma rpc_Confirm_any:
  assumes J: "json_ok J" and c: "chunk_fields kvs j u off sz" and inv: "upload_inv root b C i w"
    and stored: "j = i \<Longrightarrow> \<exists>r. file_row (cdb w) i = Some r \<and> off + sz \<le> int (length (held (storage_disk w) (place b r)))"
  obtains w' v where "rpc_ConfirmUploadChunk J w (den J (JObj kvs)) = (w', Inr (den J v))" "js_valid v"
    "confirm_outcome root b C i w j (off + sz) w' v"
proof -
  have rows: "rows_ok (cdb w)" using inv by (simp add: upload_inv_def)
  have bad: "js_valid (JObj [(''code'', JInt (-1)), (''msg'', JStr s)])" "failure (JObj [(''code'', JInt (-1)), (''msg'', JStr s)])"
    if "s = text_progress_failed \<or> s = text_query_failed" for s
    using that by (auto simp: failure_def utf8_def text_progress_failed_def text_query_failed_def)
  obtain d1 y where y: "validate_chunk J w (den J (JObj kvs)) = (w\<lparr>cdb := d1\<rparr>, Inr y)" "same_tables (cdb w) d1"
    "\<And>r. y = Some r \<Longrightarrow> admits (cdb w) j u off sz r"
    using validate_any [OF J rows c] by blast
  note at = chunk_fields_at [OF J c]
  have s1: "upload_inv root b C i (w\<lparr>cdb := d1\<rparr>) \<and> advances b i w (w\<lparr>cdb := d1\<rparr>)"
    using quiet_step [OF inv] y(2) by simp
  show ?thesis
  proof (cases y)
    case None
    let ?v = "JObj [(''code'', JInt (-1)), (''msg'', JStr text_progress_failed)]"
    have "rpc_ConfirmUploadChunk J w (den J (JObj kvs)) = (w\<lparr>cdb := d1\<rparr>, Inr (den J ?v))"
      unfolding rpc_ConfirmUploadChunk_def y(1) by (simp add: None Let_def den_obj)
    with s1 bad [of text_progress_failed] show ?thesis by (intro that) (auto simp: confirm_outcome_def)
  next
    case (Some r)
    obtain d2 ok where d2: "FileDAO_ConfirmUploadChunk d1 j u off sz = (d2, ok)" by fastforce
    obtain d3 z where d3: "FileDAO_FindById d2 j = (d3, z)" by fastforce
    have "0 \<le> sz" using y(3) [OF Some] by (simp add: admits_def chunk_fits_def)
    have rows1: "rows_ok d1" using s1 by (simp add: upload_inv_def)
    have "\<exists>r. file_row (cdb (w\<lparr>cdb := d1\<rparr>)) i = Some r
        \<and> off + sz \<le> int (length (held (storage_disk (w\<lparr>cdb := d1\<rparr>)) (place b r)))" if "j = i"
      using stored [OF that] same_tables_rows [OF y(2)] by simp
    with confirm_step [OF conjunct1 [OF s1] \<open>0 \<le> sz\<close>, of j u off d2 ok] d2
    have s2: "upload_inv root b C i (w\<lparr>cdb := d2\<rparr>) \<and> advances b i w (w\<lparr>cdb := d2\<rparr>)"
      using s1 by (auto intro: advances_trans)
    have rows2: "rows_ok d2" using s2 by (simp add: upload_inv_def)
    note find = FindById_any [OF rows2 d3]
    have s3: "upload_inv root b C i (w\<lparr>cdb := d3\<rparr>) \<and> advances b i w (w\<lparr>cdb := d3\<rparr>)"
      using quiet_step [OF conjunct1 [OF s2], of "w\<lparr>cdb := d3\<rparr>"] s2 find by (auto intro: advances_trans)
    define v where "v = (if \<not> ok then JObj [(''code'', JInt (-1)), (''msg'', JStr text_progress_failed)]
      else case z of None \<Rightarrow> JObj [(''code'', JInt (-1)), (''msg'', JStr text_query_failed)]
        | Some f \<Rightarrow> JObj [(''code'', JInt 0), (''upload_size'', JInt (upload_size f))])"
    define w' where "w' = w\<lparr>cdb := if ok then d3 else d2\<rparr>"
    have run: "rpc_ConfirmUploadChunk J w (den J (JObj kvs)) = (w', Inr (den J v))"
    proof (cases ok)
      case True
      show ?thesis unfolding rpc_ConfirmUploadChunk_def y(1) at
        by (cases z) (simp_all add: True Some Let_def on_db_def d2 d3 v_def w'_def den_obj)
    next
      case False
      show ?thesis unfolding rpc_ConfirmUploadChunk_def y(1) at
        by (simp add: False Some Let_def on_db_def d2 v_def w'_def den_obj)
    qed
    have row: "file_row d2 j = Some f" if "z = Some f" for f using find that by auto
    have conf: "confirmed_upto w' j (off + sz)" if "ok" "z = Some f" for f
    proof -
      have "\<exists>r. file_row d2 j = Some r \<and> off + sz \<le> upload_size r" using confirm_rows [OF rows1 \<open>0 \<le> sz\<close> d2] that(1) by blast
      with same_tables_rows [OF conjunct1 [OF find]] that show ?thesis by (simp add: confirmed_upto_def w'_def)
    qed
    have i64: "i64 (upload_size f)" if "z = Some f" for f
      using rows_i64 [OF rows2] file_row_set [OF row [OF that]] by blast
    have "js_valid v" using bad i64 by (auto simp: v_def ascii_utf8 split: option.splits)
    moreover have "confirm_outcome root b C i w j (off + sz) w' v"
    proof (cases "ok \<and> z \<noteq> None")
      case True
      then obtain f where "z = Some f" by blast
      with True i64 conf s3 show ?thesis by (simp add: confirm_outcome_def v_def w'_def)
    next
      case False
      then have "failure v" using bad(2) by (auto simp: v_def split: option.splits)
      with s2 s3 show ?thesis by (simp add: confirm_outcome_def w'_def)
    qed
    ultimately show ?thesis using that run by blast
  qed
qed

lemma call_Confirm:
  assumes J: "json_ok J" and kvs: "js_valid (JObj kvs)" "chunk_fields kvs j u off sz" and inv: "upload_inv root b C i w"
    and stored: "j = i \<Longrightarrow> \<exists>r. file_row (cdb w) i = Some r \<and> off + sz \<le> int (length (held (storage_disk w) (place b r)))"
    and call: "CallRpc J D w service ''ConfirmUploadChunk'' (den J (JObj kvs)) [] = (w', x)"
  shows "(\<exists>e. x = Inl e \<and> w' = w) \<or> (\<exists>v. x = Inr (den J v) \<and> confirm_outcome root b C i w j (off + sz) w' v)"
proof (rule CallRpc_served [OF J kvs(1) _ call, where Q = "confirm_outcome root b C i w j (off + sz)"])
  show "served_by ''ConfirmUploadChunk'' FileProc" by (simp add: served_by_def)
  show "confirm_outcome root b C i w j (off + sz) (w\<lparr>outcomes := xs\<rparr>) v" if "failure v" for xs v
    using that inv by (simp add: confirm_outcome_def)
  fix xs
  let ?w = "w\<lparr>outcomes := xs\<rparr>" and ?args = "JObj (with_method ''ConfirmUploadChunk'' kvs)"
  obtain w1 v where r: "rpc_ConfirmUploadChunk J ?w (den J ?args) = (w1, Inr (den J v))" "js_valid v"
    "confirm_outcome root b C i ?w j (off + sz) w1 v"
    using rpc_Confirm_any [OF J chunk_fields_method [OF kvs(2)], of root b C i ?w] inv stored by auto
  have "confirm_outcome root b C i w j (off + sz) w1 v'" if "v' = v \<or> failure v'" for v'
    using r(3) that by (auto simp: confirm_outcome_def advances_def)
  moreover have "call_method J (exn_text D) (methods_of J D FileProc) ?w ''ConfirmUploadChunk'' m = (w1, den J v)"
    if "GetJson J m = den J ?args" for m
    by (rule call_served [OF _ method_tables_lookup(3)]) (use r(1) that in \<open>simp_all add: method_tables\<close>)
  ultimately show "\<exists>w1 v. js_valid v \<and> confirm_outcome root b C i w j (off + sz) w1 v \<and>
      (\<forall>v'. failure v' \<longrightarrow> confirm_outcome root b C i w j (off + sz) w1 v') \<and>
      (\<forall>m. GetJson J m = den J ?args \<and> binary_data m = [] \<longrightarrow>
        call_method J (exn_text D) (methods_of J D FileProc) ?w ''ConfirmUploadChunk'' m = (w1, den J v))"
    using r(2) by blast
qed

section \<open>The workers\<close>

text \<open>A request that carries a chunk: of file \<open>i\<close> a slice of its content, of any other file anything.\<close>

definition chunk_request :: "'j json_ops \<Rightarrow> bytes \<Rightarrow> int \<Rightarrow> Message \<Rightarrow> int \<Rightarrow> int \<Rightarrow> bool" where
  "chunk_request J C i req j off \<longleftrightarrow> (\<exists>kvs tok. GetJson J req = den J (JObj kvs) \<and> js_valid (JObj kvs)
       \<and> map_of kvs ''cmd'' = Some (JStr ''upload_data'') \<and> map_of kvs ''token'' = Some (JStr tok)
       \<and> map_of kvs ''file_id'' = Some (JInt j) \<and> map_of kvs ''offset'' = Some (JInt off))
     \<and> length (binary_data req) < 2 ^ 63 \<and> (j = i \<longrightarrow> slice C off (binary_data req))"

abbreviation chunk_size :: "Message \<Rightarrow> int" where
  "chunk_size req \<equiv> int (length (binary_data req))"

text \<open>A reply that tells the client that all went well.\<close>

definition accepted :: "'j json_ops \<Rightarrow> cpp_exn + Message \<Rightarrow> bool" where
  "accepted J x \<longleftrightarrow> (\<exists>resp cr. x = Inr resp \<and> response_of J resp = Inr cr \<and> is_ok cr)"

text \<open>Where a worker can be with its chunk, and what it knows there.\<close>

inductive at_work :: "'j json_ops \<Rightarrow> path \<Rightarrow> int \<Rightarrow> cluster \<Rightarrow> Message \<Rightarrow> int \<Rightarrow> int \<Rightarrow> 'j handling \<Rightarrow> bool"
  for J b i w req j off where
  Asking: "utf8 tok \<Longrightarrow> at_work J b i w req j off
    (Rpc ''UserService'' ''VerifyToken'' (den J (JObj [(''token'', JStr tok)])) [] (\<lambda>r. arg (value_int J r ''user_id'' 0)
      (\<lambda>user_id. if user_id \<le> 0 then Reply (Gateway_MakeResponse J req (-1) text_auth_failed (null J) [])
         else upload_user J req user_id)))"
| Checking: "i64 u \<Longrightarrow> at_work J b i w req j off
    (Rpc ''FileService'' ''PrepareUploadChunk'' (den J (JObj (chunk_args j u off (chunk_size req)))) []
      (upload_prepared J req u (den J (JObj (chunk_args j u off (chunk_size req)))) off (chunk_size req)))"
| Writing: "i64 u \<Longrightarrow> file_row (cdb w) j = Some r \<Longrightarrow> utf8 (filepath r) \<Longrightarrow> 0 \<le> off \<Longrightarrow> off \<le> upload_size r \<Longrightarrow>
    at_work J b i w req j off
    (Rpc ''StorageService'' ''WriteChunk'' (den J (JObj (write_args (filepath r) u off (chunk_size req)))) (binary_data req)
      (upload_written J req (den J (JObj (chunk_args j u off (chunk_size req)))) (chunk_size req)))"
| Confirming: "i64 u \<Longrightarrow> (j = i \<Longrightarrow> \<exists>r. file_row (cdb w) i = Some r
      \<and> off + chunk_size req \<le> int (length (held (storage_disk w) (place b r)))) \<Longrightarrow>
    at_work J b i w req j off
    (Rpc ''FileService'' ''ConfirmUploadChunk'' (den J (JObj (chunk_args j u off (chunk_size req)))) []
      (upload_confirmed J req (chunk_size req)))"
| Finished: "(accepted J x \<Longrightarrow> confirmed_upto w j (off + chunk_size req)) \<Longrightarrow> at_work J b i w req j off (Reply x)"

inductive_cases at_work_RpcE: "at_work J b i w req j off (Rpc s m args bin k)"
inductive_simps at_work_Reply: "at_work J b i w req j off (Reply x)"

lemma confirmed_mono: "advances b i w w' \<Longrightarrow> confirmed_upto w j n \<Longrightarrow> confirmed_upto w' j n"
  using advances_row by (fastforce simp: confirmed_upto_def)

lemma at_work_mono:
  assumes a: "advances b i w w'" and "at_work J b i w req j off h"
  shows "at_work J b i w' req j off h"
  using assms(2)
proof cases
  case (Writing u r)
  from advances_row [OF a Writing(3)] obtain n where
    "upload_size r \<le> n" "file_row (cdb w') j = Some (r\<lparr>upload_size := n\<rparr>)" by blast
  with at_work.Writing [of u w' j "r\<lparr>upload_size := n\<rparr>" off J b i req] Writing show ?thesis by simp
next
  case (Confirming u)
  have "\<exists>r. file_row (cdb w') i = Some r \<and> off + chunk_size req \<le> int (length (held (storage_disk w') (place b r)))"
    if "j = i"
  proof -
    obtain r where r: "file_row (cdb w) i = Some r" "off + chunk_size req \<le> int (length (held (storage_disk w) (place b r)))"
      using Confirming(3) \<open>j = i\<close> by blast
    from advances_row [OF a r(1)] obtain n where "file_row (cdb w') i = Some (r\<lparr>upload_size := n\<rparr>)" by blast
    with r(2) advances_held [OF a r(1)] show ?thesis by auto
  qed
  with at_work.Confirming Confirming show ?thesis by blast
next
  case (Finished x)
  with confirmed_mono [OF a] show ?thesis by (auto intro: at_work.Finished)
qed (auto intro: at_work.intros)

text \<open>A reply with another code than 0 is either read as such or, with a text that is not UTF-8, never sent.\<close>

lemma not_accepted_json:
  assumes J: "json_ok J" and c: "c \<in> {-1, -2, -3}"
    and x: "x = (case SetJson J m (den J (JObj [(''code'', JInt c), (''msg'', JStr s)])) of Inl e \<Rightarrow> Inl e | Inr r \<Rightarrow> Inr (f r))"
    and f: "\<And>r. json_body (f r) = json_body r"
  shows "\<not> accepted J x"
proof -
  let ?v = "JObj [(''code'', JInt c), (''msg'', JStr s)]"
  show ?thesis
  proof (cases "utf8 s")
    case False
    then have "dump J (den J ?v) = Inl type_error" by (intro json_strictD [OF J]) simp
    then show ?thesis unfolding x by (simp add: SetJson_def accepted_def)
  next
    case True
    then have "js_valid ?v" using c by (auto simp: ascii_utf8)
    from json_dump [OF J this] obtain t where t: "dump J (den J ?v) = Inr t" "t \<noteq> []" "parse J t = den J ?v" by blast
    have v: "value_int J (den J ?v) ''code'' (-1) = Inr c" by (rule json_intD(3) [OF J]) (use c in auto)
    have "to_int c = c" "c \<noteq> 0" using c by (auto intro!: to_int_small)
    moreover obtain resp where "x = Inr resp" "GetJson J resp = den J ?v"
      unfolding x by (simp add: SetJson_def t GetJson_def f)
    ultimately show ?thesis
      using v by (auto simp: accepted_def response_of_def is_ok_def Let_def split: sum.splits)
  qed
qed

lemma not_accepted:
  assumes "json_ok J" and "c \<in> {-1, -2, -3}"
  shows "\<not> accepted J (Gateway_MakeResponse J req c m (null J) [])"
proof -
  have e: "json_empty J (null J)" using assms(1) by (simp add: json_ok_def json_update_def)
  have o: "obj J ([(''code'', num J c), (''msg'', str J m)] @ (if json_empty J (null J) then [] else [(''data'', null J)]))
      = den J (JObj [(''code'', JInt c), (''msg'', JStr m)])"
    by (simp add: e den_obj)
  show ?thesis
    unfolding Gateway_MakeResponse_def o by (rule not_accepted_json [OF assms refl]) simp
qed

lemma refused_at_work:
  "json_ok J \<Longrightarrow> c \<in> {-1, -2, -3} \<Longrightarrow> at_work J b i w req j off (Reply (Gateway_MakeResponse J req c m (null J) []))"
  using not_accepted by (blast intro: at_work.Finished)

lemma raised_at_work: "at_work J b i w req j off (Reply (Inl e))"
  by (rule at_work.Finished) (simp add: accepted_def)

lemma valid_member: "js_valid (JObj kvs) \<Longrightarrow> map_of kvs k = Some v \<Longrightarrow> js_valid v"
  by (auto simp: list_all_iff dest: map_of_SomeD)

lemma chunk_args_valid: "i64 j \<Longrightarrow> i64 u \<Longrightarrow> i64 off \<Longrightarrow> i64 sz \<Longrightarrow> js_valid (JObj (chunk_args j u off sz))"
  by (auto simp: chunk_args_def ascii_utf8)

lemma request_bounds:
  assumes "chunk_request J C i req j off"
  shows "i64 j" "i64 off" "i64 (chunk_size req)"
proof -
  obtain kvs where "js_valid (JObj kvs)" "map_of kvs ''file_id'' = Some (JInt j)" "map_of kvs ''offset'' = Some (JInt off)"
    using assms by (auto simp: chunk_request_def)
  then show "i64 j" "i64 off" using valid_member by fastforce+
  show "i64 (chunk_size req)" using assms by (simp add: chunk_request_def)
qed

lemma gateway_routes: "gateway_router J ''upload_data'' = Some (gw_upload_data J)"
  by (simp add: gateway_router_def)

lemma enter_at_work:
  assumes J: "json_ok J" and r: "chunk_request J C i req j off"
  shows "at_work J b i w req j off (Gateway_Route J (gateway_router J) req)"
proof -
  obtain kvs tok where k: "GetJson J req = den J (JObj kvs)" "js_valid (JObj kvs)" "map_of kvs ''cmd'' = Some (JStr ''upload_data'')"
    "map_of kvs ''token'' = Some (JStr tok)"
    using r by (auto simp: chunk_request_def)
  then have d: "distinct (map fst kvs)" by simp
  have "GetCmd J req = ''upload_data''" by (simp add: GetCmd_def k(1) json_stringD(1) [OF J d k(3)])
  then have "Gateway_Route J (gateway_router J) req = gw_upload_data J req" by (simp add: Gateway_Route_def gateway_routes)
  moreover have "value_string J (GetJson J req) ''token'' [] = Inr tok" by (simp add: k(1) json_stringD(4) [OF J d k(4)])
  moreover have "utf8 tok" using valid_member [OF k(2,4)] by simp
  ultimately have h: "Gateway_Route J (gateway_router J) req = (if tok = [] then Reply (Gateway_MakeResponse J req (-1) text_auth_failed (null J) [])
      else Rpc ''UserService'' ''VerifyToken'' (den J (JObj [(''token'', JStr tok)])) [] (\<lambda>r. arg (value_int J r ''user_id'' 0)
      (\<lambda>user_id. if user_id \<le> 0 then Reply (Gateway_MakeResponse J req (-1) text_auth_failed (null J) [])
         else upload_user J req user_id)))" and t: "utf8 tok"
    by (simp_all add: gw_upload_data_def with_uid_def Gateway_VerifyToken_def den_obj)
  show ?thesis
  proof (cases "tok = []")
    case True
    then show ?thesis using refused_at_work [OF J, of "-1"] by (simp add: h)
  next
    case False
    then show ?thesis unfolding h by (simp only: if_False) (rule at_work.Asking [OF t])
  qed
qed

text \<open>Each call keeps the invariant, and its worker knows where it is afterwards.\<close>

definition goes_on :: "'j json_ops \<Rightarrow> string \<Rightarrow> path \<Rightarrow> bytes \<Rightarrow> int \<Rightarrow> cluster \<Rightarrow> cluster \<Rightarrow> Message \<Rightarrow> int \<Rightarrow> int
    \<Rightarrow> (cpp_exn + 'j) \<Rightarrow> ('j \<Rightarrow> 'j handling) \<Rightarrow> bool" where
  "goes_on J root b C i w w' req j off x k \<longleftrightarrow> upload_inv root b C i w' \<and> advances b i w w'
     \<and> (case x of Inl e \<Rightarrow> True | Inr r \<Rightarrow> at_work J b i w' req j off (k r))"

lemma goes_on_raise: "upload_inv root b C i w \<Longrightarrow> goes_on J root b C i w w req j off (Inl e) k"
  by (simp add: goes_on_def)

lemma goes_on_quiet:
  "upload_inv root b C i w \<Longrightarrow> quiet w w' \<Longrightarrow> at_work J b i w' req j off (k r) \<Longrightarrow>
   goes_on J root b C i w w' req j off (Inr r) k"
  using quiet_step [of root b C i w w'] by (simp add: goes_on_def quiet_def)

lemma upload_user_call:
  assumes J: "json_ok J" and r: "chunk_request J C i req j off"
  shows "upload_user J req u = Rpc ''FileService'' ''PrepareUploadChunk'' (den J (JObj (chunk_args j u off (chunk_size req)))) []
    (upload_prepared J req u (den J (JObj (chunk_args j u off (chunk_size req)))) off (chunk_size req))"
proof -
  obtain kvs where k: "GetJson J req = den J (JObj kvs)" "js_valid (JObj kvs)" "map_of kvs ''file_id'' = Some (JInt j)"
    "map_of kvs ''offset'' = Some (JInt off)"
    using r by (auto simp: chunk_request_def)
  then have d: "distinct (map fst kvs)" by simp
  note bounds = request_bounds [OF r]
  have "value_int J (GetJson J req) ''offset'' 0 = Inr off" "at_json J (GetJson J req) ''file_id'' = Inr (num J j)"
    unfolding k(1) using json_intD(3) [OF J d k(4) bounds(2)] json_presentD(3) [OF J d k(3)] by simp_all
  then show ?thesis by (simp add: upload_user_def Let_def chunk_args_def den_obj)
qed

lemma after_asking:
  assumes J: "json_ok J" and r: "chunk_request J C i req j off" and inv: "upload_inv root b C i w"
    and call: "CallRpc J D w s ''VerifyToken'' (den J (JObj [(''token'', JStr tok)])) [] = (w', x)" and "utf8 tok"
  shows "goes_on J root b C i w w' req j off x (\<lambda>r. arg (value_int J r ''user_id'' 0)
      (\<lambda>user_id. if user_id \<le> 0 then Reply (Gateway_MakeResponse J req (-1) text_auth_failed (null J) [])
         else upload_user J req user_id))"
proof -
  have "\<forall>y \<in> set (users (cdb w)). i64 (uid y)" using inv by (simp add: upload_inv_def rows_ok_def)
  from call_VerifyToken [OF J assms(5) this call] show ?thesis
  proof
    assume "\<exists>v. x = Inr (den J v) \<and> quiet w w' \<and>
      (\<exists>u. i64 u \<and> u \<in> {0, snd (VerifyToken (cdb w) tok)} \<and> value_int J (den J v) ''user_id'' 0 = Inr u)"
    then obtain v u where x: "x = Inr (den J v)" and q: "quiet w w'"
      and u: "i64 u" "value_int J (den J v) ''user_id'' 0 = Inr u" by blast
    have "upload_user J req u = Rpc ''FileService'' ''PrepareUploadChunk'' (den J (JObj (chunk_args j u off (chunk_size req)))) []
        (upload_prepared J req u (den J (JObj (chunk_args j u off (chunk_size req)))) off (chunk_size req))"
      by (rule upload_user_call [OF J r])
    then have "at_work J b i w' req j off (upload_user J req u)" using at_work.Checking [OF u(1)] by simp
    moreover have "at_work J b i w' req j off (Reply (Gateway_MakeResponse J req (-1) text_auth_failed (null J) []))"
      using refused_at_work [OF J, of "-1"] by simp
    ultimately show ?thesis unfolding x using u(2) by (intro goes_on_quiet [OF inv q]) simp
  qed (use goes_on_raise [OF inv] in auto)
qed

lemma after_checking:
  assumes J: "json_ok J" and r: "chunk_request J C i req j off" and inv: "upload_inv root b C i w" and u: "i64 u"
    and call: "CallRpc J D w s ''PrepareUploadChunk'' (den J (JObj (chunk_args j u off (chunk_size req)))) [] = (w', x)"
  shows "goes_on J root b C i w w' req j off x
    (upload_prepared J req u (den J (JObj (chunk_args j u off (chunk_size req)))) off (chunk_size req))"
proof -
  have rows: "rows_ok (cdb w)" using inv by (simp add: upload_inv_def)
  note bounds = request_bounds [OF r]
  note args = chunk_args_valid [OF bounds(1) u bounds(2,3)] chunk_args_fields [OF bounds(1) u bounds(2,3)]
  let ?k = "upload_prepared J req u (den J (JObj (chunk_args j u off (chunk_size req)))) off (chunk_size req)"
  from call_Prepare [OF J args rows call] show ?thesis
  proof (elim disjE exE conjE)
    fix v assume x: "x = Inr (den J v)" and q: "quiet w w'" and "failure v"
    from failure_fields [OF J this(3)] obtain c t where c: "c \<noteq> 0" "value_code J (den J v) = Inr c"
      "\<And>d. value_string J (den J v) ''msg'' d = Inr t" "c \<in> {-1, -2, -3}" by metis
    then have "?k (den J v) = Reply (Gateway_MakeResponse J req c t (null J) [])" by (simp add: upload_prepared_def)
    then show ?thesis unfolding x using refused_at_work [OF J c(4)] by (intro goes_on_quiet [OF inv q]) simp
  next
    fix v f assume x: "x = Inr (den J v)" and q: "quiet w w'" and v: "v = prepared_value f" and a: "admits (cdb w) j u off (chunk_size req) f"
    have f: "f \<in> set (file_rows (cdb w))" using a file_row_set [of "cdb w" j f] by (simp add: admits_def)
    have row: "file_row (cdb w') j = Some f" using a q same_tables_rows by (auto simp: admits_def quiet_def)
    have fit: "0 \<le> off" "off + chunk_size req \<le> filesize f" "off \<le> upload_size f \<or> off + chunk_size req \<le> upload_size f"
      using a by (auto simp: admits_def chunk_fits_def)
    have "i64 (filesize f)" "utf8 (filepath f)" using f rows by (auto simp: rows_ok_def)
    then have wr: "wrap64 (off + chunk_size req) = off + chunk_size req" using fit by (intro wrap64_id) auto
    let ?kvs = "[(''code'', JInt 0), (''filepath'', JStr (filepath f)), (''upload_size'', JInt (upload_size f))]"
    have fields: "value_code J (den J v) = Inr 0" "value_int J (den J v) ''upload_size'' 0 = Inr (upload_size f)"
      "at_json J (den J v) ''upload_size'' = Inr (num J (upload_size f))" "at_json J (den J v) ''filepath'' = Inr (str J (filepath f))"
      unfolding v prepared_value_def
      using ok_fields [OF J, of ?kvs 0] json_intD(3) [OF J, of ?kvs] rows_i64 [OF rows f]
        json_presentD(3) [OF J, of ?kvs "''upload_size''" "JInt (upload_size f)"]
        json_presentD(3) [OF J, of ?kvs "''filepath''" "JStr (filepath f)"] by simp_all
    have "at_work J b i w' req j off (?k (den J v))"
    proof (cases "off + chunk_size req \<le> upload_size f")
      case True
      then have "confirmed_upto w' j (off + chunk_size req)" using row by (simp add: confirmed_upto_def)
      with True show ?thesis by (simp add: upload_prepared_def fields wr at_work_Reply)
    next
      case False
      then have "?k (den J v) = Rpc ''StorageService'' ''WriteChunk'' (den J (JObj (write_args (filepath f) u off (chunk_size req))))
          (binary_data req) (upload_written J req (den J (JObj (chunk_args j u off (chunk_size req)))) (chunk_size req))"
        by (simp add: upload_prepared_def fields wr write_args_def den_obj)
      with at_work.Writing [OF u row \<open>utf8 (filepath f)\<close> fit(1), of J b i req] fit(3) False show ?thesis by simp
    qed
    then show ?thesis unfolding x by (rule goes_on_quiet [OF inv q])
  qed (simp add: goes_on_raise [OF inv])
qed

lemma after_writing:
  assumes J: "json_ok J" and r: "chunk_request J C i req j off" and inv: "upload_inv root b C i w" and u: "i64 u"
    and row: "file_row (cdb w) j = Some f" "utf8 (filepath f)" "0 \<le> off" "off \<le> upload_size f" and root: "storage_root D = root"
    and call: "CallRpc J D w s ''WriteChunk'' (den J (JObj (write_args (filepath f) u off (chunk_size req)))) (binary_data req) = (w', x)"
  shows "goes_on J root b C i w w' req j off x
    (upload_written J req (den J (JObj (chunk_args j u off (chunk_size req)))) (chunk_size req))"
proof -
  note bounds = request_bounds [OF r]
  let ?k = "upload_written J req (den J (JObj (chunk_args j u off (chunk_size req)))) (chunk_size req)"
  have kvs: "js_valid (JObj (write_args (filepath f) u off (chunk_size req)))"
    using bounds u row(2) by (auto simp: write_args_def ascii_utf8)
  have "j = i \<Longrightarrow> off \<le> upload_size f \<and> slice C off (binary_data req)" using r row(4) by (simp add: chunk_request_def)
  from call_Write [OF J kvs inv row(1,3) this root call] show ?thesis
  proof
    assume "\<exists>v. x = Inr (den J v) \<and> write_outcome root b C i w j f off (chunk_size req) w' v"
    then obtain v where x: "x = Inr (den J v)" and w': "upload_inv root b C i w'" "advances b i w w'" "cdb w' = cdb w"
      and v: "failure v \<or> (\<exists>n. i64 n \<and> v = written_value (chunk_size req) n
          \<and> (j = i \<and> n = chunk_size req \<longrightarrow> off + chunk_size req \<le> int (length (held (storage_disk w') (place b f)))))"
      by (auto simp: write_outcome_def)
    have "at_work J b i w' req j off (?k (den J v))"
      using v
    proof
      assume "failure v"
      from failure_fields [OF J this] obtain c t where "c \<noteq> 0" "value_code J (den J v) = Inr c"
        "\<And>d. value_string J (den J v) ''msg'' d = Inr t" by metis
      then show ?thesis using refused_at_work [OF J, of "-1"] by (simp add: upload_written_def)
    next
      assume "\<exists>n. i64 n \<and> v = written_value (chunk_size req) n
          \<and> (j = i \<and> n = chunk_size req \<longrightarrow> off + chunk_size req \<le> int (length (held (storage_disk w') (place b f))))"
      then obtain n where n: "i64 n" "v = written_value (chunk_size req) n"
        "j = i \<and> n = chunk_size req \<longrightarrow> off + chunk_size req \<le> int (length (held (storage_disk w') (place b f)))" by blast
      let ?kvs = "[(''code'', JInt (if n = chunk_size req then 0 else -1)), (''written'', JInt n)]"
      have c: "value_code J (den J v) = Inr (if n = chunk_size req then 0 else -1)"
        unfolding n(2) written_value_def by (rule ok_fields [OF J]) auto
      have m: "value_string J (den J v) ''msg'' t = Inr t" for t
        unfolding n(2) written_value_def by (rule json_missingD(1) [OF J]) simp
      have wn: "value_int J (den J v) ''written'' (-1) = Inr n"
        unfolding n(2) written_value_def by (rule json_intD(3) [OF J]) (use n(1) in auto)
      show ?thesis
      proof (cases "n = chunk_size req")
        case True
        have "?k (den J v) = Rpc ''FileService'' ''ConfirmUploadChunk'' (den J (JObj (chunk_args j u off (chunk_size req)))) []
            (upload_confirmed J req (chunk_size req))"
          by (simp add: upload_written_def c wn True)
        with at_work.Confirming [OF u, of j i w' off req b J] n(3) True row(1) w'(3) show ?thesis by auto
      next
        case False
        then show ?thesis using refused_at_work [OF J, of "-1"] by (simp add: upload_written_def c m)
      qed
    qed
    with x w' show ?thesis by (simp add: goes_on_def)
  qed (use goes_on_raise [OF inv] in auto)
qed

lemma after_confirming:
  assumes J: "json_ok J" and r: "chunk_request J C i req j off" and inv: "upload_inv root b C i w" and u: "i64 u"
    and stored: "j = i \<Longrightarrow> \<exists>r. file_row (cdb w) i = Some r \<and> off + chunk_size req \<le> int (length (held (storage_disk w) (place b r)))"
    and call: "CallRpc J D w s ''ConfirmUploadChunk'' (den J (JObj (chunk_args j u off (chunk_size req)))) [] = (w', x)"
  shows "goes_on J root b C i w w' req j off x (upload_confirmed J req (chunk_size req))"
proof -
  note bounds = request_bounds [OF r]
  note args = chunk_args_valid [OF bounds(1) u bounds(2,3)] chunk_args_fields [OF bounds(1) u bounds(2,3)]
  from call_Confirm [OF J args inv stored call] show ?thesis
  proof
    assume "\<exists>v. x = Inr (den J v) \<and> confirm_outcome root b C i w j (off + chunk_size req) w' v"
    then obtain v where x: "x = Inr (den J v)" and w': "upload_inv root b C i w'" "advances b i w w'"
      and v: "failure v \<or> (\<exists>n. i64 n \<and> v = JObj [(''code'', JInt 0), (''upload_size'', JInt n)]
          \<and> confirmed_upto w' j (off + chunk_size req))"
      by (auto simp: confirm_outcome_def)
    have "at_work J b i w' req j off (upload_confirmed J req (chunk_size req) (den J v))"
      using v
    proof
      assume "failure v"
      from failure_fields [OF J this] obtain c t where c: "c \<noteq> 0" "value_code J (den J v) = Inr c"
        "\<And>d. value_string J (den J v) ''msg'' d = Inr t" "c \<in> {-1, -2, -3}" by metis
      then show ?thesis using refused_at_work [OF J c(4)] by (simp add: upload_confirmed_def)
    next
      assume "\<exists>n. i64 n \<and> v = JObj [(''code'', JInt 0), (''upload_size'', JInt n)] \<and> confirmed_upto w' j (off + chunk_size req)"
      then obtain n where n: "v = JObj [(''code'', JInt 0), (''upload_size'', JInt n)]" "confirmed_upto w' j (off + chunk_size req)"
        by blast
      have "value_code J (den J v) = Inr 0" "at_json J (den J v) ''upload_size'' = Inr (num J n)"
        unfolding n(1) using ok_fields [OF J, of "[(''code'', JInt 0), (''upload_size'', JInt n)]" 0]
          json_presentD(3) [OF J, of "[(''code'', JInt 0), (''upload_size'', JInt n)]" "''upload_size''" "JInt n"] by simp_all
      with n(2) show ?thesis by (simp add: upload_confirmed_def at_work_Reply)
    qed
    with x w' show ?thesis by (simp add: goes_on_def)
  qed (use goes_on_raise [OF inv] in auto)
qed

lemma call_goes_on:
  assumes "json_ok J" and "chunk_request J C i req j off" and "upload_inv root b C i w" and "storage_root D = root"
    and "at_work J b i w req j off (Rpc s m args bin k)" and "CallRpc J D w s m args bin = (w', x)"
  shows "goes_on J root b C i w w' req j off x k"
  using assms(5)
proof cases
  case (Asking tok)
  with after_asking [OF assms(1-3), of D s tok w' x] assms(6) show ?thesis by simp
next
  case (Checking u)
  with after_checking [OF assms(1-3), of u D s w' x] assms(6) show ?thesis by simp
next
  case (Writing u r)
  with after_writing [OF assms(1-3), of u r D s w' x] assms(4,6) show ?thesis by simp
next
  case (Confirming u)
  with after_confirming [OF assms(1-3), of u D s w' x] assms(6) show ?thesis by simp
qed

section \<open>Every reachable state\<close>

definition uploading :: "'j json_ops \<Rightarrow> string \<Rightarrow> path \<Rightarrow> bytes \<Rightarrow> int \<Rightarrow> 'j gateway \<Rightarrow> bool" where
  "uploading J root b C i g \<longleftrightarrow> upload_inv root b C i (services g)
     \<and> (\<forall>(req, h) \<in> set (handlers g). \<exists>j off. chunk_request J C i req j off \<and> at_work J b i (services g) req j off h)"

lemma uploading_update:
  assumes up: "uploading J root b C i g" and c: "chunk_request J C i req j off"
    and w: "upload_inv root b C i w" "advances b i (services g) w" and h: "at_work J b i w req j off h"
  shows "uploading J root b C i (g\<lparr>services := w, handlers := (handlers g)[k := (req, h)]\<rparr>)"
proof -
  have "\<exists>j off. chunk_request J C i req' j off \<and> at_work J b i w req' j off h'"
    if m: "(req', h') \<in> set ((handlers g)[k := (req, h)])" for req' h'
  proof (cases "(req', h') = (req, h)")
    case False
    then have "(req', h') \<in> set (handlers g)"
      using m set_update_subset_insert [of "handlers g" k "(req, h)"] by auto
    then obtain j' off' where "chunk_request J C i req' j' off'" "at_work J b i (services g) req' j' off' h'"
      using up by (fastforce simp: uploading_def)
    with at_work_mono [OF w(2)] show ?thesis by blast
  qed (use c h in blast)
  with w(1) show ?thesis by (auto simp: uploading_def)
qed

lemma uploading_handler:
  assumes "uploading J root b C i g" and "k < length (handlers g)" and "handlers g ! k = (req, h)"
  obtains j off where "chunk_request J C i req j off" "at_work J b i (services g) req j off h" "upload_inv root b C i (services g)"
proof -
  have "(req, h) \<in> set (handlers g)" using assms(2,3) by (metis nth_mem)
  with assms(1) that show ?thesis by (fastforce simp: uploading_def)
qed

lemma uploading_step:
  assumes J: "json_ok J" and "gw_step J root (\<lambda>req. \<exists>j off. chunk_request J C i req j off) g g'" and up: "uploading J root b C i g"
  shows "uploading J root b C i g'"
  using assms(2)
proof cases
  case (Enter req)
  with enter_at_work [OF J] up show ?thesis by (fastforce simp: uploading_def)
next
  case (Return k req s m args bin cont D w r)
  from uploading_handler [OF up Return(2,3)] obtain j off where
    c: "chunk_request J C i req j off" "at_work J b i (services g) req j off (Rpc s m args bin cont)" "upload_inv root b C i (services g)" .
  from call_goes_on [OF J c(1,3) Return(4) c(2) Return(5)] uploading_update [OF up c(1)] show ?thesis
    unfolding Return(1) by (simp add: goes_on_def)
next
  case (Raise k req s m args bin cont D w e)
  from uploading_handler [OF up Raise(2,3)] obtain j off where
    c: "chunk_request J C i req j off" "at_work J b i (services g) req j off (Rpc s m args bin cont)" "upload_inv root b C i (services g)" .
  from call_goes_on [OF J c(1,3) Raise(4) c(2) Raise(5)] uploading_update [OF up c(1) _ _ raised_at_work] show ?thesis
    unfolding Raise(1) by (simp add: goes_on_def)
qed

lemma uploading_reachable:
  assumes "json_ok J" and "(gw_step J root (\<lambda>req. \<exists>j off. chunk_request J C i req j off))\<^sup>*\<^sup>* g g'"
    and "uploading J root b C i g"
  shows "uploading J root b C i g'"
  using assms(2,3) by (induction rule: rtranclp_induct) (auto intro: uploading_step [OF assms(1)])

lemma uploading_start: "upload_inv root b C i w \<Longrightarrow> uploading J root b C i \<lparr>services = w, handlers = []\<rparr>"
  by (simp add: uploading_def)

section \<open>Completing the upload\<close>

text \<open>A call changes the state as the method it names does.\<close>

lemma call_method_cases:
  obtains (none) "fst (call_method J what ms w m msg) = w"
  | (binary) f where "binary_methods ms m = Some f" "fst (call_method J what ms w m msg) = fst (f w (GetJson J msg) (binary_data msg))"
  | (plain) f where "methods ms m = Some f" "fst (call_method J what ms w m msg) = fst (f w (GetJson J msg) (binary_data msg))"
  by (cases "binary_methods ms m"; cases "methods ms m") (auto simp: call_method_def case_prod_unfold split: sum.splits)

lemma Call_runs:
  assumes J: "json_ok J" and kvs: "js_valid (JObj kvs)" "utf8 name"
  shows "fst (Call J what ms w oc name (den J (JObj kvs)) bin) = w \<or>
    (\<exists>f. (binary_methods ms name = Some f \<or> methods ms name = Some f)
      \<and> fst (Call J what ms w oc name (den J (JObj kvs)) bin) = fst (f w (den J (JObj (with_method name kvs))) bin))"
proof -
  obtain m where m: "call_message J name (den J (JObj kvs)) bin = Inr m"
    "GetJson J m = den J (JObj (with_method name kvs))" "binary_data m = bin"
    using call_message_ok [OF J kvs] by blast
  have "distinct (map fst (with_method name kvs))" using kvs by (intro with_method_simps(2)) simp
  then have n: "value_string J (GetJson J m) ''method'' [] = Inr name"
    unfolding m(2) by (intro json_stringD(4) [OF J]) (simp_all add: with_method_simps)
  have "fst (Call J what ms w oc name (den J (JObj kvs)) bin) \<in> {w, fst (call_method J what ms w name m)}"
    using n m(1) by (auto simp: Call_def serve_def split: prod.splits option.splits sum.splits)
  then show ?thesis using m(2,3) by (cases rule: call_method_cases [of J what ms w name m]) auto
qed

lemma Call_state:
  assumes "json_ok J" and "js_valid (JObj kvs)" "utf8 method" and "binary_methods ms method = None" "methods ms method = Some f"
  shows "fst (Call J what ms w oc method (den J (JObj kvs)) bin) \<in> {w, fst (f w (den J (JObj (with_method method kvs))) bin)}"
  using Call_runs [OF assms(1-3), of what ms w oc bin] assms(4,5) by auto

text \<open>The size check of the file service leaves tables and files alone.\<close>

lemma size_check_state:
  assumes J: "json_ok J" and "utf8 p"
    and "Call J what (storage_methods J root) w oc ''GetFileSize'' (obj J [(''filepath'', str J p)]) [] = (w', x)"
  shows "cdb w' = cdb w \<and> files (storage_disk w') = files (storage_disk w)"
proof -
  have v: "js_valid (JObj [(''filepath'', JStr p)])" using assms(2) by (auto simp: ascii_utf8)
  have "w' \<in> {w, fst (rpc_GetFileSize J root w (den J (JObj (with_method ''GetFileSize'' [(''filepath'', JStr p)]))))}"
    using Call_state [OF J v, of "''GetFileSize''" "storage_methods J root" "\<lambda>s j b. rpc_GetFileSize J root s j" what w oc "[]"] assms(3)
    by (simp add: method_tables den_obj ascii_utf8)
  moreover have "cdb (fst (rpc_GetFileSize J root w j)) = cdb w
      \<and> files (storage_disk (fst (rpc_GetFileSize J root w j))) = files (storage_disk w)" for j
    by (cases "at_string J j ''filepath''") (auto simp: rpc_GetFileSize_def on_storage_def GetFileSize_def Let_def
        case_prod_unfold split: option.splits)
  ultimately show ?thesis by (metis insertE singletonD)
qed

lemma UpdateStatus_any:
  assumes "FileDAO_UpdateStatus d i st = (d', True)" and "file_row d i = Some r"
  shows "file_row d' i = Some (r\<lparr>status := st\<rparr>)"
proof -
  have "d' = update_files (\<lambda>r. fid r = i) (status_update (\<lambda>_. st)) (snd (next_fault d))"
    using assms(1) by (auto simp: FileDAO_UpdateStatus_def Let_def case_prod_unfold split: if_splits)
  then show ?thesis using assms(2) file_row_set [OF assms(2)] by (simp add: update_files_row)
qed

text \<open>A finalization that answers 0 was made for an upload whose last byte is confirmed.\<close>

lemma rpc_UploadFinalize_ok:
  assumes J: "json_ok J" and inv: "upload_inv root b C i w" and row: "file_row (cdb w) i = Some r"
    and args: "at_int J args ''file_id'' = Inr i" "at_int J args ''user_id'' = Inr u"
    and f: "rpc_UploadFinalize J what root w args = (w', Inr v)" and v: "value_code J v = Inr 0"
  shows "upload_size r = filesize r \<and> fuser_id r = u \<and> IsUploading r
    \<and> file_row (cdb w') i = Some (r\<lparr>status := 1\<rparr>) \<and> files (storage_disk w') = files (storage_disk w)"
proof -
  have bad: "value_code J (obj J [(''code'', num J (-1))]) \<noteq> Inr 0"
  proof -
    have "value_code J (den J (JObj [(''code'', JInt (-1))])) = Inr (-1)" by (rule ok_fields [OF J]) auto
    then show ?thesis by (simp add: den_obj)
  qed
  obtain d1 x where x: "FileDAO_FindById (cdb w) i = (d1, x)" by fastforce
  have rows: "rows_ok (cdb w)" using inv by (simp add: upload_inv_def)
  note find = FindById_any [OF rows x]
  have on: "on_db w (\<lambda>d. FileDAO_FindById d i) = (w\<lparr>cdb := d1\<rparr>, x)" using x by (simp add: on_db_def)
  show ?thesis
  proof (cases "x = None \<or> fuser_id r \<noteq> u \<or> \<not> IsUploading r \<or> upload_size r \<noteq> filesize r")
    case True
    then have "v = obj J [(''code'', num J (-1))]"
      using f find row by (auto simp: rpc_UploadFinalize_def Let_def args on split: option.splits)
    with v bad show ?thesis by simp
  next
    case False
    then have xr: "x = Some r" using find row by auto
    have row1: "file_row d1 i = Some r" using find row same_tables_rows by auto
    have u8: "utf8 (filepath r)" "fid r = i" using rows file_row_set [OF row] by (auto simp: rows_ok_def)
    define w1 where "w1 = w\<lparr>cdb := d1\<rparr>"
    obtain oc xs where o: "next_outcome w1 = (oc, w1\<lparr>outcomes := xs\<rparr>)" using next_outcome_eq [of w1] by blast
    obtain w2 y where y: "Call J what (storage_methods J root) (w1\<lparr>outcomes := xs\<rparr>) oc ''GetFileSize''
        (obj J [(''filepath'', str J (filepath r))]) [] = (w2, y)" by fastforce
    from size_check_state [OF J u8(1) this] have w2: "cdb w2 = d1" "files (storage_disk w2) = files (storage_disk w)"
      by (simp_all add: w1_def)
    obtain d3 z where d3: "FileDAO_UpdateStatus d1 i 1 = (d3, z)" by fastforce
    have "w' = w2\<lparr>cdb := d3\<rparr> \<and> z"
      using f bad v unfolding rpc_UploadFinalize_def args on xr Let_def bind_arg_simps prod.case option.case w1_def [symmetric] o
      using False y d3 u8(2) w2(1) by (auto simp: bind_arg_def on_db_def split: sum.splits if_splits prod.splits)
    then have "file_row (cdb w') i = Some (r\<lparr>status := 1\<rparr>)" "files (storage_disk w') = files (storage_disk w)"
      using UpdateStatus_any [of d1 i 1 d3 r] d3 row1 w2(2) by auto
    with False show ?thesis by simp
  qed
qed

text \<open>A handler that runs on its own is one of the interleavings.\<close>

lemma run_handling_steps:
  assumes "run_handling h J D w = (w', x)" and "storage_root D = root"
  shows "(gw_step J root admitted)\<^sup>*\<^sup>* \<lparr>services = w, handlers = hs @ [(req, h)]\<rparr> \<lparr>services = w', handlers = hs @ [(req, Reply x)]\<rparr>"
  using assms(1)
proof (induction h arbitrary: w)
  case (Reply y)
  then show ?case by simp
next
  case (Rpc s m args bin k)
  obtain w1 y where c: "CallRpc J D w s m args bin = (w1, y)" by fastforce
  show ?case
  proof (cases y)
    case (Inl e)
    with Rpc.prems c have "w' = w1 \<and> x = Inl e" by simp
    with gw_step.Raise [of "length hs" "\<lparr>services = w, handlers = hs @ [(req, Rpc s m args bin k)]\<rparr>" req s m args bin k D root J w1 e admitted]
      c Inl assms(2) show ?thesis by simp
  next
    case (Inr r)
    with Rpc.prems c have run: "run_handling (k r) J D w1 = (w', x)" by simp
    have "gw_step J root admitted \<lparr>services = w, handlers = hs @ [(req, Rpc s m args bin k)]\<rparr>
        \<lparr>services = w1, handlers = hs @ [(req, k r)]\<rparr>"
      using gw_step.Return [of "length hs" "\<lparr>services = w, handlers = hs @ [(req, Rpc s m args bin k)]\<rparr>" req s m args bin k D root J w1 r admitted]
        c Inr assms(2) by simp
    from this Rpc.IH [OF rangeI run] show ?thesis by (rule converse_rtranclp_into_rtranclp)
  qed
qed

section \<open>Properties\<close>


definition up_file :: FileInfo where
  "up_file = sample_file 1 ''x''\<lparr>filepath := ''7/f'', filesize := 2\<rparr>"

definition up_cluster :: cluster where
  "up_cluster = \<lparr>cdb = sample_db\<lparr>file_rows := [up_file]\<rparr>, file_disk = None, storage_disk = sample_fs, outcomes = []\<rparr>"

definition up_world :: deployment where
  "up_world = \<lparr>discovered = (\<lambda>p. []), listening = (\<lambda>(h, p). if p = 9001 then Some UserProc else if p = 9002 then Some FileProc
     else if p = 9003 then Some StorageProc else None), exn_text = (\<lambda>e. []), file_root = ''/srv'', storage_root = ''/srv'',
     surroundings = sample_env\<rparr>"

definition up_body :: js where
  "up_body = JObj [(''cmd'', JStr ''upload_data''), (''token'', JStr ''t''), (''file_id'', JInt 1), (''offset'', JInt 0)]"

definition up_request :: Message where
  "up_request = sample_req up_body\<lparr>binary_data := ''ab''\<rparr>"

lemma up_request_chunk: "chunk_request js_ops ''ab'' 1 up_request 1 0"
proof -
  have v: "js_valid up_body" by (simp add: up_body_def ascii_utf8)
  have "GetJson js_ops up_request = GetJson js_ops (sample_req up_body)" by (simp add: up_request_def GetJson_def)
  then have "GetJson js_ops up_request = den js_ops up_body" using sample_req_json [OF v] den_js_ops [OF v] by simp
  then show ?thesis
    using v by (auto simp: chunk_request_def up_body_def up_request_def slice_def)
qed

lemma up_cluster_inv: "upload_inv ''/srv'' [''srv''] ''ab'' 1 up_cluster"
proof -
  have n: "to_string 7 = ''7''" by code_simp
  have f: "row_name up_file = ''f''" by (simp add: row_name_def up_file_def n sample_file_def FileInfo_default_def)
  have r: "row_path up_file" unfolding row_path_def f
    by (simp add: up_file_def n sample_file_def FileInfo_default_def path_component_def)
  have "rows_ok (cdb up_cluster)"
    using r by (auto simp: rows_ok_def up_cluster_def files_inv_def progress_def sample_db_def up_file_def sample_file_def
        FileInfo_default_def User_new_def file_clean_def file_fits_def ascii_utf8)
  moreover have "root_dir ''/srv'' (storage_disk up_cluster) [''srv'']"
    by (simp add: root_dir_def up_cluster_def sample_fs_def resolve_def)
  moreover have "file_row (cdb up_cluster) 1 = Some up_file"
    by (simp add: file_row_def up_cluster_def up_file_def sample_file_def)
  moreover have "held (storage_disk up_cluster) (place [''srv''] up_file) = []"
    unfolding place_def f by (simp add: held_def up_cluster_def sample_fs_def up_file_def sample_file_def FileInfo_default_def n)
  ultimately show ?thesis
    by (auto simp: upload_inv_def opens_def up_cluster_def sample_fs_def up_file_def sample_file_def FileInfo_default_def)
qed

definition up_after :: "cluster \<times> (cpp_exn + Message)" where
  "up_after = run_handling (Gateway_Route js_ops (gateway_router js_ops) up_request) js_ops up_world up_cluster"

lemma up_after_eval:
  "case up_after of (w, x) \<Rightarrow> file_rows (cdb w) = [up_file\<lparr>upload_size := 2\<rparr>]
     \<and> map_of (files (storage_disk w)) [''srv'', ''7'', ''f''] = Some ''ab''
     \<and> (case x of Inr m \<Rightarrow> (case response_of js_ops m of Inr r \<Rightarrow> resp_code r = 0 | Inl _ \<Rightarrow> False) | Inl _ \<Rightarrow> False)"
  unfolding up_after_def by code_simp

lemma up_after_reachable:
  "(gw_step js_ops ''/srv'' (\<lambda>req. \<exists>j off. chunk_request js_ops ''ab'' 1 req j off))\<^sup>*\<^sup>* \<lparr>services = up_cluster, handlers = []\<rparr>
     \<lparr>services = fst up_after, handlers = [(up_request, Reply (snd up_after))]\<rparr>"
proof -
  have "gw_step js_ops ''/srv'' (\<lambda>req. \<exists>j off. chunk_request js_ops ''ab'' 1 req j off) \<lparr>services = up_cluster, handlers = []\<rparr>
     \<lparr>services = up_cluster, handlers = [] @ [(up_request, Gateway_Route js_ops (gateway_router js_ops) up_request)]\<rparr>"
    using up_request_chunk
      gw_step.Enter [of "\<lambda>req. \<exists>j off. chunk_request js_ops ''ab'' 1 req j off" up_request js_ops "''/srv''"
        "\<lparr>services = up_cluster, handlers = []\<rparr>"] by auto
  moreover have "storage_root up_world = ''/srv''" by (simp add: up_world_def)
  ultimately show ?thesis
    using run_handling_steps [of _ js_ops up_world up_cluster "fst up_after" "snd up_after" "''/srv''" _ "[]" up_request]
    by (auto simp: up_after_def intro: converse_rtranclp_into_rtranclp)
qed



definition up_final_args :: js where
  "up_final_args = JObj [(''file_id'', JInt 1), (''user_id'', JInt 7)]"

lemma up_final_eval:
  "case rpc_UploadFinalize js_ops (\<lambda>e. []) ''/srv'' (fst up_after) up_final_args of
     (w, Inr v) \<Rightarrow> value_code js_ops v = Inr 0 \<and> map_of (files (storage_disk w)) [''srv'', ''7'', ''f''] = Some ''ab''
   | (w, Inl e) \<Rightarrow> False"
  unfolding up_after_def by code_simp


end
