(* ===== verification/Flows.thy ===== *)
theory Flows
  imports TwoPhase EndToEnd
begin

text \<open>
  Whole requests through the gateway: what happens without a valid token, what a chunk needs to get
  through, and the download path, on its own and under the client of \<open>client/file_client.cc\<close>.
\<close>

section \<open>Without a valid token\<close>

text \<open>The token is refused by the user service, or the question does not get through.\<close>

lemma refused_token:
  assumes "json_ok J" and "utf8 tok" and "\<forall>x \<in> set (users (cdb w)). i64 (uid x)"
    and no: "snd (VerifyToken (cdb w) tok) \<le> 0"
    and call: "CallRpc J D w service ''VerifyToken'' (den J (JObj [(''token'', JStr tok)])) [] = (w', x)"
  shows "(\<exists>e. x = Inl e \<and> w' = w) \<or> (\<exists>v. x = Inr (den J v) \<and>
    quiet w w' \<and> (\<exists>u \<le> 0. value_int J (den J v) ''user_id'' 0 = Inr u))"
  using call_VerifyToken [OF assms(1-3) call] no by fastforce

lemma with_uid_refuses:
  assumes J: "json_ok J" and ids: "\<forall>x \<in> set (users (cdb w)). i64 (uid x)"
    and no: "\<forall>tok. value_string J (GetJson J req) ''token'' [] = Inr tok \<longrightarrow> utf8 tok \<and> snd (VerifyToken (cdb w) tok) \<le> 0"
    and run: "run_handling (with_uid J req k) J D w = (w', x)"
  shows "quiet w w' \<and> \<not> accepted J x"
proof (cases "value_string J (GetJson J req) ''token'' []")
  case (Inl e)
  with run show ?thesis by (auto simp: with_uid_def quiet_def accepted_def)
next
  case (Inr tok)
  note rej = not_accepted [OF J, of "-1" req text_auth_failed]
  show ?thesis
  proof (cases "tok = []")
    case True
    with Inr run rej show ?thesis by (auto simp: with_uid_def Gateway_VerifyToken_def quiet_def)
  next
    case False
    obtain w1 y where c: "CallRpc J D w ''UserService'' ''VerifyToken'' (den J (JObj [(''token'', JStr tok)])) [] = (w1, y)" by fastforce
    have run': "(case (w1, y) of (w, Inl e) \<Rightarrow> (w, Inl e) | (w, Inr r) \<Rightarrow> run_handling (arg (value_int J r ''user_id'' 0)
        (\<lambda>user_id. if user_id \<le> 0 then Reply (Gateway_MakeResponse J req (-1) text_auth_failed (null J) []) else k user_id)) J D w) = (w', x)"
      using run False by (simp add: with_uid_def Inr Gateway_VerifyToken_def c [symmetric] den_obj)
    from no Inr have "utf8 tok" "snd (VerifyToken (cdb w) tok) \<le> 0" by auto
    from refused_token [OF J this(1) ids this(2) c] run' rej show ?thesis
      by (auto simp: quiet_def accepted_def)
  qed
qed

lemma gateway_router_cases:
  "gateway_router J cmd = Some h \<Longrightarrow> cmd \<notin> {''register'', ''login''} \<Longrightarrow> \<exists>k. h req = with_uid J req k"
  by (auto simp: gateway_router_def gw_upload_start_def gw_upload_data_def gw_upload_finalize_def gw_download_def
      gw_download_chunk_def gw_list_def gw_delete_def split: if_splits)

section \<open>Calls that get through\<close>

definition address :: "deployment \<Rightarrow> string \<Rightarrow> string" where
  "address D service = (if service = ''UserService'' then GetUserService D
     else if service = ''FileService'' then GetFileService D else GetStorageService D)"

text \<open>The address of the service leads to its process, and no call is lost.\<close>

definition reaches :: "deployment \<Rightarrow> string \<Rightarrow> process \<Rightarrow> bool" where
  "reaches D service p \<longleftrightarrow> (case ParseAddr (address D service) of Inl e \<Rightarrow> False | Inr ep \<Rightarrow> listening D ep = Some p)"

definition all_reachable :: "deployment \<Rightarrow> bool" where
  "all_reachable D \<longleftrightarrow> reaches D ''UserService'' UserProc \<and> reaches D ''FileService'' FileProc
     \<and> reaches D ''StorageService'' StorageProc"

lemma CallRpc_reached:
  assumes "reaches D service p" and "outcomes w = []"
  shows "CallRpc J D w service method args bin = Call J (exn_text D) (methods_of J D p) w Delivered method args bin"
proof -
  obtain ep where "ParseAddr (address D service) = Inr ep" "listening D ep = Some p"
    using assms(1) by (auto simp: reaches_def split: sum.splits)
  moreover have "next_outcome w = (Delivered, w)" using assms(2) by (simp add: next_outcome_def)
  ultimately show ?thesis by (simp add: CallRpc_def address_def [symmetric] Let_def)
qed

lemma CallRpc_exact:
  assumes J: "json_ok J" and kvs: "js_valid (JObj kvs)" "utf8 method" and v: "js_valid v"
    and r: "reaches D service p" "outcomes w = []"
    and ms: "binary_methods (methods_of J D p) method = None" "methods (methods_of J D p) method = Some (\<lambda>s j b. f s j)"
    and f: "f w (den J (JObj (with_method method kvs))) = (w1, Inr (den J v))"
  shows "CallRpc J D w service method (den J (JObj kvs)) bin = (w1, Inr (den J v))"
proof -
  have "call_method J (exn_text D) (methods_of J D p) w method m = (w1, den J v)"
    if "GetJson J m = den J (JObj (with_method method kvs))" for m
    using ms f that by (simp add: call_method_def)
  then show ?thesis using Call_ok [OF J kvs v] by (simp add: CallRpc_reached [OF r])
qed

text \<open>A result with a text that is not UTF-8 is never sent: the caller waits for its timeout.\<close>

lemma CallRpc_unwritable:
  assumes J: "json_ok J" and kvs: "js_valid (JObj kvs)" "utf8 method" and v: "\<not> texts_ok v"
    and r: "reaches D service p" "outcomes w = []"
    and ms: "binary_methods (methods_of J D p) method = None" "methods (methods_of J D p) method = Some (\<lambda>s j b. f s j)"
    and f: "f w (den J (JObj (with_method method kvs))) = (w1, Inr (den J v))"
  shows "CallRpc J D w service method (den J (JObj kvs)) bin = (w1, Inr (den J timeout_value))"
proof -
  obtain m where m: "call_message J method (den J (JObj kvs)) bin = Inr m"
    "GetJson J m = den J (JObj (with_method method kvs))" "binary_data m = bin"
    using call_message_ok [OF J kvs] by blast
  have "distinct (map fst (with_method method kvs))" using kvs by (intro with_method_simps(2)) simp
  then have n: "value_string J (GetJson J m) ''method'' [] = Inr method"
    unfolding m(2) by (intro json_stringD(4) [OF J]) (simp_all add: with_method_simps)
  have c: "call_method J (exn_text D) (methods_of J D p) w method m = (w1, den J v)"
    using ms f m(2) by (simp add: call_method_def)
  have "SetJson J (response_to m) (den J v) = Inl type_error" using json_strictD [OF J v] by (simp add: SetJson_def)
  then have "serve J (exn_text D) (methods_of J D p) w m = (w1, None)" by (simp add: serve_def n c)
  then show ?thesis by (simp add: CallRpc_reached [OF r] Call_def m(1) rpc_timeout_failure(1))
qed

text \<open>A user whose token the user service knows.\<close>

definition signed_in_as :: "cluster \<Rightarrow> string \<Rightarrow> int \<Rightarrow> bool" where
  "signed_in_as w tok u \<longleftrightarrow> VerifyToken (cdb w) tok = (cdb w, u) \<and> 0 < u \<and> u < 2 ^ 63 \<and> utf8 tok"

lemma with_uid_passes:
  assumes J: "json_ok J" and D: "all_reachable D" "outcomes w = []" and u: "signed_in_as w tok u"
    and tok: "value_string J (GetJson J req) ''token'' [] = Inr tok" "tok \<noteq> []"
  shows "run_handling (with_uid J req k) J D w = run_handling (k u) J D w"
proof -
  let ?v = "JObj [(''code'', JInt 0), (''user_id'', JInt u)]"
  have v: "js_valid ?v" using u by (auto simp: signed_in_as_def ascii_utf8)
  have kv: "js_valid (JObj [(''token'', JStr tok)])" using u by (auto simp: signed_in_as_def ascii_utf8)
  have t: "value_string J (den J (JObj (with_method ''VerifyToken'' [(''token'', JStr tok)]))) ''token'' [] = Inr tok"
    by (rule json_stringD(4) [OF J]) (simp_all add: with_method_simps)
  have "CallRpc J D w ''UserService'' ''VerifyToken'' (den J (JObj [(''token'', JStr tok)])) [] = (w, Inr (den J ?v))"
  proof (rule CallRpc_exact [OF J kv _ v])
    show "reaches D ''UserService'' UserProc" using D(1) by (simp add: all_reachable_def)
    show "rpc_VerifyToken J w (den J (JObj (with_method ''VerifyToken'' [(''token'', JStr tok)]))) = (w, Inr (den J ?v))"
      using u by (simp add: rpc_VerifyToken_def t on_db_def signed_in_as_def) (simp add: den_obj)
  qed (use D in \<open>simp_all add: method_tables ascii_utf8\<close>)
  moreover have "value_int J (den J ?v) ''user_id'' 0 = Inr u"
    by (rule json_intD(3) [OF J]) (use u in \<open>auto simp: signed_in_as_def\<close>)
  ultimately show ?thesis
    using u tok by (simp add: with_uid_def Gateway_VerifyToken_def den_obj signed_in_as_def)
qed

section \<open>Reading a chunk\<close>

text \<open>What the storage answers to a read of \<open>sz\<close> bytes at \<open>off\<close>.\<close>

definition chunk_value :: "bytes \<Rightarrow> js" where
  "chunk_value data = JObj [(''code'', JInt 0), (''data'', JStr data), (''size'', JInt (int (length data)))]"

definition read_args :: "string \<Rightarrow> int \<Rightarrow> nat \<Rightarrow> (string \<times> js) list" where
  "read_args p off sz = [(''filepath'', JStr p), (''offset'', JInt off), (''size'', JInt (int sz))]"

lemma rpc_ReadChunk_at:
  assumes J: "json_ok J" and "i64 off" and "sz < 2 ^ 63" and r: "ReadChunk root (storage_disk w) p off sz = (storage_disk w, Inr data)"
  shows "rpc_ReadChunk J root w (den J (JObj (with_method ''ReadChunk'' (read_args p off sz)))) = (w, Inr (den J (chunk_value data)))"
proof -
  let ?k = "with_method ''ReadChunk'' (read_args p off sz)"
  have d: "distinct (map fst ?k)" by (rule with_method_simps(2)) (simp add: read_args_def)
  have "index_string J (den J (JObj ?k)) ''filepath'' = Inr p"
    by (rule json_stringD(2) [OF J d]) (simp add: with_method_simps read_args_def)
  moreover have "index_int J (den J (JObj ?k)) ''offset'' = Inr off"
    by (rule json_intD(1) [OF J d]) (use assms(2) in \<open>simp_all add: with_method_simps read_args_def\<close>)
  moreover have "value_size J (den J (JObj ?k)) ''size'' 0 = Inr (nat (int sz))"
    by (rule json_intD(4) [OF J d]) (use assms(3) in \<open>simp_all add: with_method_simps read_args_def\<close>)
  ultimately show ?thesis
    using r by (simp add: rpc_ReadChunk_def on_storage_def chunk_value_def) (simp add: den_obj)
qed

lemma read_args_valid: "utf8 p \<Longrightarrow> i64 off \<Longrightarrow> sz < 2 ^ 63 \<Longrightarrow> js_valid (JObj (read_args p off sz))"
  by (auto simp: read_args_def ascii_utf8)

lemma ReadChunk_length:
  "ReadChunk base s p off sz = (s', Inr data) \<Longrightarrow> length data \<le> sz"
  by (auto simp: ReadChunk_def Let_def case_prod_unfold split: if_splits option.splits)

lemma call_ReadChunk:
  assumes J: "json_ok J" and D: "all_reachable D" "outcomes w = []" and a: "utf8 p" "i64 off" "sz < 2 ^ 63"
    and r: "ReadChunk (storage_root D) (storage_disk w) p off sz = (storage_disk w, Inr data)"
  shows "CallRpc J D w ''StorageService'' ''ReadChunk'' (den J (JObj (read_args p off sz))) []
    = (w, Inr (den J (if utf8 data then chunk_value data else timeout_value)))"
proof -
  note kv = read_args_valid [OF a]
  have st: "reaches D ''StorageService'' StorageProc" using D(1) by (simp add: all_reachable_def)
  have ms: "binary_methods (methods_of J D StorageProc) ''ReadChunk'' = None"
    "methods (methods_of J D StorageProc) ''ReadChunk'' = Some (\<lambda>s j b. rpc_ReadChunk J (storage_root D) s j)"
    by (simp_all add: method_tables)
  have u: "utf8 ''ReadChunk''" by (simp add: ascii_utf8)
  note run = rpc_ReadChunk_at [OF J a(2,3) r]
  show ?thesis
  proof (cases "utf8 data")
    case True
    have "int (length data) < 2 ^ 63" using ReadChunk_length [OF r] a(3) by simp
    then have "js_valid (chunk_value data)" using True by (auto simp: chunk_value_def ascii_utf8)
    from CallRpc_exact [OF J kv u this st D(2) ms run] True show ?thesis by simp
  next
    case False
    then have "\<not> texts_ok (chunk_value data)" by (simp add: chunk_value_def)
    from CallRpc_unwritable [OF J kv u this st D(2) ms run] False show ?thesis by simp
  qed
qed

text \<open>The handler of a chunk request that names a path.\<close>

lemma run_download_chunk:
  assumes J: "json_ok J" and D: "all_reachable D" "outcomes w = []" and u: "signed_in_as w tok u" "tok \<noteq> []"
    and req: "GetJson J req = den J (JObj kvs)" "js_valid (JObj kvs)" "map_of kvs ''cmd'' = Some (JStr ''download_chunk'')"
      "map_of kvs ''token'' = Some (JStr tok)" "map_of kvs ''offset'' = Some (JInt off)" "map_of kvs ''size'' = Some (JInt (int sz))"
    and p: "value_string J (GetJson J req) ''filepath'' [] = Inr p" "utf8 p"
    and r: "ReadChunk (storage_root D) (storage_disk w) p off sz = (storage_disk w, Inr data)"
  shows "run_handling (Gateway_Route J (gateway_router J) req) J D w
    = (w, Gateway_MakeResponse J req 0 ''ok'' (den J (if utf8 data then chunk_value data else timeout_value))
        (if utf8 data then data else []))"
proof -
  have d: "distinct (map fst kvs)" using req(2) by simp
  have cmd: "GetCmd J req = ''download_chunk''" by (simp add: GetCmd_def req(1) json_stringD(1) [OF J d req(3)])
  have tok: "value_string J (GetJson J req) ''token'' [] = Inr tok" by (simp add: req(1) json_stringD(4) [OF J d req(4)])
  have route: "Gateway_Route J (gateway_router J) req = gw_download_chunk J req"
    by (simp add: Gateway_Route_def cmd gateway_router_def)
  have i: "i64 off" "sz < 2 ^ 63" using valid_member [OF req(2,5)] valid_member [OF req(2,6)] by simp_all
  have ix: "index_json J (GetJson J req) ''offset'' = Inr (num J off)" "index_json J (GetJson J req) ''size'' = Inr (num J (int sz))"
    using json_presentD(2) [OF J d req(5)] json_presentD(2) [OF J d req(6)] by (simp_all add: req(1))
  let ?r = "if utf8 data then chunk_value data else timeout_value"
  have v: "value_string J (den J ?r) ''data'' [] = Inr (if utf8 data then data else [])"
  proof (cases "utf8 data")
    case True
    have "value_string J (den J (chunk_value data)) ''data'' [] = Inr data"
      unfolding chunk_value_def by (rule json_stringD(4) [OF J]) auto
    with True show ?thesis by simp
  next
    case False
    have "value_string J (den J timeout_value) ''data'' [] = Inr []"
      unfolding timeout_value_def by (rule json_missingD(1) [OF J]) simp
    with False show ?thesis by simp
  qed
  have "den J (JObj (read_args p off sz)) = obj J [(''filepath'', str J p), (''offset'', num J off), (''size'', num J (int sz))]"
    by (simp add: read_args_def den_obj)
  with call_ReadChunk [OF J D p(2) i r] v show ?thesis
    unfolding route gw_download_chunk_def with_uid_passes [OF J D u(1) tok u(2)]
    by (simp add: p(1) ix)
qed

section \<open>The client and the gateway\<close>

definition gateway_net :: "'j json_ops \<Rightarrow> deployment \<Rightarrow> cluster net" where
  "gateway_net J D w m =
     (case run_handling (Gateway_Route J (gateway_router J) m) J D w of
        (w, Inl e) \<Rightarrow> (w, None) | (w, Inr resp) \<Rightarrow> (w, Some resp))"

lemma response_binary: "response_of J resp = Inr cr \<Longrightarrow> resp_binary cr = binary_data resp"
  by (auto simp: response_of_def Let_def split: sum.splits)

lemma Gateway_MakeResponse_reply:
  assumes J: "json_ok J" and v: "js_valid (JObj kvs)" "utf8 m" "c \<in> {0, -1}"
  obtains resp where "Gateway_MakeResponse J req c m (den J (JObj kvs)) bin = Inr resp"
    "response_of J resp = Inr (reply J c m kvs bin)" "binary_data resp = bin"
proof -
  have "Gateway_MakeResponse J req c m (den J (JObj kvs)) bin = MakeResponse J req c m (map (map_prod id (den J)) kvs) bin"
    using json_setD(2) [OF J, of kvs] by (simp add: Gateway_MakeResponse_def MakeResponse_def den_obj)
  moreover obtain resp where r: "MakeResponse J req c m (map (map_prod id (den J)) kvs) bin = Inr resp"
    "response_of J resp = Inr (reply J c m kvs bin)"
    using MakeResponse_reply [OF J v, of req bin] by blast
  moreover have "binary_data resp = bin" using response_binary [OF r(2)] by (simp add: reply_def)
  ultimately show ?thesis using that by simp
qed

lemma gateway_exchange:
  assumes J: "json_ok J" and kvs: "js_valid (JObj kvs)" and c: "connection c"
    and run: "\<And>m. GetJson J m = den J (JObj kvs) \<Longrightarrow> run_handling (Gateway_Route J (gateway_router J) m) J D (world c)
      = (w', Gateway_MakeResponse J m 0 s (den J (JObj out)) bin)"
    and out: "js_valid (JObj out)" "utf8 s"
  shows "SendRequest J (gateway_net J D) c (den J (JObj kvs)) = (sent c w', Inr (reply J 0 s out bin))"
proof -
  obtain m where m: "request_message J (next_request_id c) (den J (JObj kvs)) [] = Inr m" "GetJson J m = den J (JObj kvs)"
    using request_message_ok [OF J kvs] by blast
  obtain resp where r: "Gateway_MakeResponse J m 0 s (den J (JObj out)) bin = Inr resp" "response_of J resp = Inr (reply J 0 s out bin)"
    using Gateway_MakeResponse_reply [OF J out, of 0] by blast
  with run [OF m(2)] have "gateway_net J D (world c) m = (w', Some resp)" by (simp add: gateway_net_def)
  with m(1) c r(2) show ?thesis
    by (simp add: SendRequest_def SendRequestWithBinary_def NextRequestId_def sent_def)
qed

definition info_value :: "FileInfo \<Rightarrow> (string \<times> js) list" where
  "info_value r = [(''code'', JInt 0), (''filesize'', JInt (filesize r)), (''filename'', JStr (filename r)),
     (''md5'', JStr (md5 r)), (''status'', JInt (status r))]"

lemma run_download:
  assumes J: "json_ok J" and D: "all_reachable D" "outcomes w = []" and u: "signed_in_as w tok u" "tok \<noteq> []"
    and d: "files_ok (cdb w)" "file_row (cdb w) i = Some r" and v: "js_valid (JObj (info_value r))" and "i64 i"
    and req: "GetJson J req = den J (JObj [(''cmd'', JStr ''download''), (''token'', JStr tok), (''file_id'', JInt i)])"
  shows "run_handling (Gateway_Route J (gateway_router J) req) J D w
    = (w, Gateway_MakeResponse J req 0 [] (den J (JObj (info_value r))) [])"
proof -
  let ?kvs = "[(''cmd'', JStr ''download''), (''token'', JStr tok), (''file_id'', JInt i)]"
  have cmd: "GetCmd J req = ''download''"
    unfolding GetCmd_def req using json_stringD(1) [OF J, of ?kvs "''cmd''" "''download''"] by simp
  have tok: "value_string J (GetJson J req) ''token'' [] = Inr tok"
    unfolding req by (rule json_stringD(4) [OF J]) auto
  have ix: "index_json J (GetJson J req) ''file_id'' = Inr (num J i)"
    unfolding req using json_presentD(2) [OF J, of ?kvs "''file_id''" "JInt i"] by simp
  have route: "Gateway_Route J (gateway_router J) req = gw_download J req"
    by (simp add: Gateway_Route_def cmd gateway_router_def)
  have a: "index_int J (den J (JObj (with_method ''GetFileInfo'' [(''file_id'', JInt i)]))) ''file_id'' = Inr i"
    by (rule json_intD(1) [OF J]) (use assms(9) in \<open>simp_all add: with_method_simps\<close>)
  have "FileDAO_FindById (cdb w) i = (cdb w, Some r)" using FindById_ok [OF d(1)] d(2) by simp
  then have f: "on_files w (\<lambda>st. GetFileInfo st i) = (w, Some r)"
    by (simp add: on_files_def GetFileInfo_def put_disk_of_files_def disk_of_files_def split: option.splits)
  have "CallRpc J D w ''FileService'' ''GetFileInfo'' (den J (JObj [(''file_id'', JInt i)])) [] = (w, Inr (den J (JObj (info_value r))))"
  proof (rule CallRpc_exact [OF J _ _ v])
    show "reaches D ''FileService'' FileProc" using D(1) by (simp add: all_reachable_def)
    show "rpc_GetFileInfo J w (den J (JObj (with_method ''GetFileInfo'' [(''file_id'', JInt i)]))) = (w, Inr (den J (JObj (info_value r))))"
      by (simp add: rpc_GetFileInfo_def a f info_value_def) (simp add: den_obj)
  qed (use D assms(9) in \<open>auto simp: method_tables ascii_utf8\<close>)
  moreover have "value_code J (den J (JObj (info_value r))) = Inr 0"
    by (rule ok_fields [OF J]) (simp_all add: info_value_def)
  moreover have "value_string J (den J (JObj (info_value r))) ''msg'' [] = Inr []"
    by (rule json_missingD(1) [OF J]) (simp add: info_value_def)
  ultimately show ?thesis
    unfolding route gw_download_def with_uid_passes [OF J D u(1) tok u(2)]
    by (simp add: ix pass_on_def den_obj)
qed

text \<open>The loop of the client asks by file id; the gateway reads a path, and there is none.\<close>

lemma client_chunk_through_gateway:
  assumes J: "json_ok J" and D: "all_reachable D" "outcomes (world c) = []" and u: "signed_in_as (world c) tok u" "tok \<noteq> []"
    and h: "healthy (storage_disk (world c))" and c: "connection c" and b: "i64 i" "i64 off" "0 < fsize - off"
  shows "SendRequest J (gateway_net J D) c (obj J [(''cmd'', str J ''download_chunk''), (''token'', str J tok),
      (''file_id'', num J i), (''offset'', num J off), (''size'', num J (min kChunkSize (fsize - off)))])
    = (sent c (world c), Inr (reply J 0 ''ok'' [(''code'', JInt 0), (''data'', JStr []), (''size'', JInt 0)] []))"
proof -
  define sz where "sz = nat (min kChunkSize (fsize - off))"
  have sz: "min kChunkSize (fsize - off) = int sz" "sz < 2 ^ 63" using b(3) by (auto simp: sz_def kChunkSize_def)
  let ?kvs = "[(''cmd'', JStr ''download_chunk''), (''token'', JStr tok), (''file_id'', JInt i), (''offset'', JInt off),
    (''size'', JInt (int sz))]"
  let ?out = "[(''code'', JInt 0), (''data'', JStr []), (''size'', JInt 0)]"
  have kv: "js_valid (JObj ?kvs)" using u b(1,2) sz(2) by (auto simp: signed_in_as_def ascii_utf8)
  have "next_io (storage_disk (world c)) = (io_ok, storage_disk (world c))" using h by (simp add: healthy_def next_io_none)
  then have r: "ReadChunk (storage_root D) (storage_disk (world c)) [] off sz = (storage_disk (world c), Inr [])"
    by (simp add: ReadChunk_def GetAbsolutePath_def lookup_file_def resolve_def io_ok_def Let_def)
  have "SendRequest J (gateway_net J D) c (den J (JObj ?kvs)) = (sent c (world c), Inr (reply J 0 ''ok'' ?out []))"
  proof (rule gateway_exchange [OF J kv c])
    fix m assume m: "GetJson J m = den J (JObj ?kvs)"
    have "value_string J (GetJson J m) ''filepath'' [] = Inr []"
      unfolding m by (rule json_missingD(1) [OF J]) simp
    from run_download_chunk [OF J D u m kv _ _ _ _ this _ r]
    show "run_handling (Gateway_Route J (gateway_router J) m) J D (world c)
        = (world c, Gateway_MakeResponse J m 0 ''ok'' (den J (JObj ?out)) [])"
      by (simp add: chunk_value_def ascii_utf8)
  qed (auto simp: ascii_utf8)
  then show ?thesis by (simp add: sz(1) den_obj)
qed

section \<open>Properties\<close>

text \<open>
  a request without a token that the user service verifies, other than to register or to log in,
  changes neither table nor file and is never answered with success, whatever is lost on the way.
\<close>

theorem gateway_requires_token:
  assumes "json_ok J" and "\<forall>x \<in> set (users (cdb w)). i64 (uid x)"
    and "GetCmd J req \<notin> {''register'', ''login''}"
    and "\<forall>tok. value_string J (GetJson J req) ''token'' [] = Inr tok \<longrightarrow> utf8 tok \<and> snd (VerifyToken (cdb w) tok) \<le> 0"
    and "run_handling (Gateway_Route J (gateway_router J) req) J D w = (w', x)"
  shows "same_tables (cdb w) (cdb w') \<and> storage_disk w' = storage_disk w \<and> \<not> accepted J x"
proof (cases "gateway_router J (GetCmd J req)")
  case None
  let ?v = "JObj [(''code'', JInt (-3)), (''msg'', JStr (text_unknown_command @ GetCmd J req))]"
  have "x = (case SetJson J (response_to req) (den J ?v) of Inl e \<Rightarrow> Inl e | Inr r \<Rightarrow> Inr (id r))" "w' = w"
    using assms(5) None by (auto simp: Gateway_Route_def Let_def den_obj split: sum.splits)
  with not_accepted_json [OF assms(1) _ this(1)] show ?thesis by simp
next
  case (Some h)
  with gateway_router_cases [OF Some assms(3)] obtain k where "h req = with_uid J req k" by blast
  with assms(5) Some have "run_handling (with_uid J req k) J D w = (w', x)" by (simp add: Gateway_Route_def)
  from with_uid_refuses [OF assms(1,2,4) this] show ?thesis by (simp add: quiet_def)
qed

theorem gateway_requires_token_witness:
  "storage_disk (fst (run_handling (Gateway_Route js_ops (gateway_router js_ops) (sample_req (sample_cmd ''delete'' ''x'')))
     js_ops up_world up_cluster)) = sample_fs"
proof -
  let ?r = "sample_req (sample_cmd ''delete'' ''x'')"
  have c: "GetCmd js_ops ?r = ''delete''" "GetToken js_ops ?r = Inr ''x''" by (rule sample_req_cmd; simp)+
  have "\<forall>tok. value_string js_ops (GetJson js_ops ?r) ''token'' [] = Inr tok \<longrightarrow> utf8 tok \<and> snd (VerifyToken (cdb up_cluster) tok) \<le> 0"
    using c(2) by (simp add: GetToken_def VerifyToken_def UserDAO_FindByToken_def next_fault_def up_cluster_def sample_db_def
        User_new_def fetch_user_def ascii_utf8)
  moreover have "\<forall>x \<in> set (users (cdb up_cluster)). i64 (uid x)" by (simp add: up_cluster_def sample_db_def User_new_def)
  ultimately show ?thesis
    using gateway_requires_token [OF js_ops_ok _ _ _ surjective_pairing, of up_cluster ?r up_world] c(1)
    by (simp add: up_cluster_def)
qed

text \<open>
  a chunk is read by the path in the request, and nobody asks whose file that is: any signed-in
  user gets the bytes of any file. A chunk that is not UTF-8 text cannot travel in the JSON answer
  of the storage service; it is reported as a success without data.
\<close>

theorem gateway_reads_any_path:
  assumes J: "json_ok J" and D: "all_reachable D" "outcomes w = []" and u: "signed_in_as w tok u" "tok \<noteq> []"
    and req: "GetJson J req = den J (JObj kvs)" "js_valid (JObj kvs)" "map_of kvs ''cmd'' = Some (JStr ''download_chunk'')"
      "map_of kvs ''token'' = Some (JStr tok)" "map_of kvs ''filepath'' = Some (JStr p)"
      "map_of kvs ''offset'' = Some (JInt off)" "map_of kvs ''size'' = Some (JInt (int sz))"
    and disk: "healthy (storage_disk w)" "stored (storage_root D) (storage_disk w) p = Some c" "0 \<le> off"
  shows "\<exists>resp. run_handling (Gateway_Route J (gateway_router J) req) J D w = (w, Inr resp) \<and> accepted J (Inr resp)
    \<and> binary_data resp = (if utf8 (take sz (drop (nat off) c)) then take sz (drop (nat off) c) else [])"
proof -
  let ?data = "take sz (drop (nat off) c)"
  have d: "distinct (map fst kvs)" using req(2) by simp
  have sz: "sz < 2 ^ 63" "utf8 p" using valid_member [OF req(2,7)] valid_member [OF req(2,5)] by simp_all
  have p: "value_string J (GetJson J req) ''filepath'' [] = Inr p" by (simp add: req(1) json_stringD(4) [OF J d req(5)])
  note r = ReadChunk_healthy [OF disk sz(1)]
  define k where "k = (case (if utf8 ?data then chunk_value ?data else timeout_value) of JObj k \<Rightarrow> k | _ \<Rightarrow> [])"
  have k: "(if utf8 ?data then chunk_value ?data else timeout_value) = JObj k" by (simp add: k_def chunk_value_def timeout_value_def)
  have "js_valid (JObj k)"
    using sz(1) unfolding k [symmetric] by (auto simp: chunk_value_def timeout_value_def utf8_def)
  from Gateway_MakeResponse_reply [OF J this, of "''ok''" 0 req "if utf8 ?data then ?data else []"] obtain resp where
    "Gateway_MakeResponse J req 0 ''ok'' (den J (JObj k)) (if utf8 ?data then ?data else []) = Inr resp"
    "response_of J resp = Inr (reply J 0 ''ok'' k (if utf8 ?data then ?data else []))"
    "binary_data resp = (if utf8 ?data then ?data else [])"
    by (auto simp: ascii_utf8)
  with run_download_chunk [OF J D u req(1-4,6,7) p sz(2) r, unfolded k] show ?thesis
    by (auto simp: accepted_def is_ok_def reply_def)
qed

lemma up_world_reachable: "all_reachable up_world"
proof -
  have "ParseAddr ''127.0.0.1:9001'' = Inr (''127.0.0.1'', 9001)" "ParseAddr ''127.0.0.1:9002'' = Inr (''127.0.0.1'', 9002)"
    "ParseAddr ''127.0.0.1:9003'' = Inr (''127.0.0.1'', 9003)" by code_simp+
  then show ?thesis
    by (simp add: all_reachable_def reaches_def address_def GetUserService_def GetFileService_def GetStorageService_def up_world_def)
qed

text \<open>A user who owns nothing.\<close>

definition bob_cluster :: cluster where
  "bob_cluster = up_cluster\<lparr>cdb := (cdb up_cluster)\<lparr>users := [User_new ''bob'' ''pw''\<lparr>uid := 8, token := ''s''\<rparr>]\<rparr>\<rparr>"

definition read_body :: "(string \<times> js) list" where
  "read_body = [(''cmd'', JStr ''download_chunk''), (''token'', JStr ''s''), (''filepath'', JStr ''7/old''), (''offset'', JInt 1),
     (''size'', JInt (int 3))]"

theorem gateway_reads_any_path_witness:
  "\<exists>resp. run_handling (Gateway_Route js_ops (gateway_router js_ops) (sample_req (JObj read_body))) js_ops up_world bob_cluster
     = (bob_cluster, Inr resp) \<and> binary_data resp = ''bcd''"
proof -
  have v: "js_valid (JObj read_body)" by (simp add: read_body_def ascii_utf8)
  have "GetJson js_ops (sample_req (JObj read_body)) = den js_ops (JObj read_body)"
    using sample_req_json [OF v] den_js_ops [OF v] by simp
  moreover have "signed_in_as bob_cluster ''s'' 8"
    by (simp add: signed_in_as_def VerifyToken_def UserDAO_FindByToken_def next_fault_def bob_cluster_def up_cluster_def sample_db_def
        User_new_def fetch_user_def user_fits_def user_of_row_def ascii_utf8)
  moreover have "stored (storage_root up_world) (storage_disk bob_cluster) ''7/old'' = Some ''abcdef''"
    by (simp add: stored_def lookup_file_def resolve_def GetAbsolutePath_def bob_cluster_def up_cluster_def sample_fs_def up_world_def)
  moreover have "healthy (storage_disk bob_cluster)" "outcomes bob_cluster = []"
    by (simp_all add: healthy_def bob_cluster_def up_cluster_def sample_fs_def)
  moreover have "utf8 ''bcd''" by (simp add: ascii_utf8)
  ultimately show ?thesis
    using gateway_reads_any_path [OF js_ops_ok up_world_reachable, of bob_cluster "''s''" 8 "sample_req (JObj read_body)" read_body
        "''7/old''" 1 3 "''abcdef''"] v
    by (simp add: read_body_def) blast
qed

text \<open>
  C40: the client of the same repository never finishes a download through the gateway: it asks for
  chunks by file id, the gateway answers each with success and no bytes, and the loop stays at
  offset 0 for ever, however healthy everything is.
\<close>

theorem client_download_through_gateway_never_ends:
  assumes J: "json_ok J" and D: "all_reachable D" "outcomes (world c) = []" and u: "signed_in_as (world c) tok u" "tok \<noteq> []"
    and h: "healthy (storage_disk (world c))" and c: "connection c" and "i64 i"
    and d: "files_ok (cdb (world c))" "file_row (cdb (world c)) i = Some r" "js_valid (JObj (info_value r))" "0 < filesize r"
    and t: "save_target (disk c) save_path (filename r) = Some target" "creatable (disk c) target"
  shows "DownloadFile J (gateway_net J D) c tok i save_path = None"
proof -
  let ?c1 = "sent c (world c)"
  have kv: "js_valid (JObj [(''cmd'', JStr ''download''), (''token'', JStr tok), (''file_id'', JInt i)])"
    using u assms(8) by (auto simp: signed_in_as_def ascii_utf8)
  have "SendRequest J (gateway_net J D) c (den J (JObj [(''cmd'', JStr ''download''), (''token'', JStr tok), (''file_id'', JInt i)]))
      = (?c1, Inr (reply J 0 [] (info_value r) []))"
    by (rule gateway_exchange [OF J kv c run_download [OF J D u d(1-3) assms(8)] d(3)]) (simp_all add: ascii_utf8)
  then have s: "SendRequest J (gateway_net J D) c (obj J [(''cmd'', str J ''download''), (''token'', str J tok), (''file_id'', num J i)])
      = (?c1, Inr (reply J 0 [] (info_value r) []))" by (simp add: den_obj)
  have sz: "i64 (filesize r)" "distinct (map fst (info_value r))" using d(3) by (auto simp: info_value_def)
  have f: "value_int J (den J (JObj (info_value r))) ''filesize'' 0 = Inr (filesize r)"
    "value_string J (den J (JObj (info_value r))) ''filename'' [] = Inr (filename r)"
    using json_intD(3) [OF J sz(2) _ sz(1)] json_stringD(4) [OF J sz(2)] by (simp_all add: info_value_def)
  have "download_loop J (gateway_net J D) tok i (filesize r) ?c1 [] 0 = None"
  proof (rule download_loop_stuck [where S = "\<lambda>x. connection x \<and> world x = world c"])
    fix x :: "cluster FileClient" assume x: "connection x \<and> world x = world c"
    show "\<exists>c' resp. SendRequest J (gateway_net J D) x (obj J [(''cmd'', str J ''download_chunk''), (''token'', str J tok),
        (''file_id'', num J i), (''offset'', num J 0), (''size'', num J (min kChunkSize (filesize r - 0)))]) = (c', Inr resp)
      \<and> is_ok resp \<and> resp_binary resp = [] \<and> (\<forall>p. connection (c'\<lparr>progress_log := p\<rparr>) \<and> world (c'\<lparr>progress_log := p\<rparr>) = world c)"
      using client_chunk_through_gateway [OF J D(1), of x tok u i 0 "filesize r"] x D(2) u h assms(8) d(4)
      by (simp add: is_ok_def reply_def)
  qed (use c d(4) in simp_all)
  with s f t d(4) show ?thesis
    by (simp add: DownloadFile_def is_ok_def reply_def)
qed

definition cluster_client :: "cluster FileClient" where
  "cluster_client = \<lparr>world = up_cluster, disk = sample_disk, connection = True, connected_flag = True,
     client_decoder = Decoder_init, client_token = ''t'', next_request_id = 1, progress_log = []\<rparr>"

lemma up_cluster_signed_in: "signed_in_as up_cluster ''t'' 7"
  by (simp add: signed_in_as_def VerifyToken_def UserDAO_FindByToken_def next_fault_def up_cluster_def sample_db_def
      User_new_def fetch_user_def user_fits_def user_of_row_def ascii_utf8)

lemma up_cluster_files: "files_ok (cdb up_cluster)" "file_row (cdb up_cluster) 1 = Some up_file"
  by (simp_all add: files_ok_def files_inv_def clock_ok_def up_cluster_def sample_db_def up_file_def sample_file_def
      FileInfo_default_def file_clean_def file_fits_def file_row_def)

theorem client_download_through_gateway_never_ends_witness:
  "DownloadFile js_ops (gateway_net js_ops up_world) cluster_client ''t'' 1 ''/tmp/copy'' = None"
proof (rule client_download_through_gateway_never_ends [OF js_ops_ok up_world_reachable])
  show "save_target (disk cluster_client) ''/tmp/copy'' (filename up_file) = Some ''/tmp/copy''"
    by (simp add: save_target_def cluster_client_def sample_disk_def)
  show "js_valid (JObj (info_value up_file))"
    by (simp add: info_value_def up_file_def sample_file_def FileInfo_default_def ascii_utf8)
  show "signed_in_as (world cluster_client) ''t'' 7" by (simp add: cluster_client_def up_cluster_signed_in)
  show "files_ok (cdb (world cluster_client))" "file_row (cdb (world cluster_client)) 1 = Some up_file"
    by (simp_all add: cluster_client_def up_cluster_files)
  show "0 < filesize up_file" by (simp add: up_file_def)
  show "outcomes (world cluster_client) = []" "healthy (storage_disk (world cluster_client))"
    by (simp_all add: cluster_client_def up_cluster_def healthy_def sample_fs_def)
qed (simp_all add: cluster_client_def sample_disk_def)

end
