(* ===== verification/Completion.thy ===== *)
theory Completion
  imports Flows
begin

text \<open>
  The upload through the gateway gets done: when every process can be reached and nothing fails, a
  chunk that fits is stored, confirmed and acknowledged, whatever happened before; chunk by chunk the
  file is completed, and its finalization succeeds.
\<close>

section \<open>Storing a chunk\<close>

text \<open>Nothing is in the way of the file of a row.\<close>

definition room :: "path \<Rightarrow> fs \<Rightarrow> FileInfo \<Rightarrow> bool" where
  "room b s r \<longleftrightarrow> healthy s \<and> place b r \<notin> set (dirs s) \<and> map_of (files s) (b @ [to_string (fuser_id r)]) = None"

lemma CreateUserDir_healthy:
  assumes "root_dir base s b" and "healthy s" and "map_of (files s) (b @ [to_string u]) = None"
  shows "\<exists>s1. CreateUserDir base s u = (s1, True) \<and> healthy s1 \<and> b @ [to_string u] \<in> set (dirs s1)"
proof -
  have "last (to_string u) \<in> set (to_string u)" by (rule last_in_set) simp
  then have "last (to_string u) \<noteq> CHR ''/''" using to_string_no_sep(1) [of u] by metis
  then have r: "resolve s (strip_slashes (base @ ''/'' @ to_string u)) = Some (b @ [to_string u])"
    using resolve_user_file(2) [OF assms(1) to_string_component to_string_component, of u]
    by (simp add: strip_slashes_id del: strip_slashes.simps)
  have "b \<in> set (dirs s)" using assms(1) by (simp add: root_dir_def)
  with r assms(2,3) show ?thesis
    by (auto simp: CreateUserDir_def mkdir_def Let_def healthy_def next_io_none io_ok_def)
qed

lemma store_chunk:
  assumes root: "root_dir base s b" and row: "row_path r" and "room b s r" and off: "0 \<le> off"
  shows "\<exists>s1 s2. CreateUserDir base s (fuser_id r) = (s1, True)
    \<and> WriteChunk base s1 (filepath r) d off = (s2, int (length d)) \<and> room b s2 r \<and> b @ [to_string (fuser_id r)] \<in> set (dirs s2)"
proof -
  have room: "healthy s" "place b r \<notin> set (dirs s)" "map_of (files s) (b @ [to_string (fuser_id r)]) = None"
    using assms(3) by (simp_all add: room_def)
  from CreateUserDir_healthy [OF root room(1,3)] obtain s1 where
    c: "CreateUserDir base s (fuser_id r) = (s1, True)" and s1: "healthy s1" "b @ [to_string (fuser_id r)] \<in> set (dirs s1)"
    by blast
  note e = CreateUserDir_effect [OF c root]
  have at: "resolve s1 (GetAbsolutePath base (filepath r)) = Some (place b r)"
    using resolve_row [OF _ row, of base s1 b] e s1(2) by simp
  have free: "place b r \<notin> set (dirs s1)" using e room(2) by (auto simp: place_def)
  have "butlast (place b r) = b @ [to_string (fuser_id r)]" by (simp add: place_def butlast_append)
  then have p: "placeable base s1 (filepath r)" using at free s1(2) by (simp add: placeable_def)
  obtain s2 n where w: "WriteChunk base s1 (filepath r) d off = (s2, n)" by fastforce
  have "n = int (length d)" using WriteChunk_healthy(1) [OF s1(1) p off, of d] w by simp
  moreover have "room b s2 r"
  proof -
    have "map_of (files s2) (b @ [to_string (fuser_id r)]) = map_of (files s1) (b @ [to_string (fuser_id r)])"
      by (rule WriteChunk_other_place [OF w]) (simp add: at place_def)
    with WriteChunk_frame [OF w] s1(1) free e room(3) show ?thesis by (simp add: room_def)
  qed
  ultimately show ?thesis using c w s1(2) WriteChunk_frame(2) [OF w] by auto
qed

section \<open>Calls with a binary part\<close>

lemma CallRpc_exact_binary:
  assumes J: "json_ok J" and kvs: "js_valid (JObj kvs)" "utf8 method" and v: "js_valid v"
    and r: "reaches D service p" "outcomes w = []"
    and ms: "binary_methods (methods_of J D p) method = Some f"
    and f: "f w (den J (JObj (with_method method kvs))) bin = (w1, Inr (den J v))"
  shows "CallRpc J D w service method (den J (JObj kvs)) bin = (w1, Inr (den J v))"
proof -
  have "call_method J (exn_text D) (methods_of J D p) w method m = (w1, den J v)"
    if "GetJson J m = den J (JObj (with_method method kvs))" "binary_data m = bin" for m
    using ms f that by (simp add: call_method_def)
  then show ?thesis using Call_ok [OF J kvs v] by (simp add: CallRpc_reached [OF r])
qed

section \<open>The three calls of a chunk\<close>

lemma chunk_fit_confirms:
  "chunk_fits r off sz \<Longrightarrow> off = upload_size r \<Longrightarrow> confirms r (fuser_id r) off sz"
  by (simp add: chunk_fits_def confirms_def IsUploading_def)

lemma prepare_call:
  assumes J: "json_ok J" and D: "all_reachable D" "outcomes w = []" and ok: "files_ok (cdb w)" "file_row (cdb w) i = Some r"
    and b: "i64 i" "i64 (fuser_id r)" "i64 off" "i64 sz" and r: "i64 (filesize r)" "i64 (upload_size r)" "utf8 (filepath r)"
    and fits: "chunk_fits r off sz"
  shows "CallRpc J D w ''FileService'' ''PrepareUploadChunk'' (den J (JObj (chunk_args i (fuser_id r) off sz))) []
    = (w, Inr (den J (prepared_value r)))"
proof (rule CallRpc_exact [OF J chunk_args_valid [OF b]])
  let ?k = "with_method ''PrepareUploadChunk'' (chunk_args i (fuser_id r) off sz)"
  have "validate_chunk J w (den J (JObj ?k)) = (w, Inr (Some r))"
    using validate_exact [OF J ok chunk_fields_method [OF chunk_args_fields [OF b]] r(1)] fits by simp
  then show "rpc_PrepareUploadChunk J w (den J (JObj ?k)) = (w, Inr (den J (prepared_value r)))"
    by (simp add: rpc_PrepareUploadChunk_def prepared_value_def den_obj)
  show "js_valid (prepared_value r)" using r by (auto simp: prepared_value_def ascii_utf8)
  show "reaches D ''FileService'' FileProc" using D(1) by (simp add: all_reachable_def)
qed (use D in \<open>auto simp: method_tables ascii_utf8\<close>)

lemma write_call:
  assumes J: "json_ok J" and D: "all_reachable D" "outcomes w = []" and root: "root_dir (storage_root D) (storage_disk w) b"
    and r: "row_path r" "utf8 (filepath r)" "path_allowed (fuser_id r) (filepath r)" "room b (storage_disk w) r"
    and u: "0 < fuser_id r" "i64 (fuser_id r)" and off: "0 \<le> off" "i64 off" and d: "data \<noteq> []" "length data < 2 ^ 63"
  shows "\<exists>s. room b s r \<and> b @ [to_string (fuser_id r)] \<in> set (dirs s) \<and> CallRpc J D w ''StorageService'' ''WriteChunk''
      (den J (JObj (write_args (filepath r) (fuser_id r) off (int (length data))))) data
    = (w\<lparr>storage_disk := s\<rparr>, Inr (den J (written_value (int (length data)) (int (length data)))))"
proof -
  let ?sz = "int (length data)" and ?root = "storage_root D"
  let ?kvs = "write_args (filepath r) (fuser_id r) off ?sz"
  let ?k = "with_method ''WriteChunk'' ?kvs"
  from store_chunk [OF root r(1,4) off(1), of data] obtain s1 s2 where
    c: "CreateUserDir ?root (storage_disk w) (fuser_id r) = (s1, True)"
      "WriteChunk ?root s1 (filepath r) data off = (s2, ?sz)" "room b s2 r" "b @ [to_string (fuser_id r)] \<in> set (dirs s2)" by blast
  have kv: "js_valid (JObj ?kvs)" using r(2) u(2) off(2) d(2) by (auto simp: write_args_def ascii_utf8)
  have k: "distinct (map fst ?k)" by (rule with_method_simps(2)) (simp add: write_args_def)
  have at: "at_string J (den J (JObj ?k)) ''filepath'' = Inr (filepath r)"
    by (rule json_stringD(3) [OF J k]) (simp add: with_method_simps write_args_def)
  have ati: "at_int J (den J (JObj ?k)) ''user_id'' = Inr (fuser_id r)" "at_int J (den J (JObj ?k)) ''offset'' = Inr off"
    "at_int J (den J (JObj ?k)) ''size'' = Inr ?sz"
    by (rule json_intD(2) [OF J k]; use u off d in \<open>simp add: with_method_simps write_args_def\<close>)+
  have on: "on_storage w (\<lambda>s. CreateUserDir ?root s (fuser_id r)) = (w\<lparr>storage_disk := s1\<rparr>, True)"
    "on_storage (w\<lparr>storage_disk := s1\<rparr>) (\<lambda>s. WriteChunk ?root s (filepath r) data off) = (w\<lparr>storage_disk := s2\<rparr>, ?sz)"
    using c by (simp_all add: on_storage_def)
  have run: "rpc_WriteChunk J ?root w (den J (JObj ?k)) data = (w\<lparr>storage_disk := s2\<rparr>, Inr (den J (written_value ?sz ?sz)))"
    using u(1) off(1) d(1) r(3) by (simp add: rpc_WriteChunk_def at ati on Let_def) (simp add: written_value_def den_obj)
  have "js_valid (written_value ?sz ?sz)" using d(2) by (auto simp: written_value_def ascii_utf8)
  moreover have "reaches D ''StorageService'' StorageProc" using D(1) by (simp add: all_reachable_def)
  moreover have "utf8 ''WriteChunk''" by (simp add: ascii_utf8)
  ultimately have "CallRpc J D w ''StorageService'' ''WriteChunk'' (den J (JObj ?kvs)) data
      = (w\<lparr>storage_disk := s2\<rparr>, Inr (den J (written_value ?sz ?sz)))"
    using CallRpc_exact_binary [OF J kv _ _ _ D(2) method_tables_lookup(7) run] by blast
  with c(3,4) show ?thesis by blast
qed

lemma confirm_call:
  assumes J: "json_ok J" and D: "all_reachable D" "outcomes w = []" and ok: "files_ok (cdb w)" "file_row (cdb w) i = Some r"
    and b: "i64 i" "i64 (fuser_id r)" "i64 off" "i64 sz" and r: "i64 (filesize r)"
    and fits: "chunk_fits r off sz" "off = upload_size r"
  shows "CallRpc J D w ''FileService'' ''ConfirmUploadChunk'' (den J (JObj (chunk_args i (fuser_id r) off sz))) []
    = (w\<lparr>cdb := confirm_db (cdb w) i (fuser_id r) off sz\<rparr>, Inr (den J (JObj [(''code'', JInt 0), (''upload_size'', JInt (off + sz))])))"
proof (rule CallRpc_exact [OF J chunk_args_valid [OF b]])
  let ?k = "with_method ''ConfirmUploadChunk'' (chunk_args i (fuser_id r) off sz)" and ?d = "confirm_db (cdb w) i (fuser_id r) off sz"
  note fields = chunk_fields_method [OF chunk_args_fields [OF b]]
  have v: "validate_chunk J w (den J (JObj ?k)) = (w, Inr (Some r))"
    using validate_exact [OF J ok fields r] fits by simp
  note cf = chunk_fit_confirms [OF fits]
  have row: "file_row ?d i = Some (r\<lparr>upload_size := off + sz\<rparr>)"
    using ok(2) file_row_set [OF ok(2)] cf by (simp add: confirm_db_row)
  have on: "on_db w (\<lambda>d. FileDAO_ConfirmUploadChunk d i (fuser_id r) off sz) = (w\<lparr>cdb := ?d\<rparr>, True)"
    "on_db (w\<lparr>cdb := ?d\<rparr>) (\<lambda>d. FileDAO_FindById d i) = (w\<lparr>cdb := ?d\<rparr>, Some (r\<lparr>upload_size := off + sz\<rparr>))"
    using confirm_healthy [OF ok(1), of i "fuser_id r" off sz] ok(2) cf FindById_ok [OF files_ok_confirm [OF ok(1)]] row
    by (simp_all add: on_db_def)
  show "rpc_ConfirmUploadChunk J w (den J (JObj ?k)) = (w\<lparr>cdb := ?d\<rparr>, Inr (den J (JObj [(''code'', JInt 0), (''upload_size'', JInt (off + sz))])))"
    by (simp add: rpc_ConfirmUploadChunk_def Let_def v chunk_fields_at [OF J fields] on del: den.simps) (simp add: den_obj)
  have "0 \<le> off + sz" "off + sz \<le> filesize r" using fits by (auto simp: chunk_fits_def)
  with r show "js_valid (JObj [(''code'', JInt 0), (''upload_size'', JInt (off + sz))])" by (auto simp: ascii_utf8)
  show "reaches D ''FileService'' FileProc" using D(1) by (simp add: all_reachable_def)
qed (use D in \<open>auto simp: method_tables ascii_utf8\<close>)

section \<open>A chunk gets through\<close>

definition ready :: "deployment \<Rightarrow> path \<Rightarrow> string \<Rightarrow> cluster \<Rightarrow> FileInfo \<Rightarrow> bool" where
  "ready D b tok w r \<longleftrightarrow> all_reachable D \<and> outcomes w = [] \<and> files_ok (cdb w) \<and> signed_in_as w tok (fuser_id r) \<and> tok \<noteq> []
     \<and> path_allowed (fuser_id r) (filepath r) \<and> room b (storage_disk w) r
     \<and> (0 < upload_size r \<longrightarrow> b @ [to_string (fuser_id r)] \<in> set (dirs (storage_disk w)))"

lemma signed_in_confirm:
  assumes "files_ok (cdb w)" and "signed_in_as w tok u"
  shows "signed_in_as (w\<lparr>storage_disk := s, cdb := confirm_db (cdb w) i v off sz\<rparr>) tok u"
proof -
  have "db_faults (cdb w) = []" using assms(1) by (simp add: files_ok_def)
  with assms(2) show ?thesis
    by (auto simp: signed_in_as_def VerifyToken_def UserDAO_FindByToken_def next_fault_none confirm_db_def update_files_def
        split: option.splits if_splits)
qed

lemma room_upload_size [simp]: "room b s (r\<lparr>upload_size := n\<rparr>) = room b s r"
  by (simp add: room_def)

lemma ready_confirmed:
  assumes "ready D b tok w r" and "room b s r" and "b @ [to_string (fuser_id r)] \<in> set (dirs s)"
  shows "ready D b tok (w\<lparr>storage_disk := s, cdb := confirm_db (cdb w) i v off sz\<rparr>) (r\<lparr>upload_size := n\<rparr>)"
  using assms files_ok_confirm signed_in_confirm by (simp add: ready_def)

lemma fields_of_prepared:
  assumes J: "json_ok J" and "i64 (upload_size r)"
  shows "value_code J (den J (prepared_value r)) = Inr 0" "value_int J (den J (prepared_value r)) ''upload_size'' 0 = Inr (upload_size r)"
    "at_json J (den J (prepared_value r)) ''upload_size'' = Inr (num J (upload_size r))"
    "at_json J (den J (prepared_value r)) ''filepath'' = Inr (str J (filepath r))"
proof -
  let ?kvs = "[(''code'', JInt 0), (''filepath'', JStr (filepath r)), (''upload_size'', JInt (upload_size r))]"
  show "value_code J (den J (prepared_value r)) = Inr 0"
    unfolding prepared_value_def by (rule ok_fields [OF J]) simp_all
  show "value_int J (den J (prepared_value r)) ''upload_size'' 0 = Inr (upload_size r)"
    unfolding prepared_value_def by (rule json_intD(3) [OF J]) (use assms(2) in simp_all)
  show "at_json J (den J (prepared_value r)) ''upload_size'' = Inr (num J (upload_size r))"
    "at_json J (den J (prepared_value r)) ''filepath'' = Inr (str J (filepath r))"
    unfolding prepared_value_def using json_presentD(3) [OF J, of ?kvs "''upload_size''" "JInt (upload_size r)"]
      json_presentD(3) [OF J, of ?kvs "''filepath''" "JStr (filepath r)"] by simp_all
qed

lemma accepted_reply:
  assumes "json_ok J" and "i64 m" and "i64 n"
  shows "accepted J (Gateway_MakeResponse J req 0 ''ok'' (obj J [(''written'', num J m), (''upload_size'', num J n)]) [])"
proof -
  have "js_valid (JObj [(''written'', JInt m), (''upload_size'', JInt n)])" using assms(2,3) by (auto simp: ascii_utf8)
  from Gateway_MakeResponse_reply [OF assms(1) this, of "''ok''" 0 req "[]"] obtain resp where
    "Gateway_MakeResponse J req 0 ''ok'' (obj J [(''written'', num J m), (''upload_size'', num J n)]) [] = Inr resp"
    "response_of J resp = Inr (reply J 0 ''ok'' [(''written'', JInt m), (''upload_size'', JInt n)] [])"
    by (auto simp: den_obj ascii_utf8)
  then show ?thesis by (auto simp: accepted_def is_ok_def reply_def)
qed

lemma chunk_gets_through:
  assumes J: "json_ok J" and inv: "upload_inv (storage_root D) b C i w" and row: "file_row (cdb w) i = Some r"
    and rd: "ready D b tok w r" and c: "chunk_request J C i req i off"
    and tok: "value_string J (GetJson J req) ''token'' [] = Inr tok" and fits: "chunk_fits r off (chunk_size req)"
  shows "\<exists>w' x. run_handling (Gateway_Route J (gateway_router J) req) J D w = (w', x) \<and> accepted J x
    \<and> upload_inv (storage_root D) b C i w' \<and> file_row (cdb w') i = Some (r\<lparr>upload_size := max (upload_size r) (off + chunk_size req)\<rparr>)
    \<and> ready D b tok w' (r\<lparr>upload_size := max (upload_size r) (off + chunk_size req)\<rparr>)"
proof -
  let ?sz = "chunk_size req" and ?u = "fuser_id r"
  let ?args = "den J (JObj (chunk_args i ?u off ?sz))"
  have D: "all_reachable D" "outcomes w = []" and ok: "files_ok (cdb w)" and u: "signed_in_as w tok ?u" "tok \<noteq> []"
    and pa: "path_allowed ?u (filepath r)" "room b (storage_disk w) r" using rd by (simp_all add: ready_def)
  have u0: "0 < ?u" "i64 ?u" using u(1) by (auto simp: signed_in_as_def)
  have rows: "rows_ok (cdb w)" and root: "root_dir (storage_root D) (storage_disk w) b" using inv by (auto simp: upload_inv_def)
  have r: "i64 (filesize r)" "i64 (upload_size r)" "utf8 (filepath r)" "row_path r"
    using rows file_row_set [OF row] rows_i64 [OF rows, of r] by (auto simp: rows_ok_def)
  note bounds = request_bounds [OF c]
  have off: "0 \<le> off" "0 < ?sz" "off + ?sz \<le> filesize r" using fits by (auto simp: chunk_fits_def)
  obtain kvs where k: "GetJson J req = den J (JObj kvs)" "js_valid (JObj kvs)" "map_of kvs ''cmd'' = Some (JStr ''upload_data'')"
    using c by (auto simp: chunk_request_def)
  then have cmd: "GetCmd J req = ''upload_data''" using json_stringD(1) [OF J, of kvs "''cmd''"] by (simp add: GetCmd_def)
  let ?run = "run_handling (Gateway_Route J (gateway_router J) req) J D w"
  have start: "?run = run_handling (upload_prepared J req ?u ?args off ?sz (den J (prepared_value r))) J D w"
    using prepare_call [OF J D ok row bounds(1) u0(2) bounds(2,3) r(1-3) fits]
    by (simp add: Gateway_Route_def cmd gateway_routes gw_upload_data_def with_uid_passes [OF J D u(1) tok u(2)] upload_user_call [OF J c])
  have wr: "wrap64 (off + ?sz) = off + ?sz" using off r(1) by (intro wrap64_id) auto
  note pf = fields_of_prepared [OF J r(2)]
  have step: "upload_inv (storage_root D) b C i (fst ?run)"
  proof -
    have "uploading J (storage_root D) b C i \<lparr>services = w, handlers = [] @ [(req, Gateway_Route J (gateway_router J) req)]\<rparr>"
      using inv c enter_at_work [OF J c] by (auto simp: uploading_def)
    with uploading_reachable [OF J run_handling_steps [of _ J D w "fst ?run" "snd ?run" "storage_root D" _ "[]" req]]
    show ?thesis by (simp add: uploading_def)
  qed
  show ?thesis
  proof (cases "off + ?sz \<le> upload_size r")
    case True
    then have "?run = (w, Gateway_MakeResponse J req 0 ''ok'' (obj J [(''written'', num J ?sz), (''upload_size'', num J (upload_size r))]) [])"
      by (simp add: start upload_prepared_def pf wr)
    moreover have "r\<lparr>upload_size := max (upload_size r) (off + ?sz)\<rparr> = r" using True by simp
    ultimately show ?thesis using accepted_reply [OF J bounds(3) r(2), of req] inv row rd by auto
  next
    case False
    then have at: "off = upload_size r" using fits by (auto simp: chunk_fits_def)
    have "binary_data req \<noteq> []" "length (binary_data req) < 2 ^ 63" using off(2) c by (auto simp: chunk_request_def)
    from write_call [OF J D root r(4,3) pa u0 off(1) bounds(2) this] obtain s where s: "room b s r"
      "b @ [to_string ?u] \<in> set (dirs s)"
      "CallRpc J D w ''StorageService'' ''WriteChunk'' (den J (JObj (write_args (filepath r) ?u off ?sz))) (binary_data req)
        = (w\<lparr>storage_disk := s\<rparr>, Inr (den J (written_value ?sz ?sz)))" by blast
    let ?w = "w\<lparr>storage_disk := s\<rparr>"
    have conf: "CallRpc J D ?w ''FileService'' ''ConfirmUploadChunk'' ?args []
      = (?w\<lparr>cdb := confirm_db (cdb w) i ?u off ?sz\<rparr>, Inr (den J (JObj [(''code'', JInt 0), (''upload_size'', JInt (off + ?sz))])))"
      using confirm_call [OF J D(1) _ _ _ bounds(1) u0(2) bounds(2,3) r(1) fits at, of ?w] D(2) ok row by simp
    let ?w2 = "w\<lparr>storage_disk := s, cdb := confirm_db (cdb w) i ?u off ?sz\<rparr>"
    have wf: "value_code J (den J (written_value ?sz ?sz)) = Inr 0" "value_int J (den J (written_value ?sz ?sz)) ''written'' (-1) = Inr ?sz"
      unfolding written_value_def using ok_fields [OF J, of "[(''code'', JInt 0), (''written'', JInt ?sz)]" 0]
        json_intD(3) [OF J, of "[(''code'', JInt 0), (''written'', JInt ?sz)]"] bounds(3) by simp_all
    have cf: "value_code J (den J (JObj [(''code'', JInt 0), (''upload_size'', JInt (off + ?sz))])) = Inr 0"
      "at_json J (den J (JObj [(''code'', JInt 0), (''upload_size'', JInt (off + ?sz))])) ''upload_size'' = Inr (num J (off + ?sz))"
      using ok_fields [OF J, of "[(''code'', JInt 0), (''upload_size'', JInt (off + ?sz))]" 0]
        json_presentD(3) [OF J, of "[(''code'', JInt 0), (''upload_size'', JInt (off + ?sz))]" "''upload_size''" "JInt (off + ?sz)"]
      by simp_all
    have wrq: "upload_prepared J req ?u ?args off ?sz (den J (prepared_value r))
        = Rpc ''StorageService'' ''WriteChunk'' (den J (JObj (write_args (filepath r) ?u off ?sz))) (binary_data req)
            (upload_written J req ?args ?sz)"
      using False by (simp add: upload_prepared_def pf wr write_args_def den_obj)
    have "?run = (?w2, Gateway_MakeResponse J req 0 ''ok'' (obj J [(''written'', num J ?sz), (''upload_size'', num J (off + ?sz))]) [])"
      unfolding start wrq run_handling.simps s(3) prod.case sum.case
      by (simp add: upload_written_def wf conf upload_confirmed_def cf)
    moreover have "file_row (cdb ?w2) i = Some (r\<lparr>upload_size := max (upload_size r) (off + ?sz)\<rparr>)"
      using row file_row_set [OF row] chunk_fit_confirms [OF fits at] at by (simp add: confirm_db_row)
    moreover have "accepted J (Gateway_MakeResponse J req 0 ''ok'' (obj J [(''written'', num J ?sz), (''upload_size'', num J (off + ?sz))]) [])"
      by (rule accepted_reply [OF J bounds(3)]) (use off r(1) in auto)
    ultimately show ?thesis using step ready_confirmed [OF rd s(1,2)] by simp
  qed
qed

section \<open>The finalization gets through\<close>

lemma size_call:
  assumes J: "json_ok J" and p: "utf8 p" and s: "healthy (storage_disk w)" "stat_size (storage_disk w) (GetAbsolutePath root p) = Some n"
    and n: "0 \<le> n" "n < 2 ^ 63"
  shows "Call J what (storage_methods J root) w Delivered ''GetFileSize'' (obj J [(''filepath'', str J p)]) []
    = (w, Inr (den J (JObj [(''code'', JInt 0), (''size'', JInt n)])))"
proof -
  let ?kvs = "[(''filepath'', JStr p)]" and ?v = "JObj [(''code'', JInt 0), (''size'', JInt n)]"
  let ?k = "with_method ''GetFileSize'' ?kvs"
  have kv: "js_valid (JObj ?kvs)" and v: "js_valid ?v" using p n by (auto simp: ascii_utf8)
  have "at_string J (den J (JObj ?k)) ''filepath'' = Inr p"
    by (rule json_stringD(3) [OF J]) (simp_all add: with_method_simps)
  moreover have "on_storage w (\<lambda>t. GetFileSize root t p) = (w, n)"
    using s by (simp add: on_storage_def GetFileSize_def Let_def healthy_def next_io_none io_ok_def)
  ultimately have "rpc_GetFileSize J root w (den J (JObj ?k)) = (w, Inr (den J ?v))"
    using n by (simp add: rpc_GetFileSize_def del: den.simps) (simp add: den_obj)
  then have "call_method J what (storage_methods J root) w ''GetFileSize'' m = (w, den J ?v)" if "GetJson J m = den J (JObj ?k)" for m
    using that by (simp add: call_method_def method_tables)
  then show ?thesis using Call_ok [OF J kv _ v, of "''GetFileSize''" "[]"] by (simp add: den_obj ascii_utf8)
qed

lemma finalize_call:
  assumes J: "json_ok J" and D: "all_reachable D" "outcomes w = []" and ok: "files_ok (cdb w)" "file_row (cdb w) i = Some r"
    and b: "i64 i" "i64 (fuser_id r)" and r: "IsUploading r" "upload_size r = filesize r" "utf8 (filepath r)" "0 \<le> filesize r" "filesize r < 2 ^ 63"
    and s: "healthy (storage_disk w)" "stat_size (storage_disk w) (GetAbsolutePath (storage_root D) (filepath r)) = Some (filesize r)"
  shows "CallRpc J D w ''FileService'' ''UploadFinalize'' (obj J [(''file_id'', num J i), (''user_id'', num J (fuser_id r))]) []
    = (w\<lparr>cdb := fst (FileDAO_UpdateStatus (cdb w) i 1)\<rparr>, Inr (den J (JObj [(''code'', JInt 0)])))"
proof -
  let ?kvs = "[(''file_id'', JInt i), (''user_id'', JInt (fuser_id r))]" and ?v = "JObj [(''code'', JInt 0)]"
  let ?k = "with_method ''UploadFinalize'' ?kvs" and ?d = "fst (FileDAO_UpdateStatus (cdb w) i 1)"
  let ?stat = "JObj [(''code'', JInt 0), (''size'', JInt (filesize r))]"
  have kv: "js_valid (JObj ?kvs)" and v: "js_valid ?v" using b by (auto simp: ascii_utf8)
  have k: "distinct (map fst ?k)" by (rule with_method_simps(2)) simp
  have at: "at_int J (den J (JObj ?k)) ''file_id'' = Inr i" "at_int J (den J (JObj ?k)) ''user_id'' = Inr (fuser_id r)"
    by (rule json_intD(2) [OF J k]; use b in \<open>simp add: with_method_simps\<close>)+
  have find: "on_db w (\<lambda>d. FileDAO_FindById d i) = (w, Some r)" using FindById_ok [OF ok(1), of i] ok(2) by (simp add: on_db_def)
  have "next_fault (cdb w) = (None, cdb w)" using ok(1) by (simp add: files_ok_def next_fault_none)
  then have upd: "on_db w (\<lambda>d. FileDAO_UpdateStatus d i 1) = (w\<lparr>cdb := ?d\<rparr>, True)"
    by (simp add: on_db_def FileDAO_UpdateStatus_def)
  have o: "next_outcome w = (Delivered, w)" using D(2) by (simp add: next_outcome_def)
  have st: "value_int J (den J ?stat) ''code'' (-1) = Inr 0" "value_int J (den J ?stat) ''size'' (-1) = Inr (filesize r)"
    by (rule json_intD(3) [OF J]; use r in auto)+
  have z: "to_int 0 = 0" by (rule to_int_small) simp_all
  have f: "fid r = i" using file_row_set [OF ok(2)] by simp
  have run: "rpc_UploadFinalize J (exn_text D) (storage_root D) w (den J (JObj ?k)) = (w\<lparr>cdb := ?d\<rparr>, Inr (den J ?v))"
    unfolding rpc_UploadFinalize_def at find Let_def bind_arg_simps prod.case option.case o size_call [OF J r(3) s r(4,5)] st
    using r(1,2) by (simp add: z f upd den_obj)
  have "CallRpc J D w ''FileService'' ''UploadFinalize'' (den J (JObj ?kvs)) [] = (w\<lparr>cdb := ?d\<rparr>, Inr (den J ?v))"
  proof (rule CallRpc_exact [OF J kv _ v])
    show "reaches D ''FileService'' FileProc" using D(1) by (simp add: all_reachable_def)
    show "rpc_UploadFinalize J (exn_text D) (storage_root D) w (den J (JObj ?k)) = (w\<lparr>cdb := ?d\<rparr>, Inr (den J ?v))" by (rule run)
  qed (use D in \<open>auto simp: method_tables ascii_utf8\<close>)
  then show ?thesis by (simp add: den_obj)
qed

definition finalize_request :: "'j json_ops \<Rightarrow> string \<Rightarrow> int \<Rightarrow> Message \<Rightarrow> bool" where
  "finalize_request J tok i req \<longleftrightarrow> (\<exists>kvs. GetJson J req = den J (JObj kvs) \<and> js_valid (JObj kvs)
     \<and> map_of kvs ''cmd'' = Some (JStr ''upload_finalize'') \<and> map_of kvs ''token'' = Some (JStr tok)
     \<and> map_of kvs ''file_id'' = Some (JInt i))"

lemma finalize_gets_through:
  assumes J: "json_ok J" and inv: "upload_inv (storage_root D) b C i w" and row: "file_row (cdb w) i = Some r"
    and rd: "ready D b tok w r" and f: "finalize_request J tok i req"
    and r: "IsUploading r" "upload_size r = filesize r" "filesize r = int (length C)" "C \<noteq> []"
  shows "\<exists>w' x. run_handling (Gateway_Route J (gateway_router J) req) J D w = (w', x) \<and> accepted J x
    \<and> file_row (cdb w') i = Some (r\<lparr>status := 1\<rparr>) \<and> held (storage_disk w') (place b r) = C"
proof -
  let ?u = "fuser_id r" and ?d = "fst (FileDAO_UpdateStatus (cdb w) i 1)"
  have D: "all_reachable D" "outcomes w = []" and ok: "files_ok (cdb w)" and u: "signed_in_as w tok ?u" "tok \<noteq> []"
    and room: "room b (storage_disk w) r" and dir: "b @ [to_string ?u] \<in> set (dirs (storage_disk w))"
    using rd r by (auto simp: ready_def)
  obtain kvs where k: "GetJson J req = den J (JObj kvs)" "js_valid (JObj kvs)" "map_of kvs ''cmd'' = Some (JStr ''upload_finalize'')"
      "map_of kvs ''token'' = Some (JStr tok)" "map_of kvs ''file_id'' = Some (JInt i)"
    using f by (auto simp: finalize_request_def)
  have d: "distinct (map fst kvs)" using k(2) by simp
  have cmd: "GetCmd J req = ''upload_finalize''" by (simp add: GetCmd_def k(1) json_stringD(1) [OF J d k(3)])
  have tok: "value_string J (GetJson J req) ''token'' [] = Inr tok" by (simp add: k(1) json_stringD(4) [OF J d k(4)])
  have ix: "index_json J (GetJson J req) ''file_id'' = Inr (num J i)" using json_presentD(2) [OF J d k(5)] by (simp add: k(1))
  have b: "i64 i" "i64 ?u" using valid_member [OF k(2,5)] u(1) by (auto simp: signed_in_as_def)
  have rows: "rows_ok (cdb w)" and root: "root_dir (storage_root D) (storage_disk w) b"
    and pre: "prefix (held (storage_disk w) (place b r)) C" "length C \<le> length (held (storage_disk w) (place b r))"
    using inv row r by (auto simp: upload_inv_def)
  then have held: "held (storage_disk w) (place b r) = C" by (auto simp: prefix_def)
  have rr: "utf8 (filepath r)" "row_path r" "0 \<le> filesize r" "filesize r < 2 ^ 63"
    using rows file_row_set [OF row] r(3) by (auto simp: rows_ok_def)
  have "stat_size (storage_disk w) (GetAbsolutePath (storage_root D) (filepath r)) = Some (filesize r)"
    using held r(3,4) resolve_row [OF root rr(2)] dir by (auto simp: stat_size_def held_def split: option.splits)
  moreover have "healthy (storage_disk w)" using room by (simp add: room_def)
  ultimately have call: "CallRpc J D w ''FileService'' ''UploadFinalize'' (obj J [(''file_id'', num J i), (''user_id'', num J ?u)]) []
      = (w\<lparr>cdb := ?d\<rparr>, Inr (den J (JObj [(''code'', JInt 0)])))"
    using finalize_call [OF J D ok row b r(1,2) rr(1,3,4)] by blast
  let ?v = "[(''code'', JInt 0)]"
  have vf: "value_code J (den J (JObj ?v)) = Inr 0" "value_string J (den J (JObj ?v)) ''msg'' [] = Inr []"
    using ok_fields [OF J, of ?v 0] json_missingD(1) [OF J, of ?v "''msg''"] by simp_all
  have vv: "js_valid (JObj ?v)" by (simp add: ascii_utf8)
  obtain resp where m: "Gateway_MakeResponse J req 0 [] (den J (JObj ?v)) [] = Inr resp" "response_of J resp = Inr (reply J 0 [] ?v [])"
    using Gateway_MakeResponse_reply [OF J vv, of "[]" 0 req "[]"] by (auto simp: ascii_utf8)
  have "run_handling (Gateway_Route J (gateway_router J) req) J D w = (w\<lparr>cdb := ?d\<rparr>, Inr resp)"
    by (simp add: Gateway_Route_def cmd gateway_router_def gw_upload_finalize_def with_uid_passes [OF J D u(1) tok u(2)] ix call
        pass_on_def vf m del: den.simps)
  moreover have "accepted J (Inr resp)" using m(2) by (auto simp: accepted_def is_ok_def reply_def)
  moreover have "file_row ?d i = Some (r\<lparr>status := 1\<rparr>)" using ftab.set_status_row [OF ok, of i 1] row by simp
  ultimately show ?thesis using held by simp
qed

section \<open>Property\<close>

text \<open>Requests, one after the other.\<close>

fun run_requests :: "'j json_ops \<Rightarrow> deployment \<Rightarrow> cluster \<Rightarrow> Message list \<Rightarrow> cluster \<times> (cpp_exn + Message) list" where
  "run_requests J D w [] = (w, [])"
| "run_requests J D w (req # reqs) =
     (case run_handling (Gateway_Route J (gateway_router J) req) J D w of
        (w, x) \<Rightarrow> (case run_requests J D w reqs of (w, xs) \<Rightarrow> (w, x # xs)))"

text \<open>Requests that carry the rest of the content from an offset on, in non-empty chunks.\<close>

fun carries :: "'j json_ops \<Rightarrow> bytes \<Rightarrow> int \<Rightarrow> string \<Rightarrow> int \<Rightarrow> Message list \<Rightarrow> bool" where
  "carries J C i tok off [] = (off = int (length C))"
| "carries J C i tok off (req # reqs) = (chunk_request J C i req i off
     \<and> value_string J (GetJson J req) ''token'' [] = Inr tok \<and> binary_data req \<noteq> []
     \<and> carries J C i tok (off + chunk_size req) reqs)"

lemma carries_bound: "carries J C i tok off reqs \<Longrightarrow> off \<le> int (length C)"
  by (induction reqs arbitrary: off) fastforce+

lemma chunks_get_through:
  assumes "json_ok J" and "upload_inv (storage_root D) b C i w" and "file_row (cdb w) i = Some r" and "ready D b tok w r"
    and "IsUploading r" and "filesize r = int (length C)" and "carries J C i tok (upload_size r) reqs" and "0 \<le> upload_size r"
  shows "\<exists>w' xs. run_requests J D w reqs = (w', xs) \<and> list_all (accepted J) xs \<and> upload_inv (storage_root D) b C i w'
    \<and> file_row (cdb w') i = Some (r\<lparr>upload_size := filesize r\<rparr>) \<and> ready D b tok w' (r\<lparr>upload_size := filesize r\<rparr>)"
  using assms(2-)
proof (induction reqs arbitrary: w r)
  case Nil
  then have e: "r\<lparr>upload_size := filesize r\<rparr> = r" by simp
  show ?case unfolding e using Nil by simp
next
  case (Cons req reqs)
  let ?r = "r\<lparr>upload_size := upload_size r + chunk_size req\<rparr>"
  have c: "chunk_request J C i req i (upload_size r)" "value_string J (GetJson J req) ''token'' [] = Inr tok"
    "binary_data req \<noteq> []" "carries J C i tok (upload_size r + chunk_size req) reqs" using Cons.prems(6) by simp_all
  have "0 < chunk_size req" using c(3) by simp
  then have fits: "chunk_fits r (upload_size r) (chunk_size req)"
    using carries_bound [OF c(4)] Cons.prems(4,5,7) by (simp add: chunk_fits_def)
  have m: "max (upload_size r) (upload_size r + chunk_size req) = upload_size r + chunk_size req" by simp
  from chunk_gets_through [OF assms(1) Cons.prems(1-3) c(1,2) fits, unfolded m] obtain w1 x where
    1: "run_handling (Gateway_Route J (gateway_router J) req) J D w = (w1, x)" "accepted J x" "upload_inv (storage_root D) b C i w1"
      "file_row (cdb w1) i = Some ?r" "ready D b tok w1 ?r" by blast
  have "IsUploading ?r" "filesize ?r = int (length C)" "carries J C i tok (upload_size ?r) reqs" "0 \<le> upload_size ?r"
    using Cons.prems(4,5,7) c(4) by (simp_all add: IsUploading_def)
  from Cons.IH [OF 1(3-5) this] 1(1,2) show ?case by auto
qed


definition up_finish :: Message where
  "up_finish = sample_req (JObj [(''cmd'', JStr ''upload_finalize''), (''token'', JStr ''t''), (''file_id'', JInt 1)])"

lemma up_cluster_ready: "ready up_world [''srv''] ''t'' up_cluster up_file"
proof -
  have n: "to_string 7 = ''7''" by code_simp
  have f: "row_name up_file = ''f''" "fuser_id up_file = 7"
    by (simp_all add: row_name_def up_file_def n sample_file_def FileInfo_default_def)
  have "path_allowed 7 ''7/f''" by (simp add: path_allowed_def n)
  moreover have "room [''srv''] (storage_disk up_cluster) up_file"
    by (simp add: room_def place_def f n healthy_def up_cluster_def sample_fs_def)
  moreover have "filepath up_file = ''7/f''" "upload_size up_file = 0" by (simp_all add: up_file_def sample_file_def FileInfo_default_def)
  ultimately show ?thesis
    using up_world_reachable up_cluster_signed_in up_cluster_files by (simp add: ready_def f up_cluster_def)
qed


end
