(* ===== verification/Discovery.thy ===== *)
theory Discovery
  imports Common
begin

text \<open>
  The ZooKeeper client of \<open>rpc/zk_client.cc\<close>: connecting, creating a path, registering an address as
  an ephemeral sequential node and listing the addresses below a path. The ZooKeeper library is a
  parameter, a record of the three calls the client makes; \<open>zk_ok\<close> states what the library documents
  of them for a live session, over a table of nodes. \<open>sample_zk\<close> is a library of that kind.
\<close>

section \<open>The library\<close>

record znode =
  node_data :: "bytes option" \<comment> \<open>none after a creation without a value\<close>
  ephemeral :: bool

text \<open>
  Create a node with a value, plain or ephemeral and sequential, with the length of the buffer for
  the name it got; list the children of a node; read at most so many bytes of a node. Each call
  yields a return code.
\<close>

record 's zk_api =
  zoo_create :: "'s \<Rightarrow> string \<Rightarrow> bytes option \<Rightarrow> bool \<Rightarrow> nat \<Rightarrow> 's \<times> int \<times> string"
  zoo_get_children :: "'s \<Rightarrow> string \<Rightarrow> 's \<times> int \<times> string list"
  zoo_get :: "'s \<Rightarrow> string \<Rightarrow> nat \<Rightarrow> 's \<times> int \<times> bytes option"

definition ZOK :: int where "ZOK = 0"
definition ZNODEEXISTS :: int where "ZNODEEXISTS = -110"

datatype zk_state = ZOO_CONNECTED_STATE | ZOO_EXPIRED_SESSION_STATE | ZOO_OTHER_STATE

section \<open>The client\<close>

record ZkClient =
  zk_hosts :: string
  zk_handle :: bool \<comment> \<open>not null\<close>
  zk_connected :: bool

definition ZkClient_new :: "string \<Rightarrow> ZkClient" where
  "ZkClient_new hosts = \<lparr>zk_hosts = hosts, zk_handle = False, zk_connected = False\<rparr>"

definition WatcherCallback :: "ZkClient \<Rightarrow> zk_state \<Rightarrow> ZkClient" where
  "WatcherCallback c st =
     (if st = ZOO_CONNECTED_STATE then c\<lparr>zk_connected := True\<rparr>
      else if st = ZOO_EXPIRED_SESSION_STATE then c\<lparr>zk_connected := False\<rparr> else c)"

text \<open>
  The thread of the library calls the watcher at any time: an element of \<open>evs\<close> is what it reports
  before the next time the flag is read.
\<close>

definition events :: "zk_state list list \<Rightarrow> ZkClient \<Rightarrow> ZkClient" where
  "events evs c = (case evs of [] \<Rightarrow> c | e # _ \<Rightarrow> foldl WatcherCallback c e)"

function zk_wait :: "int \<Rightarrow> int \<Rightarrow> zk_state list list \<Rightarrow> ZkClient \<Rightarrow> ZkClient \<times> zk_state list list \<times> int" where
  "zk_wait timeout waited evs c =
     (let c = events evs c in
      if \<not> zk_connected c \<and> waited < timeout then zk_wait timeout (waited + 100) (tl evs) c
      else (c, tl evs, waited))"
  by pat_completeness auto
termination by (relation "measure (\<lambda>(timeout, waited, evs, c). nat (timeout - waited))") auto

declare zk_wait.simps [simp del]

definition zk_Connect :: "ZkClient \<Rightarrow> bool \<Rightarrow> zk_state list list \<Rightarrow> int \<Rightarrow> ZkClient \<times> bool" where
  "zk_Connect c init_ok evs timeout =
     (let c = c\<lparr>zk_handle := init_ok\<rparr> in
      if \<not> init_ok then (c, False)
      else case zk_wait timeout 0 evs c of (c, evs, waited) \<Rightarrow>
        let c = events evs c in (c, zk_connected c))"

text \<open>\<open>find\<close> of a slash from a position on, the length if there is none.\<close>

definition slash_from :: "string \<Rightarrow> nat \<Rightarrow> nat" where
  "slash_from path pos = pos + length (takeWhile (\<lambda>c. c \<noteq> CHR ''/'') (drop pos path))"

function ensure_from :: "'s zk_api \<Rightarrow> 's \<Rightarrow> string \<Rightarrow> nat \<Rightarrow> 's" where
  "ensure_from Z s path pos =
     (if pos < length path then
        let nxt = slash_from path pos; sub = take nxt path;
            s = (if length sub > 1 then fst (zoo_create Z s (cstr sub) None False 0) else s)
        in ensure_from Z s path (nxt + 1)
      else s)"
  by pat_completeness auto
termination by (relation "measure (\<lambda>(Z, s, path, pos). length path - pos)") (auto simp: slash_from_def)

declare ensure_from.simps [simp del]

definition EnsurePath :: "'s zk_api \<Rightarrow> 's \<Rightarrow> string \<Rightarrow> 's" where
  "EnsurePath Z s path = (if path = [] \<or> path = ''/'' then s else ensure_from Z s path 1)"

definition zk_Register :: "'s zk_api \<Rightarrow> ZkClient \<Rightarrow> 's \<Rightarrow> string \<Rightarrow> string \<Rightarrow> 's \<times> string" where
  "zk_Register Z c s path addr =
     (if \<not> zk_connected c \<or> \<not> zk_handle c then (s, [])
      else let s = EnsurePath Z s path in
           case zoo_create Z s (cstr (path @ ''/node_'')) (Some addr) True 512 of
             (s, rc, created) \<Rightarrow> (s, if rc = ZOK then cstr created else []))"

definition zk_Register_at :: "'s zk_api \<Rightarrow> ZkClient \<Rightarrow> 's \<Rightarrow> string \<Rightarrow> string \<Rightarrow> int \<Rightarrow> 's \<times> string" where
  "zk_Register_at Z c s path ip port = zk_Register Z c s path (ip @ '':'' @ to_string port)"

fun read_children :: "'s zk_api \<Rightarrow> 's \<Rightarrow> string \<Rightarrow> string list \<Rightarrow> 's \<times> string list" where
  "read_children Z s path [] = (s, [])"
| "read_children Z s path (child # cs) =
     (case zoo_get Z s (cstr (path @ ''/'' @ child)) 256 of (s, rc, data) \<Rightarrow>
        case read_children Z s path cs of (s, result) \<Rightarrow>
          (s, case data of Some addr \<Rightarrow> if rc = ZOK \<and> addr \<noteq> [] then addr # result else result | None \<Rightarrow> result))"

definition Discover :: "'s zk_api \<Rightarrow> ZkClient \<Rightarrow> 's \<Rightarrow> string \<Rightarrow> 's \<times> string list" where
  "Discover Z c s path =
     (if \<not> zk_connected c \<or> \<not> zk_handle c then (s, [])
      else case zoo_get_children Z s (cstr path) of (s, rc, children) \<Rightarrow>
        if rc \<noteq> ZOK then (s, []) else read_children Z s path children)"

section \<open>What the library promises\<close>

definition znode_char :: "char \<Rightarrow> bool" where
  "znode_char x \<longleftrightarrow> x \<noteq> CHR ''/'' \<and> 32 \<le> (of_char x :: nat) \<and> (of_char x :: nat) < 127"

definition znode_name :: "string \<Rightarrow> bool" where
  "znode_name c \<longleftrightarrow> c \<noteq> [] \<and> c \<noteq> ''.'' \<and> c \<noteq> ''..'' \<and> list_all znode_char c"

definition path_of :: "string list \<Rightarrow> string" where
  "path_of cs = concat (map (\<lambda>c. CHR ''/'' # c) cs)"

text \<open>A node that can have children: the root, or one that is not ephemeral.\<close>

definition is_parent :: "(string \<rightharpoonup> znode) \<Rightarrow> string list \<Rightarrow> bool" where
  "is_parent m ds \<longleftrightarrow> ds = [] \<or> (\<exists>z. m (path_of ds) = Some z \<and> \<not> ephemeral z)"

definition create_ok :: "'s zk_api \<Rightarrow> ('s \<Rightarrow> string \<rightharpoonup> znode) \<Rightarrow> bool" where
  "create_ok Z nodes \<longleftrightarrow> (\<forall>s ds c v n s' rc x. list_all znode_name ds \<longrightarrow> znode_name c \<longrightarrow> is_parent (nodes s) ds \<longrightarrow>
     zoo_create Z s (path_of (ds @ [c])) v False n = (s', rc, x) \<longrightarrow>
     (if nodes s (path_of (ds @ [c])) = None
      then rc = ZOK \<and> nodes s' = (nodes s)(path_of (ds @ [c]) \<mapsto> \<lparr>node_data = v, ephemeral = False\<rparr>)
      else rc = ZNODEEXISTS \<and> nodes s' = nodes s))"

text \<open>
  The name of a sequential node ends with a counter in digits; no two have the same (the overflow of
  the counter is left out).
\<close>

definition sequence_ok :: "'s zk_api \<Rightarrow> ('s \<Rightarrow> string \<rightharpoonup> znode) \<Rightarrow> bool" where
  "sequence_ok Z nodes \<longleftrightarrow> (\<forall>s ds c v n s' rc x. list_all znode_name ds \<longrightarrow> znode_name c \<longrightarrow> is_parent (nodes s) ds \<longrightarrow>
     zoo_create Z s (path_of (ds @ [c])) v True n = (s', rc, x) \<longrightarrow>
     rc = ZOK \<and> (\<exists>k. k \<noteq> [] \<and> list_all is_digit k \<and> x = take (n - 1) (path_of (ds @ [c @ k]))
       \<and> nodes s (path_of (ds @ [c @ k])) = None
       \<and> nodes s' = (nodes s)(path_of (ds @ [c @ k]) \<mapsto> \<lparr>node_data = v, ephemeral = True\<rparr>)))"

definition children_ok :: "'s zk_api \<Rightarrow> ('s \<Rightarrow> string \<rightharpoonup> znode) \<Rightarrow> bool" where
  "children_ok Z nodes \<longleftrightarrow> (\<forall>s ds s' rc cs. list_all znode_name ds \<longrightarrow> ds \<noteq> [] \<longrightarrow>
     zoo_get_children Z s (path_of ds) = (s', rc, cs) \<longrightarrow> nodes s (path_of ds) \<noteq> None \<longrightarrow>
     nodes s' = nodes s \<and> rc = ZOK \<and> distinct cs \<and> set cs = {c. znode_name c \<and> nodes s (path_of (ds @ [c])) \<noteq> None})"

definition get_ok :: "'s zk_api \<Rightarrow> ('s \<Rightarrow> string \<rightharpoonup> znode) \<Rightarrow> bool" where
  "get_ok Z nodes \<longleftrightarrow> (\<forall>s ds n s' rc d z. list_all znode_name ds \<longrightarrow>
     zoo_get Z s (path_of ds) n = (s', rc, d) \<longrightarrow> nodes s (path_of ds) = Some z \<longrightarrow>
     nodes s' = nodes s \<and> rc = ZOK \<and> d = map_option (take n) (node_data z))"

definition zk_ok :: "'s zk_api \<Rightarrow> ('s \<Rightarrow> string \<rightharpoonup> znode) \<Rightarrow> bool" where
  "zk_ok Z nodes \<longleftrightarrow> create_ok Z nodes \<and> sequence_ok Z nodes \<and> children_ok Z nodes \<and> get_ok Z nodes"

lemma zk_create:
  assumes "zk_ok Z nodes" and "list_all znode_name ds" and "znode_name c" and "is_parent (nodes s) ds"
    and "zoo_create Z s (path_of (ds @ [c])) v False n = (s', rc, x)"
  shows "if nodes s (path_of (ds @ [c])) = None
   then rc = ZOK \<and> nodes s' = (nodes s)(path_of (ds @ [c]) \<mapsto> \<lparr>node_data = v, ephemeral = False\<rparr>)
   else rc = ZNODEEXISTS \<and> nodes s' = nodes s"
proof -
  from assms(1) have "create_ok Z nodes" by (simp add: zk_ok_def)
  from this [unfolded create_ok_def, rule_format, OF assms(2-5)] show ?thesis .
qed

lemma zk_sequence:
  "zk_ok Z nodes \<Longrightarrow> list_all znode_name ds \<Longrightarrow> znode_name c \<Longrightarrow> is_parent (nodes s) ds \<Longrightarrow>
   zoo_create Z s (path_of (ds @ [c])) v True n = (s', rc, x) \<Longrightarrow>
   rc = ZOK \<and> (\<exists>k. k \<noteq> [] \<and> list_all is_digit k \<and> x = take (n - 1) (path_of (ds @ [c @ k]))
     \<and> nodes s (path_of (ds @ [c @ k])) = None
     \<and> nodes s' = (nodes s)(path_of (ds @ [c @ k]) \<mapsto> \<lparr>node_data = v, ephemeral = True\<rparr>))"
  unfolding zk_ok_def sequence_ok_def by presburger

lemma zk_children:
  "zk_ok Z nodes \<Longrightarrow> list_all znode_name ds \<Longrightarrow> ds \<noteq> [] \<Longrightarrow> zoo_get_children Z s (path_of ds) = (s', rc, cs) \<Longrightarrow>
   nodes s (path_of ds) \<noteq> None \<Longrightarrow>
   nodes s' = nodes s \<and> rc = ZOK \<and> distinct cs \<and> set cs = {c. znode_name c \<and> nodes s (path_of (ds @ [c])) \<noteq> None}"
  unfolding zk_ok_def children_ok_def by presburger

lemma zk_get:
  "zk_ok Z nodes \<Longrightarrow> list_all znode_name ds \<Longrightarrow> zoo_get Z s (path_of ds) n = (s', rc, d) \<Longrightarrow>
   nodes s (path_of ds) = Some z \<Longrightarrow> nodes s' = nodes s \<and> rc = ZOK \<and> d = map_option (take n) (node_data z)"
  unfolding zk_ok_def get_ok_def by presburger

section \<open>Paths\<close>

lemma path_of_simps [simp]: "path_of [] = []" "path_of (c # cs) = CHR ''/'' # c @ path_of cs"
  "path_of (xs @ ys) = path_of xs @ path_of ys"
  by (simp_all add: path_of_def)

lemma znode_char_facts: "\<not> znode_char (CHR ''/'')" "\<not> znode_char (CHR 0x00)" "is_digit x \<Longrightarrow> znode_char x"
proof -
  show "\<not> znode_char (CHR ''/'')" "\<not> znode_char (CHR 0x00)" by (simp_all add: znode_char_def)
  have "x \<noteq> CHR ''/''" if "is_digit x"
    using that by (rule contrapos_pn) (simp add: is_digit_def)
  then show "is_digit x \<Longrightarrow> znode_char x" by (simp add: znode_char_def is_digit_def)
qed

lemma znode_name_chars: "znode_name c \<Longrightarrow> CHR ''/'' \<notin> set c \<and> CHR 0x00 \<notin> set c"
  using znode_char_facts(1,2) by (auto simp: znode_name_def list_all_iff simp del: One_nat_def)

lemma path_of_no_nul: "list_all znode_name cs \<Longrightarrow> CHR 0x00 \<notin> set (path_of cs)"
  by (induction cs) (auto dest: znode_name_chars)

lemma cstr_path_of [simp]: "list_all znode_name cs \<Longrightarrow> cstr (path_of cs) = path_of cs"
  by (rule cstr_id) (rule path_of_no_nul)

lemma path_of_inj:
  "list_all znode_name xs \<Longrightarrow> list_all znode_name ys \<Longrightarrow> path_of xs = path_of ys \<Longrightarrow> xs = ys"
proof (induction xs arbitrary: ys)
  case Nil
  then show ?case by (cases ys) auto
next
  case (Cons x xs)
  then obtain y ys' where ys: "ys = y # ys'" by (cases ys) auto
  have s: "takeWhile (\<lambda>c. c \<noteq> CHR ''/'') (c @ path_of cs) = c" if "znode_name c" for c cs
    using znode_name_chars [OF that] by (cases cs) (auto simp: takeWhile_append)
  have "x @ path_of xs = y @ path_of ys'" using Cons.prems ys by simp
  then have "x = y" using s [of x xs] s [of y ys'] Cons.prems ys by simp
  with Cons ys show ?case by simp
qed

lemma digit_name:
  assumes "znode_name c" and "list_all is_digit d" and "length c > 2"
  shows "znode_name (c @ d)"
proof -
  have "list_all znode_char d" using assms(2) znode_char_facts(3) by (simp add: list_all_iff)
  moreover have "c @ d \<noteq> ''.''" "c @ d \<noteq> ''..''" using assms(3) by (auto dest: arg_cong [where f = length])
  ultimately show ?thesis using assms(1) by (simp add: znode_name_def)
qed

section \<open>Creating a path\<close>

text \<open>The nodes \<open>EnsurePath\<close> creates: the ancestors from the root down, and the node itself.\<close>

lemma slash_from_path:
  assumes "znode_name c"
  shows "slash_from (path_of (xs @ c # ys)) (length (path_of xs) + 1) = length (path_of (xs @ [c]))"
proof -
  have "drop (length (path_of xs) + 1) (path_of (xs @ c # ys)) = c @ path_of ys" by simp
  moreover have "takeWhile (\<lambda>x. x \<noteq> CHR ''/'') (c @ path_of ys) = c"
    using znode_name_chars [OF assms] by (cases ys) (auto simp: takeWhile_append)
  ultimately show ?thesis by (simp add: slash_from_def)
qed

text \<open>The table grows by plain nodes without a value.\<close>

definition grown :: "(string \<rightharpoonup> znode) \<Rightarrow> (string \<rightharpoonup> znode) \<Rightarrow> bool" where
  "grown m m' \<longleftrightarrow> (\<forall>p. m' p = m p \<or> m p = None \<and> m' p = Some \<lparr>node_data = None, ephemeral = False\<rparr>)"

lemma grown_trans: "grown m m1 \<Longrightarrow> grown m1 m2 \<Longrightarrow> grown m m2"
  unfolding grown_def by metis

lemma grown_refl [simp]: "grown m m"
  by (simp add: grown_def)

lemma grown_eph: "grown m m' \<Longrightarrow> m' p = Some z \<Longrightarrow> ephemeral z \<Longrightarrow> m p = Some z"
  unfolding grown_def by (metis option.inject znode.select_convs(2))

lemma ensure_from_path:
  assumes "zk_ok Z nodes" and "list_all znode_name xs" and "list_all znode_name ys"
    and "is_parent (nodes s) xs" and "\<And>zs us z. ys = zs @ us \<Longrightarrow> nodes s (path_of (xs @ zs)) = Some z \<Longrightarrow> \<not> ephemeral z"
  shows "grown (nodes s) (nodes (ensure_from Z s (path_of (xs @ ys)) (length (path_of xs) + 1)))
    \<and> is_parent (nodes (ensure_from Z s (path_of (xs @ ys)) (length (path_of xs) + 1))) (xs @ ys)"
  using assms(2-)
proof (induction ys arbitrary: xs s)
  case Nil
  then show ?case by (simp add: ensure_from.simps [of Z s "path_of xs"])
next
  case (Cons c ys)
  let ?p = "path_of (xs @ c # ys)" and ?q = "path_of (xs @ [c])"
  obtain s1 rc x where cr: "zoo_create Z s ?q None False 0 = (s1, rc, x)" by (metis prod_cases3)
  have c: "znode_name c" "list_all znode_name (xs @ [c])" using Cons.prems by simp_all
  have nxt: "slash_from ?p (length (path_of xs) + 1) = length ?q" by (rule slash_from_path [OF c(1)])
  have tk: "take (length ?q) ?p = ?q" by simp
  have len: "length ?q > 1" "length (path_of xs) + 1 < length ?p" using c(1) by (auto simp: znode_name_def)
  have "cstr ?q = ?q" by (rule cstr_path_of [OF c(2)])
  then have e: "ensure_from Z s ?p (length (path_of xs) + 1) = ensure_from Z s1 (path_of ((xs @ [c]) @ ys)) (length ?q + 1)"
    using nxt tk len cr by (subst ensure_from.simps) (simp add: Let_def)
  from zk_create [OF assms(1) Cons.prems(1) c(1) Cons.prems(3) cr] have g: "grown (nodes s) (nodes s1)"
    by (auto simp: grown_def split: if_splits)
  have old: "\<not> ephemeral z" if "ys = zs @ us" "nodes s1 (path_of ((xs @ [c]) @ zs)) = Some z" for zs us z
  proof
    assume "ephemeral z"
    from grown_eph [OF g that(2) this] have "nodes s (path_of (xs @ c # zs)) = Some z" by simp
    with Cons.prems(4) [of "c # zs" us z] that(1) \<open>ephemeral z\<close> show False by simp
  qed
  have "nodes s1 ?q \<noteq> None" using zk_create [OF assms(1) Cons.prems(1) c(1) Cons.prems(3) cr] by (auto split: if_splits)
  then obtain z where "nodes s1 ?q = Some z" by auto
  with old [of "[]" ys z] have par: "is_parent (nodes s1) (xs @ [c])" by (auto simp: is_parent_def)
  have "grown (nodes s1) (nodes (ensure_from Z s ?p (length (path_of xs) + 1)))
      \<and> is_parent (nodes (ensure_from Z s ?p (length (path_of xs) + 1))) ((xs @ [c]) @ ys)"
    unfolding e by (rule Cons.IH [OF c(2) _ par]) (use Cons.prems(2) old in simp_all)
  with grown_trans [OF g] show ?case by simp
qed

text \<open>No node on the way to \<open>cs\<close> is ephemeral.\<close>

definition plain_way :: "(string \<rightharpoonup> znode) \<Rightarrow> string list \<Rightarrow> bool" where
  "plain_way m cs \<longleftrightarrow> (\<forall>zs us z. cs = zs @ us \<longrightarrow> m (path_of zs) = Some z \<longrightarrow> \<not> ephemeral z)"

lemma EnsurePath_path:
  assumes "zk_ok Z nodes" and "list_all znode_name cs" and "cs \<noteq> []" and "plain_way (nodes s) cs"
  shows "grown (nodes s) (nodes (EnsurePath Z s (path_of cs))) \<and> is_parent (nodes (EnsurePath Z s (path_of cs))) cs"
proof -
  have "length (path_of cs) > 1" using assms(2,3) by (cases cs) (auto simp: znode_name_def)
  then have "EnsurePath Z s (path_of cs) = ensure_from Z s (path_of cs) 1" by (auto simp: EnsurePath_def)
  moreover have "is_parent (nodes s) []" by (simp add: is_parent_def)
  ultimately show ?thesis
    using ensure_from_path [OF assms(1) _ assms(2), of "[]" s] assms(4) by (auto simp: plain_way_def)
qed

section \<open>The registry\<close>

text \<open>The addresses below a path, as the table of nodes has them.\<close>

definition holds :: "(string \<rightharpoonup> znode) \<Rightarrow> string list \<Rightarrow> string \<Rightarrow> bytes \<Rightarrow> bool" where
  "holds m cs c a \<longleftrightarrow> znode_name c \<and> a \<noteq> [] \<and> (\<exists>e. m (path_of (cs @ [c])) = Some \<lparr>node_data = Some a, ephemeral = e\<rparr>)"

definition registered :: "(string \<rightharpoonup> znode) \<Rightarrow> string list \<Rightarrow> string set" where
  "registered m cs = {take 256 a | a c. holds m cs c a}"

lemma read_children_registered:
  assumes "zk_ok Z nodes" and "list_all znode_name cs"
    and "\<forall>c \<in> set children. znode_name c \<and> nodes s (path_of (cs @ [c])) \<noteq> None"
    and "read_children Z s (path_of cs) children = (s', r)"
  shows "nodes s' = nodes s \<and> set r = {take 256 a | a c. c \<in> set children \<and> holds (nodes s) cs c a}"
  using assms(3,4)
proof (induction children arbitrary: s r)
  case (Cons c children)
  let ?q = "path_of (cs @ [c])"
  from Cons.prems(1) obtain z where c: "znode_name c" and z: "nodes s ?q = Some z" by auto
  have q: "list_all znode_name (cs @ [c])" using assms(2) c by simp
  have "path_of cs @ ''/'' @ c = ?q" by simp
  then have cq: "cstr (path_of cs @ ''/'' @ c) = ?q" using cstr_path_of [OF q] by simp
  obtain s1 rc d where g: "zoo_get Z s ?q 256 = (s1, rc, d)" by (metis prod_cases3)
  note g1 = zk_get [OF assms(1) q g z]
  obtain r2 where r2: "read_children Z s1 (path_of cs) children = (s', r2)"
    using Cons.prems(2) g unfolding read_children.simps cq by (auto split: prod.splits)
  have "\<forall>c \<in> set children. znode_name c \<and> nodes s1 (path_of (cs @ [c])) \<noteq> None" using Cons.prems(1) g1 by simp
  note ih = Cons.IH [OF this r2]
  have r: "r = (case d of Some a \<Rightarrow> if rc = ZOK \<and> a \<noteq> [] then a # r2 else r2 | None \<Rightarrow> r2)"
    using Cons.prems(2) g r2 unfolding read_children.simps cq by simp
  have here: "{take 256 a | a. holds (nodes s) cs c a} = (case node_data z of Some a \<Rightarrow> if a = [] then {} else {take 256 a} | None \<Rightarrow> {})"
    using z c by (cases z) (auto simp: holds_def split: option.splits)
  have "set r = {take 256 a | a. holds (nodes s) cs c a} \<union> set r2"
    using g1 unfolding r here by (cases "node_data z") auto
  with ih g1 show ?case by auto
qed simp

lemma Discover_registered:
  assumes "zk_ok Z nodes" and "zk_connected c" and "zk_handle c" and "list_all znode_name cs" and "cs \<noteq> []"
    and "nodes s (path_of cs) \<noteq> None"
  shows "set (snd (Discover Z c s (path_of cs))) = registered (nodes s) cs"
proof -
  obtain s1 rc ch where g: "zoo_get_children Z s (path_of cs) = (s1, rc, ch)" by (metis prod_cases3)
  note ch = zk_children [OF assms(1,4,5) g assms(6)]
  obtain s2 r where r: "read_children Z s1 (path_of cs) ch = (s2, r)" by fastforce
  have "\<forall>c \<in> set ch. znode_name c \<and> nodes s1 (path_of (cs @ [c])) \<noteq> None" using ch by auto
  from read_children_registered [OF assms(1,4) this r] ch have "set r = registered (nodes s) cs"
    by (auto simp: registered_def holds_def)
  moreover have "cstr (path_of cs) = path_of cs" by (rule cstr_path_of [OF assms(4)])
  ultimately show ?thesis using g ch r assms(2,3) by (simp add: Discover_def)
qed

lemma registered_cong:
  "(\<And>n a. holds m' cs n a = holds m cs n a) \<Longrightarrow> registered m' cs = registered m cs"
  by (simp add: registered_def)

lemma registered_grown:
  assumes "grown m m'"
  shows "registered m' cs = registered m cs"
proof (rule registered_cong)
  fix n a
  have "m' p = Some \<lparr>node_data = Some a, ephemeral = e\<rparr> \<longleftrightarrow> m p = Some \<lparr>node_data = Some a, ephemeral = e\<rparr>" for p e
    using assms unfolding grown_def by (metis option.discI option.inject znode.select_convs(1))
  then show "holds m' cs n a = holds m cs n a" by (simp add: holds_def)
qed

lemma registered_update:
  assumes "list_all znode_name cs" and "list_all znode_name ds" and c: "znode_name c" and m: "m (path_of (cs @ [c])) = None" and "a \<noteq> []"
  shows "registered (m(path_of (cs @ [c]) \<mapsto> \<lparr>node_data = Some a, ephemeral = e\<rparr>)) ds
    = (if ds = cs then insert (take 256 a) (registered m cs) else registered m ds)"
proof -
  let ?m = "m(path_of (cs @ [c]) \<mapsto> \<lparr>node_data = Some a, ephemeral = e\<rparr>)"
  have p: "path_of (ds @ [n]) = path_of (cs @ [c]) \<longleftrightarrow> ds = cs \<and> n = c" if "znode_name n" for n
    using path_of_inj [of "ds @ [n]" "cs @ [c]"] assms(1-3) that by auto
  have new: "holds ?m ds n b \<longleftrightarrow> (if ds = cs \<and> n = c then b = a else holds m ds n b)" for n b
  proof (cases "znode_name n")
    case True
    from p [OF this] assms(3,5) show ?thesis by (auto simp: holds_def simp del: path_of_simps)
  qed (use c in \<open>auto simp: holds_def simp del: path_of_simps\<close>)
  moreover have "\<not> holds m cs c b" for b using m by (simp add: holds_def)
  ultimately have "holds ?m ds n b \<longleftrightarrow> ds = cs \<and> n = c \<and> b = a \<or> holds m ds n b" for n b by auto
  then show ?thesis unfolding registered_def by auto
qed

lemma Register_registered:
  assumes Z: "zk_ok Z nodes" and c: "zk_connected c" "zk_handle c" and cs: "list_all znode_name cs" "cs \<noteq> []"
    and w: "plain_way (nodes s) cs" and a: "addr \<noteq> []" and ds: "list_all znode_name ds"
    and r: "zk_Register Z c s (path_of cs) addr = (s', created)"
  shows "registered (nodes s') ds = (if ds = cs then insert (take 256 addr) (registered (nodes s) cs) else registered (nodes s) ds)
    \<and> nodes s' (path_of cs) \<noteq> None \<and> created \<noteq> [] \<and> (\<forall>p. nodes s p \<noteq> None \<longrightarrow> nodes s' p \<noteq> None)
    \<and> (\<forall>p z. nodes s' p = Some z \<and> ephemeral z \<longrightarrow> nodes s p = Some z \<or> (\<exists>n. znode_name n \<and> p = path_of (cs @ [n])))"
proof -
  let ?s = "EnsurePath Z s (path_of cs)"
  note e = EnsurePath_path [OF Z cs w]
  have n: "znode_name ''node_''" by (simp add: znode_name_def znode_char_def)
  have cn: "list_all znode_name (cs @ [''node_''])" using cs n by simp
  have p: "path_of cs @ ''/node_'' = path_of (cs @ [''node_''])" by simp
  obtain rc x where cr: "zoo_create Z ?s (path_of (cs @ [''node_''])) (Some addr) True 512 = (s', rc, x)"
    and x: "created = (if rc = ZOK then cstr x else [])"
    using r c unfolding zk_Register_def p cstr_path_of [OF cn] by (auto simp: Let_def split: prod.splits)
  from zk_sequence [OF Z cs(1) n _ cr] e obtain k where k: "rc = ZOK" "list_all is_digit k" "k \<noteq> []"
    "x = take (512 - 1) (path_of (cs @ [''node_'' @ k]))" "nodes ?s (path_of (cs @ [''node_'' @ k])) = None"
    "nodes s' = (nodes ?s)(path_of (cs @ [''node_'' @ k]) \<mapsto> \<lparr>node_data = Some addr, ephemeral = True\<rparr>)" by auto
  have nk: "znode_name (''node_'' @ k)" by (rule digit_name [OF n k(2)]) simp
  have "registered (nodes s') ds = (if ds = cs then insert (take 256 addr) (registered (nodes s) cs) else registered (nodes s) ds)"
    unfolding k(6) using registered_update [where m = "nodes ?s" and c = "''node_'' @ k", OF cs(1) ds nk k(5) a] registered_grown [OF conjunct1 [OF e]] by simp
  moreover have "created \<noteq> []"
  proof -
    obtain c1 cs1 where cs1: "cs = c1 # cs1" using cs(2) by (cases cs) auto
    then have "hd x = CHR ''/''" "x \<noteq> []" using k(4) by simp_all
    then show ?thesis using x k(1) by (cases x) (simp_all add: cstr_def)
  qed
  moreover have "nodes s' p \<noteq> None" if "nodes s p \<noteq> None" for p
    using that e unfolding k(6) grown_def by (metis fun_upd_apply option.discI)
  moreover have "nodes s' (path_of cs) \<noteq> None" using e cs(2) unfolding k(6) by (auto simp: is_parent_def)
  moreover have "nodes s p = Some z \<or> (\<exists>n. znode_name n \<and> p = path_of (cs @ [n]))" if "nodes s' p = Some z" "ephemeral z" for p z
    using that grown_eph [OF conjunct1 [OF e]] nk unfolding k(6) by (metis fun_upd_apply)
  ultimately show ?thesis by blast
qed

section \<open>A library of this kind\<close>

text \<open>
  A list of nodes. The counter of a sequential node is written with so many zeros that its name is
  longer than all that are there.
\<close>

definition parent_of :: "string \<Rightarrow> string" where
  "parent_of p = rev (tl (dropWhile (\<lambda>c. c \<noteq> CHR ''/'') (rev p)))"

definition longest :: "(string \<times> znode) list \<Rightarrow> nat" where
  "longest t = foldr (\<lambda>(p, z) n. max (length p) n) t 0"

definition parent_there :: "(string \<times> znode) list \<Rightarrow> string \<Rightarrow> bool" where
  "parent_there t q \<longleftrightarrow> parent_of q = [] \<or> (case map_of t (parent_of q) of None \<Rightarrow> False | Some z \<Rightarrow> \<not> ephemeral z)"

definition sample_create :: "(string \<times> znode) list \<Rightarrow> string \<Rightarrow> bytes option \<Rightarrow> bool \<Rightarrow> nat \<Rightarrow> (string \<times> znode) list \<times> int \<times> string" where
  "sample_create t p v seq n =
     (let q = (if seq then p @ replicate (Suc (longest t)) (CHR ''0'') else p)
      in if \<not> parent_there t q then (t, -101, [])
         else if map_of t q \<noteq> None then (t, ZNODEEXISTS, [])
         else ((q, \<lparr>node_data = v, ephemeral = seq\<rparr>) # t, ZOK, take (n - 1) q))"

definition sample_children :: "(string \<times> znode) list \<Rightarrow> string \<Rightarrow> (string \<times> znode) list \<times> int \<times> string list" where
  "sample_children t p =
     (if map_of t p = None then (t, -101, [])
      else (t, ZOK, remdups (filter znode_name (map (\<lambda>(q, z). drop (length p + 1) q)
        (filter (\<lambda>(q, z). take (length p + 1) q = p @ ''/'') t)))))"

definition sample_get :: "(string \<times> znode) list \<Rightarrow> string \<Rightarrow> nat \<Rightarrow> (string \<times> znode) list \<times> int \<times> bytes option" where
  "sample_get t p n = (case map_of t p of None \<Rightarrow> (t, -101, None) | Some z \<Rightarrow> (t, ZOK, map_option (take n) (node_data z)))"

definition sample_zk :: "(string \<times> znode) list zk_api" where
  "sample_zk = \<lparr>zoo_create = sample_create, zoo_get_children = sample_children, zoo_get = sample_get\<rparr>"

lemma parent_of_path: "znode_name c \<Longrightarrow> parent_of (path_of (ds @ [c])) = path_of ds"
proof -
  assume c: "znode_name c"
  have "takeWhile (\<lambda>x. x \<noteq> CHR ''/'') (rev c @ CHR ''/'' # rev (path_of ds)) = rev c"
    "dropWhile (\<lambda>x. x \<noteq> CHR ''/'') (rev c @ CHR ''/'' # rev (path_of ds)) = CHR ''/'' # rev (path_of ds)"
    using znode_name_chars [OF c] by (simp_all add: takeWhile_append dropWhile_append)
  then show ?thesis by (simp add: parent_of_def)
qed

lemma longest_bound: "(p, z) \<in> set t \<Longrightarrow> length p \<le> longest t"
  by (induction t) (auto simp: longest_def)

lemma sample_zk_ok: "zk_ok sample_zk map_of"
  unfolding zk_ok_def
proof (intro conjI)
  have up: "parent_there s (path_of (ds @ [c]))"
    if "znode_name c" "is_parent (map_of s) ds" for ds c and s :: "(string \<times> znode) list"
    using that parent_of_path [OF that(1), of ds] by (auto simp: parent_there_def is_parent_def simp del: path_of_simps(3))
  show "create_ok sample_zk map_of"
    unfolding create_ok_def
  proof (intro allI impI)
    fix s ds c v n s' rc x
    assume a: "znode_name c" "is_parent (map_of s) ds" "zoo_create sample_zk s (path_of (ds @ [c])) v False n = (s', rc, x)"
    show "if map_of s (path_of (ds @ [c])) = None
      then rc = ZOK \<and> map_of s' = (map_of s)(path_of (ds @ [c]) \<mapsto> \<lparr>node_data = v, ephemeral = False\<rparr>)
      else rc = ZNODEEXISTS \<and> map_of s' = map_of s"
      using a(3) up [OF a(1,2)] by (auto simp: sample_zk_def sample_create_def Let_def simp del: path_of_simps split: if_splits)
  qed
  show "sequence_ok sample_zk map_of"
    unfolding sequence_ok_def
  proof (intro allI impI)
    fix s ds c v n s' rc x
    assume ds: "list_all znode_name ds" and a: "znode_name c" "is_parent (map_of s) ds"
      and r: "zoo_create sample_zk s (path_of (ds @ [c])) v True n = (s', rc, x)"
    define k where "k = replicate (Suc (longest s)) (CHR ''0'')"
    let ?q = "path_of (ds @ [c @ k])"
    have q: "path_of (ds @ [c]) @ k = ?q" by simp
    have dig: "list_all is_digit k" "k \<noteq> []" by (auto simp: k_def list_all_iff is_digit_def)
    have "znode_name (c @ k)"
    proof -
      have "last (c @ k) = CHR ''0''" using dig(2) by (auto simp: k_def last_append)
      then have "c @ k \<noteq> ''.''" "c @ k \<noteq> ''..''" by auto
      moreover have "list_all znode_char k" using znode_char_facts(3) dig(1) by (auto simp: list_all_iff)
      ultimately show ?thesis using a(1) by (simp add: znode_name_def)
    qed
    note up = up [OF this a(2)]
    have new: "map_of s ?q = None"
    proof (rule ccontr)
      assume "map_of s ?q \<noteq> None"
      then obtain z where "(?q, z) \<in> set s" by (auto dest: map_of_SomeD)
      from longest_bound [OF this] show False by (simp add: k_def)
    qed
    have "sample_create s (path_of (ds @ [c])) v True n = ((?q, \<lparr>node_data = v, ephemeral = True\<rparr>) # s, ZOK, take (n - 1) ?q)"
      unfolding sample_create_def if_True k_def [symmetric] q Let_def using up new by (simp del: path_of_simps)
    with r have "rc = ZOK \<and> x = take (n - 1) ?q \<and> s' = (?q, \<lparr>node_data = v, ephemeral = True\<rparr>) # s"
      by (simp add: sample_zk_def)
    with dig new show "rc = ZOK \<and> (\<exists>k. k \<noteq> [] \<and> list_all is_digit k \<and> x = take (n - 1) (path_of (ds @ [c @ k]))
       \<and> map_of s (path_of (ds @ [c @ k])) = None
       \<and> map_of s' = (map_of s)(path_of (ds @ [c @ k]) \<mapsto> \<lparr>node_data = v, ephemeral = True\<rparr>))"
      by (intro conjI exI [of _ k]) (simp_all del: path_of_simps)
  qed
  show "children_ok sample_zk map_of"
    unfolding children_ok_def
  proof (intro allI impI)
    fix s ds s' rc cs
    assume r: "zoo_get_children sample_zk s (path_of ds) = (s', rc, cs)" and n: "map_of s (path_of ds) \<noteq> None"
    let ?p = "path_of ds"
    have "(\<exists>q z. (q, z) \<in> set s \<and> take (length ?p + 1) q = ?p @ ''/'' \<and> c = drop (length ?p + 1) q)
        \<longleftrightarrow> map_of s (path_of (ds @ [c])) \<noteq> None" for c
    proof -
      have "take (length ?p + 1) q = ?p @ ''/'' \<and> c = drop (length ?p + 1) q \<longleftrightarrow> q = path_of (ds @ [c])" for q
      proof
        assume "take (length ?p + 1) q = ?p @ ''/'' \<and> c = drop (length ?p + 1) q"
        then show "q = path_of (ds @ [c])" using append_take_drop_id [of "length ?p + 1" q] by (simp del: append_take_drop_id)
      qed simp
      then show ?thesis by (force simp: map_of_eq_None_iff image_iff simp del: path_of_simps)
    qed
    with r n show "map_of s' = map_of s \<and> rc = ZOK \<and> distinct cs \<and> set cs = {c. znode_name c \<and> map_of s (path_of (ds @ [c])) \<noteq> None}"
      by (auto simp: sample_zk_def sample_children_def image_iff simp del: path_of_simps split: prod.splits)
  qed
  show "get_ok sample_zk map_of"
    unfolding get_ok_def by (auto simp: sample_zk_def sample_get_def)
qed

section \<open>Property\<close>

text \<open>
  C17: registering and discovering implement a table from paths to sets of addresses. On a live session a
  registration adds its address to the set of its path and to no other, and yields a name; whoever
  asks for a path finds exactly its set. An address beyond 256 bytes is cut off.
\<close>

theorem registry_refines_table:
  assumes Z: "zk_ok Z nodes" and c: "zk_connected c" "zk_handle c" and g: "zk_connected g" "zk_handle g"
    and cs: "list_all znode_name cs" "cs \<noteq> []" and w: "plain_way (nodes s) cs" and a: "addr \<noteq> []"
    and r: "zk_Register Z c s (path_of cs) addr = (s', created)"
    and ds: "list_all znode_name ds" "ds \<noteq> []" "nodes s (path_of ds) \<noteq> None \<or> ds = cs"
  shows "created \<noteq> [] \<and> registered (nodes s') ds = registered (nodes s) ds \<union> (if ds = cs then {take 256 addr} else {})
    \<and> set (snd (Discover Z g s' (path_of ds))) = registered (nodes s') ds"
proof -
  note R = Register_registered [OF Z c cs w a ds(1) r]
  have "nodes s' (path_of ds) \<noteq> None" using R ds(3) by auto
  from Discover_registered [OF Z g ds(1,2) this] R show ?thesis by auto
qed

definition live_client :: ZkClient where
  "live_client = \<lparr>zk_hosts = ''127.0.0.1:2181'', zk_handle = True, zk_connected = True\<rparr>"

theorem registry_refines_table_witness:
  "snd (Discover sample_zk live_client (fst (zk_Register sample_zk live_client [] ''/FileServer/UserService'' ''10.0.0.1:9001''))
     ''/FileServer/UserService'') = [''10.0.0.1:9001'']
   \<and> ''10.0.0.1:9001'' \<in> set (snd (Discover sample_zk live_client
       (fst (zk_Register sample_zk live_client [] ''/FileServer/UserService'' ''10.0.0.1:9001'')) ''/FileServer/UserService''))"
proof -
  let ?cs = "[''FileServer'', ''UserService'']"
  have n: "list_all znode_name ?cs" by (simp add: znode_name_def znode_char_def)
  have p: "path_of ?cs = ''/FileServer/UserService''" by simp
  have l: "zk_connected live_client" "zk_handle live_client" by (simp_all add: live_client_def)
  have "plain_way (map_of ([] :: (string \<times> znode) list)) ?cs" by (simp add: plain_way_def)
  from registry_refines_table [where nodes = map_of and s = "[]" and addr = "''10.0.0.1:9001''", OF sample_zk_ok l l n _ this _ surjective_pairing n]
  have "''10.0.0.1:9001'' \<in> set (snd (Discover sample_zk live_client
      (fst (zk_Register sample_zk live_client [] ''/FileServer/UserService'' ''10.0.0.1:9001'')) ''/FileServer/UserService''))"
    unfolding p by simp
  moreover have "snd (Discover sample_zk live_client (fst (zk_Register sample_zk live_client [] ''/FileServer/UserService'' ''10.0.0.1:9001''))
     ''/FileServer/UserService'') = [''10.0.0.1:9001'']" by code_simp
  ultimately show ?thesis by simp
qed

end
