(* ===== verification/Startup.thy ===== *)
theory Startup
  imports Discovery Flows
begin

text \<open>
  The \<open>main\<close> functions: what each process reads from its environment, the sizes it starts with, and
  how the three services announce themselves to ZooKeeper, where the gateway finds them.
\<close>

section \<open>Configuration\<close>

type_synonym environment = "string \<Rightarrow> string option"

record db_settings =
  db_host :: string
  db_port :: int
  db_user :: string
  db_pass :: string
  db_name :: string
  connections :: nat

definition database_settings :: "environment \<Rightarrow> nat \<Rightarrow> db_settings" where
  "database_settings env n = \<lparr>db_host = GetEnv (env ''FS_DB_HOST'') ''127.0.0.1'',
     db_port = GetEnvInt (env ''FS_DB_PORT'') 3306, db_user = GetEnv (env ''FS_DB_USER'') ''root'',
     db_pass = GetEnv (env ''FS_DB_PASS'') ''123456'', db_name = GetEnv (env ''FS_DB_NAME'') ''fileserver'', connections = n\<rparr>"

record rpc_settings =
  rpc_port :: int
  io_threads :: nat
  worker_threads :: nat

definition user_service_rpc :: rpc_settings where
  "user_service_rpc = \<lparr>rpc_port = 9001, io_threads = 2, worker_threads = 4\<rparr>"

definition file_service_rpc :: rpc_settings where
  "file_service_rpc = \<lparr>rpc_port = 9002, io_threads = 2, worker_threads = 4\<rparr>"

definition storage_service_rpc :: rpc_settings where
  "storage_service_rpc = \<lparr>rpc_port = 9003, io_threads = 2, worker_threads = 2\<rparr>"

definition storage_root_setting :: "environment \<Rightarrow> string" where
  "storage_root_setting env = GetEnv (env ''FS_STORAGE_ROOT'') ''./storage/data''"

definition zk_hosts_setting :: "environment \<Rightarrow> string" where
  "zk_hosts_setting env = GetEnv (env ''FS_ZK_HOSTS'') ''127.0.0.1:2181''"

definition advertise_host_setting :: "environment \<Rightarrow> string" where
  "advertise_host_setting env = GetEnv (env ''FS_ADVERTISE_HOST'') ''127.0.0.1''"

section \<open>Announcing a service\<close>

text \<open>What the library does when a process connects: whether it gives a handle, and what it reports when.\<close>

record zk_session =
  gives_handle :: bool
  reports :: "zk_state list list"

definition announce :: "'s zk_api \<Rightarrow> zk_session \<Rightarrow> environment \<Rightarrow> string \<Rightarrow> int \<Rightarrow> 's \<Rightarrow> 's" where
  "announce Z l env path port s =
     (case zk_Connect (ZkClient_new (zk_hosts_setting env)) (gives_handle l) (reports l) 10000 of
        (zk, ok) \<Rightarrow> if ok then fst (zk_Register_at Z zk s path (advertise_host_setting env) port) else s)"

definition user_service_start :: "'s zk_api \<Rightarrow> zk_session \<Rightarrow> environment \<Rightarrow> 's \<Rightarrow> 's" where
  "user_service_start Z l env s = announce Z l env ''/FileServer/UserService'' 9001 s"

definition file_service_start :: "'s zk_api \<Rightarrow> zk_session \<Rightarrow> environment \<Rightarrow> 's \<Rightarrow> 's" where
  "file_service_start Z l env s = announce Z l env ''/FileServer/FileService'' 9002 s"

definition storage_service_start :: "'s zk_api \<Rightarrow> zk_session \<Rightarrow> environment \<Rightarrow> 's \<Rightarrow> 's" where
  "storage_service_start Z l env s = announce Z l env ''/FileServer/StorageService'' 9003 s"

fun start_service :: "'s zk_api \<Rightarrow> zk_session \<Rightarrow> environment \<Rightarrow> process \<Rightarrow> 's \<Rightarrow> 's" where
  "start_service Z l env UserProc = user_service_start Z l env"
| "start_service Z l env FileProc = file_service_start Z l env"
| "start_service Z l env StorageProc = storage_service_start Z l env"

text \<open>The gateway asks with a client of its own.\<close>

definition gateway_zk :: "zk_session \<Rightarrow> environment \<Rightarrow> ZkClient" where
  "gateway_zk l env = fst (zk_Connect (ZkClient_new (zk_hosts_setting env)) (gives_handle l) (reports l) 10000)"

definition gateway_sees :: "'s zk_api \<Rightarrow> ZkClient \<Rightarrow> 's \<Rightarrow> string \<Rightarrow> string list" where
  "gateway_sees Z zk s path = snd (Discover Z zk s path)"

section \<open>Facts\<close>

lemma events_handle [simp]: "zk_handle (events evs c) = zk_handle c"
proof -
  have "zk_handle (foldl WatcherCallback c e) = zk_handle c" for e
    by (induction e arbitrary: c) (auto simp: WatcherCallback_def)
  then show ?thesis by (simp add: events_def split: list.splits)
qed

lemma zk_wait_handle: "zk_handle (fst (zk_wait timeout waited evs c)) = zk_handle c"
proof (induction timeout waited evs c rule: zk_wait.induct)
  case (1 timeout waited evs c)
  then show ?case by (subst zk_wait.simps) (auto simp: Let_def)
qed

lemma zk_Connect_live: "zk_Connect c i evs timeout = (c', True) \<Longrightarrow> zk_connected c' \<and> zk_handle c'"
  using zk_wait_handle [of timeout 0 evs "c\<lparr>zk_handle := i\<rparr>"]
  by (auto simp: zk_Connect_def Let_def case_prod_unfold split: if_splits)

text \<open>The wait ends: at most one nap more than the timeout holds.\<close>

lemma zk_wait_bound: "waited \<le> timeout + 99 \<Longrightarrow> zk_wait timeout waited evs c = (c', evs', n) \<Longrightarrow> n \<le> timeout + 99"
proof (induction timeout waited evs c rule: zk_wait.induct)
  case (1 timeout waited evs c)
  from 1(3) [unfolded zk_wait.simps [of timeout waited evs c] Let_def] show ?case
    using 1(1) [OF refl] 1(2) by (auto split: if_splits)
qed

fun service_dir :: "process \<Rightarrow> string list" where
  "service_dir UserProc = [''FileServer'', ''UserService'']"
| "service_dir FileProc = [''FileServer'', ''FileService'']"
| "service_dir StorageProc = [''FileServer'', ''StorageService'']"

fun service_port :: "process \<Rightarrow> int" where
  "service_port UserProc = 9001"
| "service_port FileProc = 9002"
| "service_port StorageProc = 9003"

definition service_addr :: "environment \<Rightarrow> process \<Rightarrow> string" where
  "service_addr env p = advertise_host_setting env @ '':'' @ to_string (service_port p)"

lemma service_dir_names: "list_all znode_name (service_dir p)" "service_dir p \<noteq> []" "length (service_dir p) = 2"
  by (cases p; simp add: znode_name_def znode_char_def)+

lemma service_dir_inj: "service_dir p = service_dir q \<longleftrightarrow> p = q"
  by (cases p; cases q) simp_all

text \<open>What the tree holds when the services in \<open>P\<close> have announced themselves, and nobody else.\<close>

definition announced :: "(string \<rightharpoonup> znode) \<Rightarrow> (process \<Rightarrow> string) \<Rightarrow> process set \<Rightarrow> bool" where
  "announced m addr P \<longleftrightarrow> (\<forall>p \<in> P. m (path_of (service_dir p)) \<noteq> None)
     \<and> (\<forall>p. registered m (service_dir p) = (if p \<in> P then {addr p} else {}))
     \<and> (\<forall>q z. m q = Some z \<and> ephemeral z \<longrightarrow> (\<exists>p n. znode_name n \<and> q = path_of (service_dir p @ [n])))"

lemma announced_plain: "announced m addr P \<Longrightarrow> plain_way m (service_dir p)"
  unfolding plain_way_def
proof (intro allI impI notI)
  fix zs us z
  assume a: "announced m addr P" and z: "service_dir p = zs @ us" "m (path_of zs) = Some z" "ephemeral z"
  from a z(2,3) obtain q n where q: "znode_name n" "path_of zs = path_of (service_dir q @ [n])"
    unfolding announced_def by blast
  have "list_all znode_name zs" using service_dir_names(1) [of p] z(1) by simp
  moreover have "list_all znode_name (service_dir q @ [n])" using service_dir_names(1) q(1) by simp
  ultimately have "zs = service_dir q @ [n]" using path_of_inj q(2) by blast
  then have "length zs = 3" using service_dir_names(3) by simp
  with z(1) service_dir_names(3) [of p] show False by simp
qed

lemma start_service_announce:
  "start_service Z l env p s = announce Z l env (path_of (service_dir p)) (service_port p) s"
  by (cases p) (simp_all add: user_service_start_def file_service_start_def storage_service_start_def)

lemma announce_step:
  assumes Z: "zk_ok Z nodes" and a: "announced (nodes s) addr P" and p: "p \<notin> P"
    and live: "snd (zk_Connect (ZkClient_new (zk_hosts_setting env)) (gives_handle l) (reports l) 10000)"
    and addr: "addr p = service_addr env p" "length (service_addr env p) \<le> 256"
  shows "announced (nodes (start_service Z l env p s)) addr (insert p P)"
proof -
  obtain zk where zk: "zk_Connect (ZkClient_new (zk_hosts_setting env)) (gives_handle l) (reports l) 10000 = (zk, True)"
    using live by (metis prod.collapse)
  note lv = zk_Connect_live [OF zk]
  let ?cs = "service_dir p"
  obtain s' created where r: "zk_Register Z zk s (path_of ?cs) (addr p) = (s', created)" by fastforce
  have e: "start_service Z l env p s = s'"
    using zk r addr(1) by (simp add: start_service_announce announce_def zk_Register_at_def service_addr_def)
  have ne: "addr p \<noteq> []" by (simp add: addr(1) service_addr_def)
  note R = Register_registered [OF Z conjunct1 [OF lv] conjunct2 [OF lv] service_dir_names(1,2) announced_plain [OF a] ne _ r]
  have "registered (nodes s') (service_dir q) = (if q \<in> insert p P then {addr q} else {})" for q
    using R [OF service_dir_names(1), of q] a p addr by (auto simp: announced_def service_dir_inj)
  moreover have "\<forall>q \<in> insert p P. nodes s' (path_of (service_dir q)) \<noteq> None"
    using R [OF service_dir_names(1)] a unfolding announced_def by blast
  moreover have "\<exists>p n. znode_name n \<and> q = path_of (service_dir p @ [n])" if "nodes s' q = Some z" "ephemeral z" for q z
    using R [OF service_dir_names(1)] a that unfolding announced_def by blast
  ultimately show ?thesis unfolding e announced_def by blast
qed

lemma announce_all:
  assumes "zk_ok Z nodes" and "announced (nodes s) addr P" and "distinct order" and "set order \<inter> P = {}"
    and "\<And>p. p \<in> set order \<Longrightarrow> snd (zk_Connect (ZkClient_new (zk_hosts_setting (env p))) (gives_handle (l p)) (reports (l p)) 10000)"
    and "\<And>p. p \<in> set order \<Longrightarrow> addr p = service_addr (env p) p \<and> length (service_addr (env p) p) \<le> 256"
  shows "announced (nodes (fold (\<lambda>p. start_service Z (l p) (env p) p) order s)) addr (P \<union> set order)"
  using assms(2-)
proof (induction order arbitrary: s P)
  case (Cons p order)
  have "announced (nodes (start_service Z (l p) (env p) p s)) addr (insert p P)"
    using Cons.prems(3) Cons.prems(4,5) [of p] by (intro announce_step [OF assms(1) Cons.prems(1)]) simp_all
  from Cons.IH [OF this] Cons.prems show ?case by simp
qed simp

lemma port_texts: "to_string 9001 = ''9001''" "to_string 9002 = ''9002''" "to_string 9003 = ''9003''"
proof -
  have "digit 9 = CHR ''9''" "digit 0 = CHR ''0''" "digit (Suc 0) = CHR ''1''" "digit 2 = CHR ''2''" "digit 3 = CHR ''3''" by code_simp+
  then show "to_string 9001 = ''9001''" "to_string 9002 = ''9002''" "to_string 9003 = ''9003''"
    by (simp_all add: to_string_def show_base.simps)
qed

lemma stoi_ports: "stoi ''9001'' = Inr 9001" "stoi ''9002'' = Inr 9002" "stoi ''9003'' = Inr 9003"
  by code_simp+

lemma parse_service_addr:
  assumes "CHR '':'' \<notin> set (advertise_host_setting env)"
  shows "ParseAddr (service_addr env p) = Inr (advertise_host_setting env, service_port p)"
proof -
  have port: "stoi (to_string (service_port p)) = Inr (service_port p)" 
    using stoi_ports by (cases p) (simp_all add: port_texts)
  have "takeWhile (\<lambda>c. c \<noteq> CHR '':'') (advertise_host_setting env @ CHR '':'' # x) = advertise_host_setting env"
    "dropWhile (\<lambda>c. c \<noteq> CHR '':'') (advertise_host_setting env @ CHR '':'' # x) = CHR '':'' # x" for x
    using assms by (simp_all add: takeWhile_append dropWhile_append)
  then show ?thesis using port by (simp add: ParseAddr_def service_addr_def)
qed

section \<open>Property\<close>


definition plain_env :: environment where
  "plain_env = Map.empty"

definition good_session :: zk_session where
  "good_session = \<lparr>gives_handle = True, reports = [[], [ZOO_CONNECTED_STATE]]\<rparr>"

definition found_world :: deployment where
  "found_world = up_world\<lparr>discovered := gateway_sees sample_zk live_client
     (fold (\<lambda>p. start_service sample_zk good_session plain_env p) [StorageProc, UserProc, FileProc] [])\<rparr>"


end
