(* ===== verification/Tables.thy ===== *)
theory Tables
  imports TwoPhase "HOL-Library.Sublist"
begin

text \<open>
  What the two tables always look like. A predicate on the database is kept by every request to the
  stand-alone server and by every remote method as soon as it is kept by the statements they execute,
  with the arguments they pass: \<open>table_invariant\<close> and its extensions state the statements' part. They
  are interpreted with the typing of the tables, and with the bound of the confirmed lengths, which
  only the remote methods keep.
\<close>

section \<open>Typing\<close>

definition user_typed :: "User \<Rightarrow> bool" where
  "user_typed r \<longleftrightarrow> int32 (uid r) \<and> username r \<noteq> [] \<and> length (username r) \<le> 64 \<and> password r \<noteq> [] \<and> length (password r) \<le> 128
     \<and> length (token r) = 32 \<and> list_all hex_digit (token r)"

definition file_typed :: "FileInfo \<Rightarrow> bool" where
  "file_typed r \<longleftrightarrow> int32 (fid r) \<and> int32 (fuser_id r) \<and> filename r \<noteq> [] \<and> length (filename r) \<le> 200
     \<and> list_all (\<lambda>c. \<not> dangerous c) (filename r) \<and> prefix (to_string (fuser_id r) @ ''/'') (filepath r)
     \<and> suffix (''_'' @ filename r) (filepath r) \<and> 0 < filesize r \<and> 0 \<le> upload_size r \<and> status r \<in> {0, 1, 2}"

definition tables_typed :: "db \<Rightarrow> bool" where
  "tables_typed d \<longleftrightarrow> users_inv d \<and> files_inv d \<and> list_all user_typed (users d) \<and> list_all file_typed (file_rows d)"

section \<open>Predicates that the statements keep\<close>

definition started_row :: "tm \<Rightarrow> int \<Rightarrow> string \<Rightarrow> int \<Rightarrow> string \<Rightarrow> FileInfo" where
  "started_row t u name size0 m = FileInfo_default\<lparr>fuser_id := u, filename := SanitizeFilename name,
     filepath := GenerateFilepath t u (SanitizeFilename name), filesize := size0, md5 := m, status := 0\<rparr>"

locale table_invariant =
  fixes P :: "db \<Rightarrow> bool"
  assumes fault: "P d \<Longrightarrow> P (snd (next_fault d))"
    and insert_user: "P d \<Longrightarrow> name \<noteq> [] \<Longrightarrow> length name \<le> 64 \<Longrightarrow> pwd \<noteq> [] \<Longrightarrow> length pwd \<le> 128 \<Longrightarrow>
      P (fst (UserDAO_Insert d (User_new name pwd\<lparr>token := GenerateToken e\<rparr>)))"
    and new_token: "P d \<Longrightarrow> P (fst (UserDAO_UpdateToken d i (GenerateToken e)))"
    and insert_file: "P d \<Longrightarrow> 0 < size0 \<Longrightarrow> P (fst (FileDAO_Insert d (started_row t u name size0 m)))"
    and new_status: "P d \<Longrightarrow> st \<in> {1, 2} \<Longrightarrow> P (fst (FileDAO_UpdateStatus d i st))"
begin

lemma queries:
  "P d \<Longrightarrow> P (fst (UserDAO_FindByUsername d n))" "P d \<Longrightarrow> P (fst (UserDAO_FindByToken d tok))"
  "P d \<Longrightarrow> P (fst (FileDAO_FindById d i))" "P d \<Longrightarrow> P (fst (FileDAO_FindByUserId d u))"
  "P d \<Longrightarrow> P (fst (FileDAO_FindIncompleteByKey d u n sz m))"
  using fault by (simp_all add: UserDAO_FindByUsername_def UserDAO_FindByToken_def FileDAO_FindById_def FileDAO_FindByUserId_def
      FileDAO_FindIncompleteByKey_def Let_def case_prod_unfold)

lemma user_service: "P d \<Longrightarrow> P (fst (Register d e name pwd))" "P d \<Longrightarrow> P (fst (Login d e name pwd))" "P d \<Longrightarrow> P (fst (VerifyToken d tok))"
  using queries insert_user new_token
  by (simp_all add: Register_def Login_def VerifyToken_def case_prod_unfold split: option.splits)

lemma file_service:
  "P (fst st) \<Longrightarrow> P (fst (fst (UploadStart base st t u name sz m)))" "P (fst st) \<Longrightarrow> P (fst (fst (DownloadChunk base st i u off n)))"
  "P (fst st) \<Longrightarrow> P (fst (fst (QueryFiles st u)))" "P (fst st) \<Longrightarrow> P (fst (fst (GetFileInfo st i)))"
  "P (fst st) \<Longrightarrow> P (fst (fst (Delete base st i u)))"
  using queries insert_file [unfolded started_row_def] new_status
  by (simp_all add: UploadStart_def DownloadChunk_def QueryFiles_def GetFileInfo_def Delete_def FileDAO_SoftDelete_def Let_def
      case_prod_unfold split: option.splits)

lemma over_db: "(\<And>d. P d \<Longrightarrow> P (fst (f d))) \<Longrightarrow> P (cdb w) \<Longrightarrow> P (cdb (fst (on_db w f)))"
  by (simp add: on_db_def case_prod_unfold)

lemma over_files: "(\<And>st. P (fst st) \<Longrightarrow> P (fst (fst (f st)))) \<Longrightarrow> P (cdb w) \<Longrightarrow> P (cdb (fst (on_files w f)))"
  by (simp add: on_files_def case_prod_unfold put_disk_of_files_def split: option.splits)

lemma over_storage: "cdb (fst (on_storage w f)) = cdb w"
  by (simp add: on_storage_def case_prod_unfold)

lemma user_methods_keep:
  "P (cdb w) \<Longrightarrow> P (cdb (fst (rpc_Register J e w args)))" "P (cdb w) \<Longrightarrow> P (cdb (fst (rpc_Login J e w args)))"
  "P (cdb w) \<Longrightarrow> P (cdb (fst (rpc_VerifyToken J w args)))"
  using user_service
  by (simp_all add: rpc_Register_def rpc_Login_def rpc_VerifyToken_def bind_arg_split case_prod_unfold over_db split: sum.splits)

lemma file_methods_keep:
  "P (cdb w) \<Longrightarrow> P (cdb (fst (rpc_UploadStart J base t w args)))" "P (cdb w) \<Longrightarrow> P (cdb (fst (rpc_GetFileInfo J w args)))"
  "P (cdb w) \<Longrightarrow> P (cdb (fst (rpc_QueryFiles J w args)))" "P (cdb w) \<Longrightarrow> P (cdb (fst (rpc_Delete J base w args)))"
  using file_service
  by (simp_all add: rpc_UploadStart_def rpc_GetFileInfo_def rpc_QueryFiles_def rpc_Delete_def bind_arg_split case_prod_unfold
      over_files split: sum.splits)

lemma storage_methods_keep:
  "cdb (fst (rpc_WriteChunk J base w args data)) = cdb w" "cdb (fst (rpc_GetFileSize J base w args)) = cdb w"
  "cdb (fst (rpc_ReadChunk J base w args)) = cdb w" "cdb (fst (rpc_DeleteFile J base w args)) = cdb w"
  by (simp_all add: rpc_WriteChunk_def rpc_GetFileSize_def rpc_ReadChunk_def rpc_DeleteFile_def bind_arg_split case_prod_unfold
      over_storage Let_def split: sum.splits)

end


section \<open>The remote methods\<close>

lemma Call_keeps:
  assumes "R w" and "\<And>m msg. R (fst (call_method J what ms w m msg))"
  shows "R (fst (Call J what ms w oc method args b))"
proof -
  have "R (fst (serve J what ms w m))" for m
    using assms by (auto simp: serve_def case_prod_unfold split: sum.splits)
  with assms(1) show ?thesis by (auto simp: Call_def bind_arg_split case_prod_unfold split: sum.splits option.splits)
qed

context table_invariant begin

lemma storage_call: "cdb (fst (call_method J what (storage_methods J base) w m msg)) = cdb w"
  by (cases rule: call_method_cases [of J what "storage_methods J base" w m msg])
    (auto simp: method_tables storage_methods_keep split: if_splits)

lemma remote_call: "cdb (fst (Call J what (storage_methods J base) w oc m args b)) = cdb w"
  using storage_call by (intro Call_keeps [where R = "\<lambda>x. cdb x = cdb w"]) simp_all

lemma user_call: "P (cdb w) \<Longrightarrow> P (cdb (fst (call_method J what (user_methods J e) w m msg)))"
  by (cases rule: call_method_cases [of J what "user_methods J e" w m msg])
    (auto simp: method_tables user_methods_keep split: if_splits)

lemma validated: "P (cdb w) \<Longrightarrow> P (cdb (fst (validate_chunk J w args)))"
  using over_db [OF queries(3)]
  by (simp add: validate_chunk_def bind_arg_split case_prod_unfold split: sum.splits option.splits)

lemma outcome_db: "cdb (snd (next_outcome w)) = cdb w"
  by (simp add: next_outcome_def split: list.splits)

lemma finalize_keeps: "P (cdb w) \<Longrightarrow> P (cdb (fst (rpc_UploadFinalize J what base w args)))"
  using over_db [OF queries(3)] over_db [OF new_status]
  by (simp add: rpc_UploadFinalize_def bind_arg_split case_prod_unfold Let_def outcome_db remote_call
      split: sum.splits option.splits)

lemma prepare_keeps: "P (cdb w) \<Longrightarrow> P (cdb (fst (rpc_PrepareUploadChunk J w args)))"
  using validated [of w J args] by (simp add: rpc_PrepareUploadChunk_def bind_arg_split case_prod_unfold split: sum.splits)

end

lemma validate_size:
  "validate_chunk J w args = (w', Inr (Some f)) \<Longrightarrow> \<exists>sz. at_int J args ''size'' = Inr sz \<and> 0 < sz"
  by (auto simp: validate_chunk_def bind_arg_split chunk_rejected_def split: sum.splits option.splits prod.splits if_splits)

locale confirmed_writes = table_invariant +
  assumes confirm: "P d \<Longrightarrow> 0 < sz \<Longrightarrow> P (fst (FileDAO_ConfirmUploadChunk d i u off sz))"
begin

lemma confirm_keeps: "P (cdb w) \<Longrightarrow> P (cdb (fst (rpc_ConfirmUploadChunk J w args)))"
proof -
  assume P: "P (cdb w)"
  obtain w1 r where v: "validate_chunk J w args = (w1, r)" by fastforce
  have P1: "P (cdb w1)" using validated [OF P, of J args] v by simp
  have "P (cdb (fst (on_db (fst (on_db w1 (\<lambda>d. FileDAO_ConfirmUploadChunk d i u off sz))) (\<lambda>d. FileDAO_FindById d j))))
      \<and> P (cdb (fst (on_db w1 (\<lambda>d. FileDAO_ConfirmUploadChunk d i u off sz))))"
    if "0 < sz" for i u off sz j
    using that P1 by (simp add: over_db confirm queries)
  with P1 show ?thesis
    using validate_size [of J w args w1] v
    by (auto simp: rpc_ConfirmUploadChunk_def bind_arg_split case_prod_unfold Let_def split: sum.splits option.splits)
qed

lemma file_call: "P (cdb w) \<Longrightarrow> P (cdb (fst (call_method J what (file_methods J what base sbase t) w m msg)))"
  by (cases rule: call_method_cases [of J what "file_methods J what base sbase t" w m msg])
    (auto simp: method_tables file_methods_keep finalize_keeps prepare_keeps confirm_keeps split: if_splits)

lemma served_keeps: "P (cdb w) \<Longrightarrow> P (cdb (fst (call_method J (exn_text D) (methods_of J D p) w m msg)))"
  by (cases p) (simp_all add: storage_call user_call file_call)

lemma CallRpc_keeps: "P (cdb w) \<Longrightarrow> P (cdb (fst (CallRpc J D w service m args b)))"
  using served_keeps [of "snd (next_outcome w)" J D]
    Call_keeps [where R = "\<lambda>w. P (cdb w)" and w = "snd (next_outcome w)" and J = J and what = "exn_text D"]
  by (auto simp: CallRpc_def Let_def case_prod_unfold outcome_db split: sum.splits option.splits)

lemma gw_step_keeps: "gw_step J root admitted g g' \<Longrightarrow> P (cdb (services g)) \<Longrightarrow> P (cdb (services g'))"
  using CallRpc_keeps by (elim gw_step.cases) (fastforce dest: arg_cong [where f = fst])+

lemma gw_steps_keep: "(gw_step J root admitted)\<^sup>*\<^sup>* g g' \<Longrightarrow> P (cdb (services g)) \<Longrightarrow> P (cdb (services g'))"
  by (induction rule: rtranclp_induct) (auto intro: gw_step_keeps)

end

section \<open>The stand-alone server\<close>

locale direct_writes = table_invariant +
  assumes new_length: "P d \<Longrightarrow> 0 \<le> n \<Longrightarrow> P (fst (FileDAO_UpdateUploadSize d i n))"
    and lengths: "P d \<Longrightarrow> snd (FileDAO_FindById d i) = Some r \<Longrightarrow> 0 \<le> upload_size r \<and> 0 \<le> filesize r"
begin

lemma direct_service:
  "P (fst st) \<Longrightarrow> P (fst (fst (UploadData base st i u data off)))" "P (fst st) \<Longrightarrow> P (fst (fst (UploadFinalize base st i u)))"
  using queries(3) new_length new_status lengths
  by (simp_all add: UploadData_def UploadFinalize_def Let_def case_prod_unfold max.coboundedI1 split: option.splits)

lemma arg_keeps: "P (fst st) \<Longrightarrow> (\<And>a. P (fst (fst (k a)))) \<Longrightarrow> P (fst (fst (take_arg st x k)))"
  by (simp add: take_arg_def split: sum.splits)

lemma user_keeps: "P (fst st) \<Longrightarrow> (\<And>st u. P (fst st) \<Longrightarrow> P (fst (fst (k st u)))) \<Longrightarrow> P (fst (fst (with_user J st req k)))"
  using user_service(3) by (auto simp: with_user_def Let_def case_prod_unfold intro!: arg_keeps)

lemma handlers_keep:
  assumes "P (fst st)" and "server_router J base cmd = Some h"
  shows "P (fst (fst (h env st req)))"
  using server_router_cases [OF assms(2)] assms(1)
  by (elim insertE emptyE)
    (auto simp: handler_defs Let_def case_prod_unfold user_service file_service direct_service
      split: option.splits intro!: arg_keeps user_keeps)

lemma route_keeps: "P (fst st) \<Longrightarrow> P (fst (fst (Route J (server_router J base) env st req)))"
  using handlers_keep by (cases st) (fastforce simp: Route_def Let_def split: option.splits)

end

section \<open>Typing is kept\<close>

lemma typed_fault [simp]: "tables_typed (snd (next_fault d)) = tables_typed d"
  by (simp add: tables_typed_def)

lemma new_user_typed:
  "name \<noteq> [] \<Longrightarrow> length name \<le> 64 \<Longrightarrow> pwd \<noteq> [] \<Longrightarrow> length pwd \<le> 128 \<Longrightarrow> int32 i \<Longrightarrow>
   user_typed (User_new name pwd\<lparr>token := GenerateToken e, uid := i, create_time := c\<rparr>)"
  using GenerateToken_facts(1,2) [of e] by (simp add: user_typed_def User_new_def list_all_iff)

lemma started_row_typed:
  assumes "int32 u" and "int32 i" and "0 < size0"
  shows "file_typed (started_row t u name size0 m\<lparr>fid := i, upload_size := 0, status := 0, fcreate_time := c\<rparr>)"
  using assms sanitize_nonempty [of name] sanitize_length [of name] sanitize_chars [of _ name]
  by (auto simp: file_typed_def started_row_def FileInfo_default_def GenerateFilepath_def time_stamp_def list_all_iff
      intro!: suffix_appendI suffix_ConsI)

lemma typed_update:
  assumes "tables_typed d" and "\<And>r. Q r \<Longrightarrow> file_typed r \<Longrightarrow> file_typed (u r)" and "\<And>r. fid (u r) = fid r"
  shows "tables_typed (update_files Q u d)"
  using assms files_inv_update [of d u Q]
  by (auto simp: tables_typed_def list_all_iff update_files_def users_inv_def)

interpretation typed: table_invariant tables_typed
proof
  fix d and name pwd :: string and e :: "u64 \<times> u64"
  assume d: "tables_typed d" and n: "name \<noteq> []" "length name \<le> 64" "pwd \<noteq> []" "length pwd \<le> 128"
  let ?u = "User_new name pwd\<lparr>token := GenerateToken e\<rparr>"
  have "users_inv (fst (UserDAO_Insert d ?u))" using d by (simp add: tables_typed_def users_inv_Insert)
  moreover have "list_all user_typed (users (fst (UserDAO_Insert d ?u)))"
    using d new_user_typed [OF n] by (auto simp: UserDAO_Insert_def Let_def case_prod_unfold tables_typed_def split: option.splits db_fault.splits)
  moreover have "file_rows (fst (UserDAO_Insert d ?u)) = file_rows d" "next_file (fst (UserDAO_Insert d ?u)) = next_file d"
    by (auto simp: UserDAO_Insert_def Let_def case_prod_unfold split: option.splits db_fault.splits)
  ultimately show "tables_typed (fst (UserDAO_Insert d ?u))" using d by (simp add: tables_typed_def files_inv_def)
next
  fix d i e
  assume d: "tables_typed d"
  have "users_inv (fst (UserDAO_UpdateToken d i (GenerateToken e)))" using d by (simp add: tables_typed_def users_inv_UpdateToken)
  with d GenerateToken_facts(1,2) [of e] show "tables_typed (fst (UserDAO_UpdateToken d i (GenerateToken e)))"
    by (auto simp: UserDAO_UpdateToken_def Let_def case_prod_unfold tables_typed_def list_all_iff user_typed_def files_inv_def)
next
  fix d t u name m and size0 :: int
  assume d: "tables_typed d" and n: "0 < size0"
  let ?r = "started_row t u name size0 m"
  have "files_inv (fst (FileDAO_Insert d ?r))" using d by (simp add: tables_typed_def files_inv_FileInsert)
  moreover have "list_all file_typed (file_rows (fst (FileDAO_Insert d ?r)))"
    using d n started_row_typed by (auto simp: FileDAO_Insert_def Let_def case_prod_unfold tables_typed_def started_row_def FileInfo_default_def)
  moreover have "users (fst (FileDAO_Insert d ?r)) = users d" "next_user (fst (FileDAO_Insert d ?r)) = next_user d"
    "collate (fst (FileDAO_Insert d ?r)) = collate d"
    by (auto simp: FileDAO_Insert_def Let_def case_prod_unfold)
  ultimately show "tables_typed (fst (FileDAO_Insert d ?r))" using d by (simp add: tables_typed_def users_inv_def)
qed (auto simp: FileDAO_UpdateStatus_def Let_def case_prod_unfold file_typed_def intro!: typed_update)

lemma FindById_row:
  "snd (FileDAO_FindById d i) = Some r \<Longrightarrow> \<exists>q \<in> set (file_rows d). upload_size r = upload_size q \<and> filesize r = filesize q"
proof -
  assume "snd (FileDAO_FindById d i) = Some r"
  then obtain q qs where q: "filter (\<lambda>r. fid r = i) (file_rows d) = q # qs" "r = file_of_row q"
    by (auto simp: FileDAO_FindById_def Let_def case_prod_unfold fetch_file_def split: if_splits list.splits)
  have "q \<in> set (filter (\<lambda>r. fid r = i) (file_rows d))" unfolding q(1) by simp
  then show ?thesis using q(2) by (auto simp: file_of_row_def)
qed

interpretation direct: direct_writes tables_typed
proof
  fix d i and n :: int
  assume "tables_typed d" and "0 \<le> n"
  then show "tables_typed (fst (FileDAO_UpdateUploadSize d i n))"
    by (auto simp: FileDAO_UpdateUploadSize_def Let_def case_prod_unfold file_typed_def intro!: typed_update)
next
  fix d i r
  assume "tables_typed d" and "snd (FileDAO_FindById d i) = Some r"
  then show "0 \<le> upload_size r \<and> 0 \<le> filesize r"
    using FindById_row [of d i r] by (fastforce simp: tables_typed_def list_all_iff file_typed_def)
qed

lemma typed_confirm:
  assumes "tables_typed d" and "0 < sz"
  shows "tables_typed (fst (FileDAO_ConfirmUploadChunk d i u off sz))"
proof -
  let ?hit = "\<lambda>r. fid r = i \<and> fuser_id r = u \<and> status r = 0 \<and> upload_size r = off \<and> filesize r \<ge> off + sz"
  let ?d = "update_files ?hit (upload_size_update (\<lambda>_. off + sz)) (snd (next_fault d))"
  have "tables_typed ?d" using assms by (intro typed_update) (auto simp: file_typed_def)
  with assms(1) typed.queries(3) [of ?d i] show ?thesis
    by (simp add: FileDAO_ConfirmUploadChunk_def Let_def case_prod_unfold split: option.splits)
qed

definition tables_tracked :: "db \<Rightarrow> bool" where
  "tables_tracked d \<longleftrightarrow> tables_typed d \<and> progress d"

interpretation tracked: confirmed_writes tables_tracked
proof
  fix d i u off and sz :: int
  assume d: "tables_tracked d" and "0 < sz"
  moreover obtain d' ok where c: "FileDAO_ConfirmUploadChunk d i u off sz = (d', ok)" by fastforce
  moreover have "files_inv d" "progress d" using d by (simp_all add: tables_tracked_def tables_typed_def)
  from confirm_chunk_safe [OF this _ c] \<open>0 < sz\<close> have "progress d'" by simp
  ultimately show "tables_tracked (fst (FileDAO_ConfirmUploadChunk d i u off sz))"
    using typed_confirm [of d sz i u off] by (simp add: tables_tracked_def)
next
  fix d t u name m and size0 :: int
  assume d: "tables_tracked d" and n: "0 < size0"
  then have "progress (fst (FileDAO_Insert d (started_row t u name size0 m)))"
    by (auto simp: tables_tracked_def progress_def FileDAO_Insert_def Let_def case_prod_unfold started_row_def)
  with d n typed.insert_file show "tables_tracked (fst (FileDAO_Insert d (started_row t u name size0 m)))"
    by (simp add: tables_tracked_def)
next
  fix d and name pwd :: string and e :: "u64 \<times> u64"
  assume d: "tables_tracked d" and n: "name \<noteq> []" "length name \<le> 64" "pwd \<noteq> []" "length pwd \<le> 128"
  let ?u = "User_new name pwd\<lparr>token := GenerateToken e\<rparr>"
  have "progress (fst (UserDAO_Insert d ?u)) = progress d"
    by (auto simp: progress_def UserDAO_Insert_def Let_def case_prod_unfold split: option.splits db_fault.splits)
  with d typed.insert_user [OF _ n] show "tables_tracked (fst (UserDAO_Insert d ?u))" by (simp add: tables_tracked_def)
next
  fix d i and e :: "u64 \<times> u64"
  assume d: "tables_tracked d"
  have "progress (fst (UserDAO_UpdateToken d i (GenerateToken e))) = progress d"
    by (auto simp: progress_def UserDAO_UpdateToken_def Let_def case_prod_unfold)
  with d typed.new_token show "tables_tracked (fst (UserDAO_UpdateToken d i (GenerateToken e)))" by (simp add: tables_tracked_def)
next
  fix d i and st :: int
  assume d: "tables_tracked d" and "st \<in> {1, 2}"
  then have "progress (fst (FileDAO_UpdateStatus d i st))"
    by (auto simp: tables_tracked_def FileDAO_UpdateStatus_def Let_def case_prod_unfold intro!: progress_update)
  with d \<open>st \<in> {1, 2}\<close> typed.new_status show "tables_tracked (fst (FileDAO_UpdateStatus d i st))" by (simp add: tables_tracked_def)
qed (simp add: tables_tracked_def)

section \<open>Properties\<close>

text \<open>
  whatever a client sends to the stand-alone server, and whichever statement fails, the tables keep
  their types: unique keys below their counters, usernames unique up to collation and not empty, tokens
  of 32 hexadecimal digits, file names without separators or control characters, each file under the
  directory of its owner, a positive size, a known status.
\<close>

theorem server_keeps_tables_typed:
  assumes "tables_typed (fst st)" and "Route J (server_router J base) env st req = (st', out)"
  shows "tables_typed (fst st')"
  using direct.route_keeps [OF assms(1), of J base env req] assms(2) by simp

theorem server_keeps_tables_typed_witness:
  "tables_typed (fst (fst (Route js_ops (server_router js_ops ''/srv'') sample_env (empty_db, sample_fs)
     (sample_req (sample_cmd ''list'' ''x'')))))"
proof -
  have "tables_typed empty_db" by (simp add: tables_typed_def empty_db_def users_inv_def files_inv_def)
  then show ?thesis using server_keeps_tables_typed [of "(empty_db, sample_fs)", OF _ surjective_pairing] by simp
qed

text \<open>
  C10: in the deployment of several processes they keep their types too, and no confirmed length ever
  passes the size of its file: whatever the clients send, however the calls of the handlers interleave,
  and whichever calls are lost.
\<close>

theorem gateway_keeps_tables_typed:
  assumes "(gw_step J root admitted)\<^sup>*\<^sup>* g g'" and "tables_tracked (cdb (services g))"
  shows "tables_tracked (cdb (services g'))"
  using assms by (rule tracked.gw_steps_keep)

theorem gateway_keeps_tables_typed_witness:
  "tables_tracked (cdb (fst (run_handling (Gateway_Route js_ops (gateway_router js_ops) (sample_req (sample_cmd ''list'' ''x'')))
     js_ops up_world (up_cluster\<lparr>cdb := empty_db\<rparr>))))"
proof -
  let ?w = "up_cluster\<lparr>cdb := empty_db\<rparr>" and ?req = "sample_req (sample_cmd ''list'' ''x'')"
  let ?h = "Gateway_Route js_ops (gateway_router js_ops) ?req"
  have "tables_tracked (cdb ?w)"
    by (simp add: tables_tracked_def tables_typed_def progress_def empty_db_def users_inv_def files_inv_def)
  then show ?thesis
    using gateway_keeps_tables_typed [OF run_handling_steps [where hs = "[]" and h = ?h and D = up_world and J = js_ops
        and w = ?w and req = ?req and admitted = "\<lambda>m. True", OF surjective_pairing refl]] by simp
qed

end
