(* ===== verification/ServerProcess.thy ===== *)
theory ServerProcess
  imports Server Connections
begin

text \<open>
  \<open>gateway/network/tcp_server_wrapper.cc\<close>, and the stand-alone server as \<open>main\<close> of
  \<open>gateway/bin/server_main.cc\<close> wires it: the wrapper hands what arrives to the business processor, whose
  tasks the workers of the thread pool run. The IO thread and the workers interleave as steps; a
  handler runs in one step. The connections that are up, and what is sent, belong to muduo.
\<close>

section \<open>The wrapper\<close>

text \<open>
  A callback gets the connection, what arrived and what the clock shows during the call; \<open>'w\<close> is
  what it works on. \<open>muduo_started\<close>: the server of the library listens.
\<close>

type_synonym 'w message_callback = "nat \<Rightarrow> bytes \<Rightarrow> (nat \<Rightarrow> int) \<Rightarrow> 'w \<Rightarrow> 'w \<times> cpp_exn option"
type_synonym 'w connection_callback = "nat \<Rightarrow> bool \<Rightarrow> 'w \<Rightarrow> 'w \<times> cpp_exn option"

record 'w tcp_server_wrapper =
  muduo_started :: bool
  conn_mgr :: conn_manager
  user_message_cb :: "'w message_callback option"
  user_conn_cb :: "'w connection_callback option"
  wrapper_started :: bool

definition TcpServerWrapper_new :: "'w tcp_server_wrapper" where
  "TcpServerWrapper_new = \<lparr>muduo_started = False, conn_mgr = conn_manager_new, user_message_cb = None,
     user_conn_cb = None, wrapper_started = False\<rparr>"

definition Wrapper_Start :: "'w tcp_server_wrapper \<Rightarrow> 'w tcp_server_wrapper" where
  "Wrapper_Start t = (if wrapper_started t then t else t\<lparr>muduo_started := True, wrapper_started := True\<rparr>)"

definition Wrapper_Stop :: "'w tcp_server_wrapper \<Rightarrow> 'w tcp_server_wrapper" where
  "Wrapper_Stop t = (if \<not> wrapper_started t then t else t\<lparr>wrapper_started := False\<rparr>)"

definition SetMessageCallback :: "'w tcp_server_wrapper \<Rightarrow> 'w message_callback \<Rightarrow> 'w tcp_server_wrapper" where
  "SetMessageCallback t cb = t\<lparr>user_message_cb := Some cb\<rparr>"

definition SetConnectionCallback :: "'w tcp_server_wrapper \<Rightarrow> 'w connection_callback \<Rightarrow> 'w tcp_server_wrapper" where
  "SetConnectionCallback t cb = t\<lparr>user_conn_cb := Some cb\<rparr>"

definition Wrapper_OnConnection ::
  "(nat \<Rightarrow> bool) \<Rightarrow> 'w tcp_server_wrapper \<Rightarrow> 'w \<Rightarrow> conn_event \<Rightarrow> ('w tcp_server_wrapper \<times> 'w) \<times> cpp_exn option" where
  "Wrapper_OnConnection live t w e =
     (let t = t\<lparr>conn_mgr := OnConnection live (conn_mgr t) e\<rparr> in
      case user_conn_cb t of
        None \<Rightarrow> ((t, w), None)
      | Some cb \<Rightarrow> (case (case e of Up conn _ _ \<Rightarrow> cb conn True w | Down conn \<Rightarrow> cb conn False w) of (w, x) \<Rightarrow> ((t, w), x)))"

text \<open>Without a callback what arrived is sent back.\<close>

definition Wrapper_OnMessage ::
  "(nat \<Rightarrow> bytes \<Rightarrow> 'w \<Rightarrow> 'w) \<Rightarrow> 'w tcp_server_wrapper \<Rightarrow> nat \<Rightarrow> bytes \<Rightarrow> (nat \<Rightarrow> int) \<Rightarrow> 'w \<Rightarrow> 'w \<times> cpp_exn option" where
  "Wrapper_OnMessage send t conn buf clock w =
     (case user_message_cb t of Some cb \<Rightarrow> cb conn buf clock w | None \<Rightarrow> (send conn buf w, None))"

text \<open>\<open>Stop\<close> closes nothing: connections and messages are served as before.\<close>

lemma stopped_wrapper_serves:
  "Wrapper_OnMessage send (Wrapper_Stop t) = Wrapper_OnMessage send t"
  "muduo_started (Wrapper_Stop t) = muduo_started t" "conn_mgr (Wrapper_Stop t) = conn_mgr t"
  by (simp_all add: Wrapper_Stop_def Wrapper_OnMessage_def fun_eq_iff)

section \<open>The server\<close>

record io_state =
  decs :: decoders
  task_pool :: "NetworkTask pool"
  outbox :: "(nat \<times> bytes) list" \<comment> \<open>what was given to the connections, oldest first\<close>

definition send_now :: "nat \<Rightarrow> bytes \<Rightarrow> io_state \<Rightarrow> io_state" where
  "send_now conn b w = w\<lparr>outbox := outbox w @ [(conn, b)]\<rparr>"

definition GetMessageCallback :: "io_state message_callback" where
  "GetMessageCallback conn buf clock w =
     (case OnMessage (decs w, task_pool w) conn buf clock of ((ds, p), e) \<Rightarrow> (w\<lparr>decs := ds, task_pool := p\<rparr>, e))"

record server_process =
  tcp :: "io_state tcp_server_wrapper"
  io :: io_state
  tables :: store
  online :: "nat set"

definition server_start :: "nat \<Rightarrow> store \<Rightarrow> server_process" where
  "server_start hardware_concurrency st =
     \<lparr>tcp = Wrapper_Start (SetMessageCallback TcpServerWrapper_new GetMessageCallback),
      io = \<lparr>decs = [], task_pool = ThreadPool_new hardware_concurrency 8, outbox = []\<rparr>, tables = st, online = {}\<rparr>"

text \<open>A task keeps its connection object alive, so a new connection is not allocated at its address.\<close>

definition held_conns :: "NetworkTask pool \<Rightarrow> nat set" where
  "held_conns p = task_conn ` (set (tasks p) \<union> {t. Running t \<in> set (workers p)})"

datatype server_event = Accepted nat string int | Closed nat | Received nat bytes "nat \<Rightarrow> int"
  | Threads "NetworkTask event" | Handled nat req_env

fun by_worker :: "'t event \<Rightarrow> bool" where
  "by_worker (SectionE i) = True"
| "by_worker (NotifyE i) = True"
| "by_worker NotifyNoneE = True"
| "by_worker (SpuriousE i) = True"
| "by_worker _ = False"

text \<open>
  A notification is sent by the IO thread that submitted the task, the other pool events are the
  workers'. An exception that leaves a callback would end the process.
\<close>

inductive server_step :: "'j json_ops \<Rightarrow> string \<Rightarrow> server_process \<Rightarrow> server_event \<Rightarrow> server_process \<Rightarrow> bool" for J base where
  Accept: "conn \<notin> online s \<Longrightarrow> conn \<notin> held_conns (task_pool (io s)) \<Longrightarrow>
    Wrapper_OnConnection live (tcp s) (io s) (Up conn peer ms) = ((t, w), None) \<Longrightarrow>
    server_step J base s (Accepted conn peer ms) (s\<lparr>tcp := t, io := w, online := insert conn (online s)\<rparr>)"
| Close: "conn \<in> online s \<Longrightarrow> Wrapper_OnConnection live (tcp s) (io s) (Down conn) = ((t, w), None) \<Longrightarrow>
    server_step J base s (Closed conn) (s\<lparr>tcp := t, io := w, online := online s - {conn}\<rparr>)"
| Receive: "conn \<in> online s \<Longrightarrow> Wrapper_OnMessage send_now (tcp s) conn buf clock (io s) = (w, None) \<Longrightarrow>
    server_step J base s (Received conn buf clock) (s\<lparr>io := w\<rparr>)"
| Pool: "by_worker e \<Longrightarrow> pstep (task_pool (io s)) e p \<Longrightarrow>
    server_step J base s (Threads e) (s\<lparr>io := (io s)\<lparr>task_pool := p\<rparr>\<rparr>)"
| Handle: "i < length (workers (task_pool (io s))) \<Longrightarrow> workers (task_pool (io s)) ! i = Running t \<Longrightarrow>
    ProcessTask J (server_router J base) env (task_conn t \<in> online s) (tables s) t = (st, out) \<Longrightarrow>
    w = (case out of None \<Rightarrow> io s | Some b \<Rightarrow> send_now (task_conn t) b (io s)) \<Longrightarrow>
    server_step J base s (Handled i env) (s\<lparr>tables := st, io := w\<lparr>task_pool := finish_task (task_pool w) i t\<rparr>\<rparr>)"

fun received :: "nat \<Rightarrow> server_event list \<Rightarrow> bytes list" where
  "received conn [] = []"
| "received conn (e # es) = (case e of Received c buf clock \<Rightarrow> if c = conn then [buf] else [] | _ \<Rightarrow> []) @ received conn es"

lemma received_append [simp]: "received conn (es @ es') = received conn es @ received conn es'"
  by (induction es) auto

definition sent_to :: "nat \<Rightarrow> server_process \<Rightarrow> bytes list" where
  "sent_to conn s = map snd (filter (\<lambda>e. fst e = conn) (outbox (io s)))"

section \<open>Invariant\<close>

text \<open>What the finished tasks sent: the reply to its request, or nothing.\<close>

definition out_of :: "NetworkTask \<times> Message option \<Rightarrow> (nat \<times> bytes) list" where
  "out_of e = (case snd e of None \<Rightarrow> [] | Some resp \<Rightarrow> [(task_conn (fst e), Encode resp)])"

definition served_well :: "(NetworkTask \<times> Message option) list \<Rightarrow> io_state \<Rightarrow> bool" where
  "served_well served w \<longleftrightarrow> map fst served = finished (task_pool w) \<and> outbox w = concat (map out_of served)
     \<and> list_all (\<lambda>(t, r). case r of None \<Rightarrow> True | Some resp \<Rightarrow> reply_to (request t) resp) served"

definition process_inv :: "server_event list \<Rightarrow> server_process \<Rightarrow> bool" where
  "process_inv es s \<longleftrightarrow> user_message_cb (tcp s) = Some GetMessageCallback \<and> user_conn_cb (tcp s) = None
     \<and> running (task_pool (io s)) \<and> history_inv (task_pool (io s))
     \<and> (\<forall>conn. requests_of conn (task_pool (io s)) = fst (FeedAll Decoder_init (received conn es))
          \<and> decoder_of (decs (io s)) conn = snd (FeedAll Decoder_init (received conn es)))
     \<and> (\<exists>served. served_well served (io s))"

lemma process_start: "process_inv [] (server_start hw st)"
proof -
  have "served_well [] (io (server_start hw st))" by (simp add: served_well_def server_start_def ThreadPool_new_def)
  moreover have "history_inv (task_pool (io (server_start hw st)))" by (simp add: server_start_def history_new)
  ultimately show ?thesis
    by (auto simp: process_inv_def server_start_def Wrapper_Start_def SetMessageCallback_def TcpServerWrapper_new_def
        ThreadPool_new_def requests_of_def decoder_of_def)
qed

lemma FeedAll_snoc: "FeedAll d (cs @ [c]) = (fst (FeedAll d cs) @ fst (Feed (snd (FeedAll d cs)) c), snd (Feed (snd (FeedAll d cs)) c))"
  by (induction cs arbitrary: d) (simp_all add: case_prod_unfold)

lemma submit_history: "history_inv p \<Longrightarrow> history_inv (p\<lparr>tasks := tasks p @ ts, notifies := n, submitted := submitted p @ ts\<rparr>)"
  by (simp add: history_inv_def)

lemma by_worker_keeps:
  "pstep p e p' \<Longrightarrow> by_worker e \<Longrightarrow> running p' = running p \<and> submitted p' = submitted p \<and> finished p' = finished p"
  by (erule pstep.cases) (auto simp: pool_ops)

lemma OnMessage_pool:
  "running p \<Longrightarrow> OnMessage (ds, p) conn raw clock = ((ds', p'), e) \<Longrightarrow>
   \<exists>ts. p' = p\<lparr>tasks := tasks p @ ts, notifies := notifies p + length ts, submitted := submitted p @ ts\<rparr>"
  by (intro exI [of _ "map (\<lambda>p. NetworkTask_new (snd p) conn (clock (fst p))) (enumerate 0 (fst (Feed (snd (GetDecoder ds conn)) raw)))"])
    (auto simp: OnMessage_def Let_def case_prod_unfold submit_all_running)

lemma receive_inv:
  assumes inv: "process_inv es s" and step: "Wrapper_OnMessage send_now (tcp s) conn buf clock (io s) = (w, None)"
  shows "process_inv (es @ [Received conn buf clock]) (s\<lparr>io := w\<rparr>)"
proof -
  let ?p = "task_pool (io s)"
  let ?F = "\<lambda>c. FeedAll Decoder_init (received c es)"
  from inv have run: "running ?p" and hist: "history_inv ?p" and out: "\<exists>served. served_well served (io s)"
    and req: "\<And>c. requests_of c ?p = fst (?F c)" "\<And>c. decoder_of (decs (io s)) c = snd (?F c)"
    and cb: "user_message_cb (tcp s) = Some GetMessageCallback" "user_conn_cb (tcp s) = None"
    by (auto simp: process_inv_def)
  obtain ms d where f: "Feed (decoder_of (decs (io s)) conn) buf = (ms, d)" by fastforce
  from OnMessage_running [OF run f, of clock] obtain ds' p' ts where
    1: "OnMessage (decs (io s), ?p) conn buf clock = ((ds', p'), None)" "running p'" "submitted p' = submitted ?p @ ts"
      "map request ts = ms" "\<forall>t \<in> set ts. task_conn t = conn"
      "\<forall>k. decoder_of ds' k = (if k = conn then d else decoder_of (decs (io s)) k)" by blast
  have w: "w = (io s)\<lparr>decs := ds', task_pool := p'\<rparr>"
    using step cb 1(1) by (simp add: Wrapper_OnMessage_def GetMessageCallback_def)
  have h: "history_inv p'" "finished p' = finished ?p"
    using OnMessage_pool [OF run 1(1)] hist by (auto simp: submit_history)
  have "filter (\<lambda>t. task_conn t = c) ts = (if c = conn then ts else [])" for c
    using 1(5) by (auto simp: filter_empty_conv)
  then have "requests_of c p' = requests_of c ?p @ (if c = conn then ms else [])" for c
    using 1(3,4) by (simp add: requests_of_def)
  then have "requests_of c p' = fst (FeedAll Decoder_init (received c (es @ [Received conn buf clock])))
      \<and> decoder_of ds' c = snd (FeedAll Decoder_init (received c (es @ [Received conn buf clock])))" for c
    using req 1(6) f by (auto simp: FeedAll_snoc)
  with cb 1(2) h out show ?thesis by (simp add: process_inv_def w served_well_def)
qed

lemma pool_inv_step:
  assumes inv: "process_inv es s" and "by_worker e" and "pstep (task_pool (io s)) e p"
  shows "process_inv (es @ [Threads e]) (s\<lparr>io := (io s)\<lparr>task_pool := p\<rparr>\<rparr>)"
  using assms by_worker_keeps [OF assms(3,2)] history_step [OF assms(3)]
  by (simp add: process_inv_def requests_of_def served_well_def)

lemma handle_inv:
  assumes inv: "process_inv es s" and i: "i < length (workers (task_pool (io s)))" "workers (task_pool (io s)) ! i = Running t"
    and p: "ProcessTask J (server_router J base) env c (tables s) t = (st, out)"
    and w: "w = (case out of None \<Rightarrow> io s | Some b \<Rightarrow> send_now (task_conn t) b (io s))"
  shows "process_inv (es @ [Handled i env]) (s\<lparr>tables := st, io := w\<lparr>task_pool := finish_task (task_pool w) i t\<rparr>\<rparr>)"
proof -
  let ?p = "task_pool (io s)"
  let ?x = "Route J (server_router J base) env (tables s) (request t)"
  define r where "r = (case snd ?x of Inl e \<Rightarrow> None | Inr resp \<Rightarrow> if c then Some resp else None)"
  have r: "out = map_option Encode r"
    using p by (cases ?x) (auto simp: r_def ProcessTask_def split: sum.splits)
  have rep: "reply_to (request t) resp" if "r = Some resp" for resp
    using that Route_answers [of "request t" J base env "tables s"] by (auto simp: r_def answers_def split: sum.splits if_splits)
  from inv obtain served where v: "served_well served (io s)" by (auto simp: process_inv_def)
  have "served_well (served @ [(t, r)]) (w\<lparr>task_pool := finish_task (task_pool w) i t\<rparr>)"
    using v r rep w by (cases r) (simp_all add: served_well_def out_of_def send_now_def finish_task_def)
  moreover have "history_inv (finish_task ?p i t)"
    using inv history_step [OF pstep.finish [OF i]] by (simp add: process_inv_def)
  moreover have "task_pool w = ?p" "decs w = decs (io s)" using w by (auto simp: send_now_def split: option.splits)
  ultimately show ?thesis using inv by (auto simp: process_inv_def requests_of_def finish_task_def)
qed

lemma connection_inv:
  assumes "process_inv es s" and "Wrapper_OnConnection live (tcp s) (io s) ev = ((t, w), None)" and "\<And>c. received c [e] = []"
  shows "process_inv (es @ [e]) (s\<lparr>tcp := t, io := w, online := C\<rparr>)"
  using assms by (auto simp: process_inv_def Wrapper_OnConnection_def Let_def simp del: received.simps)

lemma process_step:
  assumes "process_inv es s" and "server_step J base s e s'"
  shows "process_inv (es @ [e]) s'"
  using assms(2)
proof cases
  case (Receive conn buf clock w)
  then show ?thesis using receive_inv [OF assms(1)] by simp
next
  case (Pool e' p)
  then show ?thesis using pool_inv_step [OF assms(1)] by simp
next
  case (Handle i t env st out w)
  then show ?thesis using handle_inv [OF assms(1) Handle(3,4,5,6)] by simp
qed (use assms(1) connection_inv in \<open>fastforce+\<close>)

lemma process_run:
  assumes "run (server_step J base) s0 es' s" and "process_inv es s0"
  shows "process_inv (es @ es') s"
  using assms
proof (induction arbitrary: es rule: run.induct)
  case (run_Cons s a t as u)
  from run_Cons.IH [OF process_step [OF run_Cons.prems run_Cons.hyps(1)]] show ?case by simp
qed simp

definition idle_pool :: "'t pool \<Rightarrow> bool" where
  "idle_pool p \<longleftrightarrow> tasks p = [] \<and> in_hand (workers p) = {#}"

lemma finished_submitted:
  "history_inv p \<Longrightarrow> mset (finished p) \<subseteq># mset (submitted p)"
  "history_inv p \<Longrightarrow> idle_pool p \<Longrightarrow> mset (finished p) = mset (submitted p)"
  by (simp_all add: history_inv_def idle_pool_def subset_mset.add_increasing2)

definition answered_on :: "nat \<Rightarrow> (NetworkTask \<times> Message option) list \<Rightarrow> (Message \<times> Message) list" where
  "answered_on conn served = concat (map (\<lambda>(t, r). case r of Some resp \<Rightarrow> if task_conn t = conn then [(request t, resp)] else []
     | None \<Rightarrow> []) served)"

lemma answered_sent:
  "map (Encode \<circ> snd) (answered_on conn served) = map snd (filter (\<lambda>e. fst e = conn) (concat (map out_of served)))"
  by (induction served) (auto simp: answered_on_def out_of_def split: option.splits)

lemma subset_add: "A \<subseteq># B \<Longrightarrow> A \<subseteq># add_mset x B"
  by (metis add_mset_add_single mset_subset_eq_add_left subset_mset.order_trans)

lemma answered_requests:
  "mset (map fst (answered_on conn served)) \<subseteq># mset (map request (filter (\<lambda>t. task_conn t = conn) (map fst served)))"
  by (induction served) (auto simp: answered_on_def subset_add split: option.splits)

lemma answered_replies:
  "list_all (\<lambda>(t, r). case r of None \<Rightarrow> True | Some resp \<Rightarrow> reply_to (request t) resp) served \<Longrightarrow>
   list_all (\<lambda>(req, resp). reply_to req resp) (answered_on conn served)"
  by (induction served) (auto simp: answered_on_def split: option.splits)

section \<open>Properties\<close>


lemma whole_message: "encodable m \<Longrightarrow> fst (Feed Decoder_init (Encode m)) = [wire_message m]"
proof -
  assume m: "encodable m"
  obtain xs d where f: "FeedAll Decoder_init [Encode m] = (xs, d)" by fastforce
  have "run_chunks drain_buffer [] [Encode m] = (map wire_message [m], [])"
    using wire.chunks [of "[Encode m]" "[m]" "[]"] m by (simp add: wire.partial_def)
  then show ?thesis using FeedAll_run_chunks [OF dec_inv_init f] f by (simp add: Decoder_init_def case_prod_unfold)
qed

text \<open>A client connects, sends one message, and a worker handles it.\<close>

lemma sample_server_run:
  assumes m: "encodable m"
  shows "\<exists>s. run (server_step J base) (server_start 8 st)
    [Accepted 1 ''10.0.0.1'' 0, Received 1 (Encode m) clock, Threads (SectionE 0), Handled 0 env] s"
proof -
  let ?s0 = "server_start 8 st" and ?p0 = "ThreadPool_new 8 8 :: NetworkTask pool"
  let ?t1 = "(tcp ?s0)\<lparr>conn_mgr := OnConnection (\<lambda>c. True) (conn_mgr (tcp ?s0)) (Up 1 ''10.0.0.1'' 0)\<rparr>"
  let ?s1 = "?s0\<lparr>tcp := ?t1, online := {1}\<rparr>"
  have 1: "server_step J base ?s0 (Accepted 1 ''10.0.0.1'' 0) ?s1"
    using server_step.Accept [of 1 ?s0 "\<lambda>c. True" "''10.0.0.1''" 0 ?t1 "io ?s0" J base]
    by (simp add: server_start_def Wrapper_OnConnection_def Wrapper_Start_def SetMessageCallback_def TcpServerWrapper_new_def
        held_conns_def ThreadPool_new_def)
  have p0: "running ?p0" "tasks ?p0 = []" "workers ?p0 = replicate 8 AtLock" "submitted ?p0 = []" by (simp_all add: ThreadPool_new_def worker_count_def)
  obtain d where "Feed (decoder_of [] 1) (Encode m) = ([wire_message m], d)"
    using whole_message [OF m] by (cases "Feed Decoder_init (Encode m)") (simp add: decoder_of_def)
  from OnMessage_running [OF p0(1) this, of clock] obtain ds p ts where
    2: "OnMessage ([], ?p0) 1 (Encode m) clock = ((ds, p), None)" "map request ts = [wire_message m]" "submitted p = submitted ?p0 @ ts" by (elim exE conjE) (rule that)
  from OnMessage_pool [OF p0(1) 2(1)] 2(3) p0(4) have p: "tasks p = ts" "workers p = replicate 8 AtLock" "running p"
    by (auto simp: ThreadPool_new_def worker_count_def)
  let ?s2 = "?s1\<lparr>io := \<lparr>decs = ds, task_pool = p, outbox = []\<rparr>\<rparr>"
  have r: "server_step J base ?s1 (Received 1 (Encode m) clock) ?s2"
    using server_step.Receive [of 1 ?s1 "Encode m" clock "io ?s2" J base] 2(1)
    by (simp add: Wrapper_OnMessage_def server_start_def Wrapper_Start_def SetMessageCallback_def TcpServerWrapper_new_def
        GetMessageCallback_def)
  let ?p3 = "worker_section p 0"
  let ?s3 = "?s2\<lparr>io := (io ?s2)\<lparr>task_pool := ?p3\<rparr>\<rparr>"
  have "pstep p (SectionE 0) ?p3" using p by (intro pstep.critical) simp_all
  then have 3: "server_step J base ?s2 (Threads (SectionE 0)) ?s3" using server_step.Pool [of "SectionE 0" ?s2 ?p3 J base] by simp
  have w: "0 < length (workers ?p3)" "workers ?p3 ! 0 = Running (hd ts)" using p 2(2) by (auto simp: worker_section_def)
  then obtain s4 where "server_step J base ?s3 (Handled 0 env) s4"
    using server_step.Handle [of 0 ?s3 "hd ts" J base env, OF _ _ surjective_pairing refl] by auto
  with 1 r 3 show ?thesis by (auto simp: run_Cons_iff)
qed


end
