(* ===== verification/Console.thy ===== *)
theory Console
  imports EndToEnd "HOL-Library.Signed_Division"
begin

text \<open>
  The console client of \<open>client/console_ui.cc\<close> and \<open>client/main.cpp\<close>: the menu, what each choice asks
  for, sends and prints, and the formatting of sizes and progress. The lines the user types are a
  list; when it is exhausted \<open>std::getline\<close> fails and leaves the line empty. \<open>screen\<close> and \<open>errors\<close> are
  what went to the two output streams. Two operations of the JSON library that only the list view
  uses are a further parameter; its \<open>operator[]\<close> would also add a missing key of a list entry as a
  null, which is left out. An exception leaves \<open>Run\<close>. A path names a regular file or nothing.
\<close>

section \<open>Texts\<close>

definition ui_connecting :: string where
"ui_connecting = [CHR 0x0A, CHR 0xE6, CHR 0xAD, CHR 0xA3, CHR 0xE5, CHR 0x9C, CHR 0xA8, CHR 0xE8, CHR 0xBF, CHR 0x9E, CHR 0xE6,
     CHR 0x8E, CHR 0xA5] @ '' ''"

definition ui_connect_failed :: string where
"ui_connect_failed = [CHR 0xE8, CHR 0xBF, CHR 0x9E, CHR 0xE6, CHR 0x8E, CHR 0xA5, CHR 0xE5, CHR 0xA4, CHR 0xB1, CHR 0xE8, CHR
     0xB4, CHR 0xA5] @ ''!'' @ [CHR 0x0A]"

definition ui_connected :: string where
"ui_connected = [CHR 0xE5, CHR 0xB7, CHR 0xB2, CHR 0xE8, CHR 0xBF, CHR 0x9E, CHR 0xE6, CHR 0x8E, CHR 0xA5] @ ''!'' @ [CHR 0x0A]"

definition ui_choose :: string where
"ui_choose = [CHR 0xE8, CHR 0xAF, CHR 0xB7, CHR 0xE9, CHR 0x80, CHR 0x89, CHR 0xE6, CHR 0x8B, CHR 0xA9]"

definition ui_bye :: string where
"ui_bye = [CHR 0xE5, CHR 0x86, CHR 0x8D, CHR 0xE8, CHR 0xA7, CHR 0x81] @ ''!'' @ [CHR 0x0A]"

definition ui_invalid :: string where
"ui_invalid = [CHR 0xE6, CHR 0x97, CHR 0xA0, CHR 0xE6, CHR 0x95, CHR 0x88, CHR 0xE9, CHR 0x80, CHR 0x89, CHR 0xE6, CHR 0x8B, CHR
     0xA9, CHR 0x0A]"

definition ui_menu :: string where
"ui_menu = [CHR 0x0A] @ ''========================================'' @ [CHR 0x0A] @ ''  FileServer '' @ [CHR 0xE5, CHR 0xAE, CHR
     0xA2, CHR 0xE6, CHR 0x88, CHR 0xB7, CHR 0xE7, CHR 0xAB, CHR 0xAF, CHR 0x0A] @ ''========================================''
     @ [CHR 0x0A] @ ''  1. '' @ [CHR 0xE6, CHR 0xB3, CHR 0xA8, CHR 0xE5, CHR 0x86, CHR 0x8C, CHR 0x0A] @ ''  2. '' @ [CHR 0xE7,
     CHR 0x99, CHR 0xBB, CHR 0xE5, CHR 0xBD, CHR 0x95, CHR 0x0A] @ ''  3. '' @ [CHR 0xE4, CHR 0xB8, CHR 0x8A, CHR 0xE4, CHR
     0xBC, CHR 0xA0, CHR 0xE6, CHR 0x96, CHR 0x87, CHR 0xE4, CHR 0xBB, CHR 0xB6, CHR 0x0A] @ ''  4. '' @ [CHR 0xE4, CHR 0xB8,
     CHR 0x8B, CHR 0xE8, CHR 0xBD, CHR 0xBD, CHR 0xE6, CHR 0x96, CHR 0x87, CHR 0xE4, CHR 0xBB, CHR 0xB6, CHR 0x0A] @ ''  5. '' @
     [CHR 0xE6, CHR 0x9F, CHR 0xA5, CHR 0xE7, CHR 0x9C, CHR 0x8B, CHR 0xE6, CHR 0x96, CHR 0x87, CHR 0xE4, CHR 0xBB, CHR 0xB6,
     CHR 0xE5, CHR 0x88, CHR 0x97, CHR 0xE8, CHR 0xA1, CHR 0xA8, CHR 0x0A] @ ''  6. '' @ [CHR 0xE5, CHR 0x88, CHR 0xA0, CHR
     0xE9, CHR 0x99, CHR 0xA4, CHR 0xE6, CHR 0x96, CHR 0x87, CHR 0xE4, CHR 0xBB, CHR 0xB6, CHR 0x0A] @ ''  7. '' @ [CHR 0xE6,
     CHR 0x96, CHR 0xAD, CHR 0xE7, CHR 0x82, CHR 0xB9, CHR 0xE7, CHR 0xBB, CHR 0xAD, CHR 0xE4, CHR 0xBC, CHR 0xA0, CHR 0x0A] @
     ''  0. '' @ [CHR 0xE9, CHR 0x80, CHR 0x80, CHR 0xE5, CHR 0x87, CHR 0xBA, CHR 0x0A] @
     ''========================================'' @ [CHR 0x0A]"

definition ui_logged_in :: string where
"ui_logged_in = ''  '' @ [CHR 0xE5, CHR 0xB7, CHR 0xB2, CHR 0xE7, CHR 0x99, CHR 0xBB, CHR 0xE5, CHR 0xBD, CHR 0x95] @ '', token:
     ''"

definition ui_user :: string where
"ui_user = [CHR 0xE7, CHR 0x94, CHR 0xA8, CHR 0xE6, CHR 0x88, CHR 0xB7, CHR 0xE5, CHR 0x90, CHR 0x8D]"

definition ui_password :: string where
"ui_password = [CHR 0xE5, CHR 0xAF, CHR 0x86, CHR 0xE7, CHR 0xA0, CHR 0x81]"

definition ui_registered :: string where
"ui_registered = [CHR 0xE6, CHR 0xB3, CHR 0xA8, CHR 0xE5, CHR 0x86, CHR 0x8C, CHR 0xE6, CHR 0x88, CHR 0x90, CHR 0xE5, CHR 0x8A,
     CHR 0x9F]"

definition ui_login_ok :: string where
"ui_login_ok = [CHR 0xE7, CHR 0x99, CHR 0xBB, CHR 0xE5, CHR 0xBD, CHR 0x95, CHR 0xE6, CHR 0x88, CHR 0x90, CHR 0xE5, CHR 0x8A,
     CHR 0x9F]"

definition ui_file_path :: string where
"ui_file_path = [CHR 0xE6, CHR 0x96, CHR 0x87, CHR 0xE4, CHR 0xBB, CHR 0xB6, CHR 0xE8, CHR 0xB7, CHR 0xAF, CHR 0xE5, CHR 0xBE,
     CHR 0x84]"

definition ui_uploading :: string where
"ui_uploading = [CHR 0xE4, CHR 0xB8, CHR 0x8A, CHR 0xE4, CHR 0xBC, CHR 0xA0, CHR 0xE4, CHR 0xB8, CHR 0xAD]"

definition ui_uploaded :: string where
"ui_uploaded = [CHR 0xE4, CHR 0xB8, CHR 0x8A, CHR 0xE4, CHR 0xBC, CHR 0xA0, CHR 0xE5, CHR 0xAE, CHR 0x8C, CHR 0xE6, CHR 0x88,
     CHR 0x90]"

definition ui_save_to :: string where
"ui_save_to = [CHR 0xE4, CHR 0xBF, CHR 0x9D, CHR 0xE5, CHR 0xAD, CHR 0x98, CHR 0xE5, CHR 0x88, CHR 0xB0]"

definition ui_downloading :: string where
"ui_downloading = [CHR 0xE4, CHR 0xB8, CHR 0x8B, CHR 0xE8, CHR 0xBD, CHR 0xBD, CHR 0xE4, CHR 0xB8, CHR 0xAD]"

definition ui_downloaded :: string where
"ui_downloaded = [CHR 0xE4, CHR 0xB8, CHR 0x8B, CHR 0xE8, CHR 0xBD, CHR 0xBD, CHR 0xE5, CHR 0xAE, CHR 0x8C, CHR 0xE6, CHR 0x88,
     CHR 0x90]"

definition ui_list_head :: string where
"ui_list_head = [CHR 0x0A] @ ''  ID  '' @ [CHR 0xE6, CHR 0x96, CHR 0x87, CHR 0xE4, CHR 0xBB, CHR 0xB6, CHR 0xE5, CHR 0x90, CHR
     0x8D] @ ''                  '' @ [CHR 0xE5, CHR 0xA4, CHR 0xA7, CHR 0xE5, CHR 0xB0, CHR 0x8F] @ ''       '' @ [CHR 0xE7,
     CHR 0x8A, CHR 0xB6, CHR 0xE6, CHR 0x80, CHR 0x81, CHR 0x0A] @ ''  -------------------------------------------------'' @
     [CHR 0x0A]"

definition ui_complete :: string where
"ui_complete = [CHR 0xE5, CHR 0xAE, CHR 0x8C, CHR 0xE6, CHR 0x88, CHR 0x90]"

definition ui_deleted :: string where
"ui_deleted = [CHR 0xE5, CHR 0x88, CHR 0xA0, CHR 0xE9, CHR 0x99, CHR 0xA4, CHR 0xE6, CHR 0x88, CHR 0x90, CHR 0xE5, CHR 0x8A, CHR
     0x9F]"

definition ui_no_such_file :: string where
"ui_no_such_file = [CHR 0xE6, CHR 0x96, CHR 0x87, CHR 0xE4, CHR 0xBB, CHR 0xB6, CHR 0xE4, CHR 0xB8, CHR 0x8D, CHR 0xE5, CHR
     0xAD, CHR 0x98, CHR 0xE5, CHR 0x9C, CHR 0xA8] @ '': ''"

definition ui_md5_wait :: string where
"ui_md5_wait = [CHR 0xE6, CHR 0xAD, CHR 0xA3, CHR 0xE5, CHR 0x9C, CHR 0xA8, CHR 0xE8, CHR 0xAE, CHR 0xA1, CHR 0xE7, CHR 0xAE,
     CHR 0x97] @ '' MD5...'' @ [CHR 0x0D]"

definition ui_resume_from :: string where
"ui_resume_from = [CHR 0xE6, CHR 0xA3, CHR 0x80, CHR 0xE6, CHR 0xB5, CHR 0x8B, CHR 0xE5, CHR 0x88, CHR 0xB0, CHR 0xE6, CHR 0x9C,
     CHR 0xAA, CHR 0xE5, CHR 0xAE, CHR 0x8C, CHR 0xE6, CHR 0x88, CHR 0x90, CHR 0xE4, CHR 0xBB, CHR 0xBB, CHR 0xE5, CHR 0x8A, CHR
     0xA1] @ '', '' @ [CHR 0xE4, CHR 0xBB, CHR 0x8E] @ '' ''"

definition ui_resume_on :: string where
"ui_resume_on = '' '' @ [CHR 0xE5, CHR 0xA4, CHR 0x84, CHR 0xE7, CHR 0xBB, CHR 0xA7, CHR 0xE7, CHR 0xBB, CHR 0xAD, CHR 0xE4, CHR
     0xB8, CHR 0x8A, CHR 0xE4, CHR 0xBC, CHR 0xA0, CHR 0x0A]"

definition ui_resuming :: string where
"ui_resuming = [CHR 0xE7, CHR 0xBB, CHR 0xAD, CHR 0xE4, CHR 0xBC, CHR 0xA0, CHR 0xE4, CHR 0xB8, CHR 0xAD]"

definition ui_resumed :: string where
"ui_resumed = [CHR 0xE7, CHR 0xBB, CHR 0xAD, CHR 0xE4, CHR 0xBC, CHR 0xA0, CHR 0xE5, CHR 0xAE, CHR 0x8C, CHR 0xE6, CHR 0x88, CHR
     0x90]"

definition ui_file_id :: string where
"ui_file_id = [CHR 0xE6, CHR 0x96, CHR 0x87, CHR 0xE4, CHR 0xBB, CHR 0xB6] @ ''ID''"

definition ui_login_first :: string where
"ui_login_first = [CHR 0xE8, CHR 0xAF, CHR 0xB7, CHR 0xE5, CHR 0x85, CHR 0x88, CHR 0xE7, CHR 0x99, CHR 0xBB, CHR 0xE5, CHR 0xBD,
     CHR 0x95] @ ''!'' @ [CHR 0x0A]"

definition ui_failed :: string where
"ui_failed = ''  ['' @ [CHR 0xE5, CHR 0xA4, CHR 0xB1, CHR 0xE8, CHR 0xB4, CHR 0xA5] @ ''] code=''"

definition ui_full :: string where
"ui_full = [CHR 0xE2, CHR 0x96, CHR 0x88]"

definition ui_blank :: string where
"ui_blank = [CHR 0xE2, CHR 0x96, CHR 0x91]"

abbreviation (input) endl :: string where
  "endl \<equiv> [CHR 0x0A]"

section \<open>Sizes\<close>

text \<open>
  An integer as a \<open>double\<close>: beyond 53 bits it is rounded, ties to even. Division by a power of two is
  exact, and \<open>std::fixed\<close> prints the exact value rounded to the precision, ties to even.
\<close>

definition round_even :: "int \<Rightarrow> int \<Rightarrow> int" where
  "round_even n d = (let q = n div d; r = n mod d in if 2 * r > d \<or> 2 * r = d \<and> odd q then q + 1 else q)"

definition double_of :: "int \<Rightarrow> int" where
  "double_of n = (case filter (\<lambda>e. n < 2 ^ (53 + e)) [0..<12] of e # _ \<Rightarrow> round_even n (2 ^ e) * 2 ^ e | [] \<Rightarrow> n)"

definition print_fixed :: "nat \<Rightarrow> int \<Rightarrow> int \<Rightarrow> string" where
  "print_fixed prec n d =
     (let q = round_even (n * 10 ^ prec) d in to_string (q div 10 ^ prec) @ ''.'' @ setw0 prec (to_string (q mod 10 ^ prec)))"

definition FormatSize :: "int \<Rightarrow> string" where
  "FormatSize n =
     (if n < 1024 then to_string n @ '' B''
      else if n < 1024 * 1024 then print_fixed 1 (double_of n) 1024 @ '' KB''
      else if n < 1024 * 1024 * 1024 then print_fixed 2 (double_of n) (1024 * 1024) @ '' MB''
      else print_fixed 2 (double_of n) (1024 * 1024 * 1024) @ '' GB'')"

section \<open>State\<close>

record 's ConsoleUI =
  ui_client :: "'s FileClient"
  ui_host :: string
  ui_port :: int
  running :: bool
  input :: "string list"
  screen :: string
  errors :: string
  echo :: bool

definition emit :: "'s ConsoleUI \<Rightarrow> string \<Rightarrow> 's ConsoleUI" where
  "emit u s = u\<lparr>screen := screen u @ s\<rparr>"

text \<open>The list view: the elements a loop over a value visits, and writing with an indentation.\<close>

record 'j json_view =
  elements :: "'j \<Rightarrow> 'j list"
  dump_indented :: "'j \<Rightarrow> nat \<Rightarrow> cpp_exn + string"

section \<open>Reading and printing\<close>

definition ReadLine :: "'s ConsoleUI \<Rightarrow> string \<Rightarrow> 's ConsoleUI \<times> string" where
  "ReadLine u prompt =
     (let u = emit u (''  '' @ prompt @ '': '') in
      case input u of [] \<Rightarrow> (u, []) | l # ls \<Rightarrow> (u\<lparr>input := ls\<rparr>, l))"

definition ReadPassword :: "'s ConsoleUI \<Rightarrow> string \<Rightarrow> 's ConsoleUI \<times> string" where
  "ReadPassword u prompt =
     (case ReadLine (u\<lparr>echo := False\<rparr>) prompt of (u, pass) \<Rightarrow> (u\<lparr>echo := True\<rparr>, pass))"

text \<open>What \<open>std::stoll\<close> raises is caught.\<close>

definition ReadFileId :: "'s ConsoleUI \<Rightarrow> 's ConsoleUI \<times> int" where
  "ReadFileId u =
     (case ReadLine u ui_file_id of (u, s) \<Rightarrow> (u, case stoll s of Inr n \<Rightarrow> n | Inl e \<Rightarrow> 0))"

definition IsLoggedIn :: "'s ConsoleUI \<Rightarrow> 's ConsoleUI \<times> bool" where
  "IsLoggedIn u = (if client_token (ui_client u) = [] then (emit u ui_login_first, False) else (u, True))"

definition PrintResponse ::
  "'j json_ops \<Rightarrow> 's ConsoleUI \<Rightarrow> 'j ClientResponse \<Rightarrow> string option \<Rightarrow> 's ConsoleUI \<times> (cpp_exn + unit)" where
  "PrintResponse J u resp ok_msg =
     (if is_ok resp
      then let u = emit u (''  [OK] '' @ (case ok_msg of Some m \<Rightarrow> m | None \<Rightarrow> resp_msg resp) @ endl) in
           if json_empty J (resp_data resp) then (u, Inr ())
           else (case dump J (resp_data resp) of Inl e \<Rightarrow> (u, Inl e) | Inr t \<Rightarrow> (emit u (''  '' @ t @ endl), Inr ()))
      else (emit u (ui_failed @ to_string (resp_code resp) @ '' '' @ resp_msg resp @ endl), Inr ()))"

text \<open>\<open>std::setw\<close> pads with spaces on the left.\<close>

definition setw :: "nat \<Rightarrow> string \<Rightarrow> string" where
  "setw w s = replicate (w - length s) (CHR '' '') @ s"

definition ShowProgress :: "string \<Rightarrow> int \<Rightarrow> int \<Rightarrow> string" where
  "ShowProgress label sent_bytes fsize =
     (if fsize = 0 then []
      else let pct = to_int (sint (word_of_int (sent_bytes * 100) :: 64 word) sdiv fsize);
               bar_len = 30;
               filled = to_int (bar_len * pct) sdiv 100
           in [CHR 0x0D] @ ''  '' @ label @ '': ['' @ concat (map (\<lambda>i. if i < filled then ui_full else ui_blank) [0..bar_len - 1])
              @ ''] '' @ setw 3 (to_string pct) @ ''%  ('' @ FormatSize sent_bytes @ '' / '' @ FormatSize fsize @ '')'')"

definition ShowMenu :: "'s ConsoleUI \<Rightarrow> 's ConsoleUI" where
  "ShowMenu u =
     (let u = emit u ui_menu; tok = client_token (ui_client u) in
      if tok = [] then u else emit u (ui_logged_in @ take 12 tok @ ''...'' @ endl @ endl))"

section \<open>Operations\<close>

text \<open>A request of the client library from the console; an exception of it goes on.\<close>

definition ask ::
  "'s ConsoleUI \<Rightarrow> 's FileClient \<times> (cpp_exn + 'r) \<Rightarrow> ('s ConsoleUI \<Rightarrow> 'r \<Rightarrow> 's ConsoleUI \<times> (cpp_exn + unit))
     \<Rightarrow> 's ConsoleUI \<times> (cpp_exn + unit)" where
  "ask u r k = (case r of (c, x) \<Rightarrow> let u = u\<lparr>ui_client := c\<rparr> in case x of Inl e \<Rightarrow> (u, Inl e) | Inr resp \<Rightarrow> k u resp)"

definition DoRegister :: "'j json_ops \<Rightarrow> 's net \<Rightarrow> 's ConsoleUI \<Rightarrow> 's ConsoleUI \<times> (cpp_exn + unit)" where
  "DoRegister J net u =
     (case ReadLine u ui_user of (u, user) \<Rightarrow> case ReadPassword u ui_password of (u, pass) \<Rightarrow>
        ask u (FileClient_Register J net (ui_client u) user pass) (\<lambda>u resp. PrintResponse J u resp (Some ui_registered)))"

definition DoLogin :: "'j json_ops \<Rightarrow> 's net \<Rightarrow> 's ConsoleUI \<Rightarrow> 's ConsoleUI \<times> (cpp_exn + unit)" where
  "DoLogin J net u =
     (case ReadLine u ui_user of (u, user) \<Rightarrow> case ReadPassword u ui_password of (u, pass) \<Rightarrow>
        ask u (FileClient_Login J net (ui_client u) user pass) (\<lambda>u resp. PrintResponse J u resp (Some ui_login_ok)))"

text \<open>The calls of the progress callback, which prints, in the order they were made.\<close>

definition show_progress :: "string \<Rightarrow> 's FileClient \<Rightarrow> 's FileClient \<Rightarrow> string" where
  "show_progress label before after =
     concat (map (\<lambda>(k, n). ShowProgress label k n) (drop (length (progress_log before)) (progress_log after)))"

definition DoUpload ::
  "'j json_ops \<Rightarrow> 's net \<Rightarrow> (bytes \<Rightarrow> u8 list) \<Rightarrow> 's ConsoleUI \<Rightarrow> 's ConsoleUI \<times> (cpp_exn + unit)" where
  "DoUpload J net digest u =
     (case IsLoggedIn u of (u, ok) \<Rightarrow> if \<not> ok then (u, Inr ())
      else case ReadLine u ui_file_path of (u, path) \<Rightarrow>
        let before = ui_client u; r = UploadFile J net digest before (client_token before) path
        in ask (emit u (show_progress ui_uploading before (fst r))) r
             (\<lambda>u resp. PrintResponse J (emit u endl) resp (Some ui_uploaded)))"

text \<open>\<open>None\<close>: the download of the client library does not end.\<close>

definition DoDownload :: "'j json_ops \<Rightarrow> 's net \<Rightarrow> 's ConsoleUI \<Rightarrow> ('s ConsoleUI \<times> (cpp_exn + unit)) option" where
  "DoDownload J net u =
     (case IsLoggedIn u of (u, ok) \<Rightarrow> if \<not> ok then Some (u, Inr ())
      else case ReadFileId u of (u, file_id) \<Rightarrow> case ReadLine u ui_save_to of (u, save_path) \<Rightarrow>
        let before = ui_client u in
        case DownloadFile J net before (client_token before) file_id save_path of
          None \<Rightarrow> None
        | Some r \<Rightarrow> Some (ask (emit u (show_progress ui_downloading before (fst r))) r
            (\<lambda>u resp. PrintResponse J (emit u endl) resp (Some ui_downloaded))))"

text \<open>
  One line of the list. The operands are evaluated first, as C++11 allows. A width in front of a JSON
  value is taken as its indentation.
\<close>

definition list_line :: "'j json_ops \<Rightarrow> 'j json_view \<Rightarrow> 'j \<Rightarrow> cpp_exn + string" where
  "list_line J V f =
     (case index_json J f ''id'' of Inl e \<Rightarrow> Inl e | Inr i \<Rightarrow>
      (case dump_indented V i 4 of Inl e \<Rightarrow> Inl e | Inr i \<Rightarrow>
      (case index_string J f ''filename'' of Inl e \<Rightarrow> Inl e | Inr name \<Rightarrow>
      (case index_int J f ''filesize'' of Inl e \<Rightarrow> Inl e | Inr sz \<Rightarrow>
      (case index_int J f ''status'' of Inl e \<Rightarrow> Inl e | Inr st \<Rightarrow>
         Inr (''  '' @ i @ ''  '' @ setw 20 (take 20 name) @ ''  '' @ setw 10 (FormatSize sz) @ ''  ''
           @ (if to_int st = 1 then ui_complete else ui_uploading) @ endl))))))"

fun list_lines :: "'j json_ops \<Rightarrow> 'j json_view \<Rightarrow> 's ConsoleUI \<Rightarrow> 'j list \<Rightarrow> 's ConsoleUI \<times> (cpp_exn + unit)" where
  "list_lines J V u [] = (u, Inr ())"
| "list_lines J V u (f # fs) =
     (case list_line J V f of Inl e \<Rightarrow> (u, Inl e) | Inr l \<Rightarrow> list_lines J V (emit u l) fs)"

definition DoListFiles ::
  "'j json_ops \<Rightarrow> 'j json_view \<Rightarrow> 's net \<Rightarrow> 's ConsoleUI \<Rightarrow> 's ConsoleUI \<times> (cpp_exn + unit)" where
  "DoListFiles J V net u =
     (case IsLoggedIn u of (u, ok) \<Rightarrow> if \<not> ok then (u, Inr ())
      else ask u (FileClient_ListFiles J net (ui_client u) (client_token (ui_client u))) (\<lambda>u resp.
        if is_ok resp \<and> contains J (resp_data resp) ''files''
        then (case index_json J (resp_data resp) ''files'' of
                Inl e \<Rightarrow> (emit u ui_list_head, Inl e)
              | Inr fs \<Rightarrow> (case list_lines J V (emit u ui_list_head) (elements V fs) of
                  (u, Inl e) \<Rightarrow> (u, Inl e) | (u, Inr _) \<Rightarrow> PrintResponse J u resp None))
        else PrintResponse J u resp None))"

definition DoDeleteFile :: "'j json_ops \<Rightarrow> 's net \<Rightarrow> 's ConsoleUI \<Rightarrow> 's ConsoleUI \<times> (cpp_exn + unit)" where
  "DoDeleteFile J net u =
     (case IsLoggedIn u of (u, ok) \<Rightarrow> if \<not> ok then (u, Inr ())
      else case ReadFileId u of (u, file_id) \<Rightarrow>
        ask u (FileClient_DeleteFile J net (ui_client u) (client_token (ui_client u)) file_id)
          (\<lambda>u resp. PrintResponse J u resp (Some ui_deleted)))"

text \<open>The loop of a resumed upload; \<open>Some\<close> reply ends it early.\<close>

function resume_loop ::
  "'j json_ops \<Rightarrow> 's net \<Rightarrow> string \<Rightarrow> int \<Rightarrow> bytes \<Rightarrow> int \<Rightarrow> 's ConsoleUI \<Rightarrow> nat option \<Rightarrow> bytes \<Rightarrow> int
     \<Rightarrow> 's ConsoleUI \<times> (cpp_exn + 'j ClientResponse option)" where
  "resume_loop J net tok file_id content fsize u pos buf off =
     (if \<not> off < fsize then (u, Inr None)
      else let sz = nat (min kChunkSize (fsize - off));
               (pos, buf) = read_block content pos buf sz
           in case FileClient_UploadData J net (ui_client u) tok file_id off buf of
                (c, Inl e) \<Rightarrow> (u\<lparr>ui_client := c\<rparr>, Inl e)
              | (c, Inr resp) \<Rightarrow>
                  let u = u\<lparr>ui_client := c\<rparr> in
                  if \<not> is_ok resp then (u, Inr (Some resp))
                  else resume_loop J net tok file_id content fsize
                    (emit u (ShowProgress ui_resuming (off + int sz) fsize)) pos buf (off + int sz))"
  by pat_completeness auto
termination
  by (relation "measure (\<lambda>(J, net, tok, i, content, fsize, u, pos, buf, off). nat (fsize - off))")
    (auto simp: kChunkSize_def)

declare resume_loop.simps [simp del]

definition DoResumeUpload ::
  "'j json_ops \<Rightarrow> 's net \<Rightarrow> (bytes \<Rightarrow> u8 list) \<Rightarrow> 's ConsoleUI \<Rightarrow> 's ConsoleUI \<times> (cpp_exn + unit)" where
  "DoResumeUpload J net digest u =
     (case IsLoggedIn u of (u, ok) \<Rightarrow> if \<not> ok then (u, Inr ())
      else case ReadLine u ui_file_path of (u, path) \<Rightarrow>
        case local_files (disk (ui_client u)) path of
          None \<Rightarrow> (emit u (ui_no_such_file @ path @ endl), Inr ())
        | Some content \<Rightarrow>
            let fsize = int (length content); tok = client_token (ui_client u);
                md5sum = ComputeFileMD5 digest (local_files (disk (ui_client u)) path);
                u = emit u (ui_md5_wait @ ''MD5: '' @ take 16 md5sum @ ''...'' @ endl)
            in ask u (FileClient_UploadStart J net (ui_client u) tok (base_name path) fsize md5sum) (\<lambda>u start_resp.
              if \<not> is_ok start_resp then PrintResponse J u start_resp None
              else case index_int J (resp_data start_resp) ''file_id'' of Inl e \<Rightarrow> (u, Inl e)
              | Inr file_id \<Rightarrow> (case value_int J (resp_data start_resp) ''offset'' 0 of Inl e \<Rightarrow> (u, Inl e)
              | Inr off \<Rightarrow>
                  let u = (if off > 0 then emit u (ui_resume_from @ FormatSize off @ ui_resume_on) else u) in
                  (case resume_loop J net tok file_id content fsize u (seek_to off) [] off of
                    (u, Inl e) \<Rightarrow> (u, Inl e)
                  | (u, Inr (Some resp)) \<Rightarrow> PrintResponse J u resp None
                  | (u, Inr None) \<Rightarrow>
                      ask u (FileClient_UploadFinalize J net (ui_client u) tok file_id)
                        (\<lambda>u resp. PrintResponse J (emit u endl) resp (Some ui_resumed))))))"

section \<open>The main loop\<close>

definition do_choice ::
  "'j json_ops \<Rightarrow> 'j json_view \<Rightarrow> 's net \<Rightarrow> (bytes \<Rightarrow> u8 list) \<Rightarrow> 's ConsoleUI \<Rightarrow> string
     \<Rightarrow> ('s ConsoleUI \<times> (cpp_exn + unit)) option" where
  "do_choice J V net digest u choice =
     (if choice = ''1'' then Some (DoRegister J net u)
      else if choice = ''2'' then Some (DoLogin J net u)
      else if choice = ''3'' then Some (DoUpload J net digest u)
      else if choice = ''4'' then DoDownload J net u
      else if choice = ''5'' then Some (DoListFiles J V net u)
      else if choice = ''6'' then Some (DoDeleteFile J net u)
      else if choice = ''7'' then Some (DoResumeUpload J net digest u)
      else if choice = ''0'' then Some ((emit u ui_bye)\<lparr>running := False\<rparr>, Inr ())
      else Some (emit u ui_invalid, Inr ()))"

partial_function (option) menu_loop ::
  "'j json_ops \<Rightarrow> 'j json_view \<Rightarrow> 's net \<Rightarrow> (bytes \<Rightarrow> u8 list) \<Rightarrow> 's ConsoleUI \<Rightarrow> ('s ConsoleUI \<times> (cpp_exn + unit)) option" where
  "menu_loop J V net digest u =
     (if \<not> running u then Some (u, Inr ())
      else case ReadLine (ShowMenu u) ui_choose of (u, choice) \<Rightarrow>
        (case do_choice J V net digest u choice of
           None \<Rightarrow> None
         | Some (u, Inl e) \<Rightarrow> Some (u, Inl e)
         | Some (u, Inr _) \<Rightarrow> menu_loop J V net digest u))"

definition Run ::
  "'j json_ops \<Rightarrow> 'j json_view \<Rightarrow> 's net \<Rightarrow> (bytes \<Rightarrow> u8 list) \<Rightarrow> bool \<Rightarrow> 's ConsoleUI
     \<Rightarrow> ('s ConsoleUI \<times> (cpp_exn + unit)) option" where
  "Run J V net digest established u =
     (let u = emit u (ui_connecting @ ui_host u @ '':'' @ to_string (ui_port u) @ '' ...'' @ endl);
          (c, ok) = FileClient_Connect (ui_client u) established; u = u\<lparr>ui_client := c\<rparr>
      in if \<not> ok then Some (u\<lparr>errors := errors u @ ui_connect_failed\<rparr>, Inr ())
         else menu_loop J V net digest (emit u ui_connected))"

definition ConsoleUI_new :: "'s FileClient \<Rightarrow> string list \<Rightarrow> string \<Rightarrow> int \<Rightarrow> 's ConsoleUI" where
  "ConsoleUI_new c lines host port = \<lparr>ui_client = c, ui_host = host, ui_port = port, running = True, input = lines,
     screen = [], errors = [], echo = True\<rparr>"

text \<open>\<open>argv\<close> without the name of the program.\<close>

definition console_main ::
  "'j json_ops \<Rightarrow> 'j json_view \<Rightarrow> 's net \<Rightarrow> (bytes \<Rightarrow> u8 list) \<Rightarrow> bool \<Rightarrow> 's FileClient \<Rightarrow> string list \<Rightarrow> string list
     \<Rightarrow> ('s ConsoleUI option \<times> (cpp_exn + unit)) option" where
  "console_main J V net digest established c lines argv =
     (let host = (case argv of h # _ \<Rightarrow> h | [] \<Rightarrow> ''127.0.0.1'');
          port = (case argv of h # p # _ \<Rightarrow> stoi p | _ \<Rightarrow> Inr 8080)
      in case port of Inl e \<Rightarrow> Some (None, Inl e)
         | Inr port \<Rightarrow> map_option (map_prod Some id) (Run J V net digest established (ConsoleUI_new c lines host port)))"

section \<open>Sizes, as they are shown\<close>

lemma round_even_near: "0 < d \<Longrightarrow> 2 * \<bar>d * round_even n d - n\<bar> \<le> d"
proof -
  assume d: "0 < d"
  have n: "n = d * (n div d) + n mod d" by simp
  have r: "0 \<le> n mod d" "n mod d < d" using d by simp_all
  show ?thesis
  proof (cases "2 * (n mod d) > d \<or> 2 * (n mod d) = d \<and> odd (n div d)")
    case True
    then have "d * round_even n d - n = d - n mod d" using n by (auto simp: round_even_def Let_def algebra_simps)
    with True r show ?thesis by auto
  next
    case False
    moreover have "d * (n div d) - n = - (n mod d)" using n by linarith
    ultimately have "d * round_even n d - n = - (n mod d)" by (auto simp: round_even_def Let_def)
    with False r show ?thesis by auto
  qed
qed

lemma double_of_small: "n < 2 ^ 53 \<Longrightarrow> double_of n = n"
  by (simp add: double_of_def round_even_def upt_rec)

lemma double_of_near:
  assumes "n < 2 ^ 63"
  shows "\<bar>double_of n - n\<bar> \<le> 512"
proof (cases "filter (\<lambda>e. n < 2 ^ (53 + e)) [0..<12]")
  case (Cons e es)
  then have "e \<in> set (filter (\<lambda>e. n < 2 ^ (53 + e)) [0..<12])" by simp
  have "e \<le> 10"
  proof (rule ccontr)
    assume "\<not> e \<le> 10"
    moreover have "10 \<in> set (filter (\<lambda>e. n < 2 ^ (53 + e)) [0..<12])" using assms by simp
    moreover have "sorted (filter (\<lambda>e. n < 2 ^ (53 + e)) [0..<12])" by (intro sorted_filter [where f = id, simplified]) simp
    ultimately show False using Cons by auto
  qed
  then have "(2 :: int) ^ e \<le> 2 ^ 10" by (intro power_increasing) simp_all
  moreover have "2 * \<bar>2 ^ e * round_even n (2 ^ e) - n\<bar> \<le> 2 ^ e" by (rule round_even_near) simp
  moreover have "double_of n = round_even n (2 ^ e) * 2 ^ e" using Cons by (simp add: double_of_def)
  ultimately show ?thesis by (simp add: mult.commute)
qed (simp add: double_of_def)

section \<open>Resuming is uploading\<close>

text \<open>The progress callback does not matter to what is sent.\<close>

lemma send_log:
  "SendRequestWithBinary J net (c\<lparr>progress_log := l\<rparr>) req b =
     (case SendRequestWithBinary J net c req b of (c', r) \<Rightarrow> (c'\<lparr>progress_log := l\<rparr>, r))"
  by (simp add: SendRequestWithBinary_def NextRequestId_def split: sum.splits prod.splits option.splits)

lemma upload_data_log:
  "FileClient_UploadData J net (c\<lparr>progress_log := l\<rparr>) tok i off b =
     (case FileClient_UploadData J net c tok i off b of (c', r) \<Rightarrow> (c'\<lparr>progress_log := l\<rparr>, r))"
  by (simp add: FileClient_UploadData_def send_log)

lemma finalize_log:
  "FileClient_UploadFinalize J net (c\<lparr>progress_log := l\<rparr>) tok i =
     (case FileClient_UploadFinalize J net c tok i of (c', r) \<Rightarrow> (c'\<lparr>progress_log := l\<rparr>, r))"
  by (simp add: FileClient_UploadFinalize_def SendRequest_def send_log)

lemma send_keeps_log:
  "SendRequestWithBinary J net c req b = (c', r) \<Longrightarrow> progress_log c' = progress_log c"
  by (auto simp: SendRequestWithBinary_def NextRequestId_def split: sum.splits prod.splits option.splits if_splits)

lemma emit_simps [simp]:
  "ui_client (emit u s) = ui_client u" "input (emit u s) = input u" "running (emit u s) = running u"
  by (simp_all add: emit_def)

text \<open>What the two runs have in common.\<close>

definition same_run :: "'s ConsoleUI \<Rightarrow> 's FileClient \<Rightarrow> (int \<times> int) list \<Rightarrow> string list \<Rightarrow> bool" where
  "same_run u c l lines \<longleftrightarrow> ui_client u = c\<lparr>progress_log := l\<rparr> \<and> input u = lines"

lemma resume_loop_upload:
  "ui_client u = c\<lparr>progress_log := l\<rparr> \<Longrightarrow>
   upload_loop J net tok i content fsize c pos buf off = (c', r) \<Longrightarrow>
   \<exists>u'. resume_loop J net tok i content fsize u pos buf off = (u', r) \<and> same_run u' c' l (input u)"
proof (induction J net tok i content fsize c pos buf off arbitrary: u rule: upload_loop.induct)
  case (1 J net tok i content fsize c pos buf off)
  show ?case
  proof (cases "off < fsize")
    case False
    with 1(2,3) show ?thesis
      by (simp add: upload_loop.simps [of J net tok i content fsize c] resume_loop.simps [of J net tok i content fsize u] same_run_def)
  next
    case True
    let ?sz = "nat (min kChunkSize (fsize - off))"
    obtain p' b' where rb: "read_block content pos buf ?sz = (p', b')" by fastforce
    obtain c1 x where s: "FileClient_UploadData J net c tok i off b' = (c1, x)" by fastforce
    have s': "FileClient_UploadData J net (ui_client u) tok i off b' = (c1\<lparr>progress_log := l\<rparr>, x)"
      unfolding 1(2) upload_data_log s by simp
    show ?thesis
    proof (cases x)
      case (Inl e)
      with 1(3) True rb s s' show ?thesis
        by (auto simp: upload_loop.simps [of J net tok i content fsize c] resume_loop.simps [of J net tok i content fsize u] Let_def same_run_def)
    next
      case (Inr resp)
      let ?u = "emit (u\<lparr>ui_client := c1\<lparr>progress_log := l\<rparr>\<rparr>) (ShowProgress ui_resuming (off + int ?sz) fsize)"
      let ?c = "c1\<lparr>progress_log := progress_log c1 @ [(off + int ?sz, fsize)]\<rparr>"
      show ?thesis
      proof (cases "is_ok resp")
        case False
        with 1(3) True rb s s' Inr show ?thesis
          by (auto simp: upload_loop.simps [of J net tok i content fsize c] resume_loop.simps [of J net tok i content fsize u] Let_def same_run_def)
      next
        case ok: True
        have u: "upload_loop J net tok i content fsize ?c p' b' (off + int ?sz) = (c', r)"
          using 1(3) True rb s Inr ok by (simp add: upload_loop.simps [of J net tok i content fsize c] Let_def)
        have "ui_client ?u = ?c\<lparr>progress_log := l\<rparr>" by simp
        from 1(1) [OF _ refl refl rb [symmetric] s [symmetric] Inr _ this u] True ok
        obtain u' where "resume_loop J net tok i content fsize ?u p' b' (off + int ?sz) = (u', r)" "same_run u' c' l (input ?u)" by auto
        with True rb s' Inr ok show ?thesis
          by (simp add: resume_loop.simps [of J net tok i content fsize u] Let_def)
      qed
    qed
  qed
qed

lemma PrintResponse_same: "PrintResponse J u resp m = (u', r) \<Longrightarrow> ui_client u' = ui_client u \<and> input u' = input u \<and> running u' = running u"
  by (auto simp: PrintResponse_def Let_def split: if_splits sum.splits)

lemma PrintResponse_fst [simp]: "ui_client (fst (PrintResponse J u resp m)) = ui_client u" "input (fst (PrintResponse J u resp m)) = input u"
  using PrintResponse_same [OF surjective_pairing] by blast+

lemma same_run_simps [simp]: "same_run (emit u s) c l ls = same_run u c l ls" "same_run (fst (PrintResponse J u resp m)) c l ls = same_run u c l ls"
  by (simp_all add: same_run_def)

lemma same_run_start: "c\<lparr>progress_log := l\<rparr> = c \<Longrightarrow> input u = ls \<Longrightarrow> same_run (u\<lparr>ui_client := c\<rparr>) c l ls"
  by (simp add: same_run_def)

lemma ask_simps [simp]:
  "ask u (c, Inl e) k = (u\<lparr>ui_client := c\<rparr>, Inl e)" "ask u (c, Inr x) k = k (u\<lparr>ui_client := c\<rparr>) x"
  by (simp_all add: ask_def Let_def)

text \<open>From the offset on: the loop and the finalization.\<close>

lemma resume_rest:
  assumes "same_run u c l ls"
  shows "same_run
    (fst (case resume_loop J net tok i content fsize u pos buf off of
       (u, Inl e) \<Rightarrow> (u, Inl e)
     | (u, Inr (Some resp)) \<Rightarrow> PrintResponse J u resp None
     | (u, Inr None) \<Rightarrow> ask u (FileClient_UploadFinalize J net (ui_client u) tok i) (\<lambda>u resp. PrintResponse J (emit u endl) resp m)))
    (fst (case upload_loop J net tok i content fsize c pos buf off of
       (c, Inl e) \<Rightarrow> (c, Inl e)
     | (c, Inr (Some resp)) \<Rightarrow> (c, Inr resp)
     | (c, Inr None) \<Rightarrow> (case FileClient_UploadFinalize J net c tok i of
          (c, Inl e) \<Rightarrow> (c, Inl e)
        | (c, Inr resp) \<Rightarrow> if is_ok resp then (case set_member J (resp_data resp) ''file_id'' (num J i) of
              Inl e \<Rightarrow> (c, Inl e) | Inr d \<Rightarrow> (c, Inr (resp\<lparr>resp_data := d\<rparr>))) else (c, Inr resp)))) l ls"
proof -
  obtain c1 y where up: "upload_loop J net tok i content fsize c pos buf off = (c1, y)" by fastforce
  from resume_loop_upload [OF _ up, of u l] assms obtain u1 where
    u1: "resume_loop J net tok i content fsize u pos buf off = (u1, y)" "same_run u1 c1 l ls" by (auto simp: same_run_def)
  show ?thesis
  proof (cases "y = Inr None")
    case True
    obtain c2 w where f: "FileClient_UploadFinalize J net c1 tok i = (c2, w)" by fastforce
    then have "FileClient_UploadFinalize J net (ui_client u1) tok i = (c2\<lparr>progress_log := l\<rparr>, w)"
      using u1(2) by (simp add: same_run_def finalize_log)
    with True up u1 f show ?thesis by (auto simp: ask_def Let_def same_run_def split: sum.splits)
  qed (use up u1 in \<open>auto split: sum.splits option.splits\<close>)
qed

section \<open>What an operation leaves alone\<close>

definition keeps :: "'s ConsoleUI \<Rightarrow> 's ConsoleUI \<Rightarrow> bool" where
  "keeps u u' \<longleftrightarrow> running u' = running u \<and> set (input u') \<subseteq> set (input u)"

lemma keeps_refl [simp]: "keeps u u" and keeps_trans: "keeps u v \<Longrightarrow> keeps v w \<Longrightarrow> keeps u w"
  by (auto simp: keeps_def)

lemma keeps_simps [simp]: "keeps u (emit v s) = keeps u v" "keeps u (v\<lparr>ui_client := c\<rparr>) = keeps u v" "keeps u (v\<lparr>echo := b\<rparr>) = keeps u v"
  by (auto simp: keeps_def emit_def)

lemma ReadLine_keeps: "ReadLine v p = (v', l) \<Longrightarrow> keeps u v \<Longrightarrow> keeps u v'"
  by (auto simp: ReadLine_def keeps_def emit_def Let_def split: list.splits)

lemma ReadPassword_keeps: "ReadPassword v p = (v', l) \<Longrightarrow> keeps u v \<Longrightarrow> keeps u v'"
  by (auto simp: ReadPassword_def split: prod.splits dest: ReadLine_keeps [where u = u])

lemma ReadFileId_keeps: "ReadFileId v = (v', l) \<Longrightarrow> keeps u v \<Longrightarrow> keeps u v'"
  by (auto simp: ReadFileId_def split: prod.splits dest: ReadLine_keeps [where u = u])

lemma IsLoggedIn_keeps: "IsLoggedIn v = (v', l) \<Longrightarrow> keeps u v \<Longrightarrow> keeps u v'"
  by (auto simp: IsLoggedIn_def split: if_splits)

lemma PrintResponse_keeps: "PrintResponse J v resp m = (v', r) \<Longrightarrow> keeps u v \<Longrightarrow> keeps u v'"
  using PrintResponse_same by (fastforce simp: keeps_def)

lemma ask_keeps:
  assumes "ask v r k = (v', x)" and "keeps u v" and "\<And>w resp w' y. keeps u w \<Longrightarrow> k w resp = (w', y) \<Longrightarrow> keeps u w'"
  shows "keeps u v'"
  using assms(1,2) assms(3) [of "v\<lparr>ui_client := fst r\<rparr>"]
  by (auto simp: ask_def Let_def case_prod_unfold split: sum.splits)

lemma list_lines_keeps: "list_lines J V v fs = (v', r) \<Longrightarrow> keeps u v \<Longrightarrow> keeps u v'"
  by (induction fs arbitrary: v) (auto split: sum.splits)

lemma resume_loop_keeps: "resume_loop J net tok i content fsize v pos buf off = (v', r) \<Longrightarrow> keeps u v \<Longrightarrow> keeps u v'"
proof (induction J net tok i content fsize v pos buf off rule: resume_loop.induct)
  case (1 J net tok i content fsize v pos buf off)
  from 1(2) [unfolded resume_loop.simps [of J net tok i content fsize v] Let_def] 1(1) [OF _ refl] 1(3) show ?case
    by (auto simp: Let_def split: if_splits prod.splits sum.splits)
qed

lemmas reads_keep = ReadLine_keeps ReadPassword_keeps ReadFileId_keeps IsLoggedIn_keeps PrintResponse_keeps

lemma Do_keeps:
  "DoRegister J net u = (u', r) \<Longrightarrow> keeps u u'"
  "DoLogin J net u = (u', r) \<Longrightarrow> keeps u u'"
  "DoUpload J net digest u = (u', r) \<Longrightarrow> keeps u u'"
  "DoDownload J net u = Some (u', r) \<Longrightarrow> keeps u u'"
  "DoListFiles J V net u = (u', r) \<Longrightarrow> keeps u u'"
  "DoDeleteFile J net u = (u', r) \<Longrightarrow> keeps u u'"
proof -
  show "DoRegister J net u = (u', r) \<Longrightarrow> keeps u u'"
    by (auto simp: DoRegister_def split: prod.splits elim!: ask_keeps dest!: reads_keep [where u = u])
  show "DoLogin J net u = (u', r) \<Longrightarrow> keeps u u'"
    by (auto simp: DoLogin_def split: prod.splits elim!: ask_keeps dest!: reads_keep [where u = u])
  show "DoUpload J net digest u = (u', r) \<Longrightarrow> keeps u u'"
    by (auto simp: DoUpload_def Let_def split: prod.splits if_splits elim!: ask_keeps dest!: reads_keep [where u = u])
  show "DoDownload J net u = Some (u', r) \<Longrightarrow> keeps u u'"
    by (auto simp: DoDownload_def Let_def split: prod.splits if_splits option.splits elim!: ask_keeps dest!: reads_keep [where u = u])
  show "DoDeleteFile J net u = (u', r) \<Longrightarrow> keeps u u'"
    by (auto simp: DoDeleteFile_def Let_def split: prod.splits if_splits elim!: ask_keeps dest!: reads_keep [where u = u])
  show "DoListFiles J V net u = (u', r) \<Longrightarrow> keeps u u'"
    by (auto simp: DoListFiles_def Let_def split: prod.splits if_splits sum.splits elim!: ask_keeps
        dest!: reads_keep [where u = u] list_lines_keeps [where u = u])
qed

lemma DoResumeUpload_keeps: "DoResumeUpload J net digest u = (u', r) \<Longrightarrow> keeps u u'"
  by (auto simp: DoResumeUpload_def Let_def split: prod.splits if_splits sum.splits option.splits elim!: ask_keeps
      dest!: reads_keep [where u = u] resume_loop_keeps [where u = u])

lemma do_choice_keeps:
  "do_choice J V net digest u ch = Some (u', r) \<Longrightarrow> ch \<noteq> ''0'' \<Longrightarrow> keeps u u'"
  by (auto simp: do_choice_def split: if_splits dest: Do_keeps DoResumeUpload_keeps)

section \<open>Properties\<close>

text \<open>
  C25: continuing an upload by choice 7 does to the client, the network and the servers exactly what
  uploading the file by choice 3 does: the two implementations of the chunk loop send the same requests
  and stop at the same replies. Only the progress callback differs.
\<close>

theorem resume_is_upload:
  assumes "client_token (ui_client u) \<noteq> []" and "input u = path # lines"
  shows "ui_client (fst (DoResumeUpload J net digest u))
      = (fst (UploadFile J net digest (ui_client u) (client_token (ui_client u)) path))\<lparr>progress_log := progress_log (ui_client u)\<rparr>
    \<and> input (fst (DoResumeUpload J net digest u)) = lines"
proof -
  let ?c = "ui_client u" and ?tok = "client_token (ui_client u)"
  obtain u1 where u1: "ReadLine u ui_file_path = (u1, path)" "ui_client u1 = ?c" "input u1 = lines"
    using assms(2) by (simp add: ReadLine_def Let_def)
  have li: "IsLoggedIn u = (u, True)" using assms(1) by (simp add: IsLoggedIn_def)
  have "same_run (fst (DoResumeUpload J net digest u)) (fst (UploadFile J net digest ?c ?tok path)) (progress_log ?c) lines"
  proof (cases "local_files (disk ?c) path")
    case None
    then show ?thesis by (simp add: DoResumeUpload_def li u1 UploadFile_def same_run_def)
  next
    case (Some content)
    obtain c2 x where st: "FileClient_UploadStart J net ?c ?tok (base_name path) (int (length content)) (ComputeFileMD5 digest (Some content)) = (c2, x)"
      by fastforce
    have log2: "c2\<lparr>progress_log := progress_log ?c\<rparr> = c2"
      using st send_keeps_log by (fastforce simp: FileClient_UploadStart_def SendRequest_def)
    note def = DoResumeUpload_def UploadFile_def li u1 Some Let_def st ask_def
    show ?thesis
    proof (cases x)
      case (Inl e)
      then show ?thesis using log2 by (simp add: def same_run_def)
    next
      case (Inr resp)
      consider "\<not> is_ok resp" | e where "is_ok resp" "index_int J (resp_data resp) ''file_id'' = Inl e"
        | i e where "is_ok resp" "index_int J (resp_data resp) ''file_id'' = Inr i" "value_int J (resp_data resp) ''offset'' 0 = Inl e"
        | i off where "is_ok resp" "index_int J (resp_data resp) ''file_id'' = Inr i" "value_int J (resp_data resp) ''offset'' 0 = Inr off"
        by (cases "index_int J (resp_data resp) ''file_id''"; cases "value_int J (resp_data resp) ''offset'' 0") blast+
      then show ?thesis
      proof cases
        case 4
        show ?thesis
          unfolding DoResumeUpload_def UploadFile_def
          using Inr 4 log2 by (simp add: li u1 Some st Let_def) (auto simp: u1 intro!: resume_rest same_run_start)
      qed (use Inr log2 in \<open>simp_all add: def same_run_def\<close>)
    qed
  qed
  then show ?thesis by (simp add: same_run_def)
qed

theorem resume_is_upload_witness:
  "let u = ConsoleUI_new sample_client [''/home/note'', ''0''] ''127.0.0.1'' 8080 in
   ui_client (fst (DoResumeUpload js_ops (direct_net js_ops ''/srv'' sample_env) sample_digest u))
     = (fst (UploadFile js_ops (direct_net js_ops ''/srv'' sample_env) sample_digest sample_client ''t'' ''/home/note''))\<lparr>progress_log := []\<rparr>
   \<and> input (fst (DoResumeUpload js_ops (direct_net js_ops ''/srv'' sample_env) sample_digest u)) = [''0'']"
  using resume_is_upload [of "ConsoleUI_new sample_client [''/home/note'', ''0''] ''127.0.0.1'' 8080" "''/home/note''" "[''0'']"
      js_ops "direct_net js_ops ''/srv'' sample_env" sample_digest]
  by (simp add: ConsoleUI_new_def sample_client_def)

lemma ReadLine_choice: "ReadLine u p = (u', l) \<Longrightarrow> ''0'' \<notin> set (input u) \<Longrightarrow> l \<noteq> ''0''"
  by (auto simp: ReadLine_def Let_def emit_def split: list.splits)

lemma ShowMenu_keeps: "keeps u (ShowMenu u)" and ShowMenu_input: "input (ShowMenu u) = input u"
  by (simp_all add: ShowMenu_def Let_def)

text \<open>
  C26: the menu is left by choice 0 only: while no line the user types is \<open>0\<close>, \<open>Run\<close> does not return
  but by an exception, whatever the server answers; and when the input has ended it never returns, as
  \<open>ReadLine\<close> does not tell the end of the input from an empty line.
\<close>

theorem console_ends_only_on_request:
  assumes "running u" and "''0'' \<notin> set (input u)"
  shows "(menu_loop J V net digest u = None \<or> (\<exists>u' e. menu_loop J V net digest u = Some (u', Inl e)))
    \<and> (input u = [] \<longrightarrow> menu_loop J V net digest u = None)"
proof -
  let ?P = "\<lambda>u r. running u \<and> ''0'' \<notin> set (input u) \<longrightarrow> (\<exists>e. snd r = Inl e) \<and> input u \<noteq> []"
  have "?P u r" if r: "menu_loop J V net digest u = Some r" for r
    using r
  proof (rule menu_loop.raw_induct [rotated, where P = "\<lambda>J V net digest u r. ?P u r"])
    fix loop J V u net and digest :: "bytes \<Rightarrow> u8 list" and r
    assume ih: "\<And>J V net digest u r. loop J V net digest u = Some r \<Longrightarrow> ?P u r"
      and eq: "(if \<not> running u then Some (u, Inr ())
        else case ReadLine (ShowMenu u) ui_choose of (u, choice) \<Rightarrow>
          (case do_choice J V net digest u choice of
             None \<Rightarrow> None
           | Some (u, Inl e) \<Rightarrow> Some (u, Inl e)
           | Some (u, Inr _) \<Rightarrow> loop J V net digest u)) = Some r"
    show "?P u r"
    proof (intro impI)
      assume a: "running u \<and> ''0'' \<notin> set (input u)"
      obtain v ch where rl: "ReadLine (ShowMenu u) ui_choose = (v, ch)" by fastforce
      have ch: "ch \<noteq> ''0''" using ReadLine_choice [OF rl] a by (simp add: ShowMenu_input)
      have v: "keeps u v" using ReadLine_keeps [OF rl ShowMenu_keeps] .
      obtain w x where d: "do_choice J V net digest v ch = Some (w, x)" using eq a rl by (auto split: option.splits)
      from v do_choice_keeps [OF d ch] have w: "keeps u w" by (rule keeps_trans)
      have no: "input w = []" "x = Inr ()" if e: "input u = []"
        using rl d e by (auto simp: ReadLine_def ShowMenu_input do_choice_def keeps_def)
      from eq a rl d w ih [of J V net digest w r] no
      show "(\<exists>e. snd r = Inl e) \<and> input u \<noteq> []" by (auto simp: keeps_def split: sum.splits)
    qed
  qed
  with assms show ?thesis by (cases "menu_loop J V net digest u") force+
qed

theorem console_ends_only_on_request_witness:
  "menu_loop js_ops \<lparr>elements = (\<lambda>j. []), dump_indented = (\<lambda>j n. Inr [])\<rparr> (direct_net js_ops ''/srv'' sample_env) sample_digest
     (ConsoleUI_new sample_client [] ''127.0.0.1'' 8080) = None"
  using console_ends_only_on_request [of "ConsoleUI_new sample_client [] ''127.0.0.1'' 8080" js_ops
      "\<lparr>elements = (\<lambda>j. []), dump_indented = (\<lambda>j n. Inr [])\<rparr>" "direct_net js_ops ''/srv'' sample_env" sample_digest]
  by (simp add: ConsoleUI_new_def)

lemma console_quits:
  assumes "running u" and "input u = ''0'' # ls"
  shows "\<exists>u'. menu_loop J V net digest u = Some (u', Inr ()) \<and> \<not> running u' \<and> ui_client u' = ui_client u"
  using assms
  by (subst menu_loop.simps) (simp add: ReadLine_def ShowMenu_input do_choice_def menu_loop.simps Let_def,
    simp add: ShowMenu_def Let_def)

text \<open>
  the size shown for a file is within half a unit of the last digit shown: exact in bytes, one
  decimal in KB, two in MB and GB; only the rounding of sizes beyond $2^{53}$ to a \<open>double\<close> adds to that.
\<close>

theorem FormatSize_near:
  "(n < 1024 \<longrightarrow> FormatSize n = to_string n @ '' B'')
   \<and> (1024 \<le> n \<and> n < 2 ^ 20 \<longrightarrow> (\<exists>q. FormatSize n = to_string (q div 10) @ ''.'' @ setw0 1 (to_string (q mod 10)) @ '' KB''
        \<and> 2 * \<bar>1024 * q - 10 * n\<bar> \<le> 1024))
   \<and> (2 ^ 20 \<le> n \<and> n < 2 ^ 30 \<longrightarrow> (\<exists>q. FormatSize n = to_string (q div 100) @ ''.'' @ setw0 2 (to_string (q mod 100)) @ '' MB''
        \<and> 2 * \<bar>2 ^ 20 * q - 100 * n\<bar> \<le> 2 ^ 20))
   \<and> (2 ^ 30 \<le> n \<and> n < 2 ^ 63 \<longrightarrow> (\<exists>q. FormatSize n = to_string (q div 100) @ ''.'' @ setw0 2 (to_string (q mod 100)) @ '' GB''
        \<and> 2 * \<bar>2 ^ 30 * q - 100 * n\<bar> \<le> 2 ^ 30 + 2 * 100 * 512))"
proof (intro conjI impI)
  show "n < 1024 \<Longrightarrow> FormatSize n = to_string n @ '' B''" by (simp add: FormatSize_def)
next
  assume a: "1024 \<le> n \<and> n < 2 ^ 20"
  then show "\<exists>q. FormatSize n = to_string (q div 10) @ ''.'' @ setw0 1 (to_string (q mod 10)) @ '' KB'' \<and> 2 * \<bar>1024 * q - 10 * n\<bar> \<le> 1024"
    using round_even_near [of 1024 "n * 10"]
    by (intro exI [of _ "round_even (n * 10) 1024"]) (simp add: FormatSize_def print_fixed_def Let_def double_of_small mult.commute)
next
  assume a: "2 ^ 20 \<le> n \<and> n < 2 ^ 30"
  then show "\<exists>q. FormatSize n = to_string (q div 100) @ ''.'' @ setw0 2 (to_string (q mod 100)) @ '' MB'' \<and> 2 * \<bar>2 ^ 20 * q - 100 * n\<bar> \<le> 2 ^ 20"
    using round_even_near [of "2 ^ 20" "n * 100"]
    by (intro exI [of _ "round_even (n * 100) (2 ^ 20)"]) (simp add: FormatSize_def print_fixed_def Let_def double_of_small mult.commute)
next
  assume a: "2 ^ 30 \<le> n \<and> n < 2 ^ 63"
  then show "\<exists>q. FormatSize n = to_string (q div 100) @ ''.'' @ setw0 2 (to_string (q mod 100)) @ '' GB''
      \<and> 2 * \<bar>2 ^ 30 * q - 100 * n\<bar> \<le> 2 ^ 30 + 2 * 100 * 512"
    using round_even_near [of "2 ^ 30" "double_of n * 100"] double_of_near [of n]
    by (intro exI [of _ "round_even (double_of n * 100) (2 ^ 30)"]) (simp add: FormatSize_def print_fixed_def Let_def mult.commute)
qed

theorem FormatSize_near_witness:
  "FormatSize 5 = to_string 5 @ '' B'' \<and> (\<exists>q. FormatSize 1048575 = to_string (q div 10) @ ''.'' @ setw0 1 (to_string (q mod 10)) @ '' KB''
     \<and> 2 * \<bar>1024 * q - 10 * 1048575\<bar> \<le> 1024)"
  using FormatSize_near [of 5] FormatSize_near [of 1048575] by simp

section \<open>Sessions and ids\<close>

text \<open>Without a token the file operations only ask to log in: nothing is sent.\<close>

lemma choices_need_login:
  "client_token (ui_client u) = [] \<Longrightarrow> ch \<in> {''3'', ''4'', ''5'', ''6'', ''7''} \<Longrightarrow>
   do_choice J V net digest u ch = Some (emit u ui_login_first, Inr ())"
  by (auto simp: do_choice_def DoUpload_def DoDownload_def DoListFiles_def DoDeleteFile_def DoResumeUpload_def IsLoggedIn_def)

text \<open>An id that the list showed is read back.\<close>

lemma ReadFileId_roundtrip:
  "input u = to_string i # ls \<Longrightarrow> i64 i \<Longrightarrow> snd (ReadFileId u) = i \<and> input (fst (ReadFileId u)) = ls"
  using stoll_to_string [of i "[]"] by (simp add: ReadFileId_def ReadLine_def Let_def)

end
