(* ===== verification/Isolation.thy ===== *)
theory Isolation
  imports Tables
begin

text \<open>
  What the users of the stand-alone server can learn of and do to each other. The part of a user is the
  rows with the user's id and the files below the user's directory. Two locales state the two halves of
  an unwinding argument: who does not act for a user leaves the user's part alone (\<open>separation\<close>), and
  what a user gets to see depends on the own part alone (\<open>confinement\<close>).
\<close>

section \<open>Unwinding\<close>

fun handle_all :: "('s \<Rightarrow> 'a \<Rightarrow> 's \<times> 'b) \<Rightarrow> 's \<Rightarrow> 'a list \<Rightarrow> 's \<times> 'b list" where
  "handle_all f s [] = (s, [])"
| "handle_all f s (a # as) = (let (s, out) = f s a; (s, outs) = handle_all f s as in (s, out # outs))"

text \<open>A condition on each input in the state in which it arrives.\<close>

fun all_along :: "('s \<Rightarrow> 'a \<Rightarrow> bool) \<Rightarrow> ('s \<Rightarrow> 'a \<Rightarrow> 's \<times> 'b) \<Rightarrow> 's \<Rightarrow> 'a list \<Rightarrow> bool" where
  "all_along Q f s [] = True"
| "all_along Q f s (a # as) = (Q s a \<and> all_along Q f (fst (f s a)) as)"

text \<open>What those inputs that do not act leave alone, as long as the inputs are \<open>fine\<close>.\<close>

locale separation =
  fixes f :: "'s \<Rightarrow> 'a \<Rightarrow> 's \<times> 'b" and inv :: "'s \<Rightarrow> bool" and fine :: "'s \<Rightarrow> 'a \<Rightarrow> bool" and acts :: "'s \<Rightarrow> 'a \<Rightarrow> bool"
    and part :: "'s \<Rightarrow> 'p"
  assumes keeps_inv: "inv s \<Longrightarrow> fine s a \<Longrightarrow> inv (fst (f s a))"
    and respects: "inv s \<Longrightarrow> fine s a \<Longrightarrow> \<not> acts s a \<Longrightarrow> part (fst (f s a)) = part s"
begin

lemma serve_inv: "inv s \<Longrightarrow> all_along fine f s as \<Longrightarrow> inv (fst (handle_all f s as))"
  by (induction as arbitrary: s) (simp_all add: case_prod_unfold Let_def keeps_inv)

lemma serve_respects: "inv s \<Longrightarrow> all_along (\<lambda>s a. fine s a \<and> \<not> acts s a) f s as \<Longrightarrow> part (fst (handle_all f s as)) = part s"
  by (induction as arbitrary: s) (simp_all add: case_prod_unfold Let_def keeps_inv respects)

end

locale confinement =
  fixes f :: "'s \<Rightarrow> 'a \<Rightarrow> 's \<times> 'b" and inv :: "'s \<Rightarrow> bool" and acts :: "'s \<Rightarrow> 'a \<Rightarrow> bool" and same :: "'s \<Rightarrow> 's \<Rightarrow> bool"
  assumes keeps_inv: "inv s \<Longrightarrow> inv (fst (f s a))"
    and consistent: "inv s \<Longrightarrow> inv t \<Longrightarrow> same s t \<Longrightarrow> acts s a \<Longrightarrow> same (fst (f s a)) (fst (f t a)) \<and> snd (f s a) = snd (f t a)"
begin

lemma serve_consistent:
  "inv s \<Longrightarrow> inv t \<Longrightarrow> same s t \<Longrightarrow> all_along acts f s as \<Longrightarrow> snd (handle_all f s as) = snd (handle_all f t as) \<and> same (fst (handle_all f s as)) (fst (handle_all f t as))"
proof (induction as arbitrary: s t)
  case (Cons a as)
  with consistent [of s t a] show ?case by (simp add: case_prod_unfold Let_def keeps_inv)
qed simp

end

section \<open>Where the files of a user are\<close>

definition homed :: "FileInfo \<Rightarrow> bool" where
  "homed r \<longleftrightarrow> (\<exists>c. filepath r = to_string (fuser_id r) @ ''/'' @ c \<and> path_component c \<and> ascii c \<and> CHR 0x00 \<notin> set c)"

definition home :: "path \<Rightarrow> int \<Rightarrow> path" where
  "home b u = b @ [to_string u]"

text \<open>Nothing but the directories of the users lies between the root and the files.\<close>

definition disk_ok :: "string \<Rightarrow> path \<Rightarrow> fs \<Rightarrow> bool" where
  "disk_ok base b s \<longleftrightarrow> root_dir base s b \<and> (\<forall>x y. b @ [x, y] \<notin> set (dirs s))"

definition rows_ok :: "db \<Rightarrow> bool" where
  "rows_ok d \<longleftrightarrow> tables_typed d \<and> list_all homed (file_rows d)"

definition layout :: "string \<Rightarrow> path \<Rightarrow> store \<Rightarrow> bool" where
  "layout base b st \<longleftrightarrow> rows_ok (fst st) \<and> disk_ok base b (snd st)"

definition own_rows :: "db \<Rightarrow> int \<Rightarrow> FileInfo list" where
  "own_rows d u = filter (\<lambda>r. fuser_id r = u) (file_rows d)"

definition own_files :: "path \<Rightarrow> fs \<Rightarrow> int \<Rightarrow> path \<rightharpoonup> bytes" where
  "own_files b s u = map_of (files s) |` {p. prefix (home b u) p}"

lemma home_disjoint: "prefix (home b u) p \<Longrightarrow> prefix (home b v) p \<Longrightarrow> u = v"
  by (auto simp: home_def prefix_def dest: to_string_inj)

lemma digits_no_nul: "CHR 0x00 \<notin> set (to_string i)"
  by (rule to_string_char) simp_all

lemma ascii_to_string: "ascii (to_string i)"
proof -
  have "(of_char c :: nat) < 128" if "c \<in> set (to_string i)" for c
    using to_string_chars [OF that] by (auto simp: digit_def)
  then show ?thesis by (simp add: ascii_def)
qed

lemma started_row_homed: "homed (started_row t u name sz m)"
proof -
  let ?c = "time_stamp t @ SanitizeFilename name"
  have "CHR 0x00 \<notin> set (SanitizeFilename name)" "ascii (SanitizeFilename name)" using sanitize_chars safe_char by (auto simp: ascii_def)
  moreover have "ascii (setw0 k (to_string i))" for k i using ascii_to_string [of i] by (auto simp: setw0_def ascii_def)
  ultimately have "CHR 0x00 \<notin> set ?c" "ascii ?c" by (simp_all add: time_stamp_def) (simp add: setw0_def digits_no_nul)
  with time_stamp_component [OF sanitize_no_slash] show ?thesis
    by (auto simp: homed_def started_row_def FileInfo_default_def GenerateFilepath_def)
qed

lemma homed_fetched: "homed r \<Longrightarrow> filepath (file_of_row r) = filepath r"
  using digits_no_nul by (auto simp: homed_def file_of_row_def intro!: cstr_id)

interpretation homes: direct_writes rows_ok
proof
  fix d and name pwd :: string and e :: "u64 \<times> u64"
  assume "rows_ok d" and n: "name \<noteq> []" "length name \<le> 64" "pwd \<noteq> []" "length pwd \<le> 128"
  let ?u = "User_new name pwd\<lparr>token := GenerateToken e\<rparr>"
  have "file_rows (fst (UserDAO_Insert d ?u)) = file_rows d"
    by (auto simp: UserDAO_Insert_def Let_def case_prod_unfold split: option.splits db_fault.splits)
  with \<open>rows_ok d\<close> typed.insert_user [OF _ n] show "rows_ok (fst (UserDAO_Insert d ?u))" by (simp add: rows_ok_def)
next
  fix d i and e :: "u64 \<times> u64"
  assume "rows_ok d"
  moreover have "file_rows (fst (UserDAO_UpdateToken d i (GenerateToken e))) = file_rows d"
    by (simp add: UserDAO_UpdateToken_def Let_def case_prod_unfold)
  ultimately show "rows_ok (fst (UserDAO_UpdateToken d i (GenerateToken e)))"
    using typed.new_token by (simp add: rows_ok_def)
next
  fix d t u name m and size0 :: int
  assume "rows_ok d" and n: "0 < size0"
  then show "rows_ok (fst (FileDAO_Insert d (started_row t u name size0 m)))"
    using typed.insert_file [OF _ n] started_row_homed [of t u name size0 m]
    by (auto simp: rows_ok_def FileDAO_Insert_def Let_def case_prod_unfold homed_def)
next
  fix d i and st :: int
  assume "rows_ok d" and "st \<in> {1, 2}"
  then show "rows_ok (fst (FileDAO_UpdateStatus d i st))"
    using typed.new_status [of d st i] by (auto simp: rows_ok_def FileDAO_UpdateStatus_def Let_def case_prod_unfold update_files_def list_all_iff homed_def)
next
  fix d i and n :: int
  assume "rows_ok d" and "0 \<le> n"
  then show "rows_ok (fst (FileDAO_UpdateUploadSize d i n))"
    using direct.new_length [of d n i] by (auto simp: rows_ok_def FileDAO_UpdateUploadSize_def Let_def case_prod_unfold update_files_def list_all_iff homed_def)
qed (auto simp: rows_ok_def direct.lengths)

section \<open>Operations on the disk\<close>

text \<open>What an operation on the path \<open>p\<close> of a stored file can change.\<close>

definition only_at :: "fs \<Rightarrow> path option \<Rightarrow> fs \<Rightarrow> bool" where
  "only_at s x s' \<longleftrightarrow> cwd s' = cwd s \<and> (\<forall>q. x \<noteq> Some q \<longrightarrow> map_of (files s') q = map_of (files s) q)"

lemma only_at_refl [simp]: "only_at s x s"
  by (simp add: only_at_def)

lemma only_at_trans: "only_at s x s1 \<Longrightarrow> only_at s1 x s2 \<Longrightarrow> only_at s x s2"
  by (simp add: only_at_def)

lemma only_at_ops:
  "only_at s (resolve s p) (create_file s p)" "only_at s (resolve s p) (write_file s p off d)" "only_at s x (snd (next_io s))"
  by (auto simp: only_at_def create_file_def write_file_def put_file_def update_conv' split: option.splits)

lemma WriteChunk_only_at: "only_at s (resolve s (GetAbsolutePath base p)) (fst (WriteChunk base s p d off))"
proof -
  let ?a = "GetAbsolutePath base p" and ?s1 = "snd (next_io s)"
  have 1: "only_at s (resolve s ?a) ?s1" by (rule only_at_ops)
  have 2: "only_at s (resolve s ?a) (create_file ?s1 ?a)" using only_at_trans [OF 1] only_at_ops(1) [of ?s1 ?a] by simp
  have 3: "only_at s (resolve s ?a) (write_file x ?a n c)" if "x \<in> {?s1, create_file ?s1 ?a}" for x n c
    using that only_at_trans [OF 1] only_at_trans [OF 2] only_at_ops(2) [of x ?a n c] by auto
  show ?thesis using 1 2 3 by (auto simp: WriteChunk_def Let_def case_prod_unfold split: option.splits)
qed

lemma DeleteFile_only_at: "only_at s (resolve s (GetAbsolutePath base p)) (fst (DeleteFile base s p))"
  by (auto simp: only_at_def DeleteFile_def Let_def case_prod_unfold remove_path_def delete_conv' split: option.splits)

lemma reads_only_at: "only_at s x (fst (ReadChunk base s p off sz))" "only_at s x (fst (GetFileSize base s p))"
  by (auto simp: only_at_def ReadChunk_def GetFileSize_def Let_def case_prod_unfold split: option.splits)

lemma reads_dirs: "dirs (fst (ReadChunk base s p off sz)) = dirs s" "dirs (fst (GetFileSize base s p)) = dirs s"
  by (auto simp: ReadChunk_def GetFileSize_def Let_def case_prod_unfold split: option.splits)

lemma disk_ok_cong: "dirs s' = dirs s \<Longrightarrow> cwd s' = cwd s \<Longrightarrow> disk_ok base b s' = disk_ok base b s"
  by (simp add: disk_ok_def root_dir_def resolve_def)

text \<open>The path of a row leads into the home of its owner, where no directories are.\<close>

lemma homed_resolve:
  assumes "disk_ok base b s" and "homed r" and "resolve s (GetAbsolutePath base (filepath r)) = Some q"
  shows "prefix (home b (fuser_id r)) q" and "q \<notin> set (dirs s)"
proof -
  from assms(2) obtain c where c: "filepath r = to_string (fuser_id r) @ ''/'' @ c" "path_component c" by (auto simp: homed_def)
  with resolve_user_file(1) [of base s b "to_string (fuser_id r)" c] assms(1,3) to_string_component
  have "q = b @ [to_string (fuser_id r), c]" by (auto simp: disk_ok_def split: if_splits)
  with assms(1) show "prefix (home b (fuser_id r)) q" "q \<notin> set (dirs s)" by (auto simp: home_def disk_ok_def)
qed

lemma DeleteFile_dirs:
  assumes "disk_ok base b s" and "homed r"
  shows "dirs (fst (DeleteFile base s (filepath r))) = dirs s"
  using homed_resolve(2) [OF assms] by (auto simp: DeleteFile_def Let_def case_prod_unfold remove_path_def split: option.splits)

text \<open>An operation of user \<open>v\<close> on the disk.\<close>

definition disk_step :: "string \<Rightarrow> path \<Rightarrow> int \<Rightarrow> fs \<Rightarrow> fs \<Rightarrow> bool" where
  "disk_step base b v s s' \<longleftrightarrow> disk_ok base b s' \<and> (\<forall>q. \<not> prefix (home b v) q \<longrightarrow> map_of (files s') q = map_of (files s) q)"

lemma disk_step_refl: "disk_ok base b s \<Longrightarrow> disk_step base b v s s"
  by (simp add: disk_step_def)

lemma disk_step_file:
  assumes "disk_ok base b s" and "homed r" and "only_at s (resolve s (GetAbsolutePath base (filepath r))) s'" and "dirs s' = dirs s"
  shows "disk_step base b (fuser_id r) s s'"
  using assms homed_resolve(1) [OF assms(1,2)] disk_ok_cong [of s' s base b] by (auto simp: disk_step_def only_at_def)

lemma disk_steps:
  assumes "disk_ok base b s" and "homed r"
  shows "disk_step base b (fuser_id r) s (fst (WriteChunk base s (filepath r) d off))"
    "disk_step base b (fuser_id r) s (fst (DeleteFile base s (filepath r)))"
    "disk_step base b (fuser_id r) s (fst (ReadChunk base s (filepath r) off sz))"
    "disk_step base b (fuser_id r) s (fst (GetFileSize base s (filepath r)))"
  using disk_step_file [OF assms] WriteChunk_only_at DeleteFile_only_at reads_only_at DeleteFile_dirs [OF assms]
    WriteChunk_frame(2) [OF surjective_pairing] by (simp_all add: reads_dirs)

lemma home_path:
  assumes "disk_ok base b s"
  shows "resolve s (strip_slashes (base @ ''/'' @ to_string v)) = Some (home b v)"
proof -
  have "last (base @ ''/'' @ to_string v) = last (to_string v)" by simp
  moreover have "last (to_string v) \<noteq> CHR ''/''" using to_string_no_sep(1) [of v] last_in_set [OF to_string_nonempty, of v] by metis
  ultimately have "strip_slashes (base @ ''/'' @ to_string v) = base @ ''/'' @ to_string v" by (intro strip_slashes_id) simp_all
  with resolve_user_file(2) [OF _ to_string_component to_string_component, of base s b v] assms show ?thesis
    by (simp add: disk_ok_def home_def del: strip_slashes.simps)
qed

lemma CreateUserDir_step:
  assumes "disk_ok base b s"
  shows "disk_step base b v s (fst (CreateUserDir base s v))"
proof -
  let ?s = "snd (next_io s)" and ?p = "base @ ''/'' @ to_string v"
  have ok: "disk_ok base b ?s" using assms disk_ok_cong [of ?s s base b] by simp
  have "disk_ok base b (?s\<lparr>dirs := home b v # dirs ?s\<rparr>)"
    using ok resolve_add_dir [of ?s base b "home b v"] by (auto simp: disk_ok_def root_dir_def home_def)
  with ok have "disk_ok base b (fst (mkdir ?s ?p))" unfolding mkdir_def home_path [OF ok] by simp
  moreover have "files (fst (mkdir ?s ?p)) = files s" by (simp add: mkdir_def split: option.splits)
  ultimately show ?thesis using ok
    by (simp add: CreateUserDir_def Let_def case_prod_unfold disk_step_def split: mkdir_result.splits)
qed

section \<open>Operations of the file service\<close>

definition acts_for :: "string \<Rightarrow> path \<Rightarrow> int \<Rightarrow> store \<Rightarrow> store \<Rightarrow> bool" where
  "acts_for base b v st st' \<longleftrightarrow> (\<forall>w. w \<noteq> v \<longrightarrow> own_rows (fst st') w = own_rows (fst st) w) \<and> disk_step base b v (snd st) (snd st')"

lemma acts_refl: "disk_ok base b (snd st) \<Longrightarrow> acts_for base b v st st"
  by (simp add: acts_for_def disk_step_refl)

lemma found_row:
  "snd (FileDAO_FindById d i) = Some r \<Longrightarrow> \<exists>q \<in> set (file_rows d). fid q = i \<and> r = file_of_row q"
proof -
  assume "snd (FileDAO_FindById d i) = Some r"
  then obtain q qs where q: "filter (\<lambda>r. fid r = i) (file_rows d) = q # qs" "r = file_of_row q"
    by (auto simp: FileDAO_FindById_def Let_def case_prod_unfold fetch_file_def split: if_splits list.splits)
  have "q \<in> set (filter (\<lambda>r. fid r = i) (file_rows d))" unfolding q(1) by simp
  then show ?thesis using q(2) by auto
qed

lemma filter_map_idle: "(\<And>x. x \<in> set xs \<Longrightarrow> g x = x \<or> \<not> P x \<and> \<not> P (g x)) \<Longrightarrow> filter P (map g xs) = filter P xs"
  by (induction xs) fastforce+

text \<open>A change of nothing but the rows with the key \<open>i\<close>, which keep key and owner.\<close>

definition row_change :: "int \<Rightarrow> db \<Rightarrow> db \<Rightarrow> bool" where
  "row_change i d d' \<longleftrightarrow> (\<exists>g. (\<forall>x. fuser_id (g x) = fuser_id x \<and> fid (g x) = fid x) \<and> file_rows d' = map (\<lambda>x. if fid x = i then g x else x) (file_rows d))"

lemma row_change_same: "file_rows d' = file_rows d \<Longrightarrow> row_change i d d'"
  by (auto simp: row_change_def intro!: exI [of _ "\<lambda>x. x"])

lemma row_change_trans: "row_change i d d1 \<Longrightarrow> row_change i d1 d2 \<Longrightarrow> row_change i d d2"
proof (unfold row_change_def, elim exE conjE)
  fix g h
  assume g: "\<forall>x. fuser_id (g x) = fuser_id x \<and> fid (g x) = fid x" "file_rows d1 = map (\<lambda>x. if fid x = i then g x else x) (file_rows d)"
    and h: "\<forall>x. fuser_id (h x) = fuser_id x \<and> fid (h x) = fid x" "file_rows d2 = map (\<lambda>x. if fid x = i then h x else x) (file_rows d1)"
  then show "\<exists>g. (\<forall>x. fuser_id (g x) = fuser_id x \<and> fid (g x) = fid x) \<and> file_rows d2 = map (\<lambda>x. if fid x = i then g x else x) (file_rows d)"
    by (intro exI [of _ "\<lambda>x. h (g x)"]) simp
qed

lemma row_change_update:
  "(\<And>x. fuser_id (g x) = fuser_id x \<and> fid (g x) = fid x) \<Longrightarrow> row_change i d (update_files (\<lambda>x. fid x = i) g (snd (next_fault d)))"
  by (auto simp: row_change_def update_files_def intro!: exI [of _ g])

lemma row_change_ops: "row_change i d (fst (FileDAO_UpdateUploadSize d i n))" "row_change i d (fst (FileDAO_UpdateStatus d i st))"
  "row_change i d (fst (FileDAO_FindById d i))"
proof -
  have *: "row_change i d (snd (next_fault d))" by (simp add: row_change_same)
  show "row_change i d (fst (FileDAO_UpdateUploadSize d i n))" "row_change i d (fst (FileDAO_UpdateStatus d i st))"
    using * row_change_update by (simp_all add: FileDAO_UpdateUploadSize_def FileDAO_UpdateStatus_def Let_def case_prod_unfold)
  show "row_change i d (fst (FileDAO_FindById d i))" using * by (simp add: FileDAO_FindById_def Let_def case_prod_unfold)
qed

lemma others_rows:
  assumes "row_change i d d'" and "files_inv d" and "q \<in> set (file_rows d)" and "fid q = i" and "fuser_id q \<noteq> w"
  shows "own_rows d' w = own_rows d w"
proof -
  from assms(1) obtain g where g: "\<forall>x. fuser_id (g x) = fuser_id x \<and> fid (g x) = fid x"
    "file_rows d' = map (\<lambda>x. if fid x = i then g x else x) (file_rows d)" by (auto simp: row_change_def)
  have "fuser_id r \<noteq> w" if "r \<in> set (file_rows d)" "fid r = i" for r
    using assms(2-5) that unfolding files_inv_def by (metis distinct_map inj_on_def)
  with g(1) show ?thesis unfolding own_rows_def g(2) by (intro filter_map_idle) auto
qed

lemma own_rows_fault [simp]: "own_rows (snd (next_fault d)) w = own_rows d w"
  by (simp add: own_rows_def)

lemma file_of_row_keys [simp]: "fuser_id (file_of_row q) = fuser_id q" "fid (file_of_row q) = fid q" "status (file_of_row q) = status q"
  by (simp_all add: file_of_row_def)

lemma found_owner:
  assumes "rows_ok d" and "FileDAO_FindById d i = (d1, Some r)"
  shows "homed r" and "row_change i d d' \<Longrightarrow> w \<noteq> fuser_id r \<Longrightarrow> own_rows d' w = own_rows d w" and "row_change i d1 d' \<Longrightarrow> row_change i d d'"
proof -
  from found_row [of d i r] assms(2) obtain q where q: "q \<in> set (file_rows d)" "fid q = i" "r = file_of_row q" by auto
  then have h: "homed q" using assms(1) by (auto simp: rows_ok_def list_all_iff)
  with q homed_fetched [OF h] show "homed r" by (simp add: homed_def)
  show "own_rows d' w = own_rows d w" if "row_change i d d'" "w \<noteq> fuser_id r"
    using others_rows [OF that(1) _ q(1,2)] q(3) that(2) assms(1) by (auto simp: rows_ok_def tables_typed_def)
  show "row_change i d1 d' \<Longrightarrow> row_change i d d'"
    using row_change_trans row_change_ops(3) [of i d] assms(2) by (metis fst_conv)
qed

lemma query_rows: "file_rows (fst (FileDAO_FindById d i)) = file_rows d" "file_rows (fst (FileDAO_FindByUserId d u)) = file_rows d"
  "file_rows (fst (FileDAO_FindIncompleteByKey d u n sz m)) = file_rows d"
  by (simp_all add: FileDAO_FindById_def FileDAO_FindByUserId_def FileDAO_FindIncompleteByKey_def Let_def case_prod_unfold)

lemma own_rows_cong: "file_rows d' = file_rows d \<Longrightarrow> own_rows d' w = own_rows d w"
  by (simp add: own_rows_def)

lemma found_act:
  assumes "rows_ok d" and "disk_ok base b s" and "FileDAO_FindById d i = (d1, Some r)"
    and "row_change i d1 d'" and "disk_step base b (fuser_id r) s s'"
  shows "acts_for base b (fuser_id r) (d, s) (d', s')"
  using assms(5) found_owner(2) [OF assms(1,3)] found_owner(3) [OF assms(1,3,4)] by (simp add: acts_for_def)

lemma not_found_act: "FileDAO_FindById d i = (d1, r) \<Longrightarrow> disk_ok base b s \<Longrightarrow> acts_for base b v (d, s) (d1, s)"
  using query_rows(1) [of d i] by (simp add: acts_for_def disk_step_refl own_rows_def)

lemma operations_act:
  assumes "layout base b st"
  shows "acts_for base b v st (fst (UploadData base st i v data off))" "acts_for base b v st (fst (UploadFinalize base st i v))"
    "acts_for base b v st (fst (DownloadChunk base st i v off sz))" "acts_for base b v st (fst (Delete base st i v))"
proof -
  obtain d s where st: "st = (d, s)" by fastforce
  obtain d1 info where f: "FileDAO_FindById d i = (d1, info)" by fastforce
  have ok: "rows_ok d" "disk_ok base b s" using assms by (simp_all add: layout_def st)
  note none = not_found_act [OF f ok(2), of v]
  have "acts_for base b v st (fst (UploadData base st i v data off)) \<and> acts_for base b v st (fst (UploadFinalize base st i v))
    \<and> acts_for base b v st (fst (DownloadChunk base st i v off sz)) \<and> acts_for base b v st (fst (Delete base st i v))"
  proof (cases "\<exists>r. info = Some r \<and> fuser_id r = v")
    case True
    then obtain r where r: "info = Some r" "fuser_id r = v" by blast
    have f': "FileDAO_FindById d i = (d1, Some r)" using f r by simp
    note act = found_act [OF ok f', unfolded r(2)]
    note steps = disk_steps [OF ok(2) found_owner(1) [OF ok(1) f'], unfolded r(2)]
    have two: "row_change i d1 (fst (FileDAO_UpdateUploadSize (fst (FileDAO_UpdateStatus d1 i 1)) i n))" for n
      using row_change_trans row_change_ops by blast
    note moves = act [OF row_change_ops(1)] act [OF row_change_ops(2)] act [OF two] act [OF row_change_same [OF refl]]
    show ?thesis using moves steps none
      by (simp add: st f r UploadData_def UploadFinalize_def DownloadChunk_def Delete_def FileDAO_SoftDelete_def Let_def case_prod_unfold)
  next
    case False
    then show ?thesis using none
      by (auto simp: st f UploadData_def UploadFinalize_def DownloadChunk_def Delete_def split: option.splits)
  qed
  then show "acts_for base b v st (fst (UploadData base st i v data off))" "acts_for base b v st (fst (UploadFinalize base st i v))"
    "acts_for base b v st (fst (DownloadChunk base st i v off sz))" "acts_for base b v st (fst (Delete base st i v))" by simp_all
qed

lemma operations_act_too:
  assumes "layout base b st"
  shows "acts_for base b v st (fst (UploadStart base st t v name sz m))" "acts_for base b v st (fst (QueryFiles st u))"
    "acts_for base b v st (fst (GetFileInfo st i))"
proof -
  obtain d s where st: "st = (d, s)" by fastforce
  have ok: "rows_ok d" "disk_ok base b s" using assms by (simp_all add: layout_def st)
  obtain d1 r where f: "FileDAO_FindIncompleteByKey d v (SanitizeFilename name) sz m = (d1, r)" by fastforce
  then have d1: "file_rows d1 = file_rows d" using query_rows(3) [of d v "SanitizeFilename name" sz m] by simp
  have ins: "own_rows (fst (FileDAO_Insert d1 x)) w = own_rows d w" if "fuser_id x \<noteq> w" for x w
    using that d1 by (simp add: FileDAO_Insert_def Let_def case_prod_unfold own_rows_def)
  show "acts_for base b v st (fst (UploadStart base st t v name sz m))"
    using disk_step_refl [OF ok(2)] CreateUserDir_step [OF ok(2), of v]
    by (cases r) (auto simp: st f acts_for_def UploadStart_def Let_def case_prod_unfold ins own_rows_cong [OF d1])
  show "acts_for base b v st (fst (QueryFiles st u))" "acts_for base b v st (fst (GetFileInfo st i))"
    using disk_step_refl [OF ok(2)] own_rows_cong [OF query_rows(1)] own_rows_cong [OF query_rows(2)]
    by (simp_all add: st acts_for_def QueryFiles_def GetFileInfo_def case_prod_unfold Let_def)
qed

section \<open>Handlers\<close>

text \<open>The user whose token a request carries.\<close>

definition actor :: "'j json_ops \<Rightarrow> store \<Rightarrow> Message \<Rightarrow> int" where
  "actor J st req = (case GetToken J req of Inl e \<Rightarrow> -1 | Inr tok \<Rightarrow> snd (VerifyToken (fst st) tok))"

lemma take_arg_acts: "disk_ok base b (snd st) \<Longrightarrow> (\<And>a. acts_for base b v st (fst (k a))) \<Longrightarrow> acts_for base b v st (fst (take_arg st x k))"
  by (simp add: take_arg_def acts_refl split: sum.splits)

lemma take_arg_layout: "acts_for base b v st (fst p) \<Longrightarrow> acts_for base b v st (fst (take_arg (fst p) x (\<lambda>a. if c a then (fst p, f a) else (fst p, g a))))"
  by (simp add: take_arg_def split: sum.splits)

lemma acts_same_rows: "file_rows d' = file_rows (fst st) \<Longrightarrow> acts_for base b v (d', snd st) st' \<Longrightarrow> acts_for base b v st st'"
  by (simp add: acts_for_def own_rows_def)

lemma with_user_acts:
  assumes l: "layout base b st" and k: "\<And>st'. layout base b st' \<Longrightarrow> acts_for base b (actor J st req) st' (fst (k st' (actor J st req)))"
  shows "acts_for base b (actor J st req) st (fst (with_user J st req k))"
proof (cases "GetToken J req")
  case (Inr tok)
  let ?d = "fst (VerifyToken (fst st) tok)" and ?v = "actor J st req"
  have l': "layout base b (?d, snd st)" using l homes.user_service(3) by (simp add: layout_def)
  have "fst (with_user J st req k) = (if ?v \<le> 0 then (?d, snd st) else fst (k (?d, snd st) ?v))"
    by (simp add: with_user_def take_arg_def Inr actor_def Let_def case_prod_unfold)
  moreover have "acts_for base b ?v (?d, snd st) (?d, snd st)" using l' by (simp add: acts_refl layout_def)
  ultimately have "acts_for base b ?v (?d, snd st) (fst (with_user J st req k))" using k [OF l'] by simp
  then show ?thesis by (rule acts_same_rows [rotated]) (rule VerifyToken_data)
qed (use l in \<open>simp add: with_user_def take_arg_def acts_refl layout_def\<close>)

lemma account_rows: "file_rows (fst (Register d e n p)) = file_rows d" "file_rows (fst (Login d e n p)) = file_rows d"
  by (simp_all add: Register_def Login_def UserDAO_FindByUsername_def UserDAO_Insert_def UserDAO_UpdateToken_def Let_def case_prod_unfold
      split: option.splits db_fault.splits)

lemma account_acts: "layout base b st \<Longrightarrow> file_rows d = file_rows (fst st) \<Longrightarrow> acts_for base b v st (d, snd st)"
  by (simp add: acts_for_def layout_def disk_step_refl own_rows_def)

lemma handlers_act:
  assumes l: "layout base b st" and h: "server_router J base cmd = Some h"
  shows "acts_for base b (actor J st req) st (fst (h env st req))"
proof -
  note disk = layout_def [THEN iffD1, THEN conjunct2]
  have a: "acts_for base b v st (fst (handle_register J env st req))" "acts_for base b v st (fst (handle_login J env st req))" for v
    using l by (auto simp: handle_register_def handle_login_def Let_def case_prod_unfold account_rows
        intro!: take_arg_acts [OF disk] account_acts)
  have b: "acts_for base b (actor J st req) st (fst (handle_upload_start J base env st req))"
    "acts_for base b (actor J st req) st (fst (handle_upload_data J base env st req))"
    using l by (auto simp: handle_upload_start_def handle_upload_data_def Let_def case_prod_unfold operations_act operations_act_too
        intro!: with_user_acts take_arg_acts [OF disk])
  have c: "acts_for base b (actor J st req) st (fst (handle_upload_finalize J base env st req))"
    "acts_for base b (actor J st req) st (fst (handle_delete J base env st req))"
    "acts_for base b (actor J st req) st (fst (handle_list J env st req))"
    using l by (auto simp: handle_upload_finalize_def handle_delete_def handle_list_def Let_def case_prod_unfold operations_act operations_act_too
        intro!: with_user_acts take_arg_acts [OF disk])
  have d: "acts_for base b (actor J st req) st (fst (handle_download_chunk J base env st req))"
    using l by (auto simp: handle_download_chunk_def Let_def case_prod_unfold operations_act
        intro!: with_user_acts take_arg_acts [OF disk] take_arg_layout)
  have e: "acts_for base b (actor J st req) st (fst (handle_download J env st req))"
  proof -
    have "acts_for base b v x (fst (case GetFileInfo x i of (st, None) \<Rightarrow> (st, MakeResponse J req (-1) text_no_file [] [])
        | (st, Some info) \<Rightarrow> if fuser_id info \<noteq> v then (st, MakeResponse J req (-1) text_no_file [] []) else (st, g info)))"
      if "layout base b x" for x v i g
      using operations_act_too(3) [OF that, of v i] by (auto split: prod.splits option.splits)
    with l show ?thesis unfolding handle_download_def by (intro with_user_acts take_arg_acts [OF disk]) simp_all
  qed
  show ?thesis using server_router_cases [OF h] a b c d e by auto
qed

lemma Route_acts:
  assumes "layout base b st"
  shows "acts_for base b (actor J st req) st (fst (Route J (server_router J base) env st req))"
    and "layout base b (fst (Route J (server_router J base) env st req))"
proof -
  show acts: "acts_for base b (actor J st req) st (fst (Route J (server_router J base) env st req))"
    using handlers_act [OF assms] assms by (cases "server_router J base (GetCmd J req)") (auto simp: Route_def acts_refl layout_def)
  show "layout base b (fst (Route J (server_router J base) env st req))"
    using acts assms homes.route_keeps [of st J base env req] by (simp add: layout_def acts_for_def disk_step_def)
qed

section \<open>Who does not act for a user\<close>

definition own_part :: "path \<Rightarrow> int \<Rightarrow> store \<Rightarrow> FileInfo list \<times> (path \<rightharpoonup> bytes)" where
  "own_part b u st = (own_rows (fst st) u, own_files b (snd st) u)"

definition answer_one :: "'j json_ops \<Rightarrow> string \<Rightarrow> store \<Rightarrow> req_env \<times> Message \<Rightarrow> store \<times> (cpp_exn + Message)" where
  "answer_one J base st x = Route J (server_router J base) (fst x) st (snd x)"

lemma acts_own_part: "acts_for base b v st st' \<Longrightarrow> v \<noteq> u \<Longrightarrow> own_part b u st' = own_part b u st"
  using home_disjoint [of b u _ v]
  by (fastforce simp: own_part_def acts_for_def disk_step_def own_files_def restrict_map_def)

interpretation users_apart: separation "answer_one J base" "layout base b" "\<lambda>_ _. True" "\<lambda>st x. actor J st (snd x) = u" "own_part b u"
  for J base b u
proof
  fix st x
  assume l: "layout base b st"
  then show "layout base b (fst (answer_one J base st x))" by (simp add: answer_one_def Route_acts)
  assume "actor J st (snd x) \<noteq> u"
  with Route_acts(1) [OF l, of J "snd x" "fst x"] show "own_part b u (fst (answer_one J base st x)) = own_part b u st"
    by (simp add: answer_one_def acts_own_part)
qed

section \<open>What a user gets to see\<close>

text \<open>Two states that differ in the rows and files of others only.\<close>

definition same_db :: "int \<Rightarrow> db \<Rightarrow> db \<Rightarrow> bool" where
  "same_db u d1 d2 \<longleftrightarrow> d2 = d1\<lparr>file_rows := file_rows d2\<rparr> \<and> own_rows d1 u = own_rows d2 u"

definition same_disk :: "path \<Rightarrow> int \<Rightarrow> fs \<Rightarrow> fs \<Rightarrow> bool" where
  "same_disk b u s1 s2 \<longleftrightarrow> s2 = s1\<lparr>files := files s2\<rparr> \<and> own_files b s1 u = own_files b s2 u"

definition same_view :: "path \<Rightarrow> int \<Rightarrow> store \<Rightarrow> store \<Rightarrow> bool" where
  "same_view b u st1 st2 \<longleftrightarrow> same_db u (fst st1) (fst st2) \<and> same_disk b u (snd st1) (snd st2)"

definition agree :: "path \<Rightarrow> int \<Rightarrow> store \<times> 'a \<Rightarrow> store \<times> 'a \<Rightarrow> bool" where
  "agree b u x y \<longleftrightarrow> same_view b u (fst x) (fst y) \<and> snd x = snd y"

subsection \<open>The tables\<close>

lemma same_fields: "same_db u d1 d2 \<Longrightarrow> users d2 = users d1" "same_db u d1 d2 \<Longrightarrow> next_user d2 = next_user d1"
  "same_db u d1 d2 \<Longrightarrow> next_file d2 = next_file d1" "same_db u d1 d2 \<Longrightarrow> collate d2 = collate d1" "same_db u d1 d2 \<Longrightarrow> now d2 = now d1"
  "same_db u d1 d2 \<Longrightarrow> db_faults d2 = db_faults d1"
  unfolding same_db_def by (cases d1; cases d2; simp)+

lemma same_db_rows: "same_db u d (d\<lparr>file_rows := x\<rparr>) \<longleftrightarrow> own_rows d u = filter (\<lambda>r. fuser_id r = u) x"
  by (simp add: same_db_def own_rows_def)

lemma fault_rows: "next_fault (d\<lparr>file_rows := x\<rparr>) = (fst (next_fault d), snd (next_fault d)\<lparr>file_rows := x\<rparr>)"
  by (simp add: next_fault_def split: list.splits)

lemma same_fault: "same_db u d1 d2 \<Longrightarrow> fst (next_fault d2) = fst (next_fault d1)" "same_db u d1 d2 \<Longrightarrow> same_db u (snd (next_fault d1)) (snd (next_fault d2))"
proof -
  assume s: "same_db u d1 d2"
  then have d2: "d2 = d1\<lparr>file_rows := file_rows d2\<rparr>" by (simp add: same_db_def)
  then have n: "next_fault d2 = (fst (next_fault d1), snd (next_fault d1)\<lparr>file_rows := file_rows d2\<rparr>)" by (metis fault_rows)
  then show "fst (next_fault d2) = fst (next_fault d1)" by simp
  show "same_db u (snd (next_fault d1)) (snd (next_fault d2))" using s unfolding n by (simp add: same_db_rows) (simp add: same_db_def own_rows_def)
qed

definition mine :: "int \<Rightarrow> FileInfo option \<Rightarrow> FileInfo option" where
  "mine u x = (case x of Some r \<Rightarrow> if fuser_id r = u then Some r else None | None \<Rightarrow> None)"

lemma one_with_key: "distinct (map fid xs) \<Longrightarrow> filter (\<lambda>r. fid r = i) xs = [] \<or> (\<exists>q. filter (\<lambda>r. fid r = i) xs = [q] \<and> q \<in> set xs)"
  by (induction xs) (auto simp: filter_empty_conv image_iff)

lemma mine_found:
  assumes "files_inv d"
  shows "mine u (snd (FileDAO_FindById d i)) = (if fst (next_fault d) \<noteq> None then None else fetch_file (filter (\<lambda>r. fid r = i) (own_rows d u)))"
proof -
  obtain l where l: "filter (\<lambda>r. fid r = i) (file_rows d) = l" by blast
  have "filter (\<lambda>r. fid r = i) (own_rows d u) = filter (\<lambda>r. fuser_id r = u) l"
    unfolding l [symmetric] own_rows_def filter_filter by (rule filter_cong) auto
  moreover have "l = [] \<or> (\<exists>q. l = [q])" using one_with_key [of "file_rows d" i] assms by (auto simp: files_inv_def l)
  ultimately show ?thesis by (auto simp: FileDAO_FindById_def Let_def case_prod_unfold mine_def fetch_file_def l)
qed

lemma same_found:
  assumes "same_db u d1 d2" and "files_inv d1" and "files_inv d2"
  shows "mine u (snd (FileDAO_FindById d1 i)) = mine u (snd (FileDAO_FindById d2 i))"
    and "same_db u (fst (FileDAO_FindById d1 i)) (fst (FileDAO_FindById d2 i))"
proof -
  show "mine u (snd (FileDAO_FindById d1 i)) = mine u (snd (FileDAO_FindById d2 i))"
    using assms by (simp add: mine_found same_fault(1) [OF assms(1)]) (simp add: same_db_def)
  show "same_db u (fst (FileDAO_FindById d1 i)) (fst (FileDAO_FindById d2 i))"
    using same_fault [OF assms(1)] by (simp add: FileDAO_FindById_def Let_def case_prod_unfold)
qed

lemma own_update: "(\<And>x. fuser_id (g x) = fuser_id x) \<Longrightarrow> own_rows (update_files P g d) u = map (\<lambda>x. if P x then g x else x) (own_rows d u)"
  unfolding own_rows_def update_files_def by (simp add: filter_map o_def if_distrib [of fuser_id] cong: if_cong)

lemma same_update:
  assumes "same_db u d1 d2" and "\<And>x. fuser_id (g x) = fuser_id x"
  shows "same_db u (update_files P g d1) (update_files P g d2)"
proof -
  have "own_rows (update_files P g d1) u = own_rows (update_files P g d2) u"
    using assms(1) by (simp add: own_update assms(2) same_db_def)
  moreover have "d2 = d1\<lparr>file_rows := file_rows d2\<rparr>" using assms(1) by (simp add: same_db_def)
  then have "update_files P g d2 = (update_files P g d1)\<lparr>file_rows := file_rows (update_files P g d2)\<rparr>"
    by (cases d1; cases d2) (simp add: update_files_def)
  ultimately show ?thesis by (simp add: same_db_def)
qed

lemma same_writes:
  assumes "same_db u d1 d2"
  shows "same_db u (fst (FileDAO_UpdateUploadSize d1 i n)) (fst (FileDAO_UpdateUploadSize d2 i n))"
    "same_db u (fst (FileDAO_UpdateStatus d1 i st)) (fst (FileDAO_UpdateStatus d2 i st))"
  using same_fault [OF assms] by (simp_all add: FileDAO_UpdateUploadSize_def FileDAO_UpdateStatus_def Let_def case_prod_unfold same_update)

lemma same_insert:
  assumes s: "same_db u d1 d2"
  shows "same_db u (fst (FileDAO_Insert d1 r)) (fst (FileDAO_Insert d2 r))" and "snd (FileDAO_Insert d1 r) = snd (FileDAO_Insert d2 r)"
proof -
  note f = same_fault [OF s]
  note e = same_fields [OF f(2)]
  have "same_db u (d\<lparr>file_rows := file_rows d @ [x], next_file := k\<rparr>) (d'\<lparr>file_rows := file_rows d' @ [x], next_file := k\<rparr>)"
    if "same_db u d d'" for d d' x k
    using that by (cases d; cases d') (simp add: same_db_def own_rows_def)
  from this [OF f(2)] f e same_fields [OF s] show "same_db u (fst (FileDAO_Insert d1 r)) (fst (FileDAO_Insert d2 r))"
    "snd (FileDAO_Insert d1 r) = snd (FileDAO_Insert d2 r)"
    by (simp_all add: FileDAO_Insert_def Let_def case_prod_unfold)
qed

lemma query_own:
  "snd (FileDAO_FindByUserId d u) = (if fst (next_fault d) \<noteq> None then [] else map file_of_row (takeWhile file_fits
     (rev (sort_key fid (filter (\<lambda>r. status r \<noteq> 2) (own_rows d u))))))"
  "snd (FileDAO_FindIncompleteByKey d u n sz m) = (if fst (next_fault d) \<noteq> None then None else fetch_file (take 1
     (rev (sort_key fid (filter (\<lambda>r. collate d (filename r) = collate d n \<and> filesize r = sz \<and> collate d (md5 r) = collate d m \<and> status r = 0)
       (own_rows d u))))))"
proof -
  have own: "filter P (own_rows d u) = filter (\<lambda>r. fuser_id r = u \<and> P r) (file_rows d)" for P
    unfolding own_rows_def filter_filter by (rule filter_cong) auto
  show "snd (FileDAO_FindByUserId d u) = (if fst (next_fault d) \<noteq> None then [] else map file_of_row (takeWhile file_fits
     (rev (sort_key fid (filter (\<lambda>r. status r \<noteq> 2) (own_rows d u))))))"
    unfolding own by (simp add: FileDAO_FindByUserId_def case_prod_unfold)
  show "snd (FileDAO_FindIncompleteByKey d u n sz m) = (if fst (next_fault d) \<noteq> None then None else fetch_file (take 1
     (rev (sort_key fid (filter (\<lambda>r. collate d (filename r) = collate d n \<and> filesize r = sz \<and> collate d (md5 r) = collate d m \<and> status r = 0)
       (own_rows d u))))))"
    unfolding own by (simp add: FileDAO_FindIncompleteByKey_def case_prod_unfold)
qed

lemma same_queries:
  assumes s: "same_db u d1 d2"
  shows "snd (FileDAO_FindByUserId d1 u) = snd (FileDAO_FindByUserId d2 u)"
    "snd (FileDAO_FindIncompleteByKey d1 u n sz m) = snd (FileDAO_FindIncompleteByKey d2 u n sz m)"
    "same_db u (fst (FileDAO_FindByUserId d1 u)) (fst (FileDAO_FindByUserId d2 u))"
    "same_db u (fst (FileDAO_FindIncompleteByKey d1 u n sz m)) (fst (FileDAO_FindIncompleteByKey d2 u n sz m))"
proof -
  have "own_rows d1 u = own_rows d2 u" using s by (simp add: same_db_def)
  then show "snd (FileDAO_FindByUserId d1 u) = snd (FileDAO_FindByUserId d2 u)"
    "snd (FileDAO_FindIncompleteByKey d1 u n sz m) = snd (FileDAO_FindIncompleteByKey d2 u n sz m)"
    unfolding query_own same_fault(1) [OF s] same_fields(4) [OF s] by simp_all
  show "same_db u (fst (FileDAO_FindByUserId d1 u)) (fst (FileDAO_FindByUserId d2 u))"
    "same_db u (fst (FileDAO_FindIncompleteByKey d1 u n sz m)) (fst (FileDAO_FindIncompleteByKey d2 u n sz m))"
    using same_fault(2) [OF s] by (simp_all add: FileDAO_FindByUserId_def FileDAO_FindIncompleteByKey_def Let_def case_prod_unfold)
qed

lemma user_ops_rows:
  "UserDAO_FindByUsername (d\<lparr>file_rows := x\<rparr>) n = (fst (UserDAO_FindByUsername d n)\<lparr>file_rows := x\<rparr>, snd (UserDAO_FindByUsername d n))"
  "UserDAO_FindByToken (d\<lparr>file_rows := x\<rparr>) t = (fst (UserDAO_FindByToken d t)\<lparr>file_rows := x\<rparr>, snd (UserDAO_FindByToken d t))"
  "UserDAO_Insert (d\<lparr>file_rows := x\<rparr>) r = (fst (UserDAO_Insert d r)\<lparr>file_rows := x\<rparr>, snd (UserDAO_Insert d r))"
  "UserDAO_UpdateToken (d\<lparr>file_rows := x\<rparr>) i t = (fst (UserDAO_UpdateToken d i t)\<lparr>file_rows := x\<rparr>, snd (UserDAO_UpdateToken d i t))"
  by (auto simp: UserDAO_FindByUsername_def UserDAO_FindByToken_def UserDAO_Insert_def UserDAO_UpdateToken_def fault_rows Let_def case_prod_unfold
      split: option.splits db_fault.splits)

lemma account_ops_rows:
  "VerifyToken (d\<lparr>file_rows := x\<rparr>) t = (fst (VerifyToken d t)\<lparr>file_rows := x\<rparr>, snd (VerifyToken d t))"
  "Register (d\<lparr>file_rows := x\<rparr>) e n p = (fst (Register d e n p)\<lparr>file_rows := x\<rparr>, snd (Register d e n p))"
  "Login (d\<lparr>file_rows := x\<rparr>) e n p = (fst (Login d e n p)\<lparr>file_rows := x\<rparr>, snd (Login d e n p))"
  by (simp_all add: VerifyToken_def Register_def Login_def user_ops_rows Let_def case_prod_unfold split: option.splits)

lemma same_accounts:
  assumes "same_db u d1 d2"
  shows "same_db u (fst (VerifyToken d1 t)) (fst (VerifyToken d2 t))" "snd (VerifyToken d2 t) = snd (VerifyToken d1 t)"
    "same_db u (fst (Register d1 e n p)) (fst (Register d2 e n p))" "snd (Register d2 e n p) = snd (Register d1 e n p)"
    "same_db u (fst (Login d1 e n p)) (fst (Login d2 e n p))" "snd (Login d2 e n p) = snd (Login d1 e n p)"
proof -
  obtain x where x: "d2 = d1\<lparr>file_rows := x\<rparr>" using assms by (auto simp: same_db_def)
  then have "own_rows d1 u = filter (\<lambda>r. fuser_id r = u) x" using assms by (simp add: same_db_rows)
  then show "same_db u (fst (VerifyToken d1 t)) (fst (VerifyToken d2 t))" "snd (VerifyToken d2 t) = snd (VerifyToken d1 t)"
    "same_db u (fst (Register d1 e n p)) (fst (Register d2 e n p))" "snd (Register d2 e n p) = snd (Register d1 e n p)"
    "same_db u (fst (Login d1 e n p)) (fst (Login d2 e n p))" "snd (Login d2 e n p) = snd (Login d1 e n p)"
    by (simp_all add: x account_ops_rows same_db_rows own_rows_def account_rows VerifyToken_data)
qed

subsection \<open>The disk\<close>

definition at_home :: "path \<Rightarrow> int \<Rightarrow> fs \<Rightarrow> string \<Rightarrow> bool" where
  "at_home b u s p \<longleftrightarrow> (\<forall>q. resolve s p = Some q \<longrightarrow> prefix (home b u) q)"

lemma same_disk_fields: "same_disk b u s1 s2 \<Longrightarrow> resolve s2 p = resolve s1 p" "same_disk b u s1 s2 \<Longrightarrow> dirs s2 = dirs s1"
  "same_disk b u s1 s2 \<Longrightarrow> dir_st_size s2 = dir_st_size s1" "same_disk b u s1 s2 \<Longrightarrow> cwd s2 = cwd s1"
  unfolding same_disk_def resolve_def by (cases s1; cases s2; simp)+

lemma same_disk_file: "same_disk b u s1 s2 \<Longrightarrow> prefix (home b u) q \<Longrightarrow> map_of (files s2) q = map_of (files s1) q"
  unfolding same_disk_def own_files_def by (metis mem_Collect_eq restrict_in)

lemma same_lookup: "same_disk b u s1 s2 \<Longrightarrow> at_home b u s1 p \<Longrightarrow> lookup_file s2 p = lookup_file s1 p"
  by (cases "resolve s1 p") (auto simp: lookup_file_def at_home_def same_disk_fields same_disk_file)

lemma same_io: "same_disk b u s1 s2 \<Longrightarrow> fst (next_io s2) = fst (next_io s1)" "same_disk b u s1 s2 \<Longrightarrow> same_disk b u (snd (next_io s1)) (snd (next_io s2))"
  unfolding same_disk_def own_files_def next_io_def by (cases s1; cases s2; auto split: list.splits)+

lemma same_put: "same_disk b u s1 s2 \<Longrightarrow> same_disk b u (put_file s1 q c) (put_file s2 q c)"
proof -
  assume s: "same_disk b u s1 s2"
  then have "own_files b (put_file s1 q c) u = own_files b (put_file s2 q c) u"
    by (auto simp: own_files_def restrict_map_def fun_eq_iff same_disk_file)
  with s show ?thesis by (cases s1; cases s2) (simp add: same_disk_def put_file_def)
qed

lemma same_file_ops:
  assumes "same_disk b u s1 s2" and "at_home b u s1 p"
  shows "same_disk b u (create_file s1 p) (create_file s2 p)" "same_disk b u (write_file s1 p off d) (write_file s2 p off d)"
  using assms same_put [OF assms(1)]
  by (auto simp: create_file_def write_file_def same_disk_fields at_home_def same_disk_file split: option.splits)

lemma at_home_frame [simp]: "at_home b u (create_file s q) p = at_home b u s p" "at_home b u (write_file s q off d) p = at_home b u s p"
  "at_home b u (snd (next_io s)) p = at_home b u s p"
  by (simp_all add: at_home_def)

lemma same_WriteChunk:
  assumes s: "same_disk b u s1 s2" and h: "at_home b u s1 (GetAbsolutePath base p)"
  shows "snd (WriteChunk base s2 p d off) = snd (WriteChunk base s1 p d off)"
    and "same_disk b u (fst (WriteChunk base s1 p d off)) (fst (WriteChunk base s2 p d off))"
proof -
  let ?a = "GetAbsolutePath base p" and ?s1 = "snd (next_io s1)" and ?s2 = "snd (next_io s2)"
  have 1: "same_disk b u ?s1 ?s2" "at_home b u ?s1 ?a" using same_io(2) [OF s] h by simp_all
  have 2: "same_disk b u (create_file ?s1 ?a) (create_file ?s2 ?a)" using same_file_ops [OF 1] by simp
  note w = same_file_ops(2) [OF 1] same_file_ops(2) [OF 2, simplified, OF h] same_lookup [OF 1] same_lookup [OF 2, simplified, OF h]
  show "snd (WriteChunk base s2 p d off) = snd (WriteChunk base s1 p d off)"
    "same_disk b u (fst (WriteChunk base s1 p d off)) (fst (WriteChunk base s2 p d off))"
    using 1 2 w by (auto simp: WriteChunk_def Let_def case_prod_unfold same_io(1) [OF s] split: option.splits)
qed

lemma same_reads:
  assumes s: "same_disk b u s1 s2" and h: "at_home b u s1 (GetAbsolutePath base p)"
  shows "snd (ReadChunk base s2 p off sz) = snd (ReadChunk base s1 p off sz)" "snd (GetFileSize base s2 p) = snd (GetFileSize base s1 p)"
    "same_disk b u (fst (ReadChunk base s1 p off sz)) (fst (ReadChunk base s2 p off sz))" "same_disk b u (fst (GetFileSize base s1 p)) (fst (GetFileSize base s2 p))"
proof -
  have 1: "same_disk b u (snd (next_io s1)) (snd (next_io s2))" "at_home b u (snd (next_io s1)) (GetAbsolutePath base p)"
    using same_io(2) [OF s] h by simp_all
  have st: "stat_size (snd (next_io s2)) (GetAbsolutePath base p) = stat_size (snd (next_io s1)) (GetAbsolutePath base p)"
    using 1 by (auto simp: stat_size_def same_disk_fields same_disk_file at_home_def simp del: next_io_snd split: option.splits)
  show "snd (ReadChunk base s2 p off sz) = snd (ReadChunk base s1 p off sz)"
    using same_lookup [OF 1] by (simp add: ReadChunk_def Let_def case_prod_unfold same_io(1) [OF s] split: option.splits)
  show "snd (GetFileSize base s2 p) = snd (GetFileSize base s1 p)"
    using st by (simp add: GetFileSize_def Let_def case_prod_unfold same_io(1) [OF s] split: option.splits)
  show "same_disk b u (fst (ReadChunk base s1 p off sz)) (fst (ReadChunk base s2 p off sz))" "same_disk b u (fst (GetFileSize base s1 p)) (fst (GetFileSize base s2 p))"
    using 1(1) by (auto simp: ReadChunk_def GetFileSize_def Let_def case_prod_unfold split: option.splits)
qed

lemma same_DeleteFile:
  assumes s: "same_disk b u s1 s2" and h: "at_home b u s1 (GetAbsolutePath base p)"
    and d: "\<And>q. resolve s1 (GetAbsolutePath base p) = Some q \<Longrightarrow> q \<notin> set (dirs s1)"
  shows "same_disk b u (fst (DeleteFile base s1 p)) (fst (DeleteFile base s2 p))"
proof -
  let ?s1 = "snd (next_io s1)" and ?s2 = "snd (next_io s2)" and ?a = "GetAbsolutePath base p"
  have 1: "same_disk b u ?s1 ?s2" by (rule same_io(2) [OF s])
  have del: "same_disk b u (x\<lparr>files := AList.delete q (files x)\<rparr>) (y\<lparr>files := AList.delete q (files y)\<rparr>)" if "same_disk b u x y" for x y q
  proof -
    have "own_files b (x\<lparr>files := AList.delete q (files x)\<rparr>) u = own_files b (y\<lparr>files := AList.delete q (files y)\<rparr>) u"
      using same_disk_file [OF that] by (auto simp: own_files_def restrict_map_def fun_eq_iff delete_conv')
    with that show ?thesis by (cases x; cases y) (simp add: same_disk_def)
  qed
  have "same_disk b u (fst (remove_path ?s1 ?a)) (fst (remove_path ?s2 ?a))"
  proof (cases "resolve s1 ?a")
    case (Some q)
    with h have "prefix (home b u) q" by (simp add: at_home_def)
    moreover have "q \<notin> set (dirs s1)" "q \<notin> set (dirs s2)" using d [OF Some] same_disk_fields(2) [OF s] by simp_all
    moreover have "resolve s2 ?a = Some q" using Some same_disk_fields(1) [OF s] by simp
    ultimately show ?thesis using Some del [OF 1, of q] 1 same_disk_file [OF s] by (simp add: remove_path_def)
  qed (use 1 same_disk_fields(1) [OF s] in \<open>simp add: remove_path_def\<close>)
  with 1 show ?thesis by (simp add: DeleteFile_def Let_def case_prod_unfold same_io(1) [OF s])
qed

lemma same_CreateUserDir:
  assumes s: "same_disk b u s1 s2" and ok: "disk_ok base b s1"
  shows "same_disk b u (fst (CreateUserDir base s1 u)) (fst (CreateUserDir base s2 u))"
proof -
  let ?s1 = "snd (next_io s1)" and ?s2 = "snd (next_io s2)" and ?p = "base @ ''/'' @ to_string u"
  have 1: "same_disk b u ?s1 ?s2" by (rule same_io(2) [OF s])
  have ok2: "disk_ok base b ?s1" "disk_ok base b ?s2"
    using ok disk_ok_cong [of ?s1 s1] disk_ok_cong [of ?s2 s1] same_disk_fields(2,4) [OF s] by simp_all
  have m: "map_of (files s2) (home b u) = map_of (files s1) (home b u)" "dirs s2 = dirs s1"
    using same_disk_file [OF s, of "home b u"] same_disk_fields [OF s] by simp_all
  have "same_disk b u (x\<lparr>dirs := ds\<rparr>) (y\<lparr>dirs := ds\<rparr>)" if "same_disk b u x y" for x y ds
    using that by (cases x; cases y) (simp add: same_disk_def own_files_def)
  from this [OF 1] have "same_disk b u (fst (mkdir ?s1 ?p)) (fst (mkdir ?s2 ?p)) \<and> snd (mkdir ?s2 ?p) = snd (mkdir ?s1 ?p)"
    unfolding mkdir_def home_path [OF ok2(1)] home_path [OF ok2(2)] using 1 m by simp
  with 1 show ?thesis by (auto simp: CreateUserDir_def Let_def case_prod_unfold same_io(1) [OF s] split: mkdir_result.splits)
qed

subsection \<open>Operations of the file service\<close>

lemma mine_own:
  assumes "FileDAO_FindById d i = (d1, x)" and "rows_ok d" and "disk_ok base b s" and "mine u x = Some r"
  shows "x = Some r" and "fuser_id r = u" and "homed r" and "at_home b u s (GetAbsolutePath base (filepath r))"
proof -
  show r: "x = Some r" "fuser_id r = u" using assms(4) by (auto simp: mine_def split: option.splits if_splits)
  show h: "homed r" using found_owner(1) [OF assms(2)] assms(1) r by simp
  show "at_home b u s (GetAbsolutePath base (filepath r))" using homed_resolve(1) [OF assms(3) h] r(2) by (simp add: at_home_def)
qed

lemma mine_none: "mine u x = None \<Longrightarrow> x = None \<or> (\<exists>r. x = Some r \<and> fuser_id r \<noteq> u)"
  by (auto simp: mine_def split: option.splits if_splits)

lemma operations_agree:
  assumes v: "same_view b u st1 st2" and l: "layout base b st1" "layout base b st2"
  shows "agree b u (UploadData base st1 i u data off) (UploadData base st2 i u data off)"
    "agree b u (UploadFinalize base st1 i u) (UploadFinalize base st2 i u)"
    "agree b u (DownloadChunk base st1 i u off sz) (DownloadChunk base st2 i u off sz)"
    "agree b u (Delete base st1 i u) (Delete base st2 i u)"
proof -
  obtain d1 s1 d2 s2 where st: "st1 = (d1, s1)" "st2 = (d2, s2)" by fastforce
  obtain e1 x1 e2 x2 where f: "FileDAO_FindById d1 i = (e1, x1)" "FileDAO_FindById d2 i = (e2, x2)" by fastforce
  have ok: "rows_ok d1" "rows_ok d2" "disk_ok base b s1" "disk_ok base b s2" using l by (simp_all add: layout_def st)
  have sd: "same_db u d1 d2" "same_disk b u s1 s2" using v by (simp_all add: same_view_def st)
  have "files_inv d1" "files_inv d2" using ok by (simp_all add: rows_ok_def tables_typed_def)
  from same_found [OF sd(1) this, of i] have m: "mine u x1 = mine u x2" "same_db u e1 e2" by (simp_all add: f)
  have "agree b u (UploadData base st1 i u data off) (UploadData base st2 i u data off)
    \<and> agree b u (UploadFinalize base st1 i u) (UploadFinalize base st2 i u)
    \<and> agree b u (DownloadChunk base st1 i u off sz) (DownloadChunk base st2 i u off sz)
    \<and> agree b u (Delete base st1 i u) (Delete base st2 i u)"
  proof (cases "mine u x1")
    case (Some r)
    note own = mine_own [OF f(1) ok(1,3) Some]
    have x: "x1 = Some r" "x2 = Some r" using own(1) m(1) Some mine_own(1) [OF f(2) ok(2,4), of u r] by simp_all
    note w = same_WriteChunk [OF sd(2) own(4)] same_reads [OF sd(2) own(4)]
      same_DeleteFile [OF sd(2) own(4) homed_resolve(2) [OF ok(3) own(3)]]
    show ?thesis using m(2) w same_writes [OF m(2)] same_writes(1) [OF same_writes(2) [OF m(2)]] sd
      by (simp add: st f x own(2) UploadData_def UploadFinalize_def DownloadChunk_def Delete_def FileDAO_SoftDelete_def Let_def case_prod_unfold agree_def same_view_def)
  next
    case None
    then show ?thesis using mine_none [OF None] mine_none [of u x2] m sd
      by (auto simp: st f UploadData_def UploadFinalize_def DownloadChunk_def Delete_def agree_def same_view_def)
  qed
  then show "agree b u (UploadData base st1 i u data off) (UploadData base st2 i u data off)"
    "agree b u (UploadFinalize base st1 i u) (UploadFinalize base st2 i u)"
    "agree b u (DownloadChunk base st1 i u off sz) (DownloadChunk base st2 i u off sz)"
    "agree b u (Delete base st1 i u) (Delete base st2 i u)" by simp_all
qed

lemma operations_agree_too:
  assumes v: "same_view b u st1 st2" and l: "layout base b st1" "layout base b st2"
  shows "agree b u (UploadStart base st1 t u name sz m) (UploadStart base st2 t u name sz m)"
    "agree b u (QueryFiles st1 u) (QueryFiles st2 u)"
    "mine u (snd (GetFileInfo st1 i)) = mine u (snd (GetFileInfo st2 i))" "same_view b u (fst (GetFileInfo st1 i)) (fst (GetFileInfo st2 i))"
proof -
  obtain d1 s1 d2 s2 where st: "st1 = (d1, s1)" "st2 = (d2, s2)" by fastforce
  have ok: "files_inv d1" "files_inv d2" "disk_ok base b s1" using l by (simp_all add: layout_def st rows_ok_def tables_typed_def)
  have sd: "same_db u d1 d2" "same_disk b u s1 s2" using v by (simp_all add: same_view_def st)
  note q = same_queries [OF sd(1)]
  show "agree b u (QueryFiles st1 u) (QueryFiles st2 u)"
    using q(1,3) sd(2) by (simp add: st QueryFiles_def case_prod_unfold Let_def agree_def same_view_def)
  show "mine u (snd (GetFileInfo st1 i)) = mine u (snd (GetFileInfo st2 i))" "same_view b u (fst (GetFileInfo st1 i)) (fst (GetFileInfo st2 i))"
    using same_found [OF sd(1) ok(1,2)] sd(2) by (simp_all add: st GetFileInfo_def case_prod_unfold Let_def same_view_def)
  obtain e1 x1 e2 x2 where f: "FileDAO_FindIncompleteByKey d1 u (SanitizeFilename name) sz m = (e1, x1)"
    "FileDAO_FindIncompleteByKey d2 u (SanitizeFilename name) sz m = (e2, x2)" by fastforce
  then have x: "x2 = x1" "same_db u e1 e2" using q(2,4) [of "SanitizeFilename name" sz m] by simp_all
  show "agree b u (UploadStart base st1 t u name sz m) (UploadStart base st2 t u name sz m)"
    using x(2) sd same_insert [OF x(2)] same_CreateUserDir [OF sd(2) ok(3)]
    by (cases x1) (simp_all add: st f x(1) UploadStart_def Let_def case_prod_unfold agree_def same_view_def)
qed

subsection \<open>Handlers\<close>

named_theorems agree_intros

lemma agree_reply [agree_intros]: "same_view b u st1 st2 \<Longrightarrow> agree b u (st1, r) (st2, r)"
  by (simp add: agree_def)

lemma agree_if [agree_intros]: "agree b u x y \<Longrightarrow> agree b u x' y' \<Longrightarrow> agree b u (if c then x else x') (if c then y else y')"
  by simp

lemma agree_take [agree_intros]:
  "same_view b u st1 st2 \<Longrightarrow> (\<And>a. agree b u (k1 a) (k2 a)) \<Longrightarrow> agree b u (take_arg st1 x k1) (take_arg st2 x k2)"
  by (simp add: take_arg_def agree_reply split: sum.splits)

lemma agree_then [agree_intros]:
  "agree b u x y \<Longrightarrow> (\<And>st1 st2 r. same_view b u st1 st2 \<Longrightarrow> agree b u (k st1 r) (k st2 r)) \<Longrightarrow>
     agree b u (case x of (st, r) \<Rightarrow> k st r) (case y of (st, r) \<Rightarrow> k st r)"
  by (simp add: agree_def case_prod_unfold)

lemma agree_accounts [agree_intros]:
  assumes "same_view b u st1 st2" and "\<And>e1 e2 r. same_view b u (e1, snd st1) (e2, snd st2) \<Longrightarrow> agree b u (k1 e1 r) (k2 e2 r)"
  shows "agree b u (case Register (fst st1) e n p of (d, r) \<Rightarrow> k1 d r) (case Register (fst st2) e n p of (d, r) \<Rightarrow> k2 d r)"
    "agree b u (case Login (fst st1) e n p of (d, r) \<Rightarrow> k1 d r) (case Login (fst st2) e n p of (d, r) \<Rightarrow> k2 d r)"
  using same_accounts [of u "fst st1" "fst st2"] assms by (simp_all add: same_view_def case_prod_unfold)

lemma agree_user:
  assumes v: "same_view b u st1 st2" and l: "layout base b st1" "layout base b st2" and a: "actor J st1 req \<le> 0 \<or> actor J st1 req = u"
    and k: "\<And>st1 st2. same_view b u st1 st2 \<Longrightarrow> layout base b st1 \<Longrightarrow> layout base b st2 \<Longrightarrow> agree b u (k st1 u) (k st2 u)"
  shows "agree b u (with_user J st1 req k) (with_user J st2 req k)"
proof (cases "GetToken J req")
  case (Inr tok)
  let ?e1 = "fst (VerifyToken (fst st1) tok)" and ?e2 = "fst (VerifyToken (fst st2) tok)"
  have s: "same_view b u (?e1, snd st1) (?e2, snd st2)" "snd (VerifyToken (fst st2) tok) = snd (VerifyToken (fst st1) tok)"
    using same_accounts(1,2) [of u "fst st1" "fst st2" tok] v by (simp_all add: same_view_def)
  have "layout base b (?e1, snd st1)" "layout base b (?e2, snd st2)" using l homes.user_service(3) by (simp_all add: layout_def)
  from k [OF s(1) this] s a show ?thesis
    by (auto simp: with_user_def take_arg_def Inr actor_def Let_def case_prod_unfold intro: agree_reply)
qed (use v in \<open>simp add: with_user_def take_arg_def agree_reply\<close>)

lemma agree_download:
  assumes "same_view b u st1 st2" and "layout base b st1" and "layout base b st2"
  shows "agree b u
    (case GetFileInfo st1 i of (st, None) \<Rightarrow> (st, x) | (st, Some info) \<Rightarrow> if fuser_id info \<noteq> u then (st, x) else (st, g info))
    (case GetFileInfo st2 i of (st, None) \<Rightarrow> (st, x) | (st, Some info) \<Rightarrow> if fuser_id info \<noteq> u then (st, x) else (st, g info))"
proof -
  have "(case GetFileInfo st i of (st, None) \<Rightarrow> (st, x) | (st, Some info) \<Rightarrow> if fuser_id info \<noteq> u then (st, x) else (st, g info))
      = (fst (GetFileInfo st i), case mine u (snd (GetFileInfo st i)) of None \<Rightarrow> x | Some info \<Rightarrow> g info)" for st
    by (auto simp: mine_def case_prod_unfold split: option.splits)
  with operations_agree_too(3,4) [OF assms, of i] show ?thesis by (simp add: agree_def)
qed

lemma handlers_agree:
  assumes v: "same_view b u st1 st2" and l: "layout base b st1" "layout base b st2" and a: "actor J st1 req \<le> 0 \<or> actor J st1 req = u"
    and h: "server_router J base cmd = Some h"
  shows "agree b u (h env st1 req) (h env st2 req)"
proof -
  note ops = operations_agree operations_agree_too(1,2) agree_download
  have "agree b u (handle_register J env st1 req) (handle_register J env st2 req)" "agree b u (handle_login J env st1 req) (handle_login J env st2 req)"
    unfolding handle_register_def handle_login_def Let_def by (intro agree_intros v; simp)+
  moreover have "agree b u (handle_upload_start J base env st1 req) (handle_upload_start J base env st2 req)"
    "agree b u (handle_upload_data J base env st1 req) (handle_upload_data J base env st2 req)"
    "agree b u (handle_upload_finalize J base env st1 req) (handle_upload_finalize J base env st2 req)"
    "agree b u (handle_delete J base env st1 req) (handle_delete J base env st2 req)"
    unfolding handler_defs Let_def by (intro agree_user [OF v l a] agree_intros ops; assumption?)+
  moreover have "agree b u (handle_download J env st1 req) (handle_download J env st2 req)"
    "agree b u (handle_download_chunk J base env st1 req) (handle_download_chunk J base env st2 req)"
    "agree b u (handle_list J env st1 req) (handle_list J env st2 req)"
    unfolding handler_defs Let_def by (intro agree_user [OF v l a] agree_intros ops; assumption?)+
  ultimately show ?thesis using server_router_cases [OF h] by auto
qed

lemma Route_agree:
  assumes "same_view b u st1 st2" and "layout base b st1" "layout base b st2" and "actor J st1 req \<le> 0 \<or> actor J st1 req = u"
  shows "agree b u (Route J (server_router J base) env st1 req) (Route J (server_router J base) env st2 req)"
  using handlers_agree [OF assms] assms(1)
  by (cases "server_router J base (GetCmd J req)") (auto simp: Route_def agree_reply)

interpretation users_confined: confinement "answer_one J base" "layout base b"
  "\<lambda>st x. actor J st (snd x) \<le> 0 \<or> actor J st (snd x) = u" "same_view b u" for J base b u
proof
  fix st and x :: "req_env \<times> Message"
  assume l: "layout base b st"
  then show "layout base b (fst (answer_one J base st x))" by (simp add: answer_one_def Route_acts)
next
  fix st1 st2 and x :: "req_env \<times> Message"
  assume "layout base b st1" "layout base b st2" "same_view b u st1 st2" "actor J st1 (snd x) \<le> 0 \<or> actor J st1 (snd x) = u"
  with Route_agree [of b u st1 st2 base J "snd x" "fst x"]
  show "same_view b u (fst (answer_one J base st1 x)) (fst (answer_one J base st2 x)) \<and> snd (answer_one J base st1 x) = snd (answer_one J base st2 x)"
    by (simp add: answer_one_def agree_def)
qed

section \<open>Two users\<close>

definition two_row :: "int \<Rightarrow> int \<Rightarrow> FileInfo" where
  "two_row i u = sample_file i ''x''\<lparr>fuser_id := u, filepath := to_string u @ ''/t_a''\<rparr>"

definition two_token :: "int \<Rightarrow> string" where
  "two_token u = replicate 31 (CHR ''0'') @ to_string u"

definition two_db :: db where
  "two_db = \<lparr>users = [User_new ''ann'' ''pw''\<lparr>uid := 7, token := two_token 7\<rparr>, User_new ''bob'' ''pw''\<lparr>uid := 8, token := two_token 8\<rparr>],
     next_user = 9, file_rows = [two_row 1 7, two_row 2 8], next_file = 3, collate = id, now = ''2024'', db_faults = []\<rparr>"

definition two_fs :: fs where
  "two_fs = \<lparr>files = [([''srv'', ''7'', ''t_a''], ''abcdef''), ([''srv'', ''8'', ''t_a''], ''secret'')],
     dirs = [[], [''srv''], [''srv'', ''7''], [''srv'', ''8'']], cwd = [], dir_st_size = 4096, io_envs = []\<rparr>"

lemma to_string_8: "to_string 8 = ''8''"
  by (simp add: to_string_def show_base.simps digit_def flip: of_char_eq_iff [where 'a = nat])

lemma two_homed: "homed (two_row i u)"
  by (auto simp: homed_def two_row_def sample_file_def FileInfo_default_def path_component_def)

lemma two_layout: "layout ''/srv'' [''srv''] (two_db, two_fs)"
proof -
  have "list_all (\<lambda>c. \<not> dangerous c) ''a''" by code_simp
  then have t: "tables_typed two_db"
    by (auto simp: tables_typed_def users_inv_def files_inv_def two_db_def two_row_def two_token_def sample_file_def FileInfo_default_def
        User_new_def user_typed_def file_typed_def int32_def to_string_7 to_string_8 hex_digit_def suffix_def list_all_iff)
  have "list_all homed (file_rows two_db)" by (simp add: two_db_def two_homed)
  moreover have "disk_ok ''/srv'' [''srv''] two_fs" by (simp add: disk_ok_def root_dir_def two_fs_def resolve_def)
  ultimately show ?thesis using t by (simp add: layout_def rows_ok_def)
qed

text \<open>User \<open>u\<close> names the file \<open>i\<close>.\<close>

definition two_req :: "string \<Rightarrow> int \<Rightarrow> int \<Rightarrow> Message" where
  "two_req cmd u i = sample_req (JObj [(''cmd'', JStr cmd), (''token'', JStr (two_token u)), (''file_id'', JInt i)])"

lemma two_req_token:
  assumes "u = 7 \<or> u = 8" and "ascii cmd" and "0 \<le> i" and "i < 100"
  shows "GetToken js_ops (two_req cmd u i) = Inr (two_token u)" "GetCmd js_ops (two_req cmd u i) = cmd"
    "js_valid (JObj [(''cmd'', JStr cmd), (''token'', JStr (two_token u)), (''file_id'', JInt i)])"
proof -
  show v: "js_valid (JObj [(''cmd'', JStr cmd), (''token'', JStr (two_token u)), (''file_id'', JInt i)])"
    using assms by (auto simp: two_token_def to_string_7 to_string_8 ascii_def)
  show "GetToken js_ops (two_req cmd u i) = Inr (two_token u)" "GetCmd js_ops (two_req cmd u i) = cmd"
    unfolding two_req_def GetToken_def GetCmd_def sample_req_json [OF v]
    by (simp_all add: js_ops_def js_get_def js_value_def js_string_def)
qed

lemma two_verify: "u = 7 \<or> u = 8 \<Longrightarrow> snd (VerifyToken two_db (two_token u)) = u"
  by (auto simp: VerifyToken_def UserDAO_FindByToken_def next_fault_def two_db_def User_new_def two_token_def to_string_7 to_string_8
      fetch_user_def user_fits_def user_of_row_def)

section \<open>Properties\<close>

text \<open>
  C6: no sequence of requests that carry no token of user \<open>u\<close> changes a row of \<open>u\<close> or a byte below the
  directory of \<open>u\<close>, whatever the requests are, and whatever fails while they are served.
\<close>

theorem server_isolates_users:
  assumes "layout base b st" and "all_along (\<lambda>st x. actor J st (snd x) \<noteq> u) (answer_one J base) st xs"
  shows "own_part b u (fst (handle_all (answer_one J base) st xs)) = own_part b u st"
  using users_apart.serve_respects [OF assms(1), of J u xs] assms(2) by simp

theorem server_isolates_users_witness:
  "own_part [''srv''] 7 (fst (handle_all (answer_one js_ops ''/srv'') (two_db, two_fs) [(sample_env, two_req ''delete'' 8 1)]))
     = own_part [''srv''] 7 (two_db, two_fs)"
proof -
  have "actor js_ops (two_db, two_fs) (two_req ''delete'' 8 1) = 8" by (simp add: actor_def two_req_token two_verify)
  then show ?thesis
    using server_isolates_users [OF two_layout, of js_ops 7 "[(sample_env, two_req ''delete'' 8 1)]"] by simp
qed

text \<open>
  C7: a user sees nothing of the others: if two states of the server differ only in rows and files of
  others, then every sequence of requests that carry a token of \<open>u\<close>, or none that is valid, is answered by the same replies,
  byte for byte, and in particular those that name files of others.
\<close>

theorem server_confines_users:
  assumes "layout base b st1" and "layout base b st2" and "same_view b u st1 st2"
    and "all_along (\<lambda>st x. actor J st (snd x) \<le> 0 \<or> actor J st (snd x) = u) (answer_one J base) st1 xs"
  shows "snd (handle_all (answer_one J base) st1 xs) = snd (handle_all (answer_one J base) st2 xs)"
  using users_confined.serve_consistent [OF assms] by simp

theorem server_confines_users_witness:
  "snd (handle_all (answer_one js_ops ''/srv'') (two_db, two_fs) [(sample_env, two_req ''download'' 7 2)])
     = snd (handle_all (answer_one js_ops ''/srv'')
         (two_db\<lparr>file_rows := [two_row 1 7]\<rparr>, two_fs\<lparr>files := [([''srv'', ''7'', ''t_a''], ''abcdef'')]\<rparr>) [(sample_env, two_req ''download'' 7 2)])"
proof -
  let ?st = "(two_db\<lparr>file_rows := [two_row 1 7]\<rparr>, two_fs\<lparr>files := [([''srv'', ''7'', ''t_a''], ''abcdef'')]\<rparr>)"
  have a: "actor js_ops (two_db, two_fs) (two_req ''download'' 7 2) = 7" by (simp add: actor_def two_req_token two_verify)
  have l: "layout ''/srv'' [''srv''] ?st" using two_layout
    by (auto simp: layout_def rows_ok_def tables_typed_def users_inv_def files_inv_def disk_ok_def root_dir_def resolve_def two_db_def)
  have "same_view [''srv''] 7 (two_db, two_fs) ?st"
    by (auto simp: same_view_def same_db_def same_disk_def own_rows_def own_files_def two_db_def two_fs_def two_row_def sample_file_def FileInfo_default_def
        restrict_map_def fun_eq_iff home_def to_string_7)
  with server_confines_users [OF two_layout l, of 7 js_ops "[(sample_env, two_req ''download'' 7 2)]"] a show ?thesis by simp
qed

end
