(* ===== verification/Interleaving.thy ===== *)
theory Interleaving
  imports Isolation Parallel
begin

text \<open>
  The operations of \<open>FileService\<close> (\<open>services/file_service.cc\<close>) statement by statement, for any number of
  calls at once: a call is a program whose steps are single operations of the data access objects and of
  the file system. A program that runs alone is the operation of \<open>FileService\<close>; what remains true when the
  steps of several calls are mixed is shown at the end.
\<close>

section \<open>Programs\<close>

datatype 'a prog = Result 'a | Stmt "store \<Rightarrow> store \<times> 'a prog"

primrec run_alone :: "'a prog \<Rightarrow> store \<Rightarrow> store \<times> 'a" where
  "run_alone (Result a) = (\<lambda>st. (st, a))"
| "run_alone (Stmt f) = (\<lambda>st. case map_prod id run_alone (f st) of (st, g) \<Rightarrow> g st)"

definition on_tables :: "(db \<Rightarrow> db \<times> 'r) \<Rightarrow> ('r \<Rightarrow> 'a prog) \<Rightarrow> 'a prog" where
  "on_tables f k = Stmt (\<lambda>(d, s). case f d of (d, r) \<Rightarrow> ((d, s), k r))"

definition on_disk :: "(fs \<Rightarrow> fs \<times> 'r) \<Rightarrow> ('r \<Rightarrow> 'a prog) \<Rightarrow> 'a prog" where
  "on_disk f k = Stmt (\<lambda>(d, s). case f s of (s, r) \<Rightarrow> ((d, s), k r))"

lemma run_alone_steps [simp]:
  "run_alone (on_tables f k) (d, s) = run_alone (k (snd (f d))) (fst (f d), s)"
  "run_alone (on_disk g k) (d, s) = run_alone (k (snd (g s))) (d, fst (g s))"
  by (simp_all add: on_tables_def on_disk_def case_prod_unfold)

section \<open>The operations as programs\<close>

datatype call = StartUpload tm string int string | SendData int bytes int | FinishUpload int | ReadData int int nat
  | ListFiles | AskInfo int | RemoveFile int

datatype outcome = Started UploadStartResult | Written int | Finished bool | DataRead "cpp_exn + bytes"
  | Files "FileInfo list" | Info "FileInfo option" | Removed bool

text \<open>\<open>StorageManager::WriteChunk\<close>: open, else create and open again; then seek, write and close.\<close>

definition write_part :: "string \<Rightarrow> io_env \<Rightarrow> bytes \<Rightarrow> int \<Rightarrow> (int \<Rightarrow> 'a prog) \<Rightarrow> 'a prog" where
  "write_part abspath e data off k =
     on_disk (\<lambda>s. if off < 0 \<or> seek_fails e then (s, -1)
       else case write_cut e of
         Some n \<Rightarrow> (write_file s abspath (nat off) (take n data), -1)
       | None \<Rightarrow> (write_file s abspath (nat off) data, int (length data))) k"

definition write_prog :: "string \<Rightarrow> string \<Rightarrow> bytes \<Rightarrow> int \<Rightarrow> (int \<Rightarrow> 'a prog) \<Rightarrow> 'a prog" where
  "write_prog base p data off k =
     (let abspath = GetAbsolutePath base p in
      on_disk (\<lambda>s. let (e, s) = next_io s in (s, e, \<not> open_fails e \<and> lookup_file s abspath \<noteq> None)) (\<lambda>(e, opened).
        if opened then write_part abspath e data off k
        else on_disk (\<lambda>s. let s = (if create_fails e then s else create_file s abspath)
                          in (s, \<not> reopen_fails e \<and> lookup_file s abspath \<noteq> None)) (\<lambda>opened.
               if opened then write_part abspath e data off k else k (-1))))"

fun program_of :: "string \<Rightarrow> int \<Rightarrow> call \<Rightarrow> outcome prog" where
  "program_of base u (StartUpload t name size0 md5sum) =
     (let failed = (\<lambda>i. Result (Started \<lparr>up_file_id = i, up_offset = 0, up_is_resume = False\<rparr>)) in
      if name = [] \<or> size0 \<le> 0 then failed (-1)
      else let safe_name = SanitizeFilename name in
        on_tables (\<lambda>d. FileDAO_FindIncompleteByKey d u safe_name size0 md5sum) (\<lambda>r. case r of
          Some existing \<Rightarrow> Result (Started \<lparr>up_file_id = fid existing, up_offset = upload_size existing, up_is_resume = True\<rparr>)
        | None \<Rightarrow> on_disk (\<lambda>s. CreateUserDir base s u) (\<lambda>_.
            on_tables (\<lambda>d. FileDAO_Insert d (FileInfo_default\<lparr>fuser_id := u, filename := safe_name,
                filepath := GenerateFilepath t u safe_name, filesize := size0, md5 := md5sum, status := 0\<rparr>)) (\<lambda>i.
              if i \<le> 0 then failed (-2) else Result (Started \<lparr>up_file_id = i, up_offset = 0, up_is_resume = False\<rparr>)))))"
| "program_of base u (SendData i data off) =
     on_tables (\<lambda>d. FileDAO_FindById d i) (\<lambda>r. case r of
       None \<Rightarrow> Result (Written (-1))
     | Some info \<Rightarrow>
         if fuser_id info \<noteq> u \<or> \<not> IsUploading info then Result (Written (-1))
         else write_prog base (filepath info) data off (\<lambda>written.
           if written < 0 then Result (Written (-1))
           else on_tables (\<lambda>d. FileDAO_UpdateUploadSize d i (max (upload_size info) (off + written))) (\<lambda>_. Result (Written written))))"
| "program_of base u (FinishUpload i) =
     on_tables (\<lambda>d. FileDAO_FindById d i) (\<lambda>r. case r of
       None \<Rightarrow> Result (Finished False)
     | Some info \<Rightarrow>
         if fuser_id info \<noteq> u then Result (Finished False)
         else on_disk (\<lambda>s. GetFileSize base s (filepath info)) (\<lambda>disk_size.
           if disk_size < filesize info then Result (Finished False)
           else on_tables (\<lambda>d. FileDAO_UpdateStatus d i 1) (\<lambda>_.
             on_tables (\<lambda>d. FileDAO_UpdateUploadSize d i (filesize info)) (\<lambda>_. Result (Finished True)))))"
| "program_of base u (ReadData i off sz) =
     on_tables (\<lambda>d. FileDAO_FindById d i) (\<lambda>r. case r of
       None \<Rightarrow> Result (DataRead (Inr []))
     | Some info \<Rightarrow>
         if fuser_id info \<noteq> u \<or> IsDeleted info then Result (DataRead (Inr []))
         else on_disk (\<lambda>s. ReadChunk base s (filepath info) off sz) (\<lambda>r. Result (DataRead r)))"
| "program_of base u ListFiles = on_tables (\<lambda>d. FileDAO_FindByUserId d u) (\<lambda>rows. Result (Files rows))"
| "program_of base u (AskInfo i) = on_tables (\<lambda>d. FileDAO_FindById d i) (\<lambda>info. Result (Info info))"
| "program_of base u (RemoveFile i) =
     on_tables (\<lambda>d. FileDAO_FindById d i) (\<lambda>r. case r of
       None \<Rightarrow> Result (Removed False)
     | Some info \<Rightarrow>
         if fuser_id info \<noteq> u then Result (Removed False)
         else on_tables (\<lambda>d. FileDAO_SoftDelete d i) (\<lambda>_.
           on_disk (\<lambda>s. DeleteFile base s (filepath info)) (\<lambda>_. Result (Removed True))))"

text \<open>The operation of the service that a call stands for.\<close>

fun perform :: "string \<Rightarrow> store \<Rightarrow> int \<Rightarrow> call \<Rightarrow> store \<times> outcome" where
  "perform base st u (StartUpload t name size0 m) = apsnd Started (UploadStart base st t u name size0 m)"
| "perform base st u (SendData i data off) = apsnd Written (UploadData base st i u data off)"
| "perform base st u (FinishUpload i) = apsnd Finished (UploadFinalize base st i u)"
| "perform base st u (ReadData i off sz) = apsnd DataRead (DownloadChunk base st i u off sz)"
| "perform base st u ListFiles = apsnd Files (QueryFiles st u)"
| "perform base st u (AskInfo i) = apsnd Info (GetFileInfo st i)"
| "perform base st u (RemoveFile i) = apsnd Removed (Delete base st i u)"

lemma write_prog_alone: "run_alone (write_prog base p data off k) (d, s) =
    run_alone (k (snd (WriteChunk base s p data off))) (d, fst (WriteChunk base s p data off))"
  by (auto simp: write_prog_def write_part_def WriteChunk_def Let_def case_prod_unfold split: option.splits)

lemma run_alone_Result [simp]: "run_alone (Result a) st = (st, a)"
  by simp

lemma program_alone: "run_alone (program_of base u c) st = perform base st u c"
proof -
  obtain d s where st: "st = (d, s)" by fastforce
  show ?thesis
    by (cases c) (auto simp: st write_prog_alone UploadStart_def UploadData_def UploadFinalize_def DownloadChunk_def QueryFiles_def GetFileInfo_def
        Delete_def FileDAO_SoftDelete_def Let_def case_prod_unfold apsnd_def split: option.splits)
qed

section \<open>Many calls at once\<close>

text \<open>
  The user of each call and what is left of its program. A step is labelled with the number of the call
  and its user.
\<close>

inductive call_step :: "store \<times> (int \<times> 'a prog) list \<Rightarrow> nat \<times> int \<Rightarrow> store \<times> (int \<times> 'a prog) list \<Rightarrow> bool" where
  Statement: "k < length ts \<Longrightarrow> ts ! k = (v, Stmt f) \<Longrightarrow> f st = (st', p) \<Longrightarrow> call_step (st, ts) (k, v) (st', ts[k := (v, p)])"

inductive_cases call_stepE: "call_step x l y"
inductive_simps call_step_simps: "call_step (st, ts) (k, v) y"

lemma run_call_Cons: "run call_step (st, ts) ((k, v) # ls) z \<longleftrightarrow> k < length ts \<and> (\<exists>f. ts ! k = (v, Stmt f) \<and>
    run call_step (fst (f st), ts[k := (v, snd (f st))]) ls z)" (is "?l \<longleftrightarrow> ?r")
proof
  assume ?l
  then show ?r by (auto simp: run_Cons_iff elim!: call_stepE)
next
  assume ?r
  then obtain f where f: "k < length ts" "ts ! k = (v, Stmt f)" "run call_step (fst (f st), ts[k := (v, snd (f st))]) ls z" by blast
  then have "call_step (st, ts) (k, v) (fst (f st), ts[k := (v, snd (f st))])" by (intro call_step.Statement) simp_all
  then show ?l using f(3) by (rule run_Cons)
qed

lemma run_users: "run call_step x ls z \<Longrightarrow> snd ` set ls \<subseteq> fst ` set (snd x)"
proof (induction rule: run.induct)
  case (run_Cons x l y ls z)
  from run_Cons.hyps(1) obtain k ts v f st st' p where s: "k < length ts" "ts ! k = (v, Stmt f)" "x = (st, ts)" "y = (st', ts[k := (v, p)])" "snd l = v"
    by (auto elim: call_stepE)
  have "(v, Stmt f) \<in> set ts" using s(1,2) nth_mem by metis
  then have "v \<in> fst ` set ts" by force
  moreover have "fst ` set (ts[k := (v, p)]) \<subseteq> insert v (fst ` set ts)" using set_update_subset_insert [of ts k "(v, p)"] by auto
  ultimately have "fst ` set (snd y) \<subseteq> fst ` set (snd x)" "snd l \<in> fst ` set (snd x)" unfolding s(3-5) by auto
  with run_Cons.IH show ?case by auto
qed simp

section \<open>Every call returns\<close>

fun within :: "nat \<Rightarrow> 'a prog \<Rightarrow> bool" where
  "within n (Result a) = True"
| "within 0 (Stmt f) = False"
| "within (Suc n) (Stmt f) = (\<forall>st. within n (snd (f st)))"

definition steps_of :: "'a prog \<Rightarrow> nat" where
  "steps_of p = (LEAST n. within n p)"

lemma within_tables: "(\<And>r. within n (k r)) \<Longrightarrow> within (Suc n) (on_tables f k)" "(\<And>r. within n (k r)) \<Longrightarrow> within (Suc n) (on_disk g k)"
  by (simp_all add: on_tables_def on_disk_def case_prod_unfold)

lemma within_write: "(\<And>r. within n (k r)) \<Longrightarrow> (\<And>r. within (Suc n) (k r)) \<Longrightarrow> within (Suc (Suc (Suc n))) (write_prog base p data off k)"
  by (auto simp: write_prog_def write_part_def Let_def split: prod.splits intro!: within_tables)

lemma program_within: "within 5 (program_of base u c)"
  by (cases c) (auto simp: eval_nat_numeral Let_def split: option.splits intro!: within_tables within_write)

lemma steps_of_step: "within n (Stmt f) \<Longrightarrow> steps_of (snd (f st)) < steps_of (Stmt f) \<and> (\<exists>m. within m (snd (f st)))"
proof -
  assume "within n (Stmt f)"
  then have "within (steps_of (Stmt f)) (Stmt f)" unfolding steps_of_def by (rule LeastI)
  then obtain m where m: "steps_of (Stmt f) = Suc m" "within m (snd (f st))" by (cases "steps_of (Stmt f)"; cases st) simp_all
  then have "steps_of (snd (f st)) \<le> m" unfolding steps_of_def by (intro Least_le)
  with m show ?thesis by auto
qed

definition bounded :: "store \<times> (int \<times> 'a prog) list \<Rightarrow> bool" where
  "bounded x \<longleftrightarrow> (\<forall>t \<in> set (snd x). \<exists>n. within n (snd t))"

definition left_over :: "store \<times> (int \<times> 'a prog) list \<Rightarrow> nat" where
  "left_over x = (\<Sum>t \<in># mset (snd x). steps_of (snd t))"

interpretation calls_end: draining call_step bounded left_over
proof
  fix x y :: "store \<times> (int \<times> 'a prog) list" and l
  assume b: "bounded x" and "call_step x l y"
  then obtain k ts v f st st' p where s: "k < length ts" "ts ! k = (v, Stmt f)" "f st = (st', p)" "x = (st, ts)" "y = (st', ts[k := (v, p)])"
    by (auto elim: call_stepE)
  have "(v, Stmt f) \<in> set ts" using s(1,2) nth_mem by metis
  then obtain n where "within n (Stmt f)" using b s(4) by (auto simp: bounded_def)
  from steps_of_step [OF this, of st] s(3) have p: "steps_of p < steps_of (Stmt f)" "\<exists>m. within m p" by simp_all
  then show "bounded y" using b set_update_subset_insert [of ts k "(v, p)"] by (fastforce simp: s(4,5) bounded_def)
  show "left_over y < left_over x"
    using sum_threads_update [OF s(1), of "\<lambda>t. steps_of (snd t)" "(v, p)"] p(1) s(2) by (simp add: s(4,5) left_over_def)
qed

lemma programs_bounded:
  "bounded (st, map (\<lambda>(v, c). (v, program_of base v c)) cs)" "left_over (st, map (\<lambda>(v, c). (v, program_of base v c)) cs) \<le> 5 * length cs"
proof -
  show "bounded (st, map (\<lambda>(v, c). (v, program_of base v c)) cs)" using program_within by (fastforce simp: bounded_def)
  have "steps_of (program_of base v c) \<le> 5" for v c unfolding steps_of_def by (rule Least_le) (rule program_within)
  then show "left_over (st, map (\<lambda>(v, c). (v, program_of base v c)) cs) \<le> 5 * length cs"
    by (induction cs) (auto simp: left_over_def split: prod.splits, meson add_le_mono)
qed

lemma stuck_results: "stuck call_step (st, ts) \<Longrightarrow> (v, p) \<in> set ts \<Longrightarrow> \<exists>a. p = Result a"
proof (cases p)
  case (Stmt f)
  assume st: "stuck call_step (st, ts)" and "(v, p) \<in> set ts"
  then obtain k where k: "k < length ts" "ts ! k = (v, Stmt f)" using Stmt by (auto simp: in_set_conv_nth)
  obtain st' q where "f st = (st', q)" by fastforce
  from call_step.Statement [OF k this] st show ?thesis unfolding stuck_def by blast
qed simp

section \<open>Programs that stay with their user\<close>

definition owned_ids :: "db \<Rightarrow> int \<Rightarrow> int set" where
  "owned_ids d v = fid ` set (own_rows d v)"

text \<open>What a statement for user \<open>v\<close> may do; rows never vanish, and keep their owners.\<close>

definition good_step :: "string \<Rightarrow> path \<Rightarrow> int \<Rightarrow> store \<Rightarrow> store \<Rightarrow> bool" where
  "good_step base b v st st' \<longleftrightarrow> acts_for base b v st st' \<and> layout base b st' \<and> (\<forall>w. owned_ids (fst st) w \<subseteq> owned_ids (fst st') w)"

text \<open>\<open>F\<close>: files that the program knows to belong to \<open>v\<close>.\<close>

inductive loyal :: "string \<Rightarrow> path \<Rightarrow> int \<Rightarrow> int set \<Rightarrow> 'a prog \<Rightarrow> bool" for base b v where
  Result: "loyal base b v F (Result a)"
| Stmt: "(\<And>st. layout base b st \<Longrightarrow> F \<subseteq> owned_ids (fst st) v \<Longrightarrow> good_step base b v st (fst (f st))
        \<and> (\<exists>F'. F' \<subseteq> owned_ids (fst (fst (f st))) v \<and> loyal base b v F' (snd (f st)))) \<Longrightarrow> loyal base b v F (Stmt f)"

inductive_cases loyal_StmtE: "loyal base b v F (Stmt f)"

lemma loyal_tables:
  assumes "\<And>d. rows_ok d \<Longrightarrow> F \<subseteq> owned_ids d v \<Longrightarrow> rows_ok (fst (f d)) \<and> (\<forall>w. w \<noteq> v \<longrightarrow> own_rows (fst (f d)) w = own_rows d w)
    \<and> (\<forall>w. owned_ids d w \<subseteq> owned_ids (fst (f d)) w) \<and> (\<exists>F'. F' \<subseteq> owned_ids (fst (f d)) v \<and> loyal base b v F' (k (snd (f d))))"
  shows "loyal base b v F (on_tables f k)"
  unfolding on_tables_def
proof (rule loyal.Stmt)
  fix st
  assume l: "layout base b st" and F: "F \<subseteq> owned_ids (fst st) v"
  obtain d s where st: "st = (d, s)" by fastforce
  with assms [of d] l F show "good_step base b v st (fst ((\<lambda>(d, s). case f d of (d, r) \<Rightarrow> ((d, s), k r)) st)) \<and>
      (\<exists>F'. F' \<subseteq> owned_ids (fst (fst ((\<lambda>(d, s). case f d of (d, r) \<Rightarrow> ((d, s), k r)) st))) v \<and>
        loyal base b v F' (snd ((\<lambda>(d, s). case f d of (d, r) \<Rightarrow> ((d, s), k r)) st)))"
    by (simp add: good_step_def acts_for_def layout_def case_prod_unfold disk_step_refl)
qed

lemma loyal_disk:
  assumes "\<And>s. disk_ok base b s \<Longrightarrow> disk_step base b v s (fst (f s))" and "\<And>r. loyal base b v F (k r)"
  shows "loyal base b v F (on_disk f k)"
  unfolding on_disk_def
proof (rule loyal.Stmt)
  fix st
  assume l: "layout base b st" and F: "F \<subseteq> owned_ids (fst st) v"
  obtain d s where st: "st = (d, s)" by fastforce
  have "disk_step base b v s (fst (f s))" using assms(1) l by (simp add: st layout_def)
  then show "good_step base b v st (fst ((\<lambda>(d, s). case f s of (s, r) \<Rightarrow> ((d, s), k r)) st)) \<and>
      (\<exists>F'. F' \<subseteq> owned_ids (fst (fst ((\<lambda>(d, s). case f s of (s, r) \<Rightarrow> ((d, s), k r)) st))) v \<and>
        loyal base b v F' (snd ((\<lambda>(d, s). case f s of (s, r) \<Rightarrow> ((d, s), k r)) st)))"
    using l F assms(2) by (auto simp: st good_step_def acts_for_def layout_def case_prod_unfold disk_step_def)
qed

lemma owned_ids_cong: "file_rows d' = file_rows d \<Longrightarrow> owned_ids d' w = owned_ids d w"
  by (simp add: owned_ids_def own_rows_def)

lemma owned_idsD: "i \<in> owned_ids d v \<Longrightarrow> \<exists>q \<in> set (file_rows d). fid q = i \<and> fuser_id q = v"
  by (auto simp: owned_ids_def own_rows_def)

lemma row_change_owned: "row_change i d d' \<Longrightarrow> owned_ids d' w = owned_ids d w"
proof (unfold row_change_def, elim exE conjE)
  fix g
  assume g: "\<forall>x. fuser_id (g x) = fuser_id x \<and> fid (g x) = fid x" "file_rows d' = map (\<lambda>x. if fid x = i then g x else x) (file_rows d)"
  let ?h = "\<lambda>x. if fid x = i then g x else x"
  have h: "fid (?h x) = fid x" "fuser_id (?h x) = fuser_id x" for x using g(1) by simp_all
  have "own_rows d' w = map ?h (own_rows d w)" unfolding own_rows_def g(2) filter_map o_def h ..
  then show "owned_ids d' w = owned_ids d w" unfolding owned_ids_def by (simp only: set_map image_image h(1))
qed

lemma loyal_query:
  assumes "\<And>d. file_rows (fst (f d)) = file_rows d" and "\<And>d. rows_ok d \<Longrightarrow> rows_ok (fst (f d))" and "\<And>r. loyal base b v F (k r)"
  shows "loyal base b v F (on_tables f k)"
proof (rule loyal_tables)
  fix d assume "rows_ok d" "F \<subseteq> owned_ids d v"
  with assms owned_ids_cong [OF assms(1)] own_rows_cong [OF assms(1)]
  show "rows_ok (fst (f d)) \<and> (\<forall>w. w \<noteq> v \<longrightarrow> own_rows (fst (f d)) w = own_rows d w)
    \<and> (\<forall>w. owned_ids d w \<subseteq> owned_ids (fst (f d)) w) \<and> (\<exists>F'. F' \<subseteq> owned_ids (fst (f d)) v \<and> loyal base b v F' (k (snd (f d))))"
    by (metis order_refl)
qed

lemma loyal_find:
  assumes "\<And>r. homed r \<Longrightarrow> fuser_id r = v \<Longrightarrow> 0 \<le> upload_size r \<Longrightarrow> 0 \<le> filesize r \<Longrightarrow> loyal base b v (insert i F) (k (Some r))"
    and "\<And>x. mine v x = None \<Longrightarrow> loyal base b v F (k x)"
  shows "loyal base b v F (on_tables (\<lambda>d. FileDAO_FindById d i) k)"
proof (rule loyal_tables)
  fix d assume ok: "rows_ok d" and F: "F \<subseteq> owned_ids d v"
  let ?d = "fst (FileDAO_FindById d i)" and ?x = "snd (FileDAO_FindById d i)"
  have "\<exists>F'. F' \<subseteq> owned_ids d v \<and> loyal base b v F' (k ?x)"
  proof (cases "mine v ?x")
    case None
    with assms(2) F show ?thesis by blast
  next
    case (Some r)
    then have x: "?x = Some r" "fuser_id r = v" by (auto simp: mine_def split: option.splits if_splits)
    from found_row [OF x(1)] obtain q where q: "q \<in> set (file_rows d)" "fid q = i" "r = file_of_row q" by auto
    with x(2) have "insert i F \<subseteq> owned_ids d v" using F by (auto simp: owned_ids_def own_rows_def)
    moreover have "homed r" using found_owner(1) [OF ok, of i ?d r] x(1) by (metis prod.collapse)
    ultimately show ?thesis using assms(1) [of r] x homes.lengths [OF ok x(1)] by (intro exI [of _ "insert i F"]) simp
  qed
  with homes.queries(3) [OF ok, of i] owned_ids_cong [OF query_rows(1)] own_rows_cong [OF query_rows(1)]
  show "rows_ok ?d \<and> (\<forall>w. w \<noteq> v \<longrightarrow> own_rows ?d w = own_rows d w)
    \<and> (\<forall>w. owned_ids d w \<subseteq> owned_ids ?d w) \<and> (\<exists>F'. F' \<subseteq> owned_ids ?d v \<and> loyal base b v F' (k ?x))" by simp
qed

lemma loyal_row:
  assumes "i \<in> F" and "\<And>d. row_change i d (fst (f d))" and "\<And>d. rows_ok d \<Longrightarrow> rows_ok (fst (f d))" and "\<And>r. loyal base b v F (k r)"
  shows "loyal base b v F (on_tables f k)"
proof (rule loyal_tables)
  fix d assume ok: "rows_ok d" and F: "F \<subseteq> owned_ids d v"
  with assms(1) owned_idsD obtain q where q: "q \<in> set (file_rows d)" "fid q = i" "fuser_id q = v" by blast
  have "own_rows (fst (f d)) w = own_rows d w" if "w \<noteq> v" for w
    using others_rows [OF assms(2) _ q(1,2)] q(3) that ok by (auto simp: rows_ok_def tables_typed_def)
  with assms(3) [OF ok] assms(4) F row_change_owned [OF assms(2), of d]
  show "rows_ok (fst (f d)) \<and> (\<forall>w. w \<noteq> v \<longrightarrow> own_rows (fst (f d)) w = own_rows d w)
    \<and> (\<forall>w. owned_ids d w \<subseteq> owned_ids (fst (f d)) w) \<and> (\<exists>F'. F' \<subseteq> owned_ids (fst (f d)) v \<and> loyal base b v F' (k (snd (f d))))"
    by (metis order_refl)
qed

lemma loyal_insert:
  assumes "0 < sz" and "\<And>r. loyal base b v F (k r)"
  shows "loyal base b v F (on_tables (\<lambda>d. FileDAO_Insert d (started_row t v name sz m)) k)"
proof (rule loyal_tables)
  fix d assume ok: "rows_ok d" and F: "F \<subseteq> owned_ids d v"
  let ?d = "fst (FileDAO_Insert d (started_row t v name sz m))"
  have "file_rows ?d = file_rows d \<or> (\<exists>x. fuser_id x = v \<and> file_rows ?d = file_rows d @ [x])"
    by (auto simp: FileDAO_Insert_def Let_def case_prod_unfold started_row_def FileInfo_default_def)
  then have "\<forall>w. w \<noteq> v \<longrightarrow> own_rows ?d w = own_rows d w" "\<forall>w. owned_ids d w \<subseteq> owned_ids ?d w"
    by (auto simp: own_rows_def owned_ids_def)
  with homes.insert_file [OF ok assms(1), of t v name m] assms(2) F
  show "rows_ok ?d \<and> (\<forall>w. w \<noteq> v \<longrightarrow> own_rows ?d w = own_rows d w) \<and> (\<forall>w. owned_ids d w \<subseteq> owned_ids ?d w)
    \<and> (\<exists>F'. F' \<subseteq> owned_ids ?d v \<and> loyal base b v F' (k (snd (FileDAO_Insert d (started_row t v name sz m)))))"
    by (metis order_trans)
qed

lemma loyal_write:
  assumes "homed r" and "fuser_id r = v" and "\<And>n. loyal base b v F (k n)"
  shows "loyal base b v F (write_prog base (filepath r) data off k)"
proof -
  let ?a = "GetAbsolutePath base (filepath r)"
  have step: "disk_step base b v s s'" if "disk_ok base b s" "only_at s (resolve s ?a) s'" "dirs s' = dirs s" for s s'
    using disk_step_file [OF that(1) assms(1) that(2,3)] assms(2) by simp
  have part: "loyal base b v F (write_part ?a e data off k)" for e
    unfolding write_part_def using only_at_ops(2) assms(3) by (intro loyal_disk step) (auto split: option.splits)
  have "loyal base b v F (on_disk (\<lambda>s. let s = (if create_fails e then s else create_file s ?a)
        in (s, \<not> reopen_fails e \<and> lookup_file s ?a \<noteq> None)) (\<lambda>opened. if opened then write_part ?a e data off k else k (-1)))" for e
    using only_at_ops(1) part assms(3) by (intro loyal_disk step) (auto simp: Let_def)
  then show ?thesis unfolding write_prog_def Let_def
    using part only_at_ops(3) by (intro loyal_disk step) (auto simp: case_prod_unfold)
qed

lemmas loyal_queries = loyal_query [OF query_rows(2) homes.queries(4)] loyal_query [OF query_rows(3) homes.queries(5)]

lemmas loyal_updates = loyal_row [OF _ row_change_ops(1) homes.new_length] loyal_row [OF _ row_change_ops(2) homes.new_status]

lemma program_loyal: "loyal base b v {} (program_of base v c)"
proof (cases c)
  case (StartUpload t name sz m)
  have dir: "loyal base b v {} (on_disk (\<lambda>s. CreateUserDir base s v) k)" if "\<And>r. loyal base b v {} (k r)" for k :: "bool \<Rightarrow> outcome prog"
    using CreateUserDir_step that by (intro loyal_disk)
  show ?thesis
    by (auto simp: StartUpload Let_def intro!: dir loyal.Result loyal_queries loyal_insert [unfolded started_row_def] split: option.splits)
next
  case (SendData i data off)
  show ?thesis unfolding SendData program_of.simps
  proof (rule loyal_find)
    fix r assume r: "homed r" "fuser_id r = v" "0 \<le> upload_size r"
    then show "loyal base b v {i} (case Some r of None \<Rightarrow> Result (Written (-1)) | Some info \<Rightarrow>
         if fuser_id info \<noteq> v \<or> \<not> IsUploading info then Result (Written (-1))
         else write_prog base (filepath info) data off (\<lambda>written.
           if written < 0 then Result (Written (-1))
           else on_tables (\<lambda>d. FileDAO_UpdateUploadSize d i (max (upload_size info) (off + written))) (\<lambda>_. Result (Written written))))"
      by (auto intro!: loyal.Result loyal_write loyal_updates max.coboundedI1)
  qed (auto dest!: mine_none intro: loyal.Result)
qed (auto dest!: mine_none simp: disk_steps FileDAO_SoftDelete_def intro!: loyal.Result loyal_find loyal_queries loyal_disk loyal_updates)

section \<open>Properties\<close>

text \<open>Every call that is under way is loyal to its user, with files that really belong to the user.\<close>

definition calls_inv :: "string \<Rightarrow> path \<Rightarrow> store \<times> (int \<times> 'a prog) list \<Rightarrow> bool" where
  "calls_inv base b x \<longleftrightarrow> layout base b (fst x) \<and> (\<forall>(v, p) \<in> set (snd x). \<exists>F. F \<subseteq> owned_ids (fst (fst x)) v \<and> loyal base b v F p)"

lemma call_step_good:
  assumes "calls_inv base b x" and "call_step x l y"
  shows "calls_inv base b y" and "good_step base b (snd l) (fst x) (fst y)"
proof -
  from assms(2) obtain k v ts f st st' p where s: "k < length ts" "ts ! k = (v, Stmt f)" "f st = (st', p)" "x = (st, ts)" "y = (st', ts[k := (v, p)])" "snd l = v"
    by (auto elim: call_stepE)
  have l: "layout base b st" using assms(1) s(4) by (simp add: calls_inv_def)
  have "(v, Stmt f) \<in> set ts" using s(1,2) nth_mem by metis
  with assms(1) s(4) obtain F where F: "F \<subseteq> owned_ids (fst st) v" "loyal base b v F (Stmt f)" by (auto simp: calls_inv_def)
  have "good_step base b v st (fst (f st)) \<and> (\<exists>F'. F' \<subseteq> owned_ids (fst (fst (f st))) v \<and> loyal base b v F' (snd (f st)))"
    by (rule loyal_StmtE [OF F(2)]) (use l F(1) in blast)
  then have g: "good_step base b v st st'" "\<exists>F'. F' \<subseteq> owned_ids (fst st') v \<and> loyal base b v F' p" by (simp_all add: s(3))
  show "good_step base b (snd l) (fst x) (fst y)" using g(1) s by simp
  have "\<exists>F. F \<subseteq> owned_ids (fst st') w \<and> loyal base b w F q" if "(w, q) \<in> set (ts[k := (v, p)])" for w q
  proof (cases "(w, q) \<in> set ts")
    case True
    with assms(1) s(4) obtain F where "F \<subseteq> owned_ids (fst st) w" "loyal base b w F q" by (auto simp: calls_inv_def)
    with g(1) show ?thesis by (meson good_step_def order_trans)
  next
    case False
    with that have "(w, q) = (v, p)" using set_update_subset_insert [of ts k "(v, p)"] by blast
    with g(2) show ?thesis by simp
  qed
  with g(1) show "calls_inv base b y" by (auto simp: s(5) calls_inv_def good_step_def)
qed

interpretation calls: invariant call_step "calls_inv base b" for base b
  by unfold_locales (rule call_step_good)

lemma run_apart: "run call_step x ls y \<Longrightarrow> calls_inv base b x \<Longrightarrow> u \<notin> snd ` set ls \<Longrightarrow> own_part b u (fst y) = own_part b u (fst x)"
proof (induction rule: run.induct)
  case (run_Cons x l y ls z)
  with call_step_good [OF run_Cons.prems(1) run_Cons.hyps(1)] show ?case by (auto simp: good_step_def acts_own_part)
qed simp



text \<open>
  \<open>UploadFinalize\<close> reads the row and looks at the file before it sets the status. When the owner deletes the
  file in between, both calls report success, and the row of the deleted file is that of a complete one:
  it is listed, and every download of it fails.
\<close>

lemma stored_deleted:
  assumes "healthy s" and "stored base s p = Some c"
  shows "stored base (fst (DeleteFile base s p)) p = None" and "healthy (fst (DeleteFile base s p))"
proof -
  obtain q where q: "resolve s (GetAbsolutePath base p) = Some q" "map_of (files s) q = Some c"
    using assms(2) by (auto simp: stored_def lookup_file_def split: bind_splits)
  then have "fst (DeleteFile base s p) = s\<lparr>files := AList.delete q (files s)\<rparr>"
    using assms(1) by (simp add: DeleteFile_def healthy_def next_io_none io_ok_def remove_path_def)
  moreover have "resolve (s\<lparr>files := AList.delete q (files s)\<rparr>) x = resolve s x" for x by (simp add: resolve_def)
  ultimately show "stored base (fst (DeleteFile base s p)) p = None" "healthy (fst (DeleteFile base s p))"
    using q assms(1) by (simp_all add: stored_def lookup_file_def healthy_def delete_conv')
qed

lemma finalize_revives_deleted:
  assumes o: "owned (d, s) i u r" and c: "stored base s (filepath r) = Some c" and f: "filesize r \<le> int (length c)"
  shows "\<exists>st. run call_step ((d, s), [(u, program_of base u (FinishUpload i)), (u, program_of base u (RemoveFile i))])
      [(0, u), (0, u), (1, u), (1, u), (1, u), (0, u), (0, u)] (st, [(u, Result (Finished True)), (u, Result (Removed True))])
    \<and> owned st i u (r\<lparr>status := 1, upload_size := filesize r\<rparr>) \<and> stored base (snd st) (filepath r) = None"
proof -
  have found: "FileDAO_FindById d i = (d, Some r)" and h: "healthy s" and own: "fuser_id r = u"
    using o by (simp_all add: owned_def ftab.get)
  have sz: "GetFileSize base s (filepath r) = (s, int (length c))" using GetFileSize_stored [OF h c] .
  let ?d1 = "fst (FileDAO_UpdateStatus d i 2)" and ?s1 = "fst (DeleteFile base s (filepath r))"
  let ?d2 = "fst (FileDAO_UpdateUploadSize (fst (FileDAO_UpdateStatus ?d1 i 1)) i (filesize r))"
  have "owned (?d2, ?s1) i u (r\<lparr>status := 2\<rparr>\<lparr>status := 1\<rparr>\<lparr>upload_size := filesize r\<rparr>)"
    using o ftab.set_status_row [of d i 2] ftab.set_status_row [of ?d1 i 1]
      ftab.set_size_row [of "fst (FileDAO_UpdateStatus ?d1 i 1)" i "filesize r"] stored_deleted(2) [OF h c] by (simp add: owned_def)
  then show ?thesis
    using stored_deleted(1) [OF h c] f
    by (intro exI [of _ "(?d2, ?s1)"]) (simp add: run_call_Cons on_tables_def on_disk_def found sz own FileDAO_SoftDelete_def case_prod_unfold)
qed

end
