(* ===== verification/Standalone.thy ===== *)
theory Standalone
  imports Startup ServerProcess Isolation
begin

text \<open>
  The \<open>main\<close> of the stand-alone server (\<open>gateway/bin/server_main.cc\<close>): configuration, storage root and
  start, and what then holds of its tables and its disk for as long as it runs. Also what the two
  service processes with a disk set up.
\<close>

section \<open>Starting\<close>

definition server_database :: "environment \<Rightarrow> db_settings" where
  "server_database env = database_settings env 8"

definition server_main :: "environment \<Rightarrow> nat \<Rightarrow> db \<Rightarrow> fs \<Rightarrow> server_process" where
  "server_main env hardware_concurrency d s =
     (let storage = StorageManager_new s (storage_root_setting env) in server_start hardware_concurrency (d, storage))"

definition file_service_setup :: "environment \<Rightarrow> fs \<Rightarrow> db_settings \<times> fs" where
  "file_service_setup env s = (database_settings env 4, StorageManager_new s (storage_root_setting env))"

definition storage_service_setup :: "environment \<Rightarrow> fs \<Rightarrow> fs" where
  "storage_service_setup env s = StorageManager_new s (storage_root_setting env)"

section \<open>While it runs\<close>

lemma ProcessTask_tables: "fst (ProcessTask J r env up st t) = fst (Route J r env st (request t))"
  by (simp add: ProcessTask_def case_prod_unfold split: sum.splits)

lemma server_step_layout: "layout base b (tables s) \<Longrightarrow> server_step J base s e s' \<Longrightarrow> layout base b (tables s')"
proof (erule server_step.cases)
  fix i s0 t env st out w
  assume "layout base b (tables s)" "s = s0"
    "ProcessTask J (server_router J base) env (task_conn t \<in> online s0) (tables s0) t = (st, out)"
    "s' = s0\<lparr>tables := st, io := w\<lparr>task_pool := finish_task (task_pool w) i t\<rparr>\<rparr>"
  with Route_acts(2) [of base b "tables s0" J env "request t"] ProcessTask_tables [of J "server_router J base" env "task_conn t \<in> online s0" "tables s0" t]
  show ?thesis by simp
qed simp_all

interpretation kept: invariant "server_step J base" "\<lambda>s. layout base b (tables s)" for J base b
  by unfold_locales (rule server_step_layout)

text \<open>The storage root can be created, or is there, and nothing but directories of users is in it.\<close>

definition usable_root :: "string \<Rightarrow> path \<Rightarrow> fs \<Rightarrow> bool" where
  "usable_root base b s \<longleftrightarrow> base \<noteq> [] \<and> last base \<noteq> CHR ''/'' \<and> resolve s base = Some b \<and> b \<noteq> []
     \<and> (b \<in> set (dirs s) \<or> butlast b \<in> set (dirs s) \<and> map_of (files s) b = None)
     \<and> (\<forall>x y. b @ [x, y] \<notin> set (dirs s)) \<and> \<not> call_fails (fst (next_io s))"

lemma StorageManager_root:
  assumes "usable_root base b s"
  shows "disk_ok base b (StorageManager_new s base)"
proof -
  let ?s = "snd (next_io s)"
  have str: "strip_slashes base = base" using assms by (intro strip_slashes_id) (simp_all add: usable_root_def)
  have r: "resolve ?s base = Some b" using assms by (simp add: usable_root_def)
  have "StorageManager_new s base = fst (mkdir ?s base)"
    using assms by (simp add: StorageManager_new_def Let_def case_prod_unfold usable_root_def)
  moreover have "disk_ok base b (fst (mkdir ?s base))"
    unfolding mkdir_def str r using assms r resolve_add_dir [OF r, of b]
    by (auto simp: disk_ok_def root_dir_def usable_root_def)
  ultimately show ?thesis by simp
qed

section \<open>Without a root\<close>

lemma walk_none: "walk ds cur xs = None \<Longrightarrow> walk ds cur (xs @ ys) = None"
  by (induction ds cur xs rule: walk.induct) (auto split: if_splits)

lemma resolve_below_missing:
  assumes "base \<noteq> []" and "last base \<noteq> CHR ''/''" and "resolve s base = None" and "p \<noteq> []" and "hd p \<noteq> CHR ''/''"
  shows "resolve s (GetAbsolutePath base p) = None"
proof -
  have "split_on (CHR ''/'') (base @ ''/'' @ p) = split_on (CHR ''/'') base @ split_on (CHR ''/'') p"
    by (simp add: split_on_append)
  with assms walk_none show ?thesis by (auto simp: GetAbsolutePath_def resolve_def split: if_splits)
qed

lemma missing_root_stays: "resolve s base = None \<Longrightarrow> last base \<noteq> CHR ''/'' \<Longrightarrow> base \<noteq> [] \<Longrightarrow> dirs (StorageManager_new s base) = dirs s"
proof -
  assume a: "resolve s base = None" "last base \<noteq> CHR ''/''" "base \<noteq> []"
  then have str: "strip_slashes base = base" by (intro strip_slashes_id)
  have r: "resolve (snd (next_io s)) base = None" using a by simp
  have "mkdir (snd (next_io s)) base = (snd (next_io s), MkdirError)" unfolding mkdir_def str r by simp
  then show ?thesis by (simp add: StorageManager_new_def Let_def case_prod_unfold)
qed

text \<open>
  The constructor of \<open>StorageManager\<close> creates one directory and ignores a failure, and \<open>UploadStart\<close> ignores
  the result of \<open>CreateUserDir\<close>: with a root whose parent is missing the server starts, accepts uploads and
  refuses every chunk.
\<close>

lemma uploads_without_root:
  assumes "resolve s base = None" and "last base \<noteq> CHR ''/''" and "base \<noteq> []"
    and "FileDAO_FindById d i = (d1, Some r)" and "homed r"
  shows "snd (UploadData base (d, s) i u data off) = -1"
    and "snd (UploadStart base (d, s) t u name sz m) = snd (UploadStart base (d, s') t u name sz m)"
proof -
  have p: "filepath r \<noteq> []" "hd (filepath r) \<noteq> CHR ''/''"
    using assms(5) to_string_no_sep(1) [of "fuser_id r"] hd_in_set [OF to_string_nonempty, of "fuser_id r"]
    by (auto simp: homed_def hd_append simp del: hd_in_set)
  have none: "resolve s (GetAbsolutePath base (filepath r)) = None" using resolve_below_missing [OF assms(3,2,1) p] .
  have "snd (WriteChunk base s (filepath r) data off) = -1"
    using none by (simp add: WriteChunk_def Let_def case_prod_unfold lookup_file_def)
  then show "snd (UploadData base (d, s) i u data off) = -1"
    by (auto simp: UploadData_def assms(4) case_prod_unfold Let_def)
  show "snd (UploadStart base (d, s) t u name sz m) = snd (UploadStart base (d, s') t u name sz m)"
    by (auto simp: UploadStart_def Let_def case_prod_unfold split: option.splits)
qed

section \<open>Property\<close>


definition fresh_fs :: fs where
  "fresh_fs = \<lparr>files = [], dirs = [[], [''storage'']], cwd = [], dir_st_size = 4096, io_envs = []\<rparr>"


end
