(* ===== verification/GatewayUsers.thy ===== *)
theory GatewayUsers
  imports Flows Isolation
begin

text \<open>
  The users of the deployment of services: what requests to the gateway (\<open>gateway/bin/gateway_main.cc\<close>)
  can do to the rows and files of a user whose token they do not carry. Each remote method is shown to act
  for the user it names only, then each handler, and the locale \<open>separation\<close> extends this to sequences.
\<close>

section \<open>Tables and disks\<close>

definition cluster_layout :: "string \<Rightarrow> path \<Rightarrow> cluster \<Rightarrow> bool" where
  "cluster_layout root b w \<longleftrightarrow> rows_ok (cdb w) \<and> progress (cdb w) \<and> disk_ok root b (storage_disk w)
     \<and> (\<forall>s. file_disk w = Some s \<longrightarrow> disk_ok root b s)"

definition call_for :: "string \<Rightarrow> path \<Rightarrow> int \<Rightarrow> cluster \<Rightarrow> cluster \<Rightarrow> bool" where
  "call_for root b v w w' \<longleftrightarrow> (\<forall>u. u \<noteq> v \<longrightarrow> own_rows (cdb w') u = own_rows (cdb w) u)
     \<and> disk_step root b v (storage_disk w) (storage_disk w') \<and> rel_option (disk_step root b v) (file_disk w) (file_disk w')"

definition rows_tracked :: "db \<Rightarrow> bool" where
  "rows_tracked d \<longleftrightarrow> rows_ok d \<and> tables_tracked d"

interpretation kept_rows: confirmed_writes rows_tracked
proof
  fix d i u off and sz :: int
  assume d: "rows_tracked d" and sz: "0 < sz"
  have "list_all homed (file_rows (fst (FileDAO_ConfirmUploadChunk d i u off sz)))"
    using d by (auto simp: rows_tracked_def rows_ok_def FileDAO_ConfirmUploadChunk_def Let_def case_prod_unfold query_rows update_files_def
        list_all_iff homed_def split: option.splits)
  with d sz tracked.confirm [of d sz i u off] show "rows_tracked (fst (FileDAO_ConfirmUploadChunk d i u off sz))"
    by (simp add: rows_tracked_def rows_ok_def tables_tracked_def)
qed (simp_all add: rows_tracked_def homes.fault homes.insert_user homes.new_token homes.insert_file homes.new_status
    tracked.fault tracked.insert_user tracked.new_token tracked.insert_file tracked.new_status)

lemma layout_tracked: "cluster_layout root b w \<Longrightarrow> rows_tracked (cdb w)"
  by (simp add: cluster_layout_def rows_tracked_def tables_tracked_def rows_ok_def)

lemma call_for_refl [simp]: "cluster_layout root b w \<Longrightarrow> call_for root b v w w"
  by (auto simp: call_for_def cluster_layout_def disk_step_refl intro!: option.rel_refl_strong)

lemma call_for_layout: "call_for root b v w w' \<Longrightarrow> rows_tracked (cdb w') \<Longrightarrow> cluster_layout root b w'"
  by (auto simp: call_for_def cluster_layout_def disk_step_def rows_tracked_def tables_tracked_def option_rel_Some2)

lemma disk_step_trans: "disk_step root b v s s1 \<Longrightarrow> disk_step root b v s1 s2 \<Longrightarrow> disk_step root b v s s2"
  by (simp add: disk_step_def)

lemma call_for_trans: "call_for root b v w w1 \<Longrightarrow> call_for root b v w1 w2 \<Longrightarrow> call_for root b v w w2"
  by (auto simp: call_for_def option.rel_sel intro: disk_step_trans)

lemma call_for_outcomes [simp]:
  "call_for root b v (w\<lparr>outcomes := xs\<rparr>) w' = call_for root b v w w'" "call_for root b v w (w'\<lparr>outcomes := xs\<rparr>) = call_for root b v w w'"
  "cluster_layout root b (w\<lparr>outcomes := xs\<rparr>) = cluster_layout root b w"
  by (simp_all add: call_for_def cluster_layout_def)

section \<open>Operations over the cluster\<close>

lemma on_db_for: "cluster_layout root b w \<Longrightarrow> (\<And>u. u \<noteq> v \<Longrightarrow> own_rows (fst (f (cdb w))) u = own_rows (cdb w) u) \<Longrightarrow> call_for root b v w (fst (on_db w f))"
  by (auto simp: on_db_def case_prod_unfold call_for_def cluster_layout_def disk_step_refl intro!: option.rel_refl_strong)

lemma on_storage_for: "cluster_layout root b w \<Longrightarrow> disk_step root b v (storage_disk w) (fst (f (storage_disk w))) \<Longrightarrow> call_for root b v w (fst (on_storage w f))"
  by (auto simp: on_storage_def case_prod_unfold call_for_def cluster_layout_def disk_step_refl intro!: option.rel_refl_strong)

lemma on_files_for:
  assumes l: "cluster_layout root b w" and f: "\<And>st. layout root b st \<Longrightarrow> acts_for root b v st (fst (f st))"
  shows "call_for root b v w (fst (on_files w f))"
proof -
  have "layout root b (cdb w, disk_of_files w)"
    using l by (auto simp: layout_def cluster_layout_def disk_of_files_def split: option.splits)
  from f [OF this] l show ?thesis
    by (auto simp: on_files_def put_disk_of_files_def disk_of_files_def case_prod_unfold call_for_def acts_for_def cluster_layout_def
        disk_step_refl split: option.splits)
qed

section \<open>Methods that change nothing of a user\<close>

lemma db_reads_for: "cluster_layout root b w \<Longrightarrow> file_rows (fst (f (cdb w))) = file_rows (cdb w) \<Longrightarrow> call_for root b v w (fst (on_db w f))"
  by (rule on_db_for) (auto intro: own_rows_cong)

lemma user_methods_for:
  assumes l: "cluster_layout root b w"
  shows "call_for root b v w (fst (rpc_Register J e w args))" "call_for root b v w (fst (rpc_Login J e w args))"
    "call_for root b v w (fst (rpc_VerifyToken J w args))"
proof -
  have t: "file_rows (fst (VerifyToken d tok)) = file_rows d" for d tok
    by (simp add: VerifyToken_def UserDAO_FindByToken_def Let_def case_prod_unfold split: option.splits)
  have "call_for root b v w (fst (on_db w (\<lambda>d. VerifyToken d tok)))" "call_for root b v w (fst (on_db w (\<lambda>d. Register d e n p)))"
    "call_for root b v w (fst (on_db w (\<lambda>d. Login d e n p)))" for tok n p
    by (rule db_reads_for [OF l], rule t account_rows)+
  then show "call_for root b v w (fst (rpc_Register J e w args))" "call_for root b v w (fst (rpc_Login J e w args))"
    "call_for root b v w (fst (rpc_VerifyToken J w args))"
    using l by (simp_all add: rpc_Register_def rpc_Login_def rpc_VerifyToken_def bind_arg_split case_prod_unfold split: sum.splits)
qed

lemma find_for: "cluster_layout root b w \<Longrightarrow> call_for root b v w (fst (on_db w (\<lambda>d. FileDAO_FindById d i)))"
  by (rule db_reads_for) (simp_all add: query_rows)

lemma validate_for: "cluster_layout root b w \<Longrightarrow> call_for root b v w (fst (validate_chunk J w args))"
  by (simp add: find_for validate_chunk_def bind_arg_split case_prod_unfold split: sum.splits option.splits)

lemma reading_methods_for:
  assumes l: "cluster_layout root b w"
  shows "call_for root b v w (fst (rpc_GetFileInfo J w args))" "call_for root b v w (fst (rpc_QueryFiles J w args))"
    "call_for root b v w (fst (rpc_PrepareUploadChunk J w args))" "call_for root b v w (fst (rpc_GetFileSize J root w args))"
    "call_for root b v w (fst (rpc_ReadChunk J root w args))"
proof -
  have d: "disk_ok root b (storage_disk w)" using l by (simp add: cluster_layout_def)
  have r: "disk_step root b v (storage_disk w) (fst (GetFileSize root (storage_disk w) p))"
    "disk_step root b v (storage_disk w) (fst (ReadChunk root (storage_disk w) p off n))" for p off n
    using d disk_ok_cong [OF reads_dirs(2), of root "storage_disk w" p root b] disk_ok_cong [OF reads_dirs(1), of root "storage_disk w" p off n root b]
      reads_only_at(2) [of "storage_disk w" None root p] reads_only_at(1) [of "storage_disk w" None root p off n]
    by (simp_all add: disk_step_def only_at_def)
  have files: "call_for root b v w (fst (on_files w (\<lambda>st. GetFileInfo st i)))" "call_for root b v w (fst (on_files w (\<lambda>st. QueryFiles st u)))" for i u
    by (rule on_files_for [OF l], erule operations_act_too)+
  show "call_for root b v w (fst (rpc_GetFileInfo J w args))" "call_for root b v w (fst (rpc_QueryFiles J w args))"
    using l files by (simp_all add: rpc_GetFileInfo_def rpc_QueryFiles_def bind_arg_split case_prod_unfold split: sum.splits)
  show "call_for root b v w (fst (rpc_PrepareUploadChunk J w args))"
    using validate_for [OF l, of v J args] by (simp add: rpc_PrepareUploadChunk_def bind_arg_split case_prod_unfold split: sum.splits)
  have disk: "call_for root b v w (fst (on_storage w (\<lambda>s. GetFileSize root s p)))" "call_for root b v w (fst (on_storage w (\<lambda>s. ReadChunk root s p off n)))"
    for p off n by (rule on_storage_for [OF l], rule r)+
  show "call_for root b v w (fst (rpc_GetFileSize J root w args))" "call_for root b v w (fst (rpc_ReadChunk J root w args))"
    using l disk by (simp_all add: rpc_GetFileSize_def rpc_ReadChunk_def bind_arg_split case_prod_unfold split: sum.splits)
qed

section \<open>Methods that act for a user\<close>

text \<open>However the number is read, the arguments name the user \<open>v\<close>.\<close>

definition names_user :: "'j json_ops \<Rightarrow> 'j \<Rightarrow> int \<Rightarrow> bool" where
  "names_user J args v \<longleftrightarrow> value_int J args ''user_id'' 0 = Inr v \<and> at_int J args ''user_id'' = Inr v \<and> index_int J args ''user_id'' = Inr v"

lemma names_user_den: "json_ok J \<Longrightarrow> distinct (map fst kvs) \<Longrightarrow> map_of kvs ''user_id'' = Some (JInt v) \<Longrightarrow> i64 v \<Longrightarrow> names_user J (den J (JObj kvs)) v"
  by (simp add: names_user_def json_intD)

lemma direct_methods_for:
  assumes l: "cluster_layout root b w" and v: "names_user J args v"
  shows "call_for root b v w (fst (rpc_UploadStart J root t w args))" "call_for root b v w (fst (rpc_Delete J root w args))"
proof -
  have "call_for root b v w (fst (on_files w (\<lambda>st. UploadStart root st t v name sz m)))" "call_for root b v w (fst (on_files w (\<lambda>st. Delete root st i v)))"
    for name sz m i by (rule on_files_for [OF l], erule operations_act_too operations_act)+
  then show "call_for root b v w (fst (rpc_UploadStart J root t w args))" "call_for root b v w (fst (rpc_Delete J root w args))"
    using l v by (simp_all add: names_user_def rpc_UploadStart_def rpc_Delete_def bind_arg_split case_prod_unfold split: sum.splits)
qed

lemma confirm_own: "u \<noteq> v \<Longrightarrow> own_rows (fst (FileDAO_ConfirmUploadChunk d i v off sz)) u = own_rows d u"
proof -
  assume "u \<noteq> v"
  then have "own_rows (update_files (\<lambda>r. fid r = i \<and> fuser_id r = v \<and> status r = 0 \<and> upload_size r = off \<and> off + sz \<le> filesize r)
      (upload_size_update (\<lambda>_. off + sz)) x) u = own_rows x u" for x
    unfolding own_rows_def update_files_def by (simp, intro filter_map_idle) auto
  then show ?thesis
    by (simp add: FileDAO_ConfirmUploadChunk_def Let_def case_prod_unfold own_rows_cong [OF query_rows(1)] split: option.splits)
qed

lemma confirm_for:
  assumes l: "cluster_layout root b w" and v: "names_user J args v"
  shows "call_for root b v w (fst (rpc_ConfirmUploadChunk J w args))"
proof -
  obtain w1 r where c: "validate_chunk J w args = (w1, r)" by fastforce
  have 1: "call_for root b v w w1" using validate_for [OF l, of v J args] c by simp
  moreover have "rows_tracked (cdb w1)" using kept_rows.validated [OF layout_tracked [OF l], of J args] c by simp
  ultimately have l1: "cluster_layout root b w1" by (rule call_for_layout)
  have 2: "call_for root b v w (fst (on_db w1 (\<lambda>d. FileDAO_ConfirmUploadChunk d i v off sz)))" for i off sz
    by (rule call_for_trans [OF 1], rule on_db_for [OF l1], rule confirm_own)
  have 3: "call_for root b v w (fst (on_db (fst (on_db w1 (\<lambda>d. FileDAO_ConfirmUploadChunk d i v off sz))) (\<lambda>d. FileDAO_FindById d j)))"
    if "r = Inr (Some f)" "at_int J args ''size'' = Inr sz" for i off sz j f
  proof (rule call_for_trans [OF 2 find_for], rule call_for_layout)
    have sz: "0 < sz" using validate_size [of J w args w1] c that by auto
    show "rows_tracked (cdb (fst (on_db w1 (\<lambda>d. FileDAO_ConfirmUploadChunk d i v off sz))))"
      by (rule kept_rows.over_db, erule kept_rows.confirm [OF _ sz]) (rule layout_tracked [OF l1])
  qed (rule 2)
  show ?thesis using 1 2 3 v c
    by (auto simp: names_user_def rpc_ConfirmUploadChunk_def bind_arg_split case_prod_unfold Let_def split: sum.splits option.splits)
qed

lemma allowed_step: "disk_ok root b s \<Longrightarrow> path_allowed v p \<Longrightarrow> disk_step root b v s (fst (WriteChunk root s p data off))"
proof -
  assume d: "disk_ok root b s" and p: "path_allowed v p"
  have home: "prefix (home b v) q" if "resolve s (GetAbsolutePath root p) = Some q" for q
    using allowed_below [OF _ p that, of b] d take_is_prefix [of "Suc (length b)" q] by (simp add: disk_ok_def home_def)
  let ?s = "fst (WriteChunk root s p data off)"
  have "disk_ok root b ?s" using d WriteChunk_frame(2,3) [OF surjective_pairing, of root s p data off] disk_ok_cong [of ?s s root b] by simp
  with home WriteChunk_only_at [of s root p data off] show ?thesis by (auto simp: disk_step_def only_at_def)
qed

lemma write_for:
  assumes l: "cluster_layout root b w" and v: "names_user J args v"
  shows "call_for root b v w (fst (rpc_WriteChunk J root w args data))"
proof -
  let ?s = "storage_disk w"
  obtain s1 ok where c: "CreateUserDir root ?s v = (s1, ok)" by fastforce
  have d: "disk_ok root b ?s" using l by (simp add: cluster_layout_def)
  from CreateUserDir_step [OF this, of v] c have s1: "disk_step root b v ?s s1" by simp
  have s2: "disk_step root b v ?s s2" if "path_allowed v p" "WriteChunk root s1 p data off = (s2, n)" for p off s2 n
    using disk_step_trans [OF s1 allowed_step [OF _ that(1)], of data off] that(2) s1 by (simp add: disk_step_def)
  have put: "call_for root b v w (w\<lparr>storage_disk := s\<rparr>)" if "disk_step root b v ?s s" for s
    using l that call_for_refl [OF l, of v] by (simp add: call_for_def)
  obtain w' r where wr: "rpc_WriteChunk J root w args data = (w', r)" by fastforce
  from rpc_WriteChunk_cases [OF _ c wr] v show ?thesis
    using put [OF s1] put [OF s2] call_for_refl [OF l, of v] wr by (auto simp: names_user_def)
qed

section \<open>Calls\<close>

lemma CallRpc_for:
  assumes J: "json_ok J" and kvs: "js_valid (JObj kvs)" "utf8 method" and l: "cluster_layout root b w"
    and f: "\<And>p f xs. binary_methods (methods_of J D p) method = Some f \<or> methods (methods_of J D p) method = Some f \<Longrightarrow>
      call_for root b v w (fst (f (w\<lparr>outcomes := xs\<rparr>) (den J (JObj (with_method method kvs))) bin))"
  shows "call_for root b v w (fst (CallRpc J D w service method (den J (JObj kvs)) bin))"
proof -
  obtain oc xs where o: "next_outcome w = (oc, w\<lparr>outcomes := xs\<rparr>)" using next_outcome_eq [of w] by blast
  have idle: "call_for root b v w w" "call_for root b v w (w\<lparr>outcomes := xs\<rparr>)" using l by simp_all
  have call: "call_for root b v w (fst (Call J (exn_text D) (methods_of J D p) (w\<lparr>outcomes := xs\<rparr>) oc method (den J (JObj kvs)) bin))" for p
    using Call_runs [OF J kvs, of "exn_text D" "methods_of J D p" "w\<lparr>outcomes := xs\<rparr>" oc bin] idle(2) f [of p _ xs] by metis
  show ?thesis unfolding CallRpc_def Let_def o using idle call by (simp split: sum.splits option.splits)
qed

definition quiet_methods :: "string set" where
  "quiet_methods = {''Register'', ''Login'', ''VerifyToken'', ''GetFileInfo'', ''QueryFiles'', ''PrepareUploadChunk'', ''GetFileSize'', ''ReadChunk''}"

definition acting_methods :: "string set" where
  "acting_methods = {''UploadStart'', ''Delete'', ''UploadFinalize'', ''ConfirmUploadChunk'', ''WriteChunk''}"

lemma methods_utf8: "m \<in> quiet_methods \<union> acting_methods \<Longrightarrow> utf8 m"
  by (auto simp: quiet_methods_def acting_methods_def ascii_utf8)

lemma call_quiet:
  assumes J: "json_ok J" and l: "cluster_layout root b w" and m: "m \<in> quiet_methods" and D: "storage_root D = root" and kvs: "js_valid (JObj kvs)"
  shows "call_for root b v w (fst (CallRpc J D w service m (den J (JObj kvs)) bin))"
proof -
  have "call_for root b v w (fst (f (w\<lparr>outcomes := xs\<rparr>) j bin))"
    if "binary_methods (methods_of J D p) m = Some f \<or> methods (methods_of J D p) m = Some f" for p f xs j
  proof -
    have l': "cluster_layout root b (w\<lparr>outcomes := xs\<rparr>)" using l by simp
    show ?thesis
      using that m D user_methods_for(1,2) [OF l', where J = J and e = "entropy (surroundings D)"] user_methods_for(3) [OF l', where J = J]
        reading_methods_for [OF l', where J = J]
      by (cases p) (auto simp: quiet_methods_def method_tables split: if_splits)
  qed
  then show ?thesis using m by (intro CallRpc_for [OF J kvs methods_utf8 l]) auto
qed

lemma GetFileSize_call:
  assumes J: "json_ok J" and l: "cluster_layout root b w" and p: "ascii p"
    and c: "Call J what (storage_methods J root) w oc ''GetFileSize'' (obj J [(''filepath'', str J p)]) [] = (w', x)"
  shows "call_for root b v w w'" and "cdb w' = cdb w"
proof -
  have "js_valid (JObj [(''filepath'', JStr p)])" using p by (auto simp: ascii_utf8)
  from Call_runs [OF J this, of "''GetFileSize''" what "storage_methods J root" w oc "[]"] c
  have "w' = w \<or> (\<exists>args. w' = fst (rpc_GetFileSize J root w args))"
    by (auto simp: method_tables den_obj ascii_utf8)
  then show "call_for root b v w w'" "cdb w' = cdb w"
    using l reading_methods_for(4) [OF l, where J = J] kept_rows.storage_methods_keep(2) by auto
qed

lemma finalize_for:
  assumes J: "json_ok J" and l: "cluster_layout root b w" and v: "names_user J args v"
  shows "call_for root b v w (fst (rpc_UploadFinalize J what root w args))"
proof (cases "at_int J args ''file_id''")
  case (Inr i)
  obtain d1 x where f: "FileDAO_FindById (cdb w) i = (d1, x)" by fastforce
  let ?w1 = "w\<lparr>cdb := d1\<rparr>"
  have 1: "call_for root b v w ?w1" using find_for [OF l, of v i] f by (simp add: on_db_def)
  moreover have "rows_tracked d1" using kept_rows.queries(3) [OF layout_tracked [OF l], of i] f by simp
  ultimately have l1: "cluster_layout root b ?w1" by (intro call_for_layout) simp_all
  show ?thesis
  proof (cases "\<exists>r. x = Some r \<and> fuser_id r = v")
    case True
    then obtain r where r: "x = Some r" "fuser_id r = v" by blast
    have rows: "rows_ok (cdb w)" using l by (simp add: cluster_layout_def)
    note own = found_owner [OF rows f [unfolded r(1)]]
    have asc: "ascii (filepath r)" using own(1) ascii_to_string by (auto simp: homed_def)
    obtain oc xs where o: "next_outcome ?w1 = (oc, ?w1\<lparr>outcomes := xs\<rparr>)" using next_outcome_eq [of ?w1] by blast
    obtain w3 y where c: "Call J what (storage_methods J root) (?w1\<lparr>outcomes := xs\<rparr>) oc ''GetFileSize'' (obj J [(''filepath'', str J (filepath r))]) [] = (w3, y)"
      by fastforce
    have l2: "cluster_layout root b (?w1\<lparr>outcomes := xs\<rparr>)" using l1 by simp
    have w3: "call_for root b v w w3" "cdb w3 = d1"
      using call_for_trans [OF 1, of w3] GetFileSize_call(1) [OF J l2 asc c, of v] GetFileSize_call(2) [OF J l2 asc c] by simp_all
    have fid: "fid r = i" using found_row [of "cdb w" i r] f r by auto
    have st: "call_for root b v w (fst (on_db w3 (\<lambda>d. FileDAO_UpdateStatus d (fid r) 1)))"
      using w3 own(2) [OF own(3) [OF row_change_ops(2)]] r(2) unfolding fid by (simp add: on_db_def case_prod_unfold call_for_def)
    show ?thesis using 1 w3(1) st v Inr f r o c
      by (auto simp: names_user_def rpc_UploadFinalize_def on_db_def [of w] bind_arg_split Let_def case_prod_unfold split: sum.splits)
  next
    case False
    with 1 f v Inr show ?thesis
      by (auto simp: names_user_def rpc_UploadFinalize_def on_db_def bind_arg_split Let_def split: option.splits)
  qed
qed (use l in \<open>simp add: rpc_UploadFinalize_def Let_def\<close>)

lemma call_acts:
  assumes J: "json_ok J" and l: "cluster_layout root b w" and m: "m \<in> acting_methods" and D: "storage_root D = root" "file_root D = root"
    and kvs: "js_valid (JObj kvs)" "map_of kvs ''user_id'' = Some (JInt v)"
  shows "call_for root b v w (fst (CallRpc J D w service m (den J (JObj kvs)) bin))"
proof -
  have "i64 v" using valid_member [OF kvs] by simp
  moreover have "m \<noteq> ''method''" "''user_id'' \<noteq> ''method''" using m by (auto simp: acting_methods_def)
  ultimately have n: "names_user J (den J (JObj (with_method m kvs))) v"
    using kvs by (intro names_user_den [OF J]) (simp_all add: with_method_simps)
  have "call_for root b v w (fst (f (w\<lparr>outcomes := xs\<rparr>) (den J (JObj (with_method m kvs))) bin))"
    if "binary_methods (methods_of J D p) m = Some f \<or> methods (methods_of J D p) m = Some f" for p f xs
  proof -
    have l': "cluster_layout root b (w\<lparr>outcomes := xs\<rparr>)" using l by simp
    show ?thesis
      using that m D direct_methods_for [OF l' n] confirm_for [OF l' n] write_for [OF l' n] finalize_for [OF J l' n]
      by (cases p) (auto simp: acting_methods_def method_tables split: if_splits)
  qed
  then show ?thesis using m by (intro CallRpc_for [OF J kvs(1) methods_utf8 l]) auto
qed

section \<open>Handlers\<close>

text \<open>
  What the JSON library reads from the body of a request are the values of a JSON object: UTF-8 texts and
  numbers of 64 bits. The columns for sizes hold 64 bits too.
\<close>

definition well_read :: "'j json_ops \<Rightarrow> Message \<Rightarrow> bool" where
  "well_read J req \<longleftrightarrow> (\<exists>kvs. js_valid (JObj kvs) \<and> GetJson J req = den J (JObj kvs))
     \<and> (\<forall>k s. value_string J (GetJson J req) k [] = Inr s \<longrightarrow> utf8 s) \<and> (\<forall>k i. value_int J (GetJson J req) k 0 = Inr i \<longrightarrow> i64 i)
     \<and> (\<forall>k x. index_json J (GetJson J req) k = Inr x \<or> at_json J (GetJson J req) k = Inr x \<longrightarrow> (\<exists>y. js_valid y \<and> x = den J y))
     \<and> length (binary_data req) < 2 ^ 63"

definition sized :: "db \<Rightarrow> bool" where
  "sized d \<longleftrightarrow> (\<forall>r \<in> set (file_rows d). i64 (filesize r))"

text \<open>Both services that touch a disk have the same root, and the texts of exceptions can be sent.\<close>

definition deployed :: "string \<Rightarrow> deployment \<Rightarrow> bool" where
  "deployed root D \<longleftrightarrow> storage_root D = root \<and> file_root D = root \<and> (\<forall>e. utf8 (exn_text D e))"

lemma run_arg: "fst (run_handling (arg x k) J D w) = (case x of Inl e \<Rightarrow> w | Inr a \<Rightarrow> fst (run_handling (k a) J D w))"
  by (cases x) simp_all

lemma run_pass_on [simp]: "fst (run_handling (pass_on J req r) J D w) = w"
  by (simp add: pass_on_def run_arg split: sum.splits)

lemma run_then:
  assumes l: "cluster_layout root b w" and c: "call_for root b v w (fst (CallRpc J D w s m args bin))"
    and k: "\<And>r w'. CallRpc J D w s m args bin = (w', Inr r) \<Longrightarrow> cluster_layout root b w' \<Longrightarrow> call_for root b v w' (fst (run_handling (k r) J D w'))"
  shows "call_for root b v w (fst (run_handling (Rpc s m args bin k) J D w))"
proof -
  obtain w' x where x: "CallRpc J D w s m args bin = (w', x)" by fastforce
  have l': "cluster_layout root b w'"
    using call_for_layout [OF c] kept_rows.CallRpc_keeps [OF layout_tracked [OF l], of J D s m args bin] x by simp
  show ?thesis
  proof (cases x)
    case (Inr r)
    with x l' have "call_for root b v w' (fst (run_handling (k r) J D w'))" by (intro k) simp_all
    with c x Inr show ?thesis by (simp add: call_for_trans)
  qed (use c x in simp)
qed

lemma run_last:
  assumes "cluster_layout root b w" and "call_for root b v w (fst (CallRpc J D w s m args bin))" and "\<And>r w'. fst (run_handling (k r) J D w') = w'"
  shows "call_for root b v w (fst (run_handling (Rpc s m args bin k) J D w))"
  using assms by (intro run_then) simp_all

lemma with_uid_for:
  assumes J: "json_ok J" and l: "cluster_layout root b w" "sized (cdb w)" and D: "deployed root D" and q: "well_read J req"
    and u: "u = actor J (cdb w, s) req"
    and k: "\<And>w1. cluster_layout root b w1 \<Longrightarrow> sized (cdb w1) \<Longrightarrow> i64 u \<Longrightarrow> 0 < u \<Longrightarrow> call_for root b u w1 (fst (run_handling (k u) J D w1))"
  shows "call_for root b u w (fst (run_handling (with_uid J req k) J D w))"
proof (cases "value_string J (GetJson J req) ''token'' []")
  case (Inr tok)
  then have tok: "utf8 tok" using q by (auto simp: well_read_def)
  have u': "u = snd (VerifyToken (cdb w) tok)" using Inr by (simp add: u actor_def GetToken_def)
  have ids: "\<forall>x \<in> set (users (cdb w)). i64 (uid x)"
    using l(1) by (fastforce simp: cluster_layout_def rows_ok_def tables_typed_def list_all_iff user_typed_def int32_def)
  let ?v = "JObj [(''token'', JStr tok)]"
  have "call_for root b u w (fst (run_handling (Rpc ''UserService'' ''VerifyToken'' (den J ?v) [] (\<lambda>r. arg (value_int J r ''user_id'' 0)
      (\<lambda>user_id. if user_id \<le> 0 then Reply (Gateway_MakeResponse J req (-1) text_auth_failed (null J) []) else k user_id))) J D w))"
  proof (rule run_then [OF l(1)])
    show "call_for root b u w (fst (CallRpc J D w ''UserService'' ''VerifyToken'' (den J ?v) []))"
      using tok D by (intro call_quiet [OF J l(1)]) (auto simp: quiet_methods_def deployed_def ascii_utf8)
    fix r w'
    assume c: "CallRpc J D w ''UserService'' ''VerifyToken'' (den J ?v) [] = (w', Inr r)" and l': "cluster_layout root b w'"
    from call_VerifyToken [OF J tok ids c] obtain u1 where u1: "quiet w w'" "i64 u1" "u1 = 0 \<or> u1 = u" "value_int J r ''user_id'' 0 = Inr u1"
      unfolding u' by auto
    have "sized (cdb w')" using l(2) u1(1) by (simp add: sized_def quiet_def same_tables_def)
    with u1 k [OF l'] l' show "call_for root b u w' (fst (run_handling (arg (value_int J r ''user_id'' 0)
      (\<lambda>user_id. if user_id \<le> 0 then Reply (Gateway_MakeResponse J req (-1) text_auth_failed (null J) []) else k user_id)) J D w'))"
      by auto
  qed
  then show ?thesis using l(1) by (simp add: with_uid_def Inr Gateway_VerifyToken_def den_obj del: run_handling.simps(2))
qed (use l in \<open>simp add: with_uid_def\<close>)

section \<open>Uploading a chunk\<close>

text \<open>Where the answer of \<open>PrepareUploadChunk\<close> has a path, it is a JSON value.\<close>

definition path_read :: "'j json_ops \<Rightarrow> 'j \<Rightarrow> bool" where
  "path_read J r \<longleftrightarrow> (\<forall>x. at_json J r ''filepath'' = Inr x \<longrightarrow> (\<exists>y. js_valid y \<and> x = den J y))"

lemma path_read_member: "json_ok J \<Longrightarrow> js_valid (JObj kvs) \<Longrightarrow> path_read J (den J (JObj kvs))"
proof (cases "map_of kvs ''filepath''")
  case None
  assume "json_ok J"
  with None have "at_json J (den J (JObj kvs)) ''filepath'' = Inl out_of_range"
    unfolding json_ok_def json_missing_def Let_def by blast
  then show ?thesis by (simp add: path_read_def)
next
  case (Some v)
  assume J: "json_ok J" and kvs: "js_valid (JObj kvs)"
  then have "at_json J (den J (JObj kvs)) ''filepath'' = Inr (den J v)" using Some by (intro json_presentD(3)) simp_all
  with valid_member [OF kvs Some] show ?thesis by (auto simp: path_read_def)
qed

lemma path_read_failure: "json_ok J \<Longrightarrow> failure v \<Longrightarrow> path_read J (den J v)"
proof -
  assume J: "json_ok J" and "failure v"
  then obtain c s where v: "v = JObj [(''code'', JInt c), (''msg'', JStr s)]" by (auto simp: failure_def)
  have "at_json J (den J v) ''filepath'' = Inl out_of_range" using J unfolding v json_ok_def json_missing_def Let_def by simp
  then show ?thesis by (simp add: path_read_def)
qed

lemma fetched_valid:
  assumes "cluster_layout root b w" and "sized (cdb w)" and "snd (FileDAO_FindById (cdb w) i) = Some r"
  shows "js_valid (prepared_value r)"
proof -
  from found_row [OF assms(3)] obtain q where q: "q \<in> set (file_rows (cdb w))" "r = file_of_row q" by blast
  then have "homed q" "0 \<le> upload_size q" "upload_size q \<le> filesize q" "i64 (filesize q)"
    using assms(1,2) by (auto simp: cluster_layout_def rows_ok_def list_all_iff progress_def sized_def)
  moreover have "ascii (filepath q)" using \<open>homed q\<close> ascii_to_string by (auto simp: homed_def)
  ultimately show ?thesis unfolding q(2) prepared_value_def
    by (auto simp: homed_fetched ascii_utf8) (simp_all add: file_of_row_def)
qed

lemma prepared_path:
  assumes J: "json_ok J" and l: "cluster_layout root b w" "sized (cdb w)" and D: "deployed root D" and kvs: "js_valid (JObj kvs)"
    and c: "CallRpc J D w service ''PrepareUploadChunk'' (den J (JObj kvs)) [] = (w', Inr r)"
  shows "path_read J r"
proof -
  have "(\<exists>e. Inr r = (Inl e :: cpp_exn + _) \<and> w' = w) \<or> (\<exists>v. Inr r = (Inr (den J v) :: cpp_exn + _) \<and> path_read J (den J v))"
  proof (rule CallRpc_served [OF J kvs _ c, where Q = "\<lambda>_ v. path_read J (den J v)"])
    show "served_by ''PrepareUploadChunk'' FileProc" by (simp add: served_by_def)
    show "path_read J (den J v)" if "failure v" for v using path_read_failure [OF J that] .
    fix xs
    let ?w = "w\<lparr>outcomes := xs\<rparr>" 
    define args where "args = den J (JObj (with_method ''PrepareUploadChunk'' kvs))"
    obtain w1 y where y: "validate_chunk J ?w args = (w1, y)" by fastforce
    define v where "v = (case y of Inl e \<Rightarrow> JObj [(''code'', JInt (-1)), (''msg'', JStr (text_rpc_exception @ exn_text D e))]
      | Inr None \<Rightarrow> JObj [(''code'', JInt (-1)), (''msg'', JStr text_invalid_chunk)] | Inr (Some f) \<Rightarrow> prepared_value f)"
    have run: "call_method J (exn_text D) (methods_of J D FileProc) ?w ''PrepareUploadChunk'' m = (w1, den J v)" if "GetJson J m = args" for m
      by (simp add: call_method_def method_tables that rpc_PrepareUploadChunk_def y v_def failure_error prepared_value_def den_obj split: sum.splits option.splits)
    have "js_valid v"
    proof (cases "\<exists>f. y = Inr (Some f)")
      case True
      then obtain f where f: "y = Inr (Some f)" by blast
      then obtain i where "snd (FileDAO_FindById (cdb w) i) = Some f"
        using y by (auto simp: validate_chunk_def on_db_def bind_arg_split case_prod_unfold split: sum.splits option.splits if_splits)
      from fetched_valid [OF l this] show ?thesis by (simp add: v_def f)
    next
      case False
      have "utf8 (text_rpc_exception @ s)" if "utf8 s" for s using that by (simp add: utf8_def text_rpc_exception_def)
      then show ?thesis using False D
        by (auto simp: v_def deployed_def utf8_def text_invalid_chunk_def split: sum.splits option.splits)
    qed
    moreover from this have "path_read J (den J v)"
      using path_read_member [OF J] by (cases y) (auto simp: v_def prepared_value_def split: option.splits)
    ultimately show "\<exists>w1 v. js_valid v \<and> path_read J (den J v) \<and> (\<forall>v'. failure v' \<longrightarrow> path_read J (den J v')) \<and>
        (\<forall>m. GetJson J m = den J (JObj (with_method ''PrepareUploadChunk'' kvs)) \<and> binary_data m = [] \<longrightarrow>
          call_method J (exn_text D) (methods_of J D FileProc) ?w ''PrepareUploadChunk'' m = (w1, den J v))"
      using run [unfolded args_def] path_read_failure [OF J] by (intro exI [of _ w1] exI [of _ v]) blast
  qed
  then show ?thesis by auto
qed

lemma run_confirmed: "fst (run_handling (upload_confirmed J req sz r) J D w) = w"
  by (simp add: upload_confirmed_def run_arg split: sum.splits)

lemma written_for:
  assumes J: "json_ok J" and l: "cluster_layout root b w" and D: "deployed root D"
    and kvs: "js_valid (JObj kvs)" "map_of kvs ''user_id'' = Some (JInt v)"
  shows "call_for root b v w (fst (run_handling (upload_written J req (den J (JObj kvs)) sz r) J D w))"
proof -
  have "call_for root b v w (fst (run_handling (Rpc ''FileService'' ''ConfirmUploadChunk'' (den J (JObj kvs)) [] (upload_confirmed J req sz)) J D w))"
    using D by (intro run_last [OF l] call_acts [OF J l _ _ _ kvs]) (simp_all add: acting_methods_def deployed_def run_confirmed)
  with l show ?thesis by (simp add: upload_written_def run_arg del: run_handling.simps(2) split: sum.splits)
qed

lemma prepared_for:
  assumes J: "json_ok J" and l: "cluster_layout root b w" and D: "deployed root D" and r: "path_read J r"
    and kvs: "js_valid (JObj kvs)" "map_of kvs ''user_id'' = Some (JInt v)" and n: "i64 off" "i64 sz"
  shows "call_for root b v w (fst (run_handling (upload_prepared J req v (den J (JObj kvs)) off sz r) J D w))"
proof -
  have "call_for root b v w (fst (run_handling (Rpc ''StorageService'' ''WriteChunk'' (obj J [(''filepath'', p), (''user_id'', num J v),
      (''offset'', num J off), (''size'', num J sz)]) (binary_data req) (upload_written J req (den J (JObj kvs)) sz)) J D w))"
    if p: "at_json J r ''filepath'' = Inr p" for p
  proof -
    from r p obtain y where y: "js_valid y" "p = den J y" by (auto simp: path_read_def)
    let ?args = "[(''filepath'', y), (''user_id'', JInt v), (''offset'', JInt off), (''size'', JInt sz)]"
    have a: "js_valid (JObj ?args)" "map_of ?args ''user_id'' = Some (JInt v)" using y n valid_member [OF kvs] by (auto simp: ascii_utf8)
    have "call_for root b v w (fst (run_handling (Rpc ''StorageService'' ''WriteChunk'' (den J (JObj ?args)) (binary_data req)
        (upload_written J req (den J (JObj kvs)) sz)) J D w))"
      using D by (intro run_then [OF l] call_acts [OF J l _ _ _ a] written_for [OF J _ D kvs]) (simp_all add: acting_methods_def deployed_def)
    then show ?thesis by (simp add: den_obj y(2) del: run_handling.simps(2))
  qed
  with l show ?thesis by (simp add: upload_prepared_def run_arg del: run_handling.simps(2) split: sum.splits)
qed

lemma upload_for:
  assumes J: "json_ok J" and l: "cluster_layout root b w" "sized (cdb w)" and D: "deployed root D" and q: "well_read J req" and v: "i64 v"
  shows "call_for root b v w (fst (run_handling (upload_user J req v) J D w))"
proof -
  let ?sz = "int (length (binary_data req))"
  have sz: "i64 ?sz" using q by (auto simp: well_read_def)
  have "call_for root b v w (fst (run_handling (Rpc ''FileService'' ''PrepareUploadChunk'' a [] (upload_prepared J req v a off ?sz)) J D w))"
    if off: "value_int J (GetJson J req) ''offset'' 0 = Inr off" and i: "at_json J (GetJson J req) ''file_id'' = Inr i"
      and a: "a = obj J [(''file_id'', i), (''user_id'', num J v), (''offset'', num J off), (''size'', num J ?sz)]" for off i a
  proof -
    from q off i obtain y where y: "js_valid y" "i = den J y" "i64 off" unfolding well_read_def by blast
    let ?args = "[(''file_id'', y), (''user_id'', JInt v), (''offset'', JInt off), (''size'', JInt ?sz)]"
    have kvs: "js_valid (JObj ?args)" "map_of ?args ''user_id'' = Some (JInt v)" using y v sz by (auto simp: ascii_utf8)
    have a': "a = den J (JObj ?args)" by (simp add: a y(2) den_obj)
    show ?thesis unfolding a'
    proof (rule run_then [OF l(1)])
      show "call_for root b v w (fst (CallRpc J D w ''FileService'' ''PrepareUploadChunk'' (den J (JObj ?args)) []))"
        using D by (intro call_quiet [OF J l(1) _ _ kvs(1)]) (simp_all add: quiet_methods_def deployed_def)
      show "call_for root b v w' (fst (run_handling (upload_prepared J req v (den J (JObj ?args)) off ?sz r) J D w'))"
        if "CallRpc J D w ''FileService'' ''PrepareUploadChunk'' (den J (JObj ?args)) [] = (w', Inr r)" "cluster_layout root b w'" for r w'
        using prepared_for [OF J that(2) D prepared_path [OF J l D kvs(1) that(1)] kvs y(3) sz] .
    qed
  qed
  with l(1) show ?thesis by (simp add: upload_user_def Let_def run_arg del: run_handling.simps(2) split: sum.splits)
qed

section \<open>Every request\<close>

lemma body_for:
  assumes "json_ok J" and "cluster_layout root b w" and "deployed root D" and "well_read J req" and "m \<in> {''Register'', ''Login''}"
  shows "call_for root b v w (fst (run_handling (Rpc service m (GetJson J req) [] (pass_on J req)) J D w))"
proof -
  from assms(4) obtain kvs where kvs: "js_valid (JObj kvs)" "GetJson J req = den J (JObj kvs)" by (auto simp: well_read_def)
  show ?thesis unfolding kvs(2)
    using assms(3,5) by (intro run_last [OF assms(2)] call_quiet [OF assms(1,2) _ _ kvs(1)]) (auto simp: quiet_methods_def deployed_def)
qed

text \<open>The last call of a handler, with the arguments written as a JSON value.\<close>

lemma last_acting:
  assumes "json_ok J" and "cluster_layout root b w" and "deployed root D" and "m \<in> acting_methods"
    and "js_valid (JObj kvs)" and "map_of kvs ''user_id'' = Some (JInt v)" and "args = den J (JObj kvs)"
  shows "call_for root b v w (fst (run_handling (Rpc service m args [] (pass_on J req)) J D w))"
  using assms by (auto simp: deployed_def intro!: run_last call_acts simp del: run_handling.simps(2))

lemma last_quiet:
  assumes "json_ok J" and "cluster_layout root b w" and "deployed root D" and "m \<in> quiet_methods"
    and "js_valid (JObj kvs)" and "args = den J (JObj kvs)" and "\<And>r w'. fst (run_handling (k r) J D w') = w'"
  shows "call_for root b v w (fst (run_handling (Rpc service m args [] k) J D w))"
  using assms by (auto simp: deployed_def intro!: run_last call_quiet simp del: run_handling.simps(2))

lemma member_read: "well_read J req \<Longrightarrow> index_json J (GetJson J req) k = Inr x \<Longrightarrow> \<exists>y. js_valid y \<and> x = den J y"
  by (auto simp: well_read_def)

lemma acting_handlers_for:
  assumes J: "json_ok J" and l: "cluster_layout root b w" "sized (cdb w)" and D: "deployed root D" and q: "well_read J req"
    and u: "u = actor J (cdb w, s) req"
  shows "call_for root b u w (fst (run_handling (gw_upload_start J req) J D w))" "call_for root b u w (fst (run_handling (gw_upload_data J req) J D w))"
    "call_for root b u w (fst (run_handling (gw_upload_finalize J req) J D w))" "call_for root b u w (fst (run_handling (gw_delete J req) J D w))"
proof -
  note uid = with_uid_for [OF J l D q u]
  have one: "call_for root b u w1 (fst (run_handling (Rpc ''FileService'' m (obj J [(''file_id'', i), (''user_id'', num J u)]) [] (pass_on J req)) J D w1))"
    if "cluster_layout root b w1" "i64 u" "index_json J (GetJson J req) ''file_id'' = Inr i" "m \<in> acting_methods" for w1 i m
  proof -
    from member_read [OF q that(3)] obtain y where y: "js_valid y" "i = den J y" by blast
    show ?thesis using that(2) y
      by (intro last_acting [OF J that(1) D that(4), where kvs = "[(''file_id'', y), (''user_id'', JInt u)]"]) (auto simp: den_obj ascii_utf8)
  qed
  show "call_for root b u w (fst (run_handling (gw_upload_finalize J req) J D w))" "call_for root b u w (fst (run_handling (gw_delete J req) J D w))"
    unfolding gw_upload_finalize_def gw_delete_def
    by (rule uid; simp add: run_arg one acting_methods_def del: run_handling.simps(2) split: sum.splits)+
  show "call_for root b u w (fst (run_handling (gw_upload_data J req) J D w))"
    unfolding gw_upload_data_def by (rule uid) (rule upload_for [OF J _ _ D q])
  have start: "call_for root b u w1 (fst (run_handling (Rpc ''FileService'' ''UploadStart'' (obj J [(''user_id'', num J u), (''filename'', n), (''filesize'', z),
      (''md5'', m)]) [] (pass_on J req)) J D w1))"
    if "cluster_layout root b w1" "i64 u" "index_json J (GetJson J req) ''filename'' = Inr n" "index_json J (GetJson J req) ''filesize'' = Inr z"
      "index_json J (GetJson J req) ''md5'' = Inr m" for w1 n z m
  proof -
    from that(3-5) [THEN member_read [OF q]] obtain x y k where y: "js_valid x" "n = den J x" "js_valid y" "z = den J y" "js_valid k" "m = den J k" by blast
    show ?thesis using that(2) y
      by (intro last_acting [OF J that(1) D, where kvs = "[(''user_id'', JInt u), (''filename'', x), (''filesize'', y), (''md5'', k)]"])
        (auto simp: den_obj ascii_utf8 acting_methods_def)
  qed
  show "call_for root b u w (fst (run_handling (gw_upload_start J req) J D w))"
    unfolding gw_upload_start_def by (rule uid) (simp add: Let_def run_arg start del: run_handling.simps(2) split: sum.splits)
qed

lemma reading_handlers_for:
  assumes J: "json_ok J" and l: "cluster_layout root b w" "sized (cdb w)" and D: "deployed root D" and q: "well_read J req"
    and u: "u = actor J (cdb w, s) req"
  shows "call_for root b u w (fst (run_handling (gw_download J req) J D w))" "call_for root b u w (fst (run_handling (gw_download_chunk J req) J D w))"
    "call_for root b u w (fst (run_handling (gw_list J req) J D w))"
proof -
  note uid = with_uid_for [OF J l D q u]
  have list: "call_for root b u w1 (fst (run_handling (Rpc ''FileService'' ''QueryFiles'' (obj J [(''user_id'', num J u)]) []
      (\<lambda>r. Reply (Gateway_MakeResponse J req 0 ''ok'' r []))) J D w1))" if "cluster_layout root b w1" "i64 u" for w1
    using that(2) by (intro last_quiet [OF J that(1) D, where kvs = "[(''user_id'', JInt u)]"]) (auto simp: den_obj ascii_utf8 quiet_methods_def)
  show "call_for root b u w (fst (run_handling (gw_list J req) J D w))"
    unfolding gw_list_def by (rule uid) (rule list)
  have info: "call_for root b u w1 (fst (run_handling (Rpc ''FileService'' ''GetFileInfo'' (obj J [(''file_id'', i)]) [] (pass_on J req)) J D w1))"
    if "cluster_layout root b w1" "index_json J (GetJson J req) ''file_id'' = Inr i" for w1 i
  proof -
    from member_read [OF q that(2)] obtain y where y: "js_valid y" "i = den J y" by blast
    then show ?thesis by (intro last_quiet [OF J that(1) D, where kvs = "[(''file_id'', y)]"]) (auto simp: den_obj ascii_utf8 quiet_methods_def)
  qed
  show "call_for root b u w (fst (run_handling (gw_download J req) J D w))"
    unfolding gw_download_def by (rule uid) (simp add: run_arg info del: run_handling.simps(2) split: sum.splits)
  have chunk: "call_for root b u w1 (fst (run_handling (Rpc ''StorageService'' ''ReadChunk'' (obj J [(''filepath'', str J p), (''offset'', x), (''size'', z)]) []
      (\<lambda>r. arg (value_string J r ''data'' []) (\<lambda>data. Reply (Gateway_MakeResponse J req 0 ''ok'' r data)))) J D w1))"
    if "cluster_layout root b w1" "value_string J (GetJson J req) ''filepath'' [] = Inr p" "index_json J (GetJson J req) ''offset'' = Inr x"
      "index_json J (GetJson J req) ''size'' = Inr z" for w1 p x z
  proof -
    from that(3,4) [THEN member_read [OF q]] obtain i n where y: "js_valid i" "x = den J i" "js_valid n" "z = den J n" by blast
    moreover have "utf8 p" using q that(2) by (auto simp: well_read_def)
    ultimately show ?thesis
      by (intro last_quiet [OF J that(1) D, where kvs = "[(''filepath'', JStr p), (''offset'', i), (''size'', n)]"])
        (auto simp: den_obj ascii_utf8 quiet_methods_def run_arg split: sum.splits)
  qed
  show "call_for root b u w (fst (run_handling (gw_download_chunk J req) J D w))"
    unfolding gw_download_chunk_def by (rule uid) (simp add: Let_def run_arg chunk del: run_handling.simps(2) split: sum.splits)
qed

lemma run_keeps: "rows_tracked (cdb w) \<Longrightarrow> rows_tracked (cdb (fst (run_handling h J D w)))"
proof (induction h arbitrary: w)
  case (Rpc s m args bin k)
  obtain w' x where x: "CallRpc J D w s m args bin = (w', x)" by fastforce
  then have "rows_tracked (cdb w')" using kept_rows.CallRpc_keeps [OF Rpc.prems, of J D s m args bin] by simp
  with Rpc.IH x show ?case by (cases x) auto
qed simp

definition gateway_answer :: "'j json_ops \<Rightarrow> cluster \<Rightarrow> deployment \<times> Message \<Rightarrow> cluster \<times> (cpp_exn + Message)" where
  "gateway_answer J w x = run_handling (Gateway_Route J (gateway_router J) (snd x)) J (fst x) w"

lemma gateway_answer_for:
  assumes J: "json_ok J" and l: "cluster_layout root b w" "sized (cdb w)" and D: "deployed root D" and q: "well_read J req"
    and u: "u = actor J (cdb w, s) req"
  shows "call_for root b u w (fst (gateway_answer J w (D, req)))" and "cluster_layout root b (fst (gateway_answer J w (D, req)))"
proof -
  have "gateway_router J (GetCmd J req) \<in> {None, Some (gw_register J), Some (gw_login J), Some (gw_upload_start J), Some (gw_upload_data J),
      Some (gw_upload_finalize J), Some (gw_download J), Some (gw_download_chunk J), Some (gw_list J), Some (gw_delete J)}"
    by (simp add: gateway_router_def)
  then show c: "call_for root b u w (fst (gateway_answer J w (D, req)))"
    using acting_handlers_for [OF assms] reading_handlers_for [OF assms] body_for [OF J l(1) D q] l(1)
    unfolding gateway_answer_def Gateway_Route_def Let_def
    by (elim insertE emptyE) (simp_all add: gw_register_def gw_login_def del: run_handling.simps(2))
  show "cluster_layout root b (fst (gateway_answer J w (D, req)))"
    by (rule call_for_layout [OF c]) (simp add: gateway_answer_def run_keeps [OF layout_tracked [OF l(1)]])
qed

section \<open>Who does not act for a user\<close>

text \<open>The rows of a user, and the files on the disk of either service.\<close>

definition cluster_part :: "path \<Rightarrow> int \<Rightarrow> cluster \<Rightarrow> FileInfo list \<times> (path \<rightharpoonup> bytes) \<times> (path \<rightharpoonup> bytes) option" where
  "cluster_part b u w = (own_rows (cdb w) u, own_files b (storage_disk w) u, map_option (\<lambda>s. own_files b s u) (file_disk w))"

lemma disk_step_own: "disk_step root b v s s' \<Longrightarrow> v \<noteq> u \<Longrightarrow> own_files b s' u = own_files b s u"
  using home_disjoint [of b u _ v] by (fastforce simp: disk_step_def own_files_def restrict_map_def)

lemma call_for_part: "call_for root b v w w' \<Longrightarrow> v \<noteq> u \<Longrightarrow> cluster_part b u w' = cluster_part b u w"
  using disk_step_own [of root b v _ _ u]
  by (cases "file_disk w"; cases "file_disk w'") (auto simp: call_for_def cluster_part_def)

definition proper :: "'j json_ops \<Rightarrow> string \<Rightarrow> cluster \<Rightarrow> deployment \<times> Message \<Rightarrow> bool" where
  "proper J root w x \<longleftrightarrow> deployed root (fst x) \<and> well_read J (snd x) \<and> sized (cdb w)"

interpretation gateway_apart: separation "gateway_answer J" "\<lambda>w. json_ok J \<and> cluster_layout root b w" "proper J root"
    "\<lambda>w x. actor J (cdb w, storage_disk w) (snd x) = u" "cluster_part b u"
  for J root b u
proof
  fix w and x :: "deployment \<times> Message"
  assume w: "json_ok J \<and> cluster_layout root b w" and x: "proper J root w x"
  note step = gateway_answer_for [OF _ _ _ _ _ refl, of J root b w "fst x" "snd x"]
  show "json_ok J \<and> cluster_layout root b (fst (gateway_answer J w x))" using step(2) w x by (simp add: proper_def)
  assume "actor J (cdb w, storage_disk w) (snd x) \<noteq> u"
  with step(1) w x show "cluster_part b u (fst (gateway_answer J w x)) = cluster_part b u w"
    by (intro call_for_part) (auto simp: proper_def)
qed

section \<open>Property\<close>

text \<open>
  C8: through the gateway, too, no sequence of requests without a token of user \<open>u\<close> changes a row of \<open>u\<close>, or a
  byte below the directory of \<open>u\<close> on the disk of the storage or the file service, whichever calls between the
  processes are lost, whatever fails, and wherever the services are found, as long as the bodies are JSON
  objects, the sizes in the tables fit their columns and both services use one storage root.
\<close>

theorem gateway_isolates_users:
  assumes "json_ok J" and "cluster_layout root b w"
    and "all_along (\<lambda>w x. proper J root w x \<and> actor J (cdb w, storage_disk w) (snd x) \<noteq> u) (gateway_answer J) w xs"
  shows "cluster_part b u (fst (handle_all (gateway_answer J) w xs)) = cluster_part b u w"
  using gateway_apart.serve_respects [of J root b w u xs] assms by simp

lemma js_well_read:
  assumes "js_valid (JObj kvs)" and "GetJson js_ops req = JObj kvs" and "length (binary_data req) < 2 ^ 63"
  shows "well_read js_ops req"
proof -
  have ops: "value_string js_ops = js_value js_string" "value_int js_ops = js_value js_int" "index_json js_ops = js_index Inr" "at_json js_ops = js_at Inr"
    by (simp_all add: js_ops_def)
  have "utf8 s" if "js_value js_string (JObj kvs) k [] = Inr s" for k s
    using that valid_member [OF assms(1), of k] by (auto simp: js_value_def js_string_def utf8_def split: option.splits js.splits)
  moreover have "i64 i" if "js_value js_int (JObj kvs) k 0 = Inr i" for k i
    using that valid_member [OF assms(1), of k] by (auto simp: js_value_def js_int_def split: option.splits js.splits)
  moreover have "\<exists>y. js_valid y \<and> x = den js_ops y" if "js_index Inr (JObj kvs) k = Inr x \<or> js_at Inr (JObj kvs) k = Inr x" for k x
  proof -
    have "js_valid x" using that valid_member [OF assms(1), of k] by (auto simp: js_index_def js_at_def split: option.splits)
    with den_js_ops [OF this] show ?thesis by metis
  qed
  ultimately show ?thesis using assms den_js_ops [OF assms(1)] unfolding well_read_def ops assms(2) by metis
qed

definition two_cluster :: cluster where
  "two_cluster = \<lparr>cdb = two_db, file_disk = None, storage_disk = two_fs, outcomes = [Delivered, ReplyLost]\<rparr>"

theorem gateway_isolates_users_witness:
  "cluster_part [''srv''] 7 (fst (handle_all (gateway_answer js_ops) two_cluster [(up_world, two_req ''delete'' 8 1)])) = cluster_part [''srv''] 7 two_cluster"
proof -
  let ?r = "two_req ''delete'' 8 1"
  have v: "js_valid (JObj [(''cmd'', JStr ''delete''), (''token'', JStr (two_token 8)), (''file_id'', JInt 1)])" by (rule two_req_token) simp_all
  then have body: "GetJson js_ops ?r = JObj [(''cmd'', JStr ''delete''), (''token'', JStr (two_token 8)), (''file_id'', JInt 1)]"
    unfolding two_req_def by (rule sample_req_json)
  have "well_read js_ops ?r"
    by (rule js_well_read [OF v body]) (simp add: two_req_def sample_req_def Message_default_def)
  moreover have "cluster_layout ''/srv'' [''srv''] two_cluster" "sized (cdb two_cluster)"
    using two_layout by (auto simp: cluster_layout_def two_cluster_def layout_def progress_def sized_def two_db_def two_row_def sample_file_def FileInfo_default_def)
  moreover have "actor js_ops (two_db, two_fs) ?r = 8" by (simp add: actor_def two_req_token two_verify)
  moreover have "deployed ''/srv'' up_world" by (simp add: deployed_def up_world_def ascii_utf8)
  ultimately show ?thesis
    using gateway_isolates_users [OF js_ops_ok, of "''/srv''" "[''srv'']" two_cluster 7 "[(up_world, ?r)]"] by (simp add: proper_def two_cluster_def)
qed

end
