(* ===== verification/Spec2Isabelle.thy ===== *)
theory Spec2Isabelle
  imports Framing UserService FileService Parallel ThreadPool MysqlPool Connections EndToEnd RpcServer RpcClient RpcLink
    Common Services Gateway TwoPhase Flows Completion Discovery Startup Tables ServerProcess Console
    Isolation Interleaving Standalone GatewayUsers
begin

text \<open>
  A verification library of the file server: a C++ program that stores the files of its users, with
  resumable uploads in chunks. It exists in two shapes that share most of their code.

  \<^item> The stand-alone server (\<open>gateway/bin/server_main.cc\<close>) is one process: an IO thread per connection
    group decodes requests, a thread pool runs the handlers, and these work on the MySQL tables and the
    local disk.
  \<^item> The deployment of services is a gateway (\<open>gateway/bin/gateway_main.cc\<close>) that speaks the same protocol
    to the clients and turns every request into remote calls to three processes, the user, file and
    storage services (\<open>services/*_service_server.cc\<close>), which it finds through ZooKeeper.

  The client library (\<open>client/file_client.cc\<close>) and the console program on top of it
  (\<open>client/console_ui.cc\<close>) talk to either.

  \<^bold>\<open>How the theories follow the code\<close>

  Paths are relative to the root of the repository. A struct or class is a record with the fields of
  the source, a method is a definition with the name of the source (with a prefix or suffix where two
  classes use one name), state is passed in and returned, exceptions are the left side of a sum type.

  \<^item> \<open>Prelude\<close>: types (\<open>u32\<close>, \<open>bytes\<close>, \<open>cpp_exn\<close>, \<open>tm\<close>), printing of integers, C strings, searching in
    strings. \<open>Steps\<close>: runs of labelled step relations; the locales \<open>invariant\<close> and \<open>draining\<close>.
  \<^item> \<open>Crc\<close>, \<open>Protocol\<close>, \<open>Decoder\<close>, \<open>Framing\<close>: \<open>protocol/\<close>: the CRC table and its lazy initialisation, the
    message header, \<open>Encoder\<close> and the buffering \<open>Decoder\<close>. The locale \<open>byte_digest\<close> gives the detection of
    bursts of errors, the locale \<open>framing\<close> the independence of decoding from how the network cuts the
    stream; both are interpreted on the code's definitions.
  \<^item> \<open>FileSystem\<close>, \<open>Storage\<close>: \<open>storage/storage_manager.cc\<close> over a model of the POSIX calls it makes: a tree
    of directories and files in which any call may fail or write less (locale \<open>chunk_store\<close>).
  \<^item> \<open>Database\<close>: the two tables of \<open>database/schema.sql\<close> and both data access objects, one operation per
    prepared statement, each of which may fail (locale \<open>file_table\<close>). \<open>MysqlPool\<close>: the connection pool
    and the threads that use it.
  \<^item> \<open>ThreadPool\<close>: queue, condition variable, workers and shutdown of \<open>threadpool/\<close> as steps of threads.
  \<^item> \<open>Common\<close>: \<open>common/\<close>: environment variables, \<open>std::stoi\<close> and \<open>std::stoll\<close>, log levels and the logger.
  \<^item> \<open>UserService\<close>, \<open>FileService\<close>: the two classes of \<open>services/\<close>. \<open>Parallel\<close>: several calls of
    \<open>FileService::UploadData\<close> on one file at once, statement by statement. \<open>Interleaving\<close>: every operation of
    \<open>FileService\<close> as a program of statements, and the steps of any number of calls of any users.
  \<^item> \<open>Json\<close>: the operations of \<open>nlohmann::json\<close> that the code calls, as a record, and what its
    documentation promises (\<open>json_ok\<close>).
  \<^item> \<open>Processor\<close>, \<open>Connections\<close>, \<open>Server\<close>, \<open>ServerProcess\<close>: \<open>gateway/handler/\<close>, \<open>gateway/network/\<close>, the nine
    handlers of the stand-alone server, and that server as a whole. \<open>Isolation\<close>: what its users can do to
    and learn of each other (locales \<open>separation\<close> and \<open>confinement\<close>). \<open>Standalone\<close>: its \<open>main\<close>, from the
    configuration on.
  \<^item> \<open>Client\<close>, \<open>EndToEnd\<close>, \<open>Console\<close>: the client library, its upload and download against the stand-alone
    server, and the console program.
  \<^item> \<open>RpcServer\<close>, \<open>RpcClient\<close>, \<open>RpcLink\<close>, \<open>Services\<close>: \<open>rpc/\<close> and the remote methods of the three processes.
  \<^item> \<open>Gateway\<close>, \<open>TwoPhase\<close>, \<open>Flows\<close>, \<open>Completion\<close>: the gateway, its handlers as trees of remote calls, and
    what they achieve together with the services. \<open>GatewayUsers\<close>: what its users can do to each other. \<open>Tables\<close>: what the tables look like in both shapes.
  \<^item> \<open>Discovery\<close>, \<open>Startup\<close>: \<open>rpc/zk_client.cc\<close>, and the part of each \<open>main\<close> that reads the configuration
    and announces or finds the services.

  \<^bold>\<open>What is shown\<close>

  \<^item> Uploads through the services. While any number of workers carry chunks of any files, calls are lost
    on either way, statements fail and writes are cut short, the disk holds a prefix of the content that
    covers the confirmed length, and a finalized file is complete (\<open>TwoPhase\<close>). Once nothing fails any
    more, an upload can be brought to its end from wherever it stands (\<open>Completion\<close>).
  \<^item> Uploads to the stand-alone server. A file uploaded by the client library, in one run or resumed, is
    downloaded byte for byte (\<open>EndToEnd\<close>, on top of \<open>FileService\<close> and \<open>Storage\<close>); continuing from the
    console is the same computation (\<open>Console\<close>). Chunks handled by several workers at once complete an
    existing file in every interleaving; the order in which they do not is shown too (\<open>Parallel\<close>).
  \<^item> The tables keep unique keys and well-formed rows under every request in both shapes; the remote
    methods also keep every confirmed length within its file (\<open>Tables\<close>).
  \<^item> The protocol: decoding inverts encoding however the stream is cut; what is accepted is what was
    encoded; bursts of errors are rejected; the table-driven CRC is the bitwise one.
  \<^item> Requests and replies: each reply of the stand-alone server answers a request of its own connection
    (\<open>ServerProcess\<close>); the RPC server and client pair calls with replies (\<open>RpcServer\<close>, \<open>RpcClient\<close>).
  \<^item> Access: no command changes anything without a valid token, files of others are refused, paths stay
    below the directory of their owner.
  \<^item> Isolation of the users. In the stand-alone server, whoever does not hold a token of a user changes
    neither rows nor bytes of that user, and a user receives the same replies whatever the others have
    stored (\<open>Isolation\<close>). The first half holds through the gateway, too (\<open>GatewayUsers\<close>); the second does
    not, since a chunk is read by its path (\<open>Flows\<close>). In the stand-alone server the calls of all users may
    also be mixed statement by statement: every call returns, and rows and files change by statements of
    their owner's calls only (\<open>Interleaving\<close>). The layout of tables and disk that this rests on is
    established by \<open>main\<close> and lasts as long as the process (\<open>Standalone\<close>).
  \<^item> Concurrency: tasks run exactly once and in order, no wake-up is lost, shutdown drains the queue;
    connections of the pool are exclusive; when the confirmation of chunks can and cannot deadlock.
  \<^item> Discovery: ZooKeeper refines a table from services to sets of addresses, and services that have
    announced themselves are found by the gateway.
  \<^item> Behaviours that look unintended are stated as theorems too: a download through the gateway that
    never ends, a console that never leaves its menu when the input ends, a decoder left behind by a lost
    connection, a pool that is exhausted by an outage, a deleted file that comes back as a complete one, a
    server that accepts uploads although it has no storage root, and others.

  \<^bold>\<open>Parameters\<close>

  Code outside the repository is an argument. The JSON library is a record of operations; \<open>json_ok\<close> holds
  of the instance \<open>js_ops\<close>, a printer and parser written out in \<open>Json\<close>. The ZooKeeper library is a record
  of three calls; \<open>zk_ok\<close> holds of \<open>sample_zk\<close>. MD5 is a function from bytes to sixteen bytes. muduo is what
  delivers bytes in chunks, reports connections and sends; its timing is the order of steps. The MySQL
  server decides on collation, clock and failures, which are fields of the state. Clocks, random numbers,
  local time and the typed lines are arguments of the operations that read them.

  \<^bold>\<open>Bounds and termination\<close>

  Machine integers keep their width where the code depends on it: words of 32 and 64 bits in headers,
  counters and the CRC; \<open>wrap64\<close> and \<open>to_int\<close> where a signed value is narrowed or may wrap. Loops are
  functions with a measure; nothing uses fuel. Two loops may not end and are partial functions with
  values in \<open>option\<close>: the download loop of the client and the menu of the console. The waits for a connection poll a
  bounded number of times, as in the code.

  \<^bold>\<open>What is not modelled\<close>

  Threads interleave at critical sections and callbacks, so data races inside a section are not visible;
  where a field is read without a lock this is said in a comment or made a step of its own (\<open>RpcLink\<close>). A
  handler of the stand-alone server is one step, and the operations of \<open>FileService\<close> that it calls are also
  split into their statements (\<open>Parallel\<close>, \<open>Interleaving\<close>); those of the gateway interleave at each remote call, and
  a remote call is one step. Gaps in auto-increment ids, the overflow of the sequence counter of ZooKeeper,
  banners, signal handlers and log lines of the processes are left out. The tests, the build, the
  scripts and documents, and the Python tools under \<open>distributed/\<close> are no part of the C++ program.

  \<^bold>\<open>What could be added\<close>

  An expiry of ZooKeeper sessions during the run; the tables under concurrent statements of two
  processes; the registration and login of one name at once, statement by statement; the isolation of users
  for handlers of the gateway that interleave.
\<close>

end
